(* ===== verification/Prelude.thy ===== *)
theory Prelude
  imports Complex_Main
begin

text \<open>
  The vocabulary every component of the gateway model shares.

  \<^item> \<open>pystr\<close>: a Python \<open>str\<close> as its list of Unicode code points (message bodies mix GSM-7, CJK
    and emoji, so the 8-bit \<open>char\<close> of HOL is not enough); \<open>asc\<close> embeds an ASCII literal.
  \<^item> \<open>money\<close>: a Python \<open>Decimal\<close> / SQL \<open>DECIMAL\<close> amount, as an exact rational.
  \<^item> the string methods the code uses (\<open>strip\<close>, \<open>upper\<close>, \<open>lower\<close>, \<open>isdigit\<close>, \<open>in\<close>,
    \<open>startswith\<close>, \<open>split\<close>, \<open>lstrip\<close>, \<open>rstrip\<close>, \<open>zfill\<close>), \<open>dict.fromkeys\<close>, \<open>max\<close> with a
    key, \<open>sorted\<close> with \<open>reverse=True\<close>, and SQL row updates.
  \<open>upper\<close> and \<open>lower\<close> follow Unicode on the code points below 256 and leave every other code
  point alone, which is exact for the scripts without case (CJK, Thai, digits, punctuation);
  \<open>isdigit\<close> knows the Latin-1, Arabic-Indic and fullwidth digits.
\<close>

type_synonym pystr = "int list"
type_synonym money = rat

named_theorems table_simps \<open>how the row tables of the database answer a query after an update\<close>
named_theorems py_simps \<open>laws of the modelled string methods\<close>

section \<open>Text\<close>

definition asc :: "string \<Rightarrow> pystr" where
  "asc s = map of_char s"

fun py_isspace_char :: "int \<Rightarrow> bool" where
  "py_isspace_char c \<longleftrightarrow>
     (9 \<le> c \<and> c \<le> 13) \<or> (28 \<le> c \<and> c \<le> 32) \<or> c = 133 \<or> c = 160 \<or> c = 5760
     \<or> (8192 \<le> c \<and> c \<le> 8202) \<or> c = 8232 \<or> c = 8233 \<or> c = 8239 \<or> c = 8287 \<or> c = 12288"

definition py_lstrip :: "pystr \<Rightarrow> pystr" where
  "py_lstrip s = dropWhile py_isspace_char s"

definition py_rstrip :: "pystr \<Rightarrow> pystr" where
  "py_rstrip s = rev (dropWhile py_isspace_char (rev s))"

definition py_strip :: "pystr \<Rightarrow> pystr" where
  "py_strip s = py_rstrip (py_lstrip s)"

text \<open>\<open>s.lstrip(chars)\<close> and \<open>s.rstrip(chars)\<close> with an explicit character set.\<close>

definition py_lstrip_chars :: "int list \<Rightarrow> pystr \<Rightarrow> pystr" where
  "py_lstrip_chars cs s = dropWhile (\<lambda>c. c \<in> set cs) s"

definition py_rstrip_chars :: "int list \<Rightarrow> pystr \<Rightarrow> pystr" where
  "py_rstrip_chars cs s = rev (dropWhile (\<lambda>c. c \<in> set cs) (rev s))"

fun py_upper_char :: "int \<Rightarrow> pystr" where
  "py_upper_char c =
     (if 97 \<le> c \<and> c \<le> 122 then [c - 32]
      else if c = 181 then [924]
      else if c = 223 then [83, 83]
      else if c = 255 then [376]
      else if 224 \<le> c \<and> c \<le> 254 \<and> c \<noteq> 247 then [c - 32]
      else [c])"

fun py_lower_char :: "int \<Rightarrow> int" where
  "py_lower_char c =
     (if 65 \<le> c \<and> c \<le> 90 then c + 32
      else if 192 \<le> c \<and> c \<le> 222 \<and> c \<noteq> 215 then c + 32
      else c)"

definition py_upper :: "pystr \<Rightarrow> pystr" where
  "py_upper s = concat (map py_upper_char s)"

definition py_lower :: "pystr \<Rightarrow> pystr" where
  "py_lower s = map py_lower_char s"

fun py_isdigit_char :: "int \<Rightarrow> bool" where
  "py_isdigit_char c \<longleftrightarrow>
     (48 \<le> c \<and> c \<le> 57) \<or> c = 178 \<or> c = 179 \<or> c = 185
     \<or> (1632 \<le> c \<and> c \<le> 1641) \<or> (65296 \<le> c \<and> c \<le> 65305)"

definition py_isdigit :: "pystr \<Rightarrow> bool" where
  "py_isdigit s \<longleftrightarrow> s \<noteq> [] \<and> list_all py_isdigit_char s"

text \<open>\<open>sub in s\<close> and \<open>s.startswith(p)\<close>.\<close>

fun starts_with :: "pystr \<Rightarrow> pystr \<Rightarrow> bool" where
  "starts_with [] s = True"
| "starts_with (p # ps) [] = False"
| "starts_with (p # ps) (c # cs) = (p = c \<and> starts_with ps cs)"

fun contains :: "pystr \<Rightarrow> pystr \<Rightarrow> bool" where
  "contains p [] = (p = [])"
| "contains p (c # cs) = (starts_with p (c # cs) \<or> contains p cs)"

definition contains_any :: "pystr list \<Rightarrow> pystr \<Rightarrow> bool" where
  "contains_any ps s = list_ex (\<lambda>p. contains p s) ps"

text \<open>\<open>s.split(sep, 1)\<close> on a one-character separator: the part before it and the rest, if any.\<close>

fun split_once :: "int \<Rightarrow> pystr \<Rightarrow> pystr \<times> pystr option" where
  "split_once d [] = ([], None)"
| "split_once d (c # cs) =
     (if c = d then ([], Some cs)
      else (case split_once d cs of (a, r) \<Rightarrow> (c # a, r)))"

definition zfill :: "nat \<Rightarrow> pystr \<Rightarrow> pystr" where
  "zfill n s = replicate (n - length s) 48 @ s"

text \<open>Decimal digits to a number, \<open>int(s)\<close> on ASCII digits, and back, \<open>str(n)\<close>.\<close>

definition nat_of_digits :: "pystr \<Rightarrow> nat" where
  "nat_of_digits s = foldl (\<lambda>a c. 10 * a + nat (c - 48)) 0 s"

fun text_of_nat :: "nat \<Rightarrow> pystr" where
  "text_of_nat n = (if n < 10 then [48 + int n] else text_of_nat (n div 10) @ [48 + int (n mod 10)])"

declare text_of_nat.simps [simp del]

definition text_of_int :: "int \<Rightarrow> pystr" where
  "text_of_int i = (if i < 0 then 45 # text_of_nat (nat (- i)) else text_of_nat (nat i))"

text \<open>Case folding and the classes \<open>\d\<close>, \<open>\s\<close> of the module \<open>re\<close>, on the characters above.\<close>

fun re_fold_char :: "int \<Rightarrow> int" where
  "re_fold_char c =
     (if c = 304 \<or> c = 305 then 105 else if c = 383 then 115 else if c = 8490 then 107
      else py_lower_char c)"

fun re_digit_char :: "int \<Rightarrow> bool" where
  "re_digit_char c \<longleftrightarrow>
     (48 \<le> c \<and> c \<le> 57) \<or> (1632 \<le> c \<and> c \<le> 1641) \<or> (65296 \<le> c \<and> c \<le> 65305)"

text \<open>\<open>s LIKE pattern\<close>: \<open>%\<close> (37) any text, \<open>_\<close> (95) any character, a backslash (92) escapes.\<close>

fun sql_like :: "pystr \<Rightarrow> pystr \<Rightarrow> bool" where
  "sql_like [] s = (s = [])"
| "sql_like (p # ps) [] = (p = 37 \<and> sql_like ps [])"
| "sql_like (p # ps) (c # cs) =
     (if p = 37 then sql_like ps (c # cs) \<or> sql_like (p # ps) cs
      else if p = 95 then sql_like ps cs
      else if p = 92 then (case ps of [] \<Rightarrow> c = 92 \<and> cs = []
                           | q # qs \<Rightarrow> c = q \<and> sql_like qs cs)
      else c = p \<and> sql_like ps cs)"

subsection \<open>Laws of the string methods\<close>

declare py_isspace_char.simps [simp del] py_upper_char.simps [simp del]
  py_lower_char.simps [simp del] py_isdigit_char.simps [simp del]

lemmas char_class_simps =
  py_isspace_char.simps py_upper_char.simps py_lower_char.simps py_isdigit_char.simps

lemma py_strip_Nil [simp]: "py_strip [] = []"
  by (simp add: py_strip_def py_lstrip_def py_rstrip_def)

lemma dropWhile_rev_dropWhile:
  "dropWhile P (rev (dropWhile P (rev (dropWhile P xs)))) = rev (dropWhile P (rev (dropWhile P xs)))"
proof (cases "dropWhile P xs")
  case Nil
  then show ?thesis unfolding Nil by simp
next
  case (Cons y ys)
  then have "\<not> P y"
    by (metis hd_dropWhile list.distinct(1) list.sel(1))
  then have "rev (dropWhile P (rev (y # ys))) = y # rev (dropWhile P (rev ys))"
    by (simp add: dropWhile_append)
  with Cons \<open>\<not> P y\<close> show ?thesis by simp
qed

lemma py_strip_idem [simp]: "py_strip (py_strip s) = py_strip s"
  by (simp add: py_strip_def py_lstrip_def py_rstrip_def dropWhile_rev_dropWhile)

lemma py_upper_append [py_simps]: "py_upper (xs @ ys) = py_upper xs @ py_upper ys"
  by (simp add: py_upper_def)

lemma py_upper_char_upper: "py_upper (py_upper_char c) = py_upper_char c"
  by (auto simp: py_upper_def char_class_simps)

lemma py_upper_idem [simp]: "py_upper (py_upper s) = py_upper s"
  by (induction s)
     (simp_all add: py_upper_def py_upper_char_upper [unfolded py_upper_def])

lemma py_lower_idem [simp]: "py_lower (py_lower s) = py_lower s"
  by (simp add: py_lower_def char_class_simps)

lemma dropWhile_replicate [py_simps]: "P c \<Longrightarrow> dropWhile P (replicate n c @ xs) = dropWhile P xs"
  by (induction n) auto

text \<open>\<open>strip\<close> leaves no white space at either end, and \<open>upper\<close> keeps a stripped text stripped.\<close>

lemma py_strip_edges:
  assumes "py_strip s \<noteq> []"
  shows "\<not> py_isspace_char (hd (py_strip s)) \<and> \<not> py_isspace_char (last (py_strip s))"
proof -
  let ?t = "dropWhile py_isspace_char s"
  let ?r = "dropWhile py_isspace_char (rev ?t)"
  have u: "py_strip s = rev ?r" by (simp add: py_strip_def py_lstrip_def py_rstrip_def)
  with assms have r: "?r \<noteq> []" by simp
  have "rev ?t = takeWhile py_isspace_char (rev ?t) @ ?r" by simp
  then have "?t = rev ?r @ rev (takeWhile py_isspace_char (rev ?t))"
    by (metis rev_append rev_rev_ident)
  with r have "hd ?t = hd (rev ?r)" and "?t \<noteq> []"
    by (metis hd_append2 rev_is_Nil_conv, metis append_is_Nil_conv rev_is_Nil_conv)
  then have "\<not> py_isspace_char (hd (rev ?r))" by (metis hd_dropWhile)
  moreover have "\<not> py_isspace_char (last (rev ?r))"
    using r by (metis hd_dropWhile hd_rev rev_rev_ident rev_is_Nil_conv)
  ultimately show ?thesis using u by simp
qed

lemma py_strip_eq_Nil: "py_strip s = [] \<longleftrightarrow> (\<forall>c \<in> set s. py_isspace_char c)"
proof
  assume "py_strip s = []"
  then have "\<forall>c \<in> set (dropWhile py_isspace_char s). py_isspace_char c"
    by (simp add: py_strip_def py_lstrip_def py_rstrip_def dropWhile_eq_Nil_conv)
  then have "dropWhile py_isspace_char s = []" by (metis hd_dropWhile hd_in_set)
  then show "\<forall>c \<in> set s. py_isspace_char c" by (simp add: dropWhile_eq_Nil_conv)
next
  assume "\<forall>c \<in> set s. py_isspace_char c"
  then have "dropWhile py_isspace_char s = []" by (simp only: dropWhile_eq_Nil_conv)
  then show "py_strip s = []"
    by (simp only: py_strip_def py_lstrip_def py_rstrip_def rev.simps dropWhile.simps)
qed

lemma py_strip_fixed:
  assumes "s = [] \<or> (\<not> py_isspace_char (hd s) \<and> \<not> py_isspace_char (last s))"
  shows "py_strip s = s"
proof -
  have "dropWhile py_isspace_char s = s"
    using assms by (simp only: dropWhile_eq_self_iff) blast
  moreover have "dropWhile py_isspace_char (rev s) = rev s"
    using assms by (simp only: dropWhile_eq_self_iff hd_rev rev_is_Nil_conv) blast
  ultimately show ?thesis by (simp add: py_strip_def py_lstrip_def py_rstrip_def)
qed

lemma py_upper_char_edges:
  "py_isspace_char (hd (py_upper_char c)) = py_isspace_char c"
  "py_isspace_char (last (py_upper_char c)) = py_isspace_char c"
  "py_upper_char c \<noteq> []"
  by (auto simp: char_class_simps)

lemma py_upper_hd: "s \<noteq> [] \<Longrightarrow> hd (py_upper s) = hd (py_upper_char (hd s))"
  using py_upper_char_edges(3) by (cases s) (simp_all add: py_upper_def)

lemma py_upper_last: "s \<noteq> [] \<Longrightarrow> last (py_upper s) = last (py_upper_char (last s))"
  using py_upper_char_edges(3)
  by (cases s rule: rev_cases) (simp_all add: py_upper_def last_append)

lemma py_upper_Nil_iff [simp]: "py_upper s = [] \<longleftrightarrow> s = []"
  using py_upper_char_edges(3) by (cases s) (simp_all add: py_upper_def)

lemma py_strip_upper [simp]: "py_strip (py_upper (py_strip s)) = py_upper (py_strip s)"
  using py_strip_edges [of s]
  by (intro py_strip_fixed)
     (auto simp: py_upper_hd py_upper_last py_upper_char_edges)

lemma py_upper_char_digit: "list_all py_isdigit_char (py_upper_char c) \<Longrightarrow> py_upper_char c = [c]"
  by (auto simp: char_class_simps split: if_splits)

lemma py_isdigit_upper: "py_isdigit (py_upper s) \<Longrightarrow> py_upper s = s"
proof (induction s)
  case Nil
  then show ?case by simp
next
  case (Cons c cs)
  then have "list_all py_isdigit_char (py_upper_char c)"
    by (simp add: py_isdigit_def py_upper_def list_all_append)
  then have c: "py_upper_char c = [c]" by (rule py_upper_char_digit)
  show ?case
  proof (cases cs)
    case Nil
    with c show ?thesis by (simp add: py_upper_def)
  next
    case inner: (Cons d ds)
    then have "py_isdigit (py_upper cs)"
      using Cons.prems py_upper_Nil_iff [of cs] by (simp add: py_isdigit_def py_upper_def)
    with Cons.IH c show ?thesis by (simp add: py_upper_def)
  qed
qed

lemma starts_with_iff: "starts_with p s \<longleftrightarrow> (\<exists>r. s = p @ r)"
  by (induction p s rule: starts_with.induct) auto

lemma contains_iff: "contains p s \<longleftrightarrow> (\<exists>a b. s = a @ p @ b)"
proof (induction s)
  case Nil
  then show ?case by auto
next
  case (Cons c cs)
  have "(\<exists>a b. c # cs = a @ p @ b) \<longleftrightarrow> starts_with p (c # cs) \<or> (\<exists>a b. cs = a @ p @ b)"
    by (auto simp: starts_with_iff Cons_eq_append_conv)
  with Cons show ?case by simp
qed

lemma contains_append_left: "contains p s \<Longrightarrow> contains p (a @ s)"
  by (auto simp: contains_iff) (metis append.assoc)

lemma split_once_join:
  "split_once d s = (a, None) \<Longrightarrow> s = a"
  "split_once d s = (a, Some r) \<Longrightarrow> s = a @ d # r"
  by (induction s arbitrary: a) (auto split: prod.splits if_splits)

lemma nat_of_digits_append [py_simps]:
  "nat_of_digits (s @ [c]) = 10 * nat_of_digits s + nat (c - 48)"
  by (simp add: nat_of_digits_def)

lemma nat_of_digits_text_of_nat [simp]: "nat_of_digits (text_of_nat n) = n"
proof (induction n rule: text_of_nat.induct)
  case (1 n)
  show ?case
  proof (cases "n < 10")
    case True
    then show ?thesis by (simp add: text_of_nat.simps [of n] nat_of_digits_def)
  next
    case False
    with "1.IH" show ?thesis by (simp add: text_of_nat.simps [of n] py_simps)
  qed
qed

section \<open>Python containers\<close>

text \<open>\<open>list(dict.fromkeys(xs))\<close>: the first occurrence of each element, in order.\<close>

fun dedup_from :: "'a list \<Rightarrow> 'a list \<Rightarrow> 'a list" where
  "dedup_from seen [] = []"
| "dedup_from seen (x # xs) =
     (if x \<in> set seen then dedup_from seen xs else x # dedup_from (x # seen) xs)"

definition dedup :: "'a list \<Rightarrow> 'a list" where
  "dedup xs = dedup_from [] xs"

lemma set_dedup_from [simp]: "set (dedup_from seen xs) = set xs - set seen"
  by (induction seen xs rule: dedup_from.induct) auto

lemma set_dedup [simp]: "set (dedup xs) = set xs"
  by (simp add: dedup_def)

lemma distinct_dedup_from [simp]: "distinct (dedup_from seen xs)"
  by (induction seen xs rule: dedup_from.induct) auto

lemma distinct_dedup [simp]: "distinct (dedup xs)"
  by (simp add: dedup_def)

text \<open>\<open>max(xs, key=f)\<close>: the first element with the largest key.\<close>

fun max_by_from :: "('a \<Rightarrow> 'k::linorder) \<Rightarrow> 'a \<Rightarrow> 'a list \<Rightarrow> 'a" where
  "max_by_from f m [] = m"
| "max_by_from f m (x # xs) = max_by_from f (if f m < f x then x else m) xs"

lemma max_by_from_in: "max_by_from f m xs \<in> insert m (set xs)"
proof (induction xs arbitrary: m)
  case Nil
  then show ?case by simp
next
  case (Cons x xs)
  from Cons.IH [of "if f m < f x then x else m"] show ?case
    by (auto split: if_splits)
qed

lemma max_by_from_ge:
  "f m \<le> f (max_by_from f m xs) \<and> (\<forall>x \<in> set xs. f x \<le> f (max_by_from f m xs))"
proof (induction xs arbitrary: m)
  case Nil
  then show ?case by simp
next
  case (Cons x xs)
  from Cons.IH [of "if f m < f x then x else m"] show ?case
    by (auto split: if_splits)
qed

text \<open>\<open>sorted(xs, key=f, reverse=True)\<close> keeps the order of equal elements.\<close>

definition sort_desc :: "('a \<Rightarrow> 'k::linorder) \<Rightarrow> 'a list \<Rightarrow> 'a list" where
  "sort_desc f xs = rev (sort_key f (rev xs))"

lemma set_sort_desc [simp]: "set (sort_desc f xs) = set xs"
  by (simp add: sort_desc_def)

lemma length_sort_desc [simp]: "length (sort_desc f xs) = length xs"
  by (simp add: sort_desc_def)

lemma distinct_sort_desc [simp]: "distinct (sort_desc f xs) = distinct xs"
  by (simp add: sort_desc_def)

lemma sorted_wrt_rev_sort: "sorted_wrt (\<lambda>x y. f y \<le> f x) (rev ys) = sorted (map f ys)"
  by (simp add: sorted_wrt_rev sorted_map)

lemma sort_desc_sorted: "sorted_wrt (\<lambda>x y. f y \<le> f x) (sort_desc f xs)"
  by (simp add: sort_desc_def sorted_wrt_rev_sort)

lemma sort_desc_hd_max:
  assumes "x \<in> set xs"
  shows "f x \<le> f (hd (sort_desc f xs))"
proof -
  obtain y ys where eq: "sort_desc f xs = y # ys"
    using assms by (metis empty_iff list.exhaust list.set(1) set_sort_desc)
  with sort_desc_sorted [of f xs] have "\<forall>z \<in> set ys. f z \<le> f y" by simp
  moreover from assms eq have "x \<in> set (y # ys)" by (metis set_sort_desc)
  ultimately show ?thesis using eq by auto
qed

lemma distinct_concat_map_inj:
  "distinct (concat (map f xs)) \<Longrightarrow> a \<in> set xs \<Longrightarrow> b \<in> set xs
     \<Longrightarrow> k \<in> set (f a) \<Longrightarrow> k \<in> set (f b) \<Longrightarrow> a = b"
  by (induction xs) auto

section \<open>Row tables\<close>

text \<open>
  A SQL table is the list of its rows. \<open>UPDATE t SET f WHERE p\<close> rewrites the rows that match
  and its \<open>rowcount\<close> is their number; \<open>scalar_one_or_none\<close> raises when two rows match, which
  \<open>one_or_none\<close> shows as \<open>Many\<close>.
\<close>

definition upd_where :: "('r \<Rightarrow> bool) \<Rightarrow> ('r \<Rightarrow> 'r) \<Rightarrow> 'r list \<Rightarrow> 'r list" where
  "upd_where p f t = map (\<lambda>r. if p r then f r else r) t"

definition rowcount :: "('r \<Rightarrow> bool) \<Rightarrow> 'r list \<Rightarrow> nat" where
  "rowcount p t = length (filter p t)"

datatype 'r fetched = NoRow | OneRow 'r | ManyRows

definition one_or_none :: "'r list \<Rightarrow> 'r fetched" where
  "one_or_none rs = (case rs of [] \<Rightarrow> NoRow | [r] \<Rightarrow> OneRow r | _ \<Rightarrow> ManyRows)"

definition first_row :: "'r list \<Rightarrow> 'r option" where
  "first_row rs = (case rs of [] \<Rightarrow> None | r # _ \<Rightarrow> Some r)"

lemma upd_where_Nil [simp, table_simps]: "upd_where p f [] = []"
  by (simp add: upd_where_def)

lemma upd_where_Cons [simp, table_simps]:
  "upd_where p f (r # t) = (if p r then f r else r) # upd_where p f t"
  by (simp add: upd_where_def)

lemma length_upd_where [simp, table_simps]: "length (upd_where p f t) = length t"
  by (simp add: upd_where_def)

lemma map_upd_where [table_simps]:
  "(\<And>r. g (f r) = g r) \<Longrightarrow> map g (upd_where p f t) = map g t"
  by (simp add: upd_where_def)

lemma filter_upd_where_other [table_simps]:
  "(\<And>r. p r \<Longrightarrow> q (f r) = q r \<and> \<not> q r) \<Longrightarrow> filter q (upd_where p f t) = filter q t"
  by (induction t) auto

lemma upd_where_none [table_simps]: "rowcount p t = 0 \<Longrightarrow> upd_where p f t = t"
  by (induction t) (auto simp: rowcount_def split: if_splits)

lemma upd_where_append [simp]: "upd_where p f (s @ t) = upd_where p f s @ upd_where p f t"
  by (simp add: upd_where_def)

lemma upd_where_absent: "(\<And>r. r \<in> set t \<Longrightarrow> \<not> p r) \<Longrightarrow> upd_where p f t = t"
  by (induction t) auto

lemma filter_distinct_key:
  assumes "distinct (map key t)" and "r \<in> set t"
  shows "filter (\<lambda>x. key x = key r) t = [r]"
  using assms
proof (induction t)
  case Nil
  then show ?case by simp
next
  case (Cons x t)
  show ?case
  proof (cases "x = r")
    case True
    with Cons.prems have "filter (\<lambda>y. key y = key r) t = []"
      by (simp add: filter_empty_conv) (metis imageI)
    with True show ?thesis by simp
  next
    case False
    with Cons show ?thesis by auto
  qed
qed

lemma first_row_Some_in: "first_row (filter p t) = Some r \<Longrightarrow> r \<in> set t \<and> p r"
  by (cases "filter p t") (auto simp: first_row_def dest: filter_eq_ConsD)

lemma first_row_None_iff: "first_row (filter p t) = None \<longleftrightarrow> (\<forall>r \<in> set t. \<not> p r)"
  by (auto simp: first_row_def filter_empty_conv split: list.splits) (metis filter_empty_conv list.distinct(1))+

lemma one_or_none_simps [simp]:
  "one_or_none [] = NoRow" "one_or_none [r] = OneRow r" "one_or_none (r # s # t) = ManyRows"
  by (simp_all add: one_or_none_def)

lemma one_or_none_OneRow [table_simps]: "one_or_none rs = OneRow r \<longleftrightarrow> rs = [r]"
  by (auto simp: one_or_none_def split: list.splits)

lemma one_or_none_NoRow [table_simps]: "one_or_none rs = NoRow \<longleftrightarrow> rs = []"
  by (auto simp: one_or_none_def split: list.splits)

end
