(* ===== verification/Db.thy ===== *)
theory Db
  imports Prelude
begin

text \<open>
  The tables of the gateway (\<open>backend/app/modules/\<close>), one record per ORM class with its columns,
  and the world the operations run in: the tables, the shared Redis cache and the clock. Nullable
  columns are options; timestamps and dates are integers; \<open>DECIMAL\<close> columns are exact rationals;
  enumerations are datatypes. A \<open>TEXT\<close> column that holds JSON is kept as what \<open>json.loads\<close> makes
  of it (\<open>json_column\<close>). Each class has its \<open>new_\<close> row with the column defaults. Comparison of
  string columns is equality (the collation of the server is not modelled).
\<close>

section \<open>JSON values\<close>

datatype json =
    JNull
  | JBool bool
  | JNum rat
  | JStr pystr
  | JArr "json list"
  | JObj "(pystr \<times> json) list"

datatype json_column = NullText | BadJson | Parsed json

fun json_truthy :: "json \<Rightarrow> bool" where
  "json_truthy JNull = False"
| "json_truthy (JBool b) = b"
| "json_truthy (JNum n) = (n \<noteq> 0)"
| "json_truthy (JStr s) = (s \<noteq> [])"
| "json_truthy (JArr xs) = (xs \<noteq> [])"
| "json_truthy (JObj kvs) = (kvs \<noteq> [])"

text \<open>\<open>str(v)\<close>; \<open>show\<close> is for the values whose text the code does not use.\<close>

definition py_str :: "(json \<Rightarrow> pystr) \<Rightarrow> json \<Rightarrow> pystr" where
  "py_str show v =
     (case v of
        JStr s \<Rightarrow> s
      | JNull \<Rightarrow> asc ''None''
      | JBool b \<Rightarrow> (if b then asc ''True'' else asc ''False'')
      | JNum n \<Rightarrow> (if n = of_int \<lfloor>n\<rfloor> then text_of_int \<lfloor>n\<rfloor> else show v)
      | _ \<Rightarrow> show v)"

text \<open>\<open>d.get(key)\<close> on an object: the last binding of a repeated key wins in \<open>json.loads\<close>.\<close>

definition json_get :: "pystr \<Rightarrow> (pystr \<times> json) list \<Rightarrow> json" where
  "json_get k kvs = (case map_of (rev kvs) k of None \<Rightarrow> JNull | Some v \<Rightarrow> v)"

section \<open>Enumerations\<close>

datatype channel_protocol = SMPP | HTTP | VIRTUAL
datatype channel_status = ChActive | ChInactive | ChMaintenance
datatype business_type = BtSms | BtVoice | BtData | BtRcs
datatype account_protocol = AccHTTP | AccSMPP
datatype payment_type = Prepaid | Postpaid
datatype account_status = AccActive | AccSuspended | AccClosed
datatype sms_status = Pending | Queued | Sent | Delivered | Failed | Expired
datatype batch_status = BPending | BProcessing | BPaused | BCompleted | BFailed | BCancelled
datatype sender_status = SidActive | SidInactive | SidPending | SidRejected
datatype change_type =
  Charge | Refund | Deposit | Withdraw | Adjustment | RefundRecharge | SalesCredit

section \<open>Rows\<close>

record channel =
  ch_id :: int
  channel_code :: pystr
  channel_name :: pystr
  supplier_id :: "int option"
  ch_protocol :: channel_protocol
  host :: "pystr option"
  port :: "int option"
  username :: "pystr option"
  password :: "pystr option"
  smpp_bind_mode :: "pystr option"
  smpp_system_type :: "pystr option"
  smpp_interface_version :: "int option"
  smpp_dlr_socket_hold_seconds :: "int option"
  dlr_sent_timeout_hours :: "int option"
  api_url :: "pystr option"
  ch_api_key :: "pystr option"
  default_sender_id :: pystr
  cost_rate :: "money option"
  max_tps :: "int option"
  concurrency :: "int option"
  rate_control_window :: "int option"
  ch_priority :: int
  weight :: int
  ch_status :: channel_status
  connection_status :: "pystr option"
  connection_checked_at :: "int option"
  ch_created_at :: int
  ch_updated_at :: int
  ch_banned_words :: "pystr option"
  ch_remark :: "pystr option"
  ch_is_deleted :: bool
  virtual_config :: json_column
  config_json :: json_column

definition new_channel :: "int \<Rightarrow> pystr \<Rightarrow> channel_protocol \<Rightarrow> channel" where
  "new_channel i code proto =
     \<lparr>ch_id = i, channel_code = code, channel_name = code, supplier_id = None,
      ch_protocol = proto, host = None, port = None, username = None, password = None,
      smpp_bind_mode = Some (asc ''transceiver''), smpp_system_type = Some [],
      smpp_interface_version = Some 52, smpp_dlr_socket_hold_seconds = None,
      dlr_sent_timeout_hours = None, api_url = None, ch_api_key = None,
      default_sender_id = code, cost_rate = Some 0, max_tps = Some 100, concurrency = Some 1,
      rate_control_window = Some 1000, ch_priority = 0, weight = 100, ch_status = ChActive,
      connection_status = Some (asc ''unknown''), connection_checked_at = None,
      ch_created_at = 0, ch_updated_at = 0, ch_banned_words = None, ch_remark = None,
      ch_is_deleted = False, virtual_config = NullText, config_json = NullText\<rparr>"

record country_pricing =
  cp_id :: int
  cp_channel_id :: int
  cp_country_code :: pystr
  country_name :: "pystr option"
  price_per_sms :: money
  cp_currency :: pystr
  effective_date :: int
  cp_remark :: "pystr option"
  cp_created_at :: int
  cp_updated_at :: int

record account_pricing =
  ap_id :: int
  ap_account_id :: int
  ap_country_code :: pystr
  ap_business_type :: pystr
  ap_price :: money
  ap_created_at :: int
  ap_updated_at :: int

record routing_rule =
  rr_id :: int
  rr_channel_id :: int
  rr_country_code :: pystr
  rr_priority :: int
  is_active :: bool
  rr_banned_words :: "pystr option"
  rr_created_at :: int
  rr_updated_at :: int

record account_channel =
  ac_id :: int
  ac_account_id :: int
  ac_channel_id :: int
  ac_country_code :: "pystr option"
  ac_is_default :: bool
  ac_priority :: int
  ac_created_at :: int

record sender_id_row =
  si_id :: int
  si_account_id :: "int option"
  si_country_code :: "pystr option"
  si_channel_id :: int
  sid :: pystr
  si_status :: sender_status
  si_is_default :: bool
  si_created_at :: int
  si_updated_at :: int

record account =
  acc_id :: int
  account_name :: pystr
  email :: "pystr option"
  tg_username :: "pystr option"
  tg_id :: "int option"
  acc_country_code :: "pystr option"
  acc_business_type :: business_type
  services :: pystr
  acc_protocol :: account_protocol
  smpp_system_id :: "pystr option"
  smpp_password :: "pystr option"
  payment_type :: payment_type
  unit_price :: "money option"
  password_hash :: "pystr option"
  balance :: money
  acc_currency :: pystr
  sales_id :: "int option"
  acc_status :: account_status
  acc_api_key :: "pystr option"
  api_secret :: "pystr option"
  ip_whitelist :: "pystr option"
  rate_limit :: "int option"
  smpp_max_binds :: "int option"
  low_balance_threshold :: "money option"
  webhook_url :: "pystr option"
  webhook_secret :: "pystr option"
  company_name :: "pystr option"
  contact_person :: "pystr option"
  contact_phone :: "pystr option"
  created_by :: "int option"
  acc_created_at :: int
  acc_updated_at :: int
  last_login_at :: "int option"
  activity_score :: int
  activity_updated_at :: "int option"
  activity_zero_since :: "int option"
  acc_is_deleted :: bool
  hide_price :: bool
  hide_tg :: bool
  supplier_url :: "pystr option"
  supplier_credentials :: "json option"

definition new_account :: "int \<Rightarrow> pystr \<Rightarrow> account" where
  "new_account i name =
     \<lparr>acc_id = i, account_name = name, email = None, tg_username = None, tg_id = None,
      acc_country_code = None, acc_business_type = BtSms, services = asc ''sms'',
      acc_protocol = AccHTTP, smpp_system_id = None, smpp_password = None,
      payment_type = Prepaid, unit_price = None, password_hash = None, balance = 0,
      acc_currency = asc ''USD'', sales_id = None, acc_status = AccActive, acc_api_key = None,
      api_secret = None, ip_whitelist = None, rate_limit = Some 1000, smpp_max_binds = Some 5,
      low_balance_threshold = Some 100, webhook_url = None, webhook_secret = None,
      company_name = None, contact_person = None, contact_phone = None, created_by = None,
      acc_created_at = 0, acc_updated_at = 0, last_login_at = None, activity_score = 100,
      activity_updated_at = None, activity_zero_since = None, acc_is_deleted = False,
      hide_price = False, hide_tg = False, supplier_url = None, supplier_credentials = None\<rparr>"

record sms_log =
  log_id :: int
  message_id :: pystr
  upstream_message_id :: "pystr option"
  log_account_id :: int
  log_channel_id :: "int option"
  log_batch_id :: "int option"
  phone_number :: pystr
  log_country_code :: "pystr option"
  log_sender_id :: "pystr option"
  message :: "pystr option"
  message_count :: "int option"
  log_status :: sms_status
  cost_price :: "money option"
  selling_price :: "money option"
  log_currency :: "pystr option"
  submit_time :: int
  sent_time :: "int option"
  delivery_time :: "int option"
  log_error_message :: "pystr option"
  refunded_at :: "int option"
  refunded_by :: "pystr option"
  refunded_amount :: "money option"

definition new_sms_log :: "int \<Rightarrow> pystr \<Rightarrow> int \<Rightarrow> pystr \<Rightarrow> sms_log" where
  "new_sms_log i mid acc phone =
     \<lparr>log_id = i, message_id = mid, upstream_message_id = None, log_account_id = acc,
      log_channel_id = None, log_batch_id = None, phone_number = phone,
      log_country_code = None, log_sender_id = None, message = None, message_count = Some 1,
      log_status = Pending, cost_price = Some 0, selling_price = Some 0,
      log_currency = Some (asc ''USD''), submit_time = 0, sent_time = None,
      delivery_time = None, log_error_message = None, refunded_at = None,
      refunded_by = None, refunded_amount = None\<rparr>"

text \<open>The generated column \<open>profit\<close> (NULL when either price is NULL).\<close>

definition profit :: "sms_log \<Rightarrow> money option" where
  "profit r = (case (selling_price r, cost_price r) of
                 (Some s, Some c) \<Rightarrow> Some (s - c) | _ \<Rightarrow> None)"

record sms_batch =
  batch_id :: int
  batch_account_id :: int
  batch_name :: pystr
  template_id :: "int option"
  file_path :: "pystr option"
  file_size :: "int option"
  total_count :: "int option"
  success_count :: "int option"
  delivered_count :: "int option"
  failed_count :: "int option"
  processing_count :: "int option"
  batch_status :: batch_status
  batch_error_message :: "pystr option"
  error_details :: "json option"
  batch_sender_id :: "pystr option"
  send_config :: "json option"
  scheduled_at :: "int option"
  progress :: "int option"
  started_at :: "int option"
  completed_at :: "int option"
  batch_created_at :: int
  batch_updated_at :: int
  batch_is_deleted :: bool
  source_batch_id :: "int option"

definition new_sms_batch :: "int \<Rightarrow> int \<Rightarrow> pystr \<Rightarrow> sms_batch" where
  "new_sms_batch i acc name =
     \<lparr>batch_id = i, batch_account_id = acc, batch_name = name, template_id = None,
      file_path = None, file_size = None, total_count = Some 0, success_count = Some 0,
      delivered_count = Some 0, failed_count = Some 0, processing_count = Some 0,
      batch_status = BPending, batch_error_message = None, error_details = None,
      batch_sender_id = None, send_config = None, scheduled_at = None, progress = Some 0,
      started_at = None, completed_at = None, batch_created_at = 0, batch_updated_at = 0,
      batch_is_deleted = False, source_batch_id = None\<rparr>"

record balance_log =
  bl_account_id :: int
  bl_change_type :: change_type
  bl_amount :: money
  bl_balance_after :: money
  related_order_id :: "int option"
  bl_created_at :: int

end
