(* ===== verification/Errors.thy ===== *)
theory Errors
  imports Prelude
begin

text \<open>
  The exceptions the gateway raises (\<open>backend/app/utils/errors.py\<close>): one constructor per class,
  its error code, HTTP status and details. \<open>PyException\<close> stands for an exception of Python, the
  database driver or another library that reaches the caller; \<open>MultipleResultsFound\<close> is what
  \<open>scalar_one_or_none\<close> raises on several rows. The texts of the messages are not modelled, except
  where they are built from the arguments kept in the constructor.
\<close>

datatype exn =
    ValidationError pystr
  | AuthenticationError pystr
  | AuthorizationError pystr
  | ResourceNotFoundError pystr
  | InsufficientBalanceError money money \<comment> \<open>required, available\<close>
  | ChannelNotAvailableError
  | RateLimitExceededError int
  | InvalidPhoneNumberError pystr
  | PricingNotFoundError pystr int \<comment> \<open>country_code, channel_id\<close>
  | SMSGatewayException pystr
  | MultipleResultsFound
  | ValueError
  | DataError
  | PyException

fun error_code :: "exn \<Rightarrow> string option" where
  "error_code (ValidationError _) = Some ''VALIDATION_ERROR''"
| "error_code (AuthenticationError _) = Some ''AUTHENTICATION_ERROR''"
| "error_code (AuthorizationError _) = Some ''AUTHORIZATION_ERROR''"
| "error_code (ResourceNotFoundError _) = Some ''RESOURCE_NOT_FOUND''"
| "error_code (InsufficientBalanceError _ _) = Some ''INSUFFICIENT_BALANCE''"
| "error_code ChannelNotAvailableError = Some ''CHANNEL_NOT_AVAILABLE''"
| "error_code (RateLimitExceededError _) = Some ''RATE_LIMIT_EXCEEDED''"
| "error_code (InvalidPhoneNumberError _) = Some ''VALIDATION_ERROR''"
| "error_code (PricingNotFoundError _ _) = Some ''PRICING_NOT_FOUND''"
| "error_code (SMSGatewayException _) = Some ''INTERNAL_ERROR''"
| "error_code MultipleResultsFound = None"
| "error_code ValueError = None"
| "error_code DataError = None"
| "error_code PyException = None"

fun status_code :: "exn \<Rightarrow> int option" where
  "status_code (ValidationError _) = Some 400"
| "status_code (AuthenticationError _) = Some 401"
| "status_code (AuthorizationError _) = Some 403"
| "status_code (ResourceNotFoundError _) = Some 404"
| "status_code (InsufficientBalanceError _ _) = Some 402"
| "status_code ChannelNotAvailableError = Some 503"
| "status_code (RateLimitExceededError _) = Some 429"
| "status_code (InvalidPhoneNumberError _) = Some 400"
| "status_code (PricingNotFoundError _ _) = Some 404"
| "status_code (SMSGatewayException _) = Some 500"
| "status_code MultipleResultsFound = None"
| "status_code ValueError = None"
| "status_code DataError = None"
| "status_code PyException = None"

text \<open>\<open>'a outcome\<close>: a call that returns or raises.\<close>

type_synonym 'a outcome = "exn + 'a"

definition is_gateway_exn :: "exn \<Rightarrow> bool" where
  "is_gateway_exn e \<longleftrightarrow> e \<notin> {MultipleResultsFound, ValueError, DataError, PyException}"

lemma gateway_exn_has_code: "is_gateway_exn e \<longleftrightarrow> error_code e \<noteq> None"
  by (cases e) (auto simp: is_gateway_exn_def)

lemma gateway_exn_has_status: "is_gateway_exn e \<longleftrightarrow> status_code e \<noteq> None"
  by (cases e) (auto simp: is_gateway_exn_def)

end
