(* ===== verification/World.thy ===== *)
theory World
  imports Db Errors
begin

text \<open>
  The state the operations run in: every table, the Redis cache and the clock. The order of a table
  is the order in which the server scans it, so \<open>LIMIT 1\<close> takes the first of equal rows. Cache keys
  are the components of the f-strings the code builds. An entry of the cache may disappear at any
  time (its TTL), which \<open>forget\<close> covers.
  The locale \<open>read_through\<close> is the interface between the cache and the lookups of the pricing engine:
  what a memoised read promises, proved once for every such read.
\<close>

datatype price_source = FromAccountUnitPrice | FromAccountCountryPricing | FromCountry "pystr option"

record price_info =
  pi_price :: money
  pi_currency :: pystr
  pi_source :: price_source

text \<open>\<open>price:{account_id or 'all'}:{channel_id}:{country_code}:{mnc or 'default'}\<close>\<close>

type_synonym price_key = "int option \<times> int \<times> pystr \<times> pystr"

record route_entry =
  re_channel_ids :: "int list"
  re_route_priorities :: "int list"

record world =
  accounts :: "account list"
  channels :: "channel list"
  country_pricings :: "country_pricing list"
  account_pricings :: "account_pricing list"
  routing_rules :: "routing_rule list"
  account_channels :: "account_channel list"
  sender_ids :: "sender_id_row list"
  sms_logs :: "sms_log list"
  sms_batches :: "sms_batch list"
  balance_logs :: "balance_log list"
  price_cache :: "price_key \<rightharpoonup> price_info"
  cost_cache :: "int \<times> pystr \<rightharpoonup> money"
  rcs_cache :: "int \<rightharpoonup> bool"
  route_cache :: "pystr \<rightharpoonup> route_entry"
  now :: int

definition empty_world :: world where
  "empty_world =
     \<lparr>accounts = [], channels = [], country_pricings = [], account_pricings = [],
      routing_rules = [], account_channels = [], sender_ids = [], sms_logs = [],
      sms_batches = [], balance_logs = [], price_cache = Map.empty, cost_cache = Map.empty,
      rcs_cache = Map.empty, route_cache = Map.empty, now = 0\<rparr>"

section \<open>Queries and updates by primary key\<close>

definition account_by_id :: "world \<Rightarrow> int \<Rightarrow> account option" where
  "account_by_id w i = find (\<lambda>a. acc_id a = i) (accounts w)"

definition channel_by_id :: "world \<Rightarrow> int \<Rightarrow> channel option" where
  "channel_by_id w i = find (\<lambda>c. ch_id c = i) (channels w)"

definition log_by_id :: "world \<Rightarrow> int \<Rightarrow> sms_log option" where
  "log_by_id w i = find (\<lambda>r. log_id r = i) (sms_logs w)"

definition batch_by_id :: "world \<Rightarrow> int \<Rightarrow> sms_batch option" where
  "batch_by_id w i = find (\<lambda>b. batch_id b = i) (sms_batches w)"

definition balance_of :: "world \<Rightarrow> int \<Rightarrow> money option" where
  "balance_of w i = map_option balance (account_by_id w i)"

text \<open>\<open>UPDATE accounts SET balance = balance + delta WHERE id = i AND p\<close>, with its row count.\<close>

definition add_balance_where ::
    "(account \<Rightarrow> bool) \<Rightarrow> int \<Rightarrow> money \<Rightarrow> world \<Rightarrow> nat \<times> world" where
  "add_balance_where p i delta w =
     (rowcount (\<lambda>a. acc_id a = i \<and> p a) (accounts w),
      w\<lparr>accounts := upd_where (\<lambda>a. acc_id a = i \<and> p a)
                       (\<lambda>a. a\<lparr>balance := balance a + delta\<rparr>) (accounts w)\<rparr>)"

definition log_balance :: "int \<Rightarrow> change_type \<Rightarrow> money \<Rightarrow> money \<Rightarrow> world \<Rightarrow> world" where
  "log_balance i ct amount after w =
     w\<lparr>balance_logs := balance_logs w @
         [\<lparr>bl_account_id = i, bl_change_type = ct, bl_amount = amount, bl_balance_after = after,
           related_order_id = None, bl_created_at = now w\<rparr>]\<rparr>"

definition wf_world :: "world \<Rightarrow> bool" where
  "wf_world w \<longleftrightarrow> distinct (map acc_id (accounts w)) \<and> distinct (map log_id (sms_logs w))
     \<and> distinct (map batch_id (sms_batches w))"

text \<open>\<open>x or default\<close> on an optional identifier: 0 counts as missing.\<close>

definition truthy_id :: "int option \<Rightarrow> int option" where
  "truthy_id x = (case x of Some n \<Rightarrow> if n = 0 then None else Some n | None \<Rightarrow> None)"

section \<open>The balance of an account and its log\<close>

definition account_logs :: "int \<Rightarrow> balance_log list \<Rightarrow> balance_log list" where
  "account_logs i ls = filter (\<lambda>l. bl_account_id l = i) ls"

definition logged_total :: "int \<Rightarrow> balance_log list \<Rightarrow> money" where
  "logged_total i ls = sum_list (map bl_amount (account_logs i ls))"

text \<open>Every account holds its opening amount plus what its log entries say.\<close>

definition ledger_ok :: "(int \<Rightarrow> money) \<Rightarrow> world \<Rightarrow> bool" where
  "ledger_ok opening w \<longleftrightarrow>
     list_all (\<lambda>a. balance a = opening (acc_id a) + logged_total (acc_id a) (balance_logs w))
              (accounts w)"

definition prepaid_covered :: "world \<Rightarrow> bool" where
  "prepaid_covered w \<longleftrightarrow> list_all (\<lambda>a. payment_type a = Prepaid \<longrightarrow> 0 \<le> balance a) (accounts w)"

lemma account_by_id_Some:
  "account_by_id w i = Some a \<Longrightarrow> a \<in> set (accounts w) \<and> acc_id a = i"
  by (auto simp: account_by_id_def find_Some_iff)

lemma log_by_id_Some: "log_by_id w i = Some r \<Longrightarrow> r \<in> set (sms_logs w) \<and> log_id r = i"
  by (auto simp: log_by_id_def find_Some_iff)

lemma find_upd_where:
  assumes "\<And>r. key (f r) = key r"
  shows "find (\<lambda>r. key r = i) (upd_where p f t) =
           map_option (\<lambda>r. if p r then f r else r) (find (\<lambda>r. key r = i) t)"
  by (induction t) (auto simp: assms)

lemma find_distinct_key:
  assumes "distinct (map key t)" and "r \<in> set t"
  shows "find (\<lambda>x. key x = key r) t = Some r"
proof -
  have "find (\<lambda>x. key x = key r) t =
          (case filter (\<lambda>x. key x = key r) t of [] \<Rightarrow> None | x # _ \<Rightarrow> Some x)"
    by (induction t) auto
  then show ?thesis by (simp add: filter_distinct_key [OF assms])
qed

lemma logged_total_append [simp]:
  "logged_total i (ls @ [l]) =
     logged_total i ls + (if bl_account_id l = i then bl_amount l else 0)"
  by (simp add: logged_total_def account_logs_def)

lemma add_balance_where_frame [simp]:
  "balance_logs (snd (add_balance_where p i d w)) = balance_logs w"
  "sms_logs (snd (add_balance_where p i d w)) = sms_logs w"
  "sms_batches (snd (add_balance_where p i d w)) = sms_batches w"
  "channels (snd (add_balance_where p i d w)) = channels w"
  "now (snd (add_balance_where p i d w)) = now w"
  by (simp_all add: add_balance_where_def)

lemma log_balance_frame [simp]:
  "accounts (log_balance i ct a b w) = accounts w"
  "sms_logs (log_balance i ct a b w) = sms_logs w"
  "sms_batches (log_balance i ct a b w) = sms_batches w"
  "channels (log_balance i ct a b w) = channels w"
  "now (log_balance i ct a b w) = now w"
  by (simp_all add: log_balance_def)

text \<open>A balance update followed by its log entry keeps the ledger.\<close>

lemma ledger_ok_move:
  assumes ledger: "ledger_ok opening w"
    and all: "\<And>a. a \<in> set (accounts w) \<Longrightarrow> acc_id a = i \<Longrightarrow> p a"
  shows "ledger_ok opening (log_balance i ct d b (snd (add_balance_where p i d w)))"
  using assms
  by (auto simp: ledger_ok_def list_all_iff add_balance_where_def log_balance_def upd_where_def
                 add.assoc)

lemma prepaid_covered_add:
  assumes "prepaid_covered w"
    and "\<And>a. a \<in> set (accounts w) \<Longrightarrow> acc_id a = i \<Longrightarrow> p a \<Longrightarrow> payment_type a = Prepaid
           \<Longrightarrow> 0 \<le> balance a \<Longrightarrow> 0 \<le> balance a + d"
  shows "prepaid_covered (snd (add_balance_where p i d w))"
  using assms by (auto simp: prepaid_covered_def list_all_iff add_balance_where_def upd_where_def)

text \<open>An account found by its key is the only row the conditional update can match.\<close>

lemma add_balance_own_row:
  assumes wf: "distinct (map acc_id (accounts w))" and a: "account_by_id w i = Some a"
  shows "fst (add_balance_where p i d w) = (if p a then 1 else 0)"
    and "p a \<Longrightarrow> balance_of (snd (add_balance_where p i d w)) i = Some (balance a + d)"
    and "j \<noteq> i \<Longrightarrow> account_by_id (snd (add_balance_where p i d w)) j = account_by_id w j"
    and "x \<in> set (accounts w) \<Longrightarrow> acc_id x = i \<Longrightarrow> x = a"
proof -
  have uniq: "x = a" if "x \<in> set (accounts w)" "acc_id x = i" for x
    using account_by_id_Some [OF a] that wf by (metis distinct_map inj_onD)
  show "x \<in> set (accounts w) \<Longrightarrow> acc_id x = i \<Longrightarrow> x = a" by (rule uniq)
  have "filter (\<lambda>x. acc_id x = i) (accounts w) = [a]"
    using account_by_id_Some [OF a] filter_distinct_key [OF wf] by blast
  then have "filter (\<lambda>x. acc_id x = i \<and> p x) (accounts w) = (if p a then [a] else [])"
    by (simp add: filter_filter [symmetric])
  then show "fst (add_balance_where p i d w) = (if p a then 1 else 0)"
    by (simp add: add_balance_where_def rowcount_def)
  show "p a \<Longrightarrow> balance_of (snd (add_balance_where p i d w)) i = Some (balance a + d)"
    using a account_by_id_Some [OF a]
    by (simp add: balance_of_def account_by_id_def add_balance_where_def find_upd_where)
  show "account_by_id (snd (add_balance_where p i d w)) j = account_by_id w j" if "j \<noteq> i"
    using that account_by_id_Some [of w j]
    by (cases "account_by_id w j")
       (simp_all add: account_by_id_def add_balance_where_def find_upd_where)
qed

lemma balance_of_add:
  "balance_of (snd (add_balance_where (\<lambda>_. True) i d w)) j =
     (if j = i then map_option (\<lambda>b. b + d) (balance_of w j) else balance_of w j)"
  using account_by_id_Some [of w j]
  by (cases "account_by_id w j")
    (auto simp: balance_of_def account_by_id_def add_balance_where_def find_upd_where)

lemma add_balance_where_hit:
  assumes wf: "distinct (map acc_id (accounts w))" and hit: "fst (add_balance_where p i d w) \<noteq> 0"
  obtains a where "account_by_id w i = Some a" "p a"
    "\<And>x. x \<in> set (accounts w) \<Longrightarrow> acc_id x = i \<Longrightarrow> x = a"
proof -
  from hit obtain a where a: "a \<in> set (accounts w)" "acc_id a = i" "p a"
    by (auto simp: add_balance_where_def rowcount_def filter_empty_conv)
  then have "account_by_id w i = Some a"
    using find_distinct_key [OF wf, of a] by (simp add: account_by_id_def)
  then show ?thesis using add_balance_own_row(4) [OF wf] a that by blast
qed

text \<open>Two worlds with the same tables and clock, whatever their caches hold.\<close>

definition same_tables :: "world \<Rightarrow> world \<Rightarrow> bool" where
  "same_tables w w' \<longleftrightarrow>
     accounts w' = accounts w \<and> channels w' = channels w
     \<and> country_pricings w' = country_pricings w \<and> account_pricings w' = account_pricings w
     \<and> routing_rules w' = routing_rules w \<and> account_channels w' = account_channels w
     \<and> sender_ids w' = sender_ids w \<and> sms_logs w' = sms_logs w \<and> sms_batches w' = sms_batches w
     \<and> balance_logs w' = balance_logs w \<and> now w' = now w"

lemma same_tables_refl [simp]: "same_tables w w"
  by (simp add: same_tables_def)

lemma same_tables_trans: "same_tables w w1 \<Longrightarrow> same_tables w1 w2 \<Longrightarrow> same_tables w w2"
  by (simp add: same_tables_def)

lemma same_tables_cache [simp]:
  "same_tables w (w\<lparr>price_cache := pc\<rparr>)" "same_tables w (w\<lparr>cost_cache := cc\<rparr>)"
  "same_tables w (w\<lparr>rcs_cache := rc\<rparr>)" "same_tables w (w\<lparr>route_cache := tc\<rparr>)"
  by (simp_all add: same_tables_def)

lemma same_tables_queries:
  assumes "same_tables w w'"
  shows "account_by_id w' i = account_by_id w i" "channel_by_id w' i = channel_by_id w i"
    "ledger_ok opening w' = ledger_ok opening w" "prepaid_covered w' = prepaid_covered w"
    "wf_world w' = wf_world w"
  using assms
  by (simp_all add: same_tables_def account_by_id_def channel_by_id_def ledger_ok_def
                    prepaid_covered_def wf_world_def)

section \<open>Memoised reads\<close>

text \<open>
  \<open>fetch\<close> is a read that consults the cache first, \<open>key\<close> the cache key of its arguments, \<open>peek\<close>
  the cache, \<open>direct\<close> the answer of the database. A hit is returned as it is; a miss asks the
  database, stores an answer and shows no failure from the cache; neither changes what the database
  would say, and the key holds all that the answer depends on.
\<close>

locale read_through =
  fixes fetch :: "'w \<Rightarrow> 'a \<Rightarrow> ('e + 'v) \<times> 'w"
    and key :: "'a \<Rightarrow> 'k"
    and peek :: "'w \<Rightarrow> 'k \<Rightarrow> 'v option"
    and direct :: "'w \<Rightarrow> 'a \<Rightarrow> 'e + 'v"
  assumes hit: "peek w (key a) = Some v \<Longrightarrow> fetch w a = (Inr v, w)"
    and miss: "peek w (key a) = None \<Longrightarrow> fst (fetch w a) = direct w a"
    and stored: "peek w (key a) = None \<Longrightarrow> direct w a = Inr v \<Longrightarrow>
                   peek (snd (fetch w a)) k = (if k = key a then Some v else peek w k)"
    and not_stored: "peek w (key a) = None \<Longrightarrow> direct w a = Inl e \<Longrightarrow>
                       peek (snd (fetch w a)) = peek w"
    and pure: "direct (snd (fetch w a)) b = direct w b"
    and key_complete: "key a = key b \<Longrightarrow> direct w a = direct w b"
begin

definition coherent :: "'w \<Rightarrow> bool" where
  "coherent w \<longleftrightarrow> (\<forall>a v. peek w (key a) = Some v \<longrightarrow> direct w a = Inr v)"

lemma fetch_eq_direct: "coherent w \<Longrightarrow> fst (fetch w a) = direct w a"
  by (cases "peek w (key a)") (auto simp: coherent_def hit miss)

lemma fetch_coherent:
  assumes c: "coherent w"
  shows "coherent (snd (fetch w a))"
proof (cases "peek w (key a)")
  case None
  show ?thesis
  proof (cases "direct w a")
    case (Inl e)
    with None c show ?thesis by (simp add: coherent_def not_stored pure)
  next
    case (Inr v)
    have "direct w b = Inr v'" if "peek (snd (fetch w a)) (key b) = Some v'" for b v'
    proof (cases "key b = key a")
      case True
      with that None Inr key_complete [OF True] show ?thesis by (simp add: stored)
    next
      case False
      with that None Inr c show ?thesis by (simp add: stored coherent_def)
    qed
    then show ?thesis by (simp add: coherent_def pure)
  qed
next
  case (Some v)
  with c show ?thesis by (simp add: hit)
qed

text \<open>The second of two equal reads gives the same answer.\<close>

lemma fetch_again: "fst (fetch (snd (fetch w a)) a) = fst (fetch w a)"
proof (cases "peek w (key a)")
  case None
  show ?thesis
  proof (cases "direct w a")
    case (Inl e)
    with None show ?thesis by (simp add: not_stored miss pure)
  next
    case (Inr v)
    with None have "peek (snd (fetch w a)) (key a) = Some v" by (simp add: stored)
    with None Inr show ?thesis by (simp add: hit miss)
  qed
next
  case (Some v)
  then show ?thesis by (simp add: hit)
qed

text \<open>A stale entry is served until it goes: the cached value wins over the database.\<close>

lemma fetch_stale: "peek w (key a) = Some v \<Longrightarrow> fst (fetch w a) = Inr v"
  by (simp add: hit)

end

section \<open>Operations on money\<close>

text \<open>
  What every operation that moves a balance owes the others: the keys stay unique, every account still
  holds its opening amount plus its log entries, and no prepaid account goes below zero. A history
  of such operations owes the same.
\<close>

locale money_op =
  fixes run :: "'a \<Rightarrow> world \<Rightarrow> 'r \<times> world"
  assumes wf: "wf_world w \<Longrightarrow> wf_world (snd (run a w))"
    and ledger: "wf_world w \<Longrightarrow> ledger_ok opening w \<Longrightarrow> ledger_ok opening (snd (run a w))"
    and covered: "wf_world w \<Longrightarrow> prepaid_covered w \<Longrightarrow> prepaid_covered (snd (run a w))"
begin

definition history :: "'a list \<Rightarrow> world \<Rightarrow> world" where
  "history as w = fold (\<lambda>a w. snd (run a w)) as w"

lemma history_wf: "wf_world w \<Longrightarrow> wf_world (history as w)"
  by (induction as arbitrary: w) (simp_all add: history_def wf)

lemma history_ledger: "wf_world w \<Longrightarrow> ledger_ok opening w \<Longrightarrow> ledger_ok opening (history as w)"
  by (induction as arbitrary: w) (simp_all add: history_def wf ledger)

lemma history_covered: "wf_world w \<Longrightarrow> prepaid_covered w \<Longrightarrow> prepaid_covered (history as w)"
  by (induction as arbitrary: w) (simp_all add: history_def wf covered)

end

lemma wf_world_add_balance [simp]: "wf_world (snd (add_balance_where p i d w)) = wf_world w"
  by (simp add: wf_world_def add_balance_where_def map_upd_where)

lemma wf_world_log_balance [simp]: "wf_world (log_balance i ct a b w) = wf_world w"
  by (simp add: wf_world_def)

lemma prepaid_covered_log_balance [simp]:
  "prepaid_covered (log_balance i ct a b w) = prepaid_covered w"
  by (simp add: prepaid_covered_def)

text \<open>Changes to message rows, batches and caches do not touch money.\<close>

lemma money_frame [simp]:
  "ledger_ok opening (w\<lparr>sms_logs := ls\<rparr>) = ledger_ok opening w"
  "prepaid_covered (w\<lparr>sms_logs := ls\<rparr>) = prepaid_covered w"
  "ledger_ok opening (w\<lparr>sms_batches := bs\<rparr>) = ledger_ok opening w"
  "prepaid_covered (w\<lparr>sms_batches := bs\<rparr>) = prepaid_covered w"
  by (simp_all add: ledger_ok_def prepaid_covered_def)

lemma lookup_frame [simp]:
  "account_by_id (w\<lparr>sms_logs := ls\<rparr>) i = account_by_id w i"
  "account_by_id (w\<lparr>sms_batches := bs\<rparr>) i = account_by_id w i"
  "account_by_id (log_balance j ct a b w) i = account_by_id w i"
  "channel_by_id (w\<lparr>sms_logs := ls\<rparr>) i = channel_by_id w i"
  "channel_by_id (w\<lparr>sms_batches := bs\<rparr>) i = channel_by_id w i"
  "log_by_id (w\<lparr>accounts := as\<rparr>) i = log_by_id w i"
  "log_by_id (snd (add_balance_where p j d w)) i = log_by_id w i"
  "log_by_id (log_balance j ct a b w) i = log_by_id w i"
  "log_by_id (w\<lparr>sms_batches := bs\<rparr>) i = log_by_id w i"
  "balance_of (w\<lparr>sms_logs := ls\<rparr>) i = balance_of w i"
  "balance_of (w\<lparr>sms_batches := bs\<rparr>) i = balance_of w i"
  "balance_of (log_balance j ct a b w) i = balance_of w i"
  by (simp_all add: account_by_id_def channel_by_id_def log_by_id_def balance_of_def)

lemma wf_world_sms_logs:
  "map log_id ls = map log_id (sms_logs w) \<Longrightarrow> wf_world (w\<lparr>sms_logs := ls\<rparr>) = wf_world w"
  by (simp add: wf_world_def)

lemma wf_world_sms_batches:
  "map batch_id bs = map batch_id (sms_batches w) \<Longrightarrow> wf_world (w\<lparr>sms_batches := bs\<rparr>) = wf_world w"
  by (simp add: wf_world_def)

end
