(* ===== verification/PhoneUtils.thy ===== *)
theory PhoneUtils
  imports Prelude Db
begin

text \<open>
  Phone number helpers, \<open>backend/app/utils/phone_utils.py\<close>: the \<open>strip_leading_plus\<close> switch of a
  channel, the destination number handed to the upstream, spreadsheet text cells and the two
  directions of the dialling-code table the router uses.
\<close>

definition strip_leading_plus_enabled :: "(pystr \<times> json) list option \<Rightarrow> bool" where
  "strip_leading_plus_enabled config =
     (case config of
        None \<Rightarrow> True
      | Some kvs \<Rightarrow>
          (if kvs = [] then True
           else case json_get (asc ''strip_leading_plus'') kvs of
                  JNull \<Rightarrow> True
                | JBool v \<Rightarrow> v
                | JNum v \<Rightarrow> v \<noteq> 0
                | JStr v \<Rightarrow>
                    py_lower (py_strip v) \<notin>
                      {asc ''false'', asc ''0'', asc ''no'', asc ''off'', []}
                | _ \<Rightarrow> True))"

definition format_sms_dest_phone :: "bool \<Rightarrow> pystr option \<Rightarrow> pystr" where
  "format_sms_dest_phone strip_leading_plus phone =
     (case phone of
        None \<Rightarrow> []
      | Some p \<Rightarrow>
          (let s = py_strip p
           in if strip_leading_plus \<and> starts_with [43] s then drop 1 s else s))"

definition e164_without_plus :: "pystr option \<Rightarrow> pystr" where
  "e164_without_plus phone = format_sms_dest_phone True phone"

text \<open>\<open>="value"\<close> with every quote doubled.\<close>

definition double_quotes :: "pystr \<Rightarrow> pystr" where
  "double_quotes s = concat (map (\<lambda>c. if c = 34 then [34, 34] else [c]) s)"

definition excel_text :: "pystr option \<Rightarrow> pystr" where
  "excel_text v =
     (case v of
        None \<Rightarrow> []
      | Some s \<Rightarrow> if s = [] then [] else asc ''=\"'' @ double_quotes s @ asc ''\"'')"

definition COUNTRY_DIAL_MAP :: "(pystr \<times> pystr) list" where
  "COUNTRY_DIAL_MAP =
    [(asc ''PH'', asc ''63''), (asc ''VN'', asc ''84''), (asc ''ID'', asc ''62''),
     (asc ''TH'', asc ''66''), (asc ''MY'', asc ''60''), (asc ''SG'', asc ''65''),
     (asc ''MM'', asc ''95''), (asc ''KH'', asc ''855''), (asc ''LA'', asc ''856''),
     (asc ''BN'', asc ''673''), (asc ''CN'', asc ''86''), (asc ''HK'', asc ''852''),
     (asc ''TW'', asc ''886''), (asc ''MO'', asc ''853''), (asc ''JP'', asc ''81''),
     (asc ''KR'', asc ''82''), (asc ''IN'', asc ''91''), (asc ''BD'', asc ''880''),
     (asc ''PK'', asc ''92''), (asc ''US'', asc ''1''), (asc ''CA'', asc ''1''),
     (asc ''GB'', asc ''44''), (asc ''AU'', asc ''61''), (asc ''NZ'', asc ''64''),
     (asc ''DE'', asc ''49''), (asc ''FR'', asc ''33''), (asc ''IT'', asc ''39''),
     (asc ''ES'', asc ''34''), (asc ''BR'', asc ''55''), (asc ''MX'', asc ''52''),
     (asc ''RU'', asc ''7''), (asc ''ZA'', asc ''27''), (asc ''NG'', asc ''234''),
     (asc ''KE'', asc ''254''), (asc ''EG'', asc ''20''), (asc ''SA'', asc ''966''),
     (asc ''AE'', asc ''971''), (asc ''TR'', asc ''90''), (asc ''IL'', asc ''972''),
     (asc ''RS'', asc ''381''), (asc ''SK'', asc ''421'')]"

text \<open>The reverse dictionary: of two countries with one dialling code the later one stays.\<close>

definition DIAL_TO_ISO :: "(pystr \<times> pystr) list" where
  "DIAL_TO_ISO = rev (map (\<lambda>(k, v). (v, k)) COUNTRY_DIAL_MAP)"

definition country_to_dial_code :: "pystr \<Rightarrow> pystr" where
  "country_to_dial_code country_code =
     (case map_of COUNTRY_DIAL_MAP (py_upper country_code) of
        Some d \<Rightarrow> d | None \<Rightarrow> country_code)"

definition dial_to_country_code :: "pystr \<Rightarrow> pystr" where
  "dial_to_country_code dial =
     (case map_of DIAL_TO_ISO dial of Some c \<Rightarrow> c | None \<Rightarrow> dial)"

section \<open>Lemmas\<close>

text \<open>What a spreadsheet reads back from a text cell: the content with each doubled quote undone.\<close>

fun undouble :: "pystr \<Rightarrow> pystr" where
  "undouble [] = []"
| "undouble [c] = [c]"
| "undouble (c # d # cs) = (if c = 34 \<and> d = 34 then 34 # undouble cs else c # undouble (d # cs))"

lemma undouble_Cons_other: "c \<noteq> 34 \<Longrightarrow> undouble (c # cs) = c # undouble cs"
  by (cases cs) auto

lemma undouble_double_quotes: "undouble (double_quotes s) = s"
  by (induction s) (auto simp: double_quotes_def undouble_Cons_other)

lemma format_sms_dest_phone_cases:
  "format_sms_dest_phone b (Some p) \<in> {py_strip p, drop 1 (py_strip p)}"
  by (auto simp: format_sms_dest_phone_def Let_def)

section \<open>Properties\<close>

text \<open>the router's two dialling-code maps are inverse to each other on every listed country
  but one: the United States come back as Canada.\<close>

theorem dial_code_roundtrip:
  "list_all (\<lambda>c. dial_to_country_code (country_to_dial_code c) =
                 (if c = asc ''US'' then asc ''CA'' else c))
            (map fst COUNTRY_DIAL_MAP)"
  by code_simp

text \<open>A spreadsheet text cell keeps the value: stripping the wrapper and undoing the doubled
  quotes gives back exactly the text that was exported.\<close>

theorem excel_text_roundtrip:
  assumes "s \<noteq> []"
  shows "\<exists>body. excel_text (Some s) = asc ''=\"'' @ body @ asc ''\"'' \<and> undouble body = s"
  using assms by (auto simp: excel_text_def undouble_double_quotes)

theorem excel_text_roundtrip_witness:
  "\<exists>body. excel_text (Some (asc ''a\"b'')) = asc ''=\"'' @ body @ asc ''\"''
          \<and> undouble body = asc ''a\"b''"
  by (rule excel_text_roundtrip) (simp add: asc_def)

end
