(* ===== verification/ChannelConfig.thy ===== *)
theory ChannelConfig
  imports World PhoneUtils
begin

text \<open>
  The configuration methods of \<open>Channel\<close>, \<open>backend/app/modules/sms/channel.py\<close>: the extension JSON,
  the \<open>strip_leading_plus\<close> switch, the RCS discriminator and the RCS supplier settings with their
  fall-back to the ordinary columns. \<open>json.loads\<close> may return something other than an object; its
  \<open>get\<close> then raises \<open>AttributeError\<close>, which leaves these methods as \<open>PyException\<close>.
\<close>

definition get_gateway_config :: "channel \<Rightarrow> json" where
  "get_gateway_config c =
     (case config_json c of
        NullText \<Rightarrow> JObj []
      | BadJson \<Rightarrow> JObj []
      | Parsed j \<Rightarrow> j)"

text \<open>\<open>cfg.get(key)\<close>\<close>

definition obj_get :: "json \<Rightarrow> pystr \<Rightarrow> json outcome" where
  "obj_get j k = (case j of JObj kvs \<Rightarrow> Inr (json_get k kvs) | _ \<Rightarrow> Inl PyException)"

text \<open>\<open>if not config: return True\<close> comes before the first \<open>get\<close>, so falsy values are fine.\<close>

definition strip_leading_plus_for_submit :: "channel \<Rightarrow> bool outcome" where
  "strip_leading_plus_for_submit c =
     (let cfg = get_gateway_config c
      in if \<not> json_truthy cfg then Inr True
         else case cfg of JObj kvs \<Rightarrow> Inr (strip_leading_plus_enabled (Some kvs))
                        | _ \<Rightarrow> Inl PyException)"

text \<open>\<open>bool(str(v or "").strip())\<close>: the text of a truthy value that is no string is never blank.\<close>

definition json_text_nonblank :: "json \<Rightarrow> bool" where
  "json_text_nonblank v =
     (if json_truthy v then (case v of JStr s \<Rightarrow> py_strip s \<noteq> [] | _ \<Rightarrow> True) else False)"

definition is_rcs :: "channel \<Rightarrow> bool outcome" where
  "is_rcs c =
     (case obj_get (get_gateway_config c) (asc ''rcs'') of
        Inl e \<Rightarrow> Inl e
      | Inr (JObj kvs) \<Rightarrow> Inr (json_text_nonblank (json_get (asc ''vendor'') kvs))
      | Inr _ \<Rightarrow> Inr False)"

text \<open>\<open>Channel.rcs_vendor()\<close>\<close>

definition rcs_vendor :: "(json \<Rightarrow> pystr) \<Rightarrow> channel \<Rightarrow> pystr outcome" where
  "rcs_vendor show c =
     (case obj_get (get_gateway_config c) (asc ''rcs'') of
        Inl e \<Rightarrow> Inl e
      | Inr (JObj kvs) \<Rightarrow>
          (let v = json_get (asc ''vendor'') kvs
           in Inr (py_lower (py_strip (if json_truthy v then py_str show v else []))))
      | Inr _ \<Rightarrow> Inr [])"

text \<open>\<open>_pick\<close>: an explicit non-blank string, else the first non-blank fall-back, else empty.\<close>

fun first_nonblank :: "pystr option list \<Rightarrow> pystr" where
  "first_nonblank [] = []"
| "first_nonblank (None # fs) = first_nonblank fs"
| "first_nonblank (Some s # fs) = (if py_strip s \<noteq> [] then py_strip s else first_nonblank fs)"

definition pick :: "(pystr \<times> json) list \<Rightarrow> pystr \<Rightarrow> pystr option list \<Rightarrow> pystr" where
  "pick rcs key fallbacks =
     (case json_get key rcs of
        JStr v \<Rightarrow> if py_strip v \<noteq> [] then py_strip v else first_nonblank fallbacks
      | _ \<Rightarrow> first_nonblank fallbacks)"

text \<open>\<open>rcs[key] = value\<close>\<close>

definition obj_put :: "pystr \<Rightarrow> pystr \<Rightarrow> (pystr \<times> json) list \<Rightarrow> (pystr \<times> json) list" where
  "obj_put k v kvs = filter (\<lambda>(k', _). k' \<noteq> k) kvs @ [(k, JStr v)]"

definition get_rcs_config :: "channel \<Rightarrow> (pystr \<times> json) list outcome" where
  "get_rcs_config c =
     (case obj_get (get_gateway_config c) (asc ''rcs'') of
        Inl e \<Rightarrow> Inl e
      | Inr j \<Rightarrow>
          (let rcs = (case j of JObj kvs \<Rightarrow> kvs | _ \<Rightarrow> []);
               r1 = obj_put (asc ''base_url'')
                      (py_rstrip_chars [47] (pick rcs (asc ''base_url'') [api_url c])) rcs;
               r2 = obj_put (asc ''app_key'') (pick r1 (asc ''app_key'') [username c]) r1;
               r3 = obj_put (asc ''app_secret'')
                      (pick r2 (asc ''app_secret'') [password c, ch_api_key c]) r2;
               r4 = obj_put (asc ''send_code'')
                      (pick r3 (asc ''send_code'') [Some (default_sender_id c)]) r3;
               r5 = obj_put (asc ''webhook_secret'') (pick r4 (asc ''webhook_secret'') []) r4;
               r6 = obj_put (asc ''vendor'') (pick r5 (asc ''vendor'') [Some (asc ''bolttel'')]) r5
           in Inr r6))"

text \<open>\<open>get_virtual_config\<close>: the defaults, overridden by the stored object, whose old single rates become
  ranges. A number or \<open>null\<close> fails the test with \<open>in\<close> and leaves the defaults; a non-empty string or
  array is no mapping and is taken to raise.\<close>

definition virtual_defaults :: "(pystr \<times> json) list" where
  "virtual_defaults =
     [(asc ''delivery_rate_min'', JNum 80), (asc ''delivery_rate_max'', JNum 90), (asc ''fail_rate_min'', JNum 5),
      (asc ''fail_rate_max'', JNum 15), (asc ''dlr_delay_min'', JNum 3), (asc ''dlr_delay_max'', JNum 30),
      (asc ''fail_codes'', JArr [JStr (asc ''UNDELIV'')])]"

definition widen_rate :: "pystr \<Rightarrow> (pystr \<times> json) list \<Rightarrow> (pystr \<times> json) list" where
  "widen_rate k kvs =
     (let ks = set (map fst kvs); lo = k @ asc ''_min''; hi = k @ asc ''_max''
      in if k \<in> ks \<and> lo \<notin> ks
         then filter (\<lambda>(x, _). x \<noteq> k) kvs @ [(lo, json_get k kvs), (hi, json_get k kvs)] else kvs)"

definition get_virtual_config :: "channel \<Rightarrow> (pystr \<times> json) list outcome" where
  "get_virtual_config c =
     (case virtual_config c of
        NullText \<Rightarrow> Inr virtual_defaults
      | BadJson \<Rightarrow> Inr virtual_defaults
      | Parsed (JObj kvs) \<Rightarrow>
          Inr (virtual_defaults @ widen_rate (asc ''fail_rate'') (widen_rate (asc ''delivery_rate'') kvs))
      | Parsed (JStr (_ # _)) \<Rightarrow> Inl ValueError
      | Parsed (JArr (_ # _)) \<Rightarrow> Inl ValueError
      | Parsed _ \<Rightarrow> Inr virtual_defaults)"

section \<open>Lemmas\<close>

lemma json_get_put [simp]:
  "json_get k (obj_put k' v kvs) = (if k = k' then JStr v else json_get k kvs)"
proof (cases "k = k'")
  case False
  have "map_of (rev (filter (\<lambda>(a, _). a \<noteq> k') kvs)) k = map_of (rev kvs) k"
    using False by (induction kvs) (auto simp: map_add_def split: option.splits)
  with False show ?thesis by (simp add: json_get_def obj_put_def)
qed (simp add: json_get_def obj_put_def)

lemma pick_obj_put [simp]: "k \<noteq> k' \<Longrightarrow> pick (obj_put k' v kvs) k fs = pick kvs k fs"
  by (simp add: pick_def)

text \<open>The object below \<open>rcs\<close>, empty when there is none.\<close>

definition rcs_object :: "channel \<Rightarrow> (pystr \<times> json) list" where
  "rcs_object c =
     (case obj_get (get_gateway_config c) (asc ''rcs'') of Inr (JObj kvs) \<Rightarrow> kvs | _ \<Rightarrow> [])"

lemma get_rcs_config_vendor:
  assumes "get_rcs_config c = Inr r"
  shows "json_get (asc ''vendor'') r =
           JStr (pick (rcs_object c) (asc ''vendor'') [Some (asc ''bolttel'')])"
proof -
  have dist: "asc ''vendor'' \<noteq> asc ''base_url''" "asc ''vendor'' \<noteq> asc ''app_key''"
    "asc ''vendor'' \<noteq> asc ''app_secret''" "asc ''vendor'' \<noteq> asc ''send_code''"
    "asc ''vendor'' \<noteq> asc ''webhook_secret''"
    by (simp_all add: asc_def)
  from assms show ?thesis
    by (auto simp: get_rcs_config_def rcs_object_def Let_def dist
             split: sum.splits json.splits)
qed

section \<open>Properties\<close>

text \<open>The RCS settings name the channel's own vendor, stripped, when it is a non-blank string,
  and \<open>bolttel\<close> otherwise; so they name a vendor also on a channel that is not RCS at all, and only
  \<open>is_rcs\<close> can decide what a channel is.\<close>

theorem rcs_config_vendor:
  assumes "get_rcs_config c = Inr r"
  shows "\<exists>v. json_get (asc ''vendor'') r = JStr v \<and> v \<noteq> []
             \<and> (case json_get (asc ''vendor'') (rcs_object c) of
                   JStr s \<Rightarrow> v = (if py_strip s \<noteq> [] then py_strip s else asc ''bolttel'')
                 | _ \<Rightarrow> v = asc ''bolttel'')"
proof -
  have "py_strip (asc ''bolttel'') = asc ''bolttel''" "asc ''bolttel'' \<noteq> []"
    by code_simp+
  then show ?thesis
    using get_rcs_config_vendor [OF assms]
    by (auto simp: pick_def split: json.splits)
qed

theorem rcs_config_vendor_witness:
  "\<exists>r v. get_rcs_config (new_channel 1 (asc ''sms'') HTTP) = Inr r
         \<and> is_rcs (new_channel 1 (asc ''sms'') HTTP) = Inr False
         \<and> json_get (asc ''vendor'') r = JStr v \<and> v \<noteq> []"
proof -
  let ?c = "new_channel 1 (asc ''sms'') HTTP"
  obtain r where r: "get_rcs_config ?c = Inr r"
    by (simp add: get_rcs_config_def get_gateway_config_def obj_get_def new_channel_def Let_def)
  moreover have "is_rcs ?c = Inr False"
    by (simp add: is_rcs_def get_gateway_config_def obj_get_def new_channel_def json_get_def)
  ultimately show ?thesis using rcs_config_vendor [OF r] by blast
qed

end
