(* ===== verification/CountryCode.thy ===== *)
theory CountryCode
  imports Prelude
begin

text \<open>
  Country codes, \<open>backend/app/utils/country_code.py\<close>: the table of countries with their ISO2 code,
  dialling code and Chinese names, the index from any spelling to ISO2, normalisation, the
  zero-padded dialling code and the list of equivalent spellings.
\<close>

section \<open>The table and its index\<close>

type_synonym country_row = "pystr \<times> pystr \<times> pystr list"

definition COUNTRY_DATA :: "country_row list" where
  "COUNTRY_DATA =
    [(asc ''CN'', asc ''86'', [[20013,22269]]), (asc ''HK'', asc ''852'', [[39321,28207]]),
     (asc ''TW'', asc ''886'', [[21488,28286]]), (asc ''MO'', asc ''853'', [[28595,38376]]),
     (asc ''SE'', asc ''46'', [[29790,20856]]), (asc ''NO'', asc ''47'', [[25386,23041]]),
     (asc ''CZ'', asc ''420'', [[25463,20811]]),
     (asc ''LT'', asc ''370'', [[31435,38518,23451]]),
     (asc ''LV'', asc ''371'', [[25289,33073,32500,20122]]),
     (asc ''EE'', asc ''372'', [[29233,27801,23612,20122]]),
     (asc ''TH'', asc ''66'', [[27888,22269]]), (asc ''BR'', asc ''55'', [[24052,35199]]),
     (asc ''BD'', asc ''880'', [[23391,21152,25289], [23391,21152,25289,22269]]),
     (asc ''ID'', asc ''62'', [[21360,24230,23612,35199,20122], [21360,23612]]),
     (asc ''MY'', asc ''60'', [[39532,26469,35199,20122], [39532,26469]]),
     (asc ''VN'', asc ''84'', [[36234,21335]]),
     (asc ''PH'', asc ''63'', [[33778,24459,23486]]),
     (asc ''SG'', asc ''65'', [[26032,21152,22369]]),
     (asc ''JP'', asc ''81'', [[26085,26412]]), (asc ''KR'', asc ''82'', [[38889,22269]]),
     (asc ''IN'', asc ''91'', [[21360,24230]]),
     (asc ''PK'', asc ''92'', [[24052,22522,26031,22374]]),
     (asc ''MX'', asc ''52'', [[22696,35199,21733]]),
     (asc ''AR'', asc ''54'', [[38463,26681,24311]]),
     (asc ''CO'', asc ''57'', [[21733,20262,27604,20122]]),
     (asc ''CL'', asc ''56'', [[26234,21033]]), (asc ''PE'', asc ''51'', [[31192,40065]]),
     (asc ''EG'', asc ''20'', [[22467,21450]]),
     (asc ''NG'', asc ''234'', [[23612,26085,21033,20122]]),
     (asc ''KE'', asc ''254'', [[32943,23612,20122]]),
     (asc ''ZA'', asc ''27'', [[21335,38750]]),
     (asc ''AE'', asc ''971'', [[38463,32852,37195]]),
     (asc ''SA'', asc ''966'', [[27801,29305], [27801,29305,38463,25289,20271]]),
     (asc ''TR'', asc ''90'', [[22303,32819,20854]]),
     (asc ''RU'', asc ''7'', [[20420,32599,26031]]),
     (asc ''UA'', asc ''380'', [[20044,20811,20848]]),
     (asc ''GB'', asc ''44'', [[33521,22269]]), (asc ''DE'', asc ''49'', [[24503,22269]]),
     (asc ''FR'', asc ''33'', [[27861,22269]]),
     (asc ''ES'', asc ''34'', [[35199,29677,29273]]),
     (asc ''IT'', asc ''39'', [[24847,22823,21033]]),
     (asc ''AU'', asc ''61'', [[28595,22823,21033,20122], [28595,27954]]),
     (asc ''NZ'', asc ''64'', [[26032,35199,20848]]), (asc ''US'', asc ''1'', [[32654,22269]]),
     (asc ''CA'', asc ''1CA'', [[21152,25343,22823]]),
     (asc ''KH'', asc ''855'', [[26604,22484,23528]]),
     (asc ''LB'', asc ''961'', [[40654,24052,23273]]),
     (asc ''BJ'', asc ''229'', [[36125,23425]]), (asc ''MM'', asc ''95'', [[32517,30008]]),
     (asc ''LK'', asc ''94'', [[26031,37324,20848,21345]]),
     (asc ''GH'', asc ''233'', [[21152,32435]]),
     (asc ''UG'', asc ''256'', [[20044,24178,36798]]),
     (asc ''TZ'', asc ''255'', [[22374,26705,23612,20122]]),
     (asc ''ET'', asc ''251'', [[22467,22622,20420,27604,20122]]),
     (asc ''CM'', asc ''237'', [[21888,40614,38534]]),
     (asc ''SN'', asc ''221'', [[22622,20869,21152,23572]]),
     (asc ''VE'', asc ''58'', [[22996,20869,29790,25289]]),
     (asc ''EC'', asc ''593'', [[21380,29916,22810,23572]]),
     (asc ''BO'', asc ''591'', [[29627,21033,32500,20122]]),
     (asc ''IL'', asc ''972'', [[20197,33394,21015]]),
     (asc ''JO'', asc ''962'', [[32422,26086]]),
     (asc ''KW'', asc ''965'', [[31185,23041,29305]]),
     (asc ''QA'', asc ''974'', [[21345,22612,23572]]),
     (asc ''MA'', asc ''212'', [[25705,27931,21733]]),
     (asc ''DK'', asc ''45'', [[20025,40614]]), (asc ''FI'', asc ''358'', [[33452,20848]]),
     (asc ''NL'', asc ''31'', [[33655,20848]]),
     (asc ''BE'', asc ''32'', [[27604,21033,26102]]),
     (asc ''PL'', asc ''48'', [[27874,20848]]),
     (asc ''RO'', asc ''40'', [[32599,39532,23612,20122]]),
     (asc ''IE'', asc ''353'', [[29233,23572,20848]]),
     (asc ''PT'', asc ''351'', [[33889,33796,29273]]),
     (asc ''KZ'', asc ''7KZ'', [[21704,33832,20811,26031,22374]]),
     (asc ''ZM'', asc ''260'', [[36190,27604,20122]]),
     (asc ''RS'', asc ''381'', [[22622,23572,32500,20122]]),
     (asc ''SK'', asc ''421'', [[26031,27931,20240,20811]])]"

text \<open>The module-level loop enters each key with its upper and lower case; a later row overrides
  an earlier one, so the index is the association list read from the back.\<close>

fun row_keys :: "country_row \<Rightarrow> pystr list" where
  "row_keys (code, dial, names) = code # dial # names"

definition row_entries :: "country_row \<Rightarrow> (pystr \<times> pystr) list" where
  "row_entries row =
     concat (map (\<lambda>k. [(k, fst row), (py_upper k, fst row), (py_lower k, fst row)]) (row_keys row))"

definition to_iso_entries :: "(pystr \<times> pystr) list" where
  "to_iso_entries = concat (map row_entries COUNTRY_DATA)"

definition to_iso :: "pystr \<Rightarrow> pystr option" where
  "to_iso k = map_of (rev to_iso_entries) k"

definition iso_variants :: "pystr \<Rightarrow> pystr list option" where
  "iso_variants code = map_of (rev (map (\<lambda>row. (fst row, dedup (row_keys row))) COUNTRY_DATA)) code"

section \<open>Operations\<close>

definition get_dial_code :: "pystr option \<Rightarrow> pystr" where
  "get_dial_code iso2 =
     (case iso2 of
        None \<Rightarrow> asc ''000''
      | Some s \<Rightarrow>
          (if s = [] then asc ''000''
           else case find (\<lambda>row. fst row = py_upper (py_strip s)) COUNTRY_DATA of
                  Some (_, dial, _) \<Rightarrow> zfill 3 (filter py_isdigit_char dial)
                | None \<Rightarrow> asc ''000''))"

text \<open>\<open>_TO_ISO.get(s) or _TO_ISO.get(s.upper())\<close>\<close>

definition iso_lookup :: "pystr \<Rightarrow> pystr option" where
  "iso_lookup s = (case to_iso s of Some i \<Rightarrow> Some i | None \<Rightarrow> to_iso (py_upper s))"

definition normalize_country_code :: "pystr option \<Rightarrow> pystr option" where
  "normalize_country_code raw =
     (case raw of
        None \<Rightarrow> None
      | Some r \<Rightarrow>
          (if r = [] then Some r
           else let s = py_strip r in
             if s = [] then None
             else case iso_lookup s of
               Some code \<Rightarrow> Some code
             | None \<Rightarrow>
                 (let stripped = py_lstrip_chars [48] s;
                      hit = (if py_isdigit s \<and> stripped \<noteq> [] \<and> stripped \<noteq> s
                             then to_iso stripped else None)
                  in case hit of Some code \<Rightarrow> Some code | None \<Rightarrow> Some (py_upper s))))"

text \<open>
  \<open>list(_ISO_VARIANTS[iso])\<close> enumerates a Python set, in an order that depends on the hash seed of
  the process. The order is the argument \<open>enum\<close>; \<open>set_order enum\<close> says that it is an enumeration.
\<close>

definition set_order :: "(pystr list \<Rightarrow> pystr list) \<Rightarrow> bool" where
  "set_order enum \<longleftrightarrow> (\<forall>xs. set (enum xs) = set xs)"

definition get_country_variants ::
    "(pystr list \<Rightarrow> pystr list) \<Rightarrow> pystr option \<Rightarrow> pystr list" where
  "get_country_variants enum country_code =
     (case country_code of
        None \<Rightarrow> []
      | Some c \<Rightarrow>
          (if c = [] then []
           else let s = py_strip c in
             case iso_lookup s of
               Some code \<Rightarrow> (case iso_variants code of Some ks \<Rightarrow> enum ks | None \<Rightarrow> [])
             | None \<Rightarrow> [s, py_upper s]))"

section \<open>Lemmas\<close>

text \<open>The shape of a row: a two-letter code, a dialling code that starts with a non-zero digit and
  is made of digits and capitals, and caseless names.\<close>

definition ascii_upper_char :: "int \<Rightarrow> bool" where
  "ascii_upper_char c \<longleftrightarrow> 65 \<le> c \<and> c \<le> 90"

definition ascii_digit_char :: "int \<Rightarrow> bool" where
  "ascii_digit_char c \<longleftrightarrow> 48 \<le> c \<and> c \<le> 57"

fun wf_row :: "country_row \<Rightarrow> bool" where
  "wf_row (code, dial, names) \<longleftrightarrow>
     code \<noteq> [] \<and> list_all ascii_upper_char code
     \<and> dial \<noteq> [] \<and> ascii_digit_char (hd dial) \<and> hd dial \<noteq> 48
     \<and> list_all (\<lambda>c. ascii_digit_char c \<or> ascii_upper_char c) dial
     \<and> list_all (\<lambda>n. n \<noteq> [] \<and> list_all (\<lambda>c. 12288 < c) n) names"

lemma rows_wf: "list_all wf_row COUNTRY_DATA"
  by code_simp

lemma codes_distinct: "distinct (map fst COUNTRY_DATA)"
  by code_simp

lemma dials_distinct: "distinct (map (\<lambda>row. fst (snd row)) COUNTRY_DATA)"
  by code_simp

lemma names_distinct: "distinct (concat (map (\<lambda>row. snd (snd row)) COUNTRY_DATA))"
  by code_simp

text \<open>Capitals, digits and caseless characters: the characters of a registered spelling.\<close>

definition key_char :: "int \<Rightarrow> bool" where
  "key_char c \<longleftrightarrow> ascii_upper_char c \<or> ascii_digit_char c \<or> 12288 < c"

lemmas key_char_defs = key_char_def ascii_upper_char_def ascii_digit_char_def

lemma key_char_upper: "key_char c \<Longrightarrow> py_upper_char c = [c]"
  by (auto simp: key_char_defs char_class_simps)

lemma key_chars_upper: "list_all key_char k \<Longrightarrow> py_upper k = k"
  by (induction k) (auto simp: py_upper_def key_char_upper)

lemma key_char_lower: "key_char (py_lower_char c) \<Longrightarrow> key_char c \<Longrightarrow> py_lower_char c = c"
  by (auto simp: key_char_defs char_class_simps split: if_splits)

lemma key_chars_lower: "list_all key_char (py_lower x) \<Longrightarrow> list_all key_char x \<Longrightarrow> py_lower x = x"
  by (induction x) (auto simp: py_lower_def key_char_lower)

lemma key_char_not_space: "key_char c \<Longrightarrow> \<not> py_isspace_char c"
  by (auto simp: key_char_defs char_class_simps)

lemma key_chars_strip:
  assumes "list_all key_char k"
  shows "py_strip k = k"
proof -
  have "dropWhile py_isspace_char xs = xs" if "list_all key_char xs" for xs
    using that key_char_not_space by (cases xs) auto
  then show ?thesis
    using assms by (simp add: py_strip_def py_lstrip_def py_rstrip_def)
qed

lemma row_wf: "row \<in> set COUNTRY_DATA \<Longrightarrow> wf_row row"
  using rows_wf by (simp add: list_all_iff)

lemma row_key_chars:
  assumes "row \<in> set COUNTRY_DATA" "k \<in> set (row_keys row)"
  shows "list_all key_char k" "k \<noteq> []"
  using row_wf [OF assms(1)] assms(2)
  by (cases row; force simp: list_all_iff key_char_def)+

lemma row_keys_disjoint:
  assumes a: "a \<in> set COUNTRY_DATA" and b: "b \<in> set COUNTRY_DATA"
    and ka: "k \<in> set (row_keys a)" and kb: "k \<in> set (row_keys b)"
  shows "a = b"
proof -
  obtain ca da na where A: "a = (ca, da, na)" by (cases a)
  obtain cb db nb where B: "b = (cb, db, nb)" by (cases b)
  note wa = row_wf [OF a, unfolded A] and wb = row_wf [OF b, unfolded B]
  have kinds: "(k = ca \<and> k = cb) \<or> (k = da \<and> k = db) \<or> (k \<in> set na \<and> k \<in> set nb)"
    using wa wb ka kb unfolding A B
    by (cases k) (auto simp: key_char_defs list_all_iff)
  from kinds show ?thesis
  proof (elim disjE conjE)
    assume "k = ca" "k = cb"
    with A B have "fst a = fst b" by simp
    with codes_distinct a b show ?thesis by (auto simp: distinct_map dest: inj_onD)
  next
    assume "k = da" "k = db"
    with A B have "fst (snd a) = fst (snd b)" by simp
    with dials_distinct a b show ?thesis by (auto simp: distinct_map dest: inj_onD)
  next
    assume "k \<in> set na" "k \<in> set nb"
    with A B show ?thesis
      by (intro distinct_concat_map_inj [OF names_distinct a b, of k]) simp_all
  qed
qed

text \<open>Which keys the index holds, and that a registered spelling leads to its own row.\<close>

lemma row_entries_iff:
  "(k, i) \<in> set (row_entries row) \<longleftrightarrow>
     (\<exists>x \<in> set (row_keys row). i = fst row \<and> (k = x \<or> k = py_upper x \<or> k = py_lower x))"
  unfolding row_entries_def by (simp del: row_keys.simps) blast

lemma set_to_iso_entries:
  "(k, i) \<in> set to_iso_entries \<longleftrightarrow>
     (\<exists>row \<in> set COUNTRY_DATA. \<exists>x \<in> set (row_keys row).
        i = fst row \<and> (k = x \<or> k = py_upper x \<or> k = py_lower x))"
  by (simp add: to_iso_entries_def row_entries_iff del: row_keys.simps)

lemma to_iso_SomeD:
  "to_iso k = Some i \<Longrightarrow>
     \<exists>row \<in> set COUNTRY_DATA. \<exists>x \<in> set (row_keys row).
        i = fst row \<and> (k = x \<or> k = py_upper x \<or> k = py_lower x)"
  unfolding to_iso_def by (drule map_of_SomeD) (simp add: set_to_iso_entries)

lemma to_iso_own_row:
  assumes row: "row \<in> set COUNTRY_DATA" and k: "k \<in> set (row_keys row)"
  shows "to_iso k = Some (fst row)"
proof -
  from row k have "(k, fst row) \<in> set to_iso_entries" by (auto simp: set_to_iso_entries)
  then obtain i where i: "to_iso k = Some i"
    using weak_map_of_SomeI [of k _ "rev to_iso_entries"] by (auto simp: to_iso_def)
  then obtain row' x where r': "row' \<in> set COUNTRY_DATA" "x \<in> set (row_keys row')"
    and ix: "i = fst row'" "k = x \<or> k = py_upper x \<or> k = py_lower x"
    by (blast dest: to_iso_SomeD)
  note kx = row_key_chars(1) [OF r'] and kk = row_key_chars(1) [OF row k]
  from ix(2) have "k = x"
    using key_chars_upper [OF kx] key_chars_lower [of x] kx kk by auto
  with r' k row ix(1) i show ?thesis using row_keys_disjoint by metis
qed

lemma to_iso_head:
  assumes "to_iso k = Some i"
  shows "k \<noteq> [] \<and> hd k \<noteq> 48 \<and> (\<exists>row \<in> set COUNTRY_DATA. i = fst row)"
proof -
  obtain row x where r: "row \<in> set COUNTRY_DATA" "x \<in> set (row_keys row)" "i = fst row"
    "k = x \<or> k = py_upper x \<or> k = py_lower x"
    using to_iso_SomeD [OF assms] by blast
  have x: "x \<noteq> []" "hd x \<noteq> 48" "py_upper x = x"
    using row_wf [OF r(1)] row_key_chars [OF r(1,2)] r(2)
    by (cases row; cases x; auto simp: key_char_defs list_all_iff key_chars_upper)+
  then have "py_lower x \<noteq> [] \<and> hd (py_lower x) \<noteq> 48"
    by (cases x) (auto simp: py_lower_def char_class_simps split: if_splits)
  with x r show ?thesis by auto
qed

lemma iso_lookup_own_row:
  "row \<in> set COUNTRY_DATA \<Longrightarrow> k \<in> set (row_keys row) \<Longrightarrow> iso_lookup k = Some (fst row)"
  by (simp add: iso_lookup_def to_iso_own_row del: row_keys.simps)

lemma own_code_key: "fst row \<in> set (row_keys row)"
  by (cases row) simp

lemma iso_lookup_code:
  assumes "iso_lookup s = Some i"
  obtains row where "row \<in> set COUNTRY_DATA" "i = fst row"
  using assms by (auto simp: iso_lookup_def split: option.splits dest!: to_iso_head)

lemma iso_variants_own_row:
  assumes "row \<in> set COUNTRY_DATA"
  shows "iso_variants (fst row) = Some (dedup (row_keys row))"
proof -
  let ?es = "map (\<lambda>row. (fst row, dedup (row_keys row))) COUNTRY_DATA"
  have "distinct (map fst (rev ?es))"
    using codes_distinct by (simp add: rev_map [symmetric] comp_def)
  moreover have "(fst row, dedup (row_keys row)) \<in> set (rev ?es)"
    using assms by (auto simp del: row_keys.simps)
  ultimately show ?thesis by (simp add: iso_variants_def)
qed

lemma normalize_registered:
  assumes "row \<in> set COUNTRY_DATA" and "k \<in> set (row_keys row)"
  shows "normalize_country_code (Some k) = Some (fst row)"
  using assms row_key_chars [OF assms]
  by (simp add: normalize_country_code_def key_chars_strip iso_lookup_own_row Let_def
           del: row_keys.simps)

section \<open>Properties\<close>

text \<open>every registered spelling of a country (ISO2 code, dialling code, Chinese name)
  normalises to the ISO2 code of its row.\<close>

theorem normalize_registered_spelling:
  assumes "row \<in> set COUNTRY_DATA" and "k \<in> set (row_keys row)"
  shows "normalize_country_code (Some k) = Some (fst row)"
  using assms by (rule normalize_registered)

theorem normalize_registered_spelling_witness:
  "normalize_country_code (Some [27888, 22269]) = Some (asc ''TH'')"
proof -
  have "(asc ''TH'', asc ''66'', [[27888, 22269]]) \<in> set COUNTRY_DATA"
    by (simp add: COUNTRY_DATA_def asc_def)
  from normalize_registered_spelling [OF this, of "[27888, 22269]"] show ?thesis by simp
qed

text \<open>normalisation is idempotent, on every input (also missing, blank and unknown codes).\<close>

theorem normalize_country_code_idem:
  "normalize_country_code (normalize_country_code r) = normalize_country_code r"
proof -
  have known: "normalize_country_code (Some i) = Some i" if "\<exists>row \<in> set COUNTRY_DATA. i = fst row" for i
    using that normalize_registered own_code_key by blast
  have unknown: "normalize_country_code (Some (py_upper (py_strip s))) = Some (py_upper (py_strip s))"
    if s: "py_strip s \<noteq> []" and l: "iso_lookup (py_strip s) = None"
      and h: "(if py_isdigit (py_strip s) \<and> py_lstrip_chars [48] (py_strip s) \<noteq> []
                  \<and> py_lstrip_chars [48] (py_strip s) \<noteq> py_strip s
               then to_iso (py_lstrip_chars [48] (py_strip s)) else None) = None" for s
  proof -
    have "iso_lookup (py_upper (py_strip s)) = None"
      using l by (auto simp: iso_lookup_def split: option.splits)
    moreover have "py_isdigit (py_upper (py_strip s)) \<Longrightarrow> py_upper (py_strip s) = py_strip s"
      by (rule py_isdigit_upper)
    ultimately show ?thesis
      using s h by (auto simp: normalize_country_code_def Let_def split: if_splits)
  qed
  show ?thesis
    using known unknown
    by (auto simp: normalize_country_code_def [of r] Let_def normalize_country_code_def [of None]
                   normalize_country_code_def [of "Some []"]
             split: option.splits if_splits elim!: iso_lookup_code dest!: to_iso_head)
qed

text \<open>a numeric dialling code padded with any number of zeros (accounts store it padded to
  three digits) still normalises to its country.\<close>

theorem normalize_zero_padded_dial:
  assumes row: "(code, dial, names) \<in> set COUNTRY_DATA" and digits: "list_all ascii_digit_char dial"
  shows "normalize_country_code (Some (replicate n 48 @ dial)) = Some code"
proof (cases n)
  case 0
  with normalize_registered [OF row, of dial] show ?thesis by simp
next
  case (Suc m)
  let ?s = "replicate n 48 @ dial"
  have wf: "dial \<noteq> []" "hd dial \<noteq> 48" using row_wf [OF row] by auto
  have kc: "list_all key_char ?s"
    using digits by (auto simp: list_all_iff key_char_def ascii_digit_char_def)
  have "hd ?s = 48" using Suc by simp
  then have "to_iso ?s = None" using to_iso_head [of ?s] by (cases "to_iso ?s") auto
  then have none: "iso_lookup ?s = None"
    using key_chars_upper [OF kc] by (simp add: iso_lookup_def)
  have "dropWhile (\<lambda>c. c = 48) (replicate n 48 @ dial) = dial"
    using wf by (simp add: py_simps dropWhile_eq_self_iff)
  then have ls: "py_lstrip_chars [48] ?s = dial" by (simp add: py_lstrip_chars_def)
  have "py_isdigit ?s"
    using digits wf by (auto simp: py_isdigit_def list_all_iff ascii_digit_char_def char_class_simps)
  moreover have "dial \<noteq> ?s" using Suc by auto
  moreover have "to_iso dial = Some code" using to_iso_own_row [OF row, of dial] by simp
  ultimately show ?thesis
    using none ls wf key_chars_strip [OF kc]
    by (simp add: normalize_country_code_def Let_def)
qed

theorem normalize_zero_padded_dial_witness:
  "normalize_country_code (Some (replicate 1 48 @ asc ''84'')) = Some (asc ''VN'')"
proof -
  have "(asc ''VN'', asc ''84'', [[36234, 21335]]) \<in> set COUNTRY_DATA"
    by (simp add: COUNTRY_DATA_def asc_def)
  moreover have "list_all ascii_digit_char (asc ''84'')" by code_simp
  ultimately show ?thesis by (rule normalize_zero_padded_dial)
qed

text \<open>the spellings used to query a country are exactly the spellings of its row, whichever of
  them is asked for and in whatever order the set is enumerated.\<close>

theorem variants_of_registered_spelling:
  assumes "set_order enum" and "row \<in> set COUNTRY_DATA" and "k \<in> set (row_keys row)"
  shows "set (get_country_variants enum (Some k)) = set (row_keys row)"
  using assms row_key_chars [OF assms(2,3)]
  by (simp add: get_country_variants_def key_chars_strip iso_lookup_own_row iso_variants_own_row
                set_order_def Let_def del: row_keys.simps)

theorem variants_of_registered_spelling_witness:
  "set (get_country_variants rev (Some (asc ''66''))) = {asc ''TH'', asc ''66'', [27888, 22269]}"
proof -
  have "set_order rev" by (simp add: set_order_def)
  moreover have "(asc ''TH'', asc ''66'', [[27888, 22269]]) \<in> set COUNTRY_DATA"
    by (simp add: COUNTRY_DATA_def asc_def)
  ultimately show ?thesis
    using variants_of_registered_spelling
      [of rev "(asc ''TH'', asc ''66'', [[27888, 22269]])" "asc ''66''"] by simp
qed

end
