(* ===== verification/SmsSegment.thy ===== *)
theory SmsSegment
  imports Prelude
begin

text \<open>
  Billing segments of a message, \<open>backend/app/utils/sms_segment.py\<close>: the GSM-7 alphabet and its
  escape table, the white-list normalisation shared by billing and by the text put on the wire,
  the substitution of short-link placeholders, and \<open>count_sms_parts\<close>. Messages are lists of code
  points.
\<close>

section \<open>Alphabets\<close>

definition GSM7_CHARS :: "int list" where
  "GSM7_CHARS = [64, 163, 36, 165, 232, 233, 249, 236, 242, 199, 10, 216, 248, 13, 197, 229, 916, 95, 934,
    915, 923, 937, 928, 936, 931, 920, 926, 198, 230, 223, 201, 32, 33, 34, 35, 164, 37, 38, 39,
    40, 41, 42, 43, 44, 45, 46, 47, 48, 49, 50, 51, 52, 53, 54, 55, 56, 57, 58, 59, 60, 61, 62,
    63, 161, 65, 66, 67, 68, 69, 70, 71, 72, 73, 74, 75, 76, 77, 78, 79, 80, 81, 82, 83, 84, 85,
    86, 87, 88, 89, 90, 196, 214, 209, 220, 167, 191, 97, 98, 99, 100, 101, 102, 103, 104, 105,
    106, 107, 108, 109, 110, 111, 112, 113, 114, 115, 116, 117, 118, 119, 120, 121, 122, 228,
    246, 241, 252, 224]"

definition GSM7_EXT_CHARS :: "int list" where
  "GSM7_EXT_CHARS = [12, 91, 92, 93, 94, 123, 124, 125, 126, 8364]"

fun gsm7_septets_from :: "nat \<Rightarrow> pystr \<Rightarrow> nat option" where
  "gsm7_septets_from acc [] = Some acc"
| "gsm7_septets_from acc (c # cs) =
     (if c \<in> set GSM7_CHARS then gsm7_septets_from (acc + 1) cs
      else if c \<in> set GSM7_EXT_CHARS then gsm7_septets_from (acc + 2) cs
      else None)"

definition gsm7_septet_count :: "pystr \<Rightarrow> nat option" where
  "gsm7_septet_count nrm = gsm7_septets_from 0 nrm"

definition utf16_code_unit_count :: "pystr \<Rightarrow> nat" where
  "utf16_code_unit_count s = sum_list (map (\<lambda>c. if c > 65535 then 2 else 1) s)"

section \<open>Normalisation\<close>

text \<open>NBSP becomes a space, zero-width characters vanish, curly quotes, dashes and the ellipsis
  become ASCII; every other code point is kept.\<close>

definition normalize_char :: "int \<Rightarrow> pystr" where
  "normalize_char c =
     (if c = 160 then [32]
      else if c \<in> {8203, 8204, 8205, 65279} then []
      else if c \<in> {8216, 8217} then [39]
      else if c \<in> {8220, 8221} then [34]
      else if c = 8211 then [45]
      else if c = 8212 then [45]
      else if c = 8230 then [46, 46, 46]
      else [c])"

definition normalize_for_sms_segment_count :: "pystr \<Rightarrow> pystr" where
  "normalize_for_sms_segment_count s = (if s = [] then s else concat (map normalize_char s))"

definition is_gsm7_message :: "pystr \<Rightarrow> bool" where
  "is_gsm7_message message =
     (gsm7_septet_count (normalize_for_sms_segment_count message) \<noteq> None)"

definition sanitize_sms_text_for_wire :: "pystr \<Rightarrow> pystr" where
  "sanitize_sms_text_for_wire message =
     (if message = [] then message else normalize_for_sms_segment_count message)"

section \<open>Short-link placeholders\<close>

definition TRACK_OPEN :: pystr where
  "TRACK_OPEN = asc ''{{TRACK_URL''"

text \<open>
  What the regular expression \<open>(?:=([^}]*))?\}\}\<close> matches right after the opening: the group, if
  it took part, and the text behind the match. \<open>[^}]*\<close> stops at the first closing brace, so no
  shorter choice can succeed where the longest one fails.
\<close>

definition match_track :: "pystr \<Rightarrow> (pystr option \<times> pystr) option" where
  "match_track r =
     (if starts_with [61] r
      then (let inner = takeWhile (\<lambda>c. c \<noteq> 125) (tl r); rest = dropWhile (\<lambda>c. c \<noteq> 125) (tl r)
            in if starts_with [125, 125] rest then Some (Some inner, drop 2 rest) else None)
      else if starts_with [125, 125] r then Some (None, drop 2 r) else None)"

definition track_repl :: "pystr option \<Rightarrow> pystr" where
  "track_repl grp =
     (let inner = (case grp of None \<Rightarrow> [] | Some i \<Rightarrow> i);
          base = (if inner = [] then asc ''klsms.com''
                  else case split_once 124 inner of
                         (_, Some b) \<Rightarrow> if py_strip b \<noteq> [] then py_strip b else asc ''klsms.com''
                       | (_, None) \<Rightarrow> asc ''klsms.com'');
          clean_base = py_rstrip_chars [47] base
      in clean_base @ asc ''/Ab3Xz7q'')"

lemma match_track_shorter: "match_track r = Some (g, t) \<Longrightarrow> length t \<le> length r"
proof -
  have "length (drop 2 (dropWhile (\<lambda>c. c \<noteq> 125) (tl r))) \<le> length r"
    using length_dropWhile_le [of "\<lambda>c. c \<noteq> 125" "tl r"] by simp
  then show "match_track r = Some (g, t) \<Longrightarrow> length t \<le> length r"
    by (auto simp: match_track_def Let_def split: if_splits)
qed

function sub_track_urls :: "pystr \<Rightarrow> pystr" where
  "sub_track_urls [] = []"
| "sub_track_urls (c # cs) =
     (if starts_with TRACK_OPEN (c # cs)
      then (case match_track (drop (length TRACK_OPEN) (c # cs)) of
              Some (g, t) \<Rightarrow> track_repl g @ sub_track_urls t
            | None \<Rightarrow> c # sub_track_urls cs)
      else c # sub_track_urls cs)"
  by pat_completeness auto
termination
proof (relation "measure length", goal_cases)
  case (3 c cs x g t)
  then have "length t \<le> length (drop (length TRACK_OPEN) (c # cs))"
    by (auto dest: match_track_shorter)
  then show ?case by (simp add: TRACK_OPEN_def asc_def)
qed auto

definition substitute_track_url_for_count :: "pystr \<Rightarrow> pystr" where
  "substitute_track_url_for_count message =
     (if message = [] \<or> \<not> contains TRACK_OPEN message then message else sub_track_urls message)"

section \<open>Counting\<close>

text \<open>\<open>parts_of\<close> is the tail of \<open>count_sms_parts\<close>, after the message has been normalised.\<close>

definition parts_of :: "pystr \<Rightarrow> nat" where
  "parts_of nrm =
     (if length nrm = 0 then 0
      else case gsm7_septet_count nrm of
             Some septets \<Rightarrow> if septets \<le> 160 then 1 else (septets + 152) div 153
           | None \<Rightarrow>
               (let units = utf16_code_unit_count nrm
                in if units \<le> 70 then 1 else (units + 66) div 67))"

definition count_sms_parts :: "pystr \<Rightarrow> nat" where
  "count_sms_parts message =
     (let message' = (if message \<noteq> [] \<and> contains TRACK_OPEN message
                      then substitute_track_url_for_count message else message)
      in parts_of (normalize_for_sms_segment_count message'))"

text \<open>The text the bill is computed on.\<close>

definition billed_text :: "pystr \<Rightarrow> pystr" where
  "billed_text message =
     normalize_for_sms_segment_count
       (if contains TRACK_OPEN message then sub_track_urls message else message)"

text \<open>The contract of the count: \<open>k\<close> segments carry the text. One segment holds 160 septets or 70
  UTF-16 units; each of several concatenated ones 153 or 67.\<close>

definition fits_in :: "pystr \<Rightarrow> nat \<Rightarrow> bool" where
  "fits_in nrm k =
     (case gsm7_septet_count nrm of
        Some septets \<Rightarrow> septets \<le> (if k \<le> 1 then 160 * k else 153 * k)
      | None \<Rightarrow> utf16_code_unit_count nrm \<le> (if k \<le> 1 then 70 * k else 67 * k))"

section \<open>Lemmas\<close>

lemma count_sms_parts_billed: "count_sms_parts m = parts_of (billed_text m)"
  by (auto simp: count_sms_parts_def billed_text_def substitute_track_url_for_count_def)

lemma gsm7_septets_from_acc:
  "gsm7_septets_from acc s = map_option (\<lambda>n. acc + n) (gsm7_septets_from 0 s)"
proof (induction s arbitrary: acc)
  case Nil
  then show ?case by simp
next
  case (Cons c cs)
  from Cons.IH [of "acc + 1"] Cons.IH [of "acc + 2"] Cons.IH [of 1] Cons.IH [of 2]
  show ?case
    by (cases "gsm7_septets_from 0 cs") (simp_all add: numeral_2_eq_2)
qed

lemma gsm7_septet_count_Nil [simp]: "gsm7_septet_count [] = Some 0"
  by (simp add: gsm7_septet_count_def)

lemma gsm7_septet_count_Cons:
  "gsm7_septet_count (c # cs) =
     (if c \<in> set GSM7_CHARS then map_option (\<lambda>n. 1 + n) (gsm7_septet_count cs)
      else if c \<in> set GSM7_EXT_CHARS then map_option (\<lambda>n. 2 + n) (gsm7_septet_count cs)
      else None)"
  using gsm7_septets_from_acc [of 1 cs] gsm7_septets_from_acc [of 2 cs]
  by (cases "gsm7_septets_from 0 cs") (simp_all add: gsm7_septet_count_def numeral_2_eq_2)

lemma gsm7_septet_count_append:
  "gsm7_septet_count (xs @ ys) =
     (case gsm7_septet_count xs of None \<Rightarrow> None
      | Some a \<Rightarrow> map_option (\<lambda>n. a + n) (gsm7_septet_count ys))"
proof (induction xs)
  case Nil
  then show ?case by (cases "gsm7_septet_count ys") simp_all
next
  case (Cons c cs)
  then show ?case
    by (cases "gsm7_septet_count cs"; cases "gsm7_septet_count ys")
       (simp_all add: gsm7_septet_count_Cons)
qed

lemma gsm7_septet_count_bounds:
  "gsm7_septet_count s = Some n \<Longrightarrow> length s \<le> n \<and> n \<le> 2 * length s"
proof (induction s arbitrary: n)
  case Nil
  then show ?case by simp
next
  case (Cons c cs)
  then show ?case by (fastforce simp: gsm7_septet_count_Cons split: if_splits)
qed

lemma utf16_append [simp]:
  "utf16_code_unit_count (xs @ ys) = utf16_code_unit_count xs + utf16_code_unit_count ys"
  by (simp add: utf16_code_unit_count_def)

lemma utf16_bounds:
  "length s \<le> utf16_code_unit_count s \<and> utf16_code_unit_count s \<le> 2 * length s"
  by (induction s) (auto simp: utf16_code_unit_count_def)

lemma ceil_153: "(u + 152) div 153 \<le> (k::nat) \<longleftrightarrow> u \<le> 153 * k"
  by arith

lemma ceil_67: "(u + 66) div 67 \<le> (k::nat) \<longleftrightarrow> u \<le> 67 * k"
  by arith

lemma parts_of_fits: "fits_in nrm (parts_of nrm)"
proof (cases "gsm7_septet_count nrm")
  case None
  then show ?thesis
    using ceil_67 [of "utf16_code_unit_count nrm" "(utf16_code_unit_count nrm + 66) div 67"]
    by (auto simp: fits_in_def parts_of_def Let_def)
next
  case (Some n)
  then show ?thesis
    using ceil_153 [of n "(n + 152) div 153"] gsm7_septet_count_bounds [OF Some]
    by (auto simp: fits_in_def parts_of_def)
qed

lemma parts_of_least: "fits_in nrm k \<Longrightarrow> parts_of nrm \<le> k"
proof (cases "gsm7_septet_count nrm")
  case None
  assume "fits_in nrm k"
  moreover have "nrm \<noteq> []" using None by auto
  ultimately show ?thesis
    using None ceil_67 [of "utf16_code_unit_count nrm" k] utf16_bounds [of nrm]
    by (cases k) (auto simp: fits_in_def parts_of_def Let_def split: if_splits)
next
  case (Some n)
  assume "fits_in nrm k"
  with Some show ?thesis
    using ceil_153 [of n k] gsm7_septet_count_bounds [OF Some]
    by (cases k) (auto simp: fits_in_def parts_of_def split: if_splits)
qed

lemma parts_of_append: "parts_of xs \<le> parts_of (xs @ ys)"
proof (cases "gsm7_septet_count (xs @ ys)")
  case None
  let ?u = "utf16_code_unit_count (xs @ ys)"
  show ?thesis
  proof (cases "gsm7_septet_count xs")
    case inner: None
    have "fits_in xs (parts_of (xs @ ys))"
      using parts_of_fits [of "xs @ ys"] None inner by (auto simp: fits_in_def)
    then show ?thesis by (rule parts_of_least)
  next
    case (Some s)
    with None have "ys \<noteq> []" by auto
    then have "length xs + 1 \<le> ?u" using utf16_bounds [of "xs @ ys"] by (cases ys) auto
    moreover from Some have "s \<le> 2 * length xs" by (simp add: gsm7_septet_count_bounds)
    ultimately have "s + 2 \<le> 2 * ?u" by linarith
    moreover have "fits_in (xs @ ys) (parts_of (xs @ ys))" by (rule parts_of_fits)
    ultimately have "fits_in xs (parts_of (xs @ ys))"
      using None Some by (auto simp: fits_in_def split: if_splits)
    then show ?thesis by (rule parts_of_least)
  qed
next
  case (Some n)
  then obtain s where "gsm7_septet_count xs = Some s" "s \<le> n"
    by (auto simp: gsm7_septet_count_append split: option.splits)
  with Some have "fits_in xs (parts_of (xs @ ys))"
    using parts_of_fits [of "xs @ ys"] by (auto simp: fits_in_def)
  then show ?thesis by (rule parts_of_least)
qed

lemma normalize_char_fixed: "d \<in> set (normalize_char c) \<Longrightarrow> normalize_char d = [d]"
  by (auto simp: normalize_char_def split: if_splits)

lemma normalize_eq_concat: "normalize_for_sms_segment_count s = concat (map normalize_char s)"
  by (simp add: normalize_for_sms_segment_count_def)

lemma normalize_append:
  "normalize_for_sms_segment_count (xs @ ys) =
     normalize_for_sms_segment_count xs @ normalize_for_sms_segment_count ys"
  by (simp add: normalize_eq_concat)

lemma normalize_fixed:
  "(\<forall>d \<in> set s. normalize_char d = [d]) \<Longrightarrow> normalize_for_sms_segment_count s = s"
  by (induction s) (auto simp: normalize_eq_concat)

lemma normalize_idem [simp]:
  "normalize_for_sms_segment_count (normalize_for_sms_segment_count s) =
     normalize_for_sms_segment_count s"
  by (rule normalize_fixed) (auto simp: normalize_eq_concat dest: normalize_char_fixed)

lemma sanitize_eq: "sanitize_sms_text_for_wire m = normalize_for_sms_segment_count m"
  by (simp add: sanitize_sms_text_for_wire_def normalize_for_sms_segment_count_def)

section \<open>Properties\<close>


text \<open>the text put on the wire is a fixed point of the normalisation, and it is GSM-7
  encodable exactly when the message was billed as GSM-7.\<close>

theorem wire_text_matches_billing:
  "sanitize_sms_text_for_wire (sanitize_sms_text_for_wire m) = sanitize_sms_text_for_wire m
   \<and> (gsm7_septet_count (sanitize_sms_text_for_wire m) \<noteq> None) = is_gsm7_message m"
  by (simp add: sanitize_eq is_gsm7_message_def)

text \<open>a message without short-link placeholders is never billed less when text is appended,
  also when the addition switches the encoding from GSM-7 to UCS-2.\<close>

theorem count_sms_parts_monotone:
  assumes "\<not> contains TRACK_OPEN (m @ n)"
  shows "count_sms_parts m \<le> count_sms_parts (m @ n)"
proof -
  have "\<not> contains TRACK_OPEN m"
    using assms by (auto simp: contains_iff) (metis append.assoc)
  with assms show ?thesis
    by (simp add: count_sms_parts_billed billed_text_def normalize_append parts_of_append)
qed

theorem count_sms_parts_monotone_witness:
  "\<not> contains TRACK_OPEN (asc ''[ok]'' @ [8364, 20013])
   \<and> count_sms_parts (asc ''[ok]'') \<le> count_sms_parts (asc ''[ok]'' @ [8364, 20013])"
proof -
  have h: "\<not> contains TRACK_OPEN (asc ''[ok]'' @ [8364, 20013])" by code_simp
  show ?thesis using h count_sms_parts_monotone [OF h] by simp
qed

end
