(* ===== verification/Pricing.thy ===== *)
theory Pricing
  imports ChannelConfig CountryCode SmsSegment
begin

text \<open>
  The billing engine, \<open>backend/app/core/pricing.py\<close>: the cost of a message on a channel, the sales
  price of an account, billing units and the charge. Every read that the code memoises in Redis is
  split into the part that asks the tables (\<open>_db\<close>) and the cached read around it. Results of the
  charge keep exact amounts where the code converts to \<open>float\<close>.
\<close>

section \<open>Cost\<close>

text \<open>\<open>ORDER BY effective_date DESC LIMIT 1\<close>\<close>

definition latest_pricing :: "country_pricing list \<Rightarrow> country_pricing option" where
  "latest_pricing rows =
     (case rows of [] \<Rightarrow> None | r # rs \<Rightarrow> Some (max_by_from effective_date r rs))"

definition pricing_upper :: "world \<Rightarrow> int \<Rightarrow> pystr \<Rightarrow> country_pricing option" where
  "pricing_upper w chan cc =
     latest_pricing (filter (\<lambda>p. cp_channel_id p = chan \<and> py_upper (cp_country_code p) = cc)
                            (country_pricings w))"

definition pricing_exact :: "world \<Rightarrow> int \<Rightarrow> pystr \<Rightarrow> country_pricing option" where
  "pricing_exact w chan cc =
     latest_pricing (filter (\<lambda>p. cp_channel_id p = chan \<and> cp_country_code p = cc)
                            (country_pricings w))"

text \<open>The country codes tried for the cost, in order: the ISO2 code, then every other spelling.\<close>

definition ordered_codes :: "(pystr list \<Rightarrow> pystr list) \<Rightarrow> pystr \<Rightarrow> pystr list" where
  "ordered_codes enum country_code =
     (let n = normalize_country_code (Some country_code);
          iso_upper = py_upper (py_strip (case n of None \<Rightarrow> [] | Some s \<Rightarrow> s))
      in dedup ((if iso_upper \<noteq> [] then [iso_upper] else [])
                @ filter (\<lambda>c. c \<noteq> [])
                    (map (\<lambda>c. py_upper (py_strip c))
                         (get_country_variants enum (Some country_code)))))"

fun first_positive_cost :: "world \<Rightarrow> int \<Rightarrow> pystr list \<Rightarrow> money option" where
  "first_positive_cost w chan [] = None"
| "first_positive_cost w chan (cc # ccs) =
     (case pricing_upper w chan cc of
        Some p \<Rightarrow> if price_per_sms p > 0 then Some (price_per_sms p)
                  else first_positive_cost w chan ccs
      | None \<Rightarrow> first_positive_cost w chan ccs)"

definition base_cost_db ::
    "(pystr list \<Rightarrow> pystr list) \<Rightarrow> world \<Rightarrow> int \<Rightarrow> pystr \<Rightarrow> channel option \<Rightarrow> money outcome" where
  "base_cost_db enum w chan country_code channel =
     (let ch = (case channel of None \<Rightarrow> channel_by_id w chan | Some c \<Rightarrow> Some c)
      in case first_positive_cost w chan (ordered_codes enum country_code) of
           Some p \<Rightarrow> Inr p
         | None \<Rightarrow>
             (case (case pricing_exact w chan (asc ''*'') of
                      Some pw \<Rightarrow> if price_per_sms pw > 0 then Some (price_per_sms pw) else None
                    | None \<Rightarrow> None) of
                Some p \<Rightarrow> Inr p
              | None \<Rightarrow>
                  (case (case ch of
                           Some c \<Rightarrow> (case cost_rate c of
                                        Some r \<Rightarrow> if r > 0 then Some r else None
                                      | None \<Rightarrow> None)
                         | None \<Rightarrow> None) of
                     Some r \<Rightarrow> Inr r
                   | None \<Rightarrow>
                       (case ch of
                          Some c \<Rightarrow> if ch_protocol c = VIRTUAL then Inr 0
                                    else Inl (PricingNotFoundError country_code chan)
                        | None \<Rightarrow> Inl (PricingNotFoundError country_code chan)))))"

definition resolve_base_cost_per_sms ::
    "(pystr list \<Rightarrow> pystr list) \<Rightarrow> world \<Rightarrow> int \<Rightarrow> pystr \<Rightarrow> channel option
       \<Rightarrow> money outcome \<times> world" where
  "resolve_base_cost_per_sms enum w chan country_code channel =
     (case cost_cache w (chan, country_code) of
        Some c \<Rightarrow> (Inr c, w)
      | None \<Rightarrow>
          (case base_cost_db enum w chan country_code channel of
             Inl e \<Rightarrow> (Inl e, w)
           | Inr c \<Rightarrow> (Inr c, w\<lparr>cost_cache := (cost_cache w)((chan, country_code) \<mapsto> c)\<rparr>)))"

section \<open>Billing units\<close>

definition is_rcs_db :: "world \<Rightarrow> int \<Rightarrow> bool outcome" where
  "is_rcs_db w chan =
     is_rcs (case channel_by_id w chan of
               Some c \<Rightarrow> c
             | None \<Rightarrow> (new_channel chan [] HTTP)\<lparr>config_json := NullText\<rparr>)"

definition is_rcs_channel :: "world \<Rightarrow> int \<Rightarrow> channel option \<Rightarrow> bool outcome \<times> world" where
  "is_rcs_channel w chan channel =
     (case channel of
        Some c \<Rightarrow> (is_rcs c, w)
      | None \<Rightarrow>
          (case rcs_cache w chan of
             Some b \<Rightarrow> (Inr b, w)
           | None \<Rightarrow>
               (case is_rcs_db w chan of
                  Inl e \<Rightarrow> (Inl e, w)
                | Inr b \<Rightarrow> (Inr b, w\<lparr>rcs_cache := (rcs_cache w)(chan \<mapsto> b)\<rparr>))))"

definition billable_units :: "pystr \<Rightarrow> bool \<Rightarrow> nat" where
  "billable_units msg rcs = (if rcs then 1 else count_sms_parts msg)"

section \<open>Sales price\<close>

definition price_key :: "int \<Rightarrow> pystr \<Rightarrow> pystr option \<Rightarrow> int option \<Rightarrow> price_key" where
  "price_key chan country_code mnc account_id =
     (truthy_id account_id, chan, country_code,
      case mnc of Some m \<Rightarrow> if m = [] then asc ''default'' else m | None \<Rightarrow> asc ''default'')"

definition unit_price_info :: "world \<Rightarrow> int option \<Rightarrow> price_info option" where
  "unit_price_info w account_id =
     (case truthy_id account_id of
        None \<Rightarrow> None
      | Some i \<Rightarrow>
          (case account_by_id w i of
             None \<Rightarrow> None
           | Some a \<Rightarrow>
               (case unit_price a of
                  Some up \<Rightarrow>
                    if up \<ge> 0
                    then Some \<lparr>pi_price = up,
                               pi_currency = (if acc_currency a = [] then asc ''USD''
                                              else acc_currency a),
                               pi_source = FromAccountUnitPrice\<rparr>
                    else None
                | None \<Rightarrow> None)))"

definition account_pricing_rows :: "world \<Rightarrow> int \<Rightarrow> pystr \<Rightarrow> account_pricing list" where
  "account_pricing_rows w i country_code =
     filter (\<lambda>p. ap_account_id p = i \<and> ap_country_code p = country_code
                 \<and> ap_business_type p = asc ''sms'')
            (account_pricings w)"

definition country_price_info :: "world \<Rightarrow> int \<Rightarrow> pystr \<Rightarrow> price_info option" where
  "country_price_info w chan country_code =
     (case pricing_exact w chan country_code of
        Some p \<Rightarrow> Some \<lparr>pi_price = price_per_sms p, pi_currency = cp_currency p,
                         pi_source = FromCountry (country_name p)\<rparr>
      | None \<Rightarrow>
          (case pricing_exact w chan (asc ''*'') of
             Some p \<Rightarrow> Some \<lparr>pi_price = price_per_sms p, pi_currency = cp_currency p,
                              pi_source = FromCountry
                                (case country_name p of
                                   Some n \<Rightarrow> Some (if n = [] then [20840, 29699] else n)
                                 | None \<Rightarrow> Some [20840, 29699])\<rparr>
           | None \<Rightarrow> None))"

definition price_db ::
    "world \<Rightarrow> int \<Rightarrow> pystr \<Rightarrow> int option \<Rightarrow> price_info option outcome" where
  "price_db w chan country_code account_id =
     (case unit_price_info w account_id of
        Some p \<Rightarrow> Inr (Some p)
      | None \<Rightarrow>
          (case (case truthy_id account_id of
                   None \<Rightarrow> NoRow
                 | Some i \<Rightarrow> one_or_none (account_pricing_rows w i country_code)) of
             ManyRows \<Rightarrow> Inl MultipleResultsFound
           | OneRow p \<Rightarrow> Inr (Some \<lparr>pi_price = ap_price p, pi_currency = asc ''USD'',
                                      pi_source = FromAccountCountryPricing\<rparr>)
           | NoRow \<Rightarrow> Inr (country_price_info w chan country_code)))"

definition get_price ::
    "world \<Rightarrow> int \<Rightarrow> pystr \<Rightarrow> pystr option \<Rightarrow> int option
       \<Rightarrow> price_info option outcome \<times> world" where
  "get_price w chan country_code mnc account_id =
     (let key = price_key chan country_code mnc account_id
      in case price_cache w key of
           Some p \<Rightarrow> (Inr (Some p), w)
         | None \<Rightarrow>
             (case price_db w chan country_code account_id of
                Inl e \<Rightarrow> (Inl e, w)
              | Inr None \<Rightarrow> (Inr None, w)
              | Inr (Some p) \<Rightarrow> (Inr (Some p), w\<lparr>price_cache := (price_cache w)(key \<mapsto> p)\<rparr>)))"

section \<open>Charging\<close>

record charge_result =
  total_cost :: money
  total_base_cost :: money
  cr_message_count :: nat
  cr_price_per_sms :: money
  base_cost_per_sms :: money
  cr_currency :: pystr
  balance_after :: "money option"

datatype charge_answer = AccountNotFound | Charged charge_result

text \<open>Steps 1 to 4: the units, the two unit prices and the currency.\<close>

definition quote_message ::
    "(pystr list \<Rightarrow> pystr list) \<Rightarrow> world \<Rightarrow> int \<Rightarrow> int \<Rightarrow> pystr \<Rightarrow> pystr \<Rightarrow> pystr option
       \<Rightarrow> channel option \<Rightarrow> (nat \<times> price_info \<times> money) outcome \<times> world" where
  "quote_message enum w account_id chan country_code msg mnc channel =
     (case is_rcs_channel w chan channel of
        (Inl e, w1) \<Rightarrow> (Inl e, w1)
      | (Inr rcs, w1) \<Rightarrow>
          (case get_price w1 chan country_code mnc (Some account_id) of
             (Inl e, w2) \<Rightarrow> (Inl e, w2)
           | (Inr None, w2) \<Rightarrow> (Inl (PricingNotFoundError country_code chan), w2)
           | (Inr (Some p), w2) \<Rightarrow>
               (case resolve_base_cost_per_sms enum w2 chan country_code channel of
                  (Inl e, w3) \<Rightarrow> (Inl e, w3)
                | (Inr c, w3) \<Rightarrow> (Inr (billable_units msg rcs, p, c), w3))))"

definition calculate_and_charge ::
    "(pystr list \<Rightarrow> pystr list) \<Rightarrow> world \<Rightarrow> int \<Rightarrow> int \<Rightarrow> pystr \<Rightarrow> pystr \<Rightarrow> pystr option
       \<Rightarrow> channel option \<Rightarrow> bool \<Rightarrow> charge_answer outcome \<times> world" where
  "calculate_and_charge enum w account_id chan country_code msg mnc channel skip_balance_log =
     (case quote_message enum w account_id chan country_code msg mnc channel of
        (Inl e, w1) \<Rightarrow> (Inl e, w1)
      | (Inr (units, p, c), w1) \<Rightarrow>
          (let total_sell = pi_price p * of_nat units;
               total_base = c * of_nat units
           in case account_by_id w1 account_id of
                None \<Rightarrow> (Inr AccountNotFound, w1)
              | Some a \<Rightarrow>
                  (let guard = (if payment_type a = Postpaid then (\<lambda>_. True)
                                else (\<lambda>r. balance r \<ge> total_sell));
                       (n, w2) = add_balance_where guard account_id (- total_sell) w1;
                       result = \<lparr>total_cost = total_sell, total_base_cost = total_base,
                                 cr_message_count = units, cr_price_per_sms = pi_price p,
                                 base_cost_per_sms = c, cr_currency = pi_currency p,
                                 balance_after = None\<rparr>
                   in if n = 0 then (Inl (InsufficientBalanceError total_sell (balance a)), w1)
                      else if skip_balance_log then (Inr (Charged result), w2)
                      else (case balance_of w2 account_id of
                              None \<Rightarrow> (Inl PyException, w2)
                            | Some b \<Rightarrow>
                                (Inr (Charged (result\<lparr>balance_after := Some b\<rparr>)),
                                 log_balance account_id Charge (- total_sell) b w2)))))"

section \<open>The cached reads as memoised reads\<close>

text \<open>The sales price as a memoised read: only a found price is stored.\<close>

fun price_answer :: "price_info option outcome \<Rightarrow> exn option + price_info" where
  "price_answer (Inl e) = Inl (Some e)"
| "price_answer (Inr None) = Inl None"
| "price_answer (Inr (Some p)) = Inr p"

type_synonym price_args = "int \<times> pystr \<times> pystr option \<times> int option"

fun price_args_key :: "price_args \<Rightarrow> price_key" where
  "price_args_key (chan, cc, mnc, i) = price_key chan cc mnc i"

fun price_fetch :: "world \<Rightarrow> price_args \<Rightarrow> (exn option + price_info) \<times> world" where
  "price_fetch w (chan, cc, mnc, i) = map_prod price_answer id (get_price w chan cc mnc i)"

fun price_direct :: "world \<Rightarrow> price_args \<Rightarrow> exn option + price_info" where
  "price_direct w (chan, cc, mnc, i) = price_answer (price_db w chan cc i)"

lemma price_answer_inj: "price_answer x = price_answer y \<Longrightarrow> x = y"
  by (cases x rule: price_answer.cases; cases y rule: price_answer.cases) auto

lemma price_db_cache [simp]: "price_db (w\<lparr>price_cache := pc\<rparr>) = price_db w"
  "base_cost_db enum (w\<lparr>cost_cache := cc\<rparr>) = base_cost_db enum w"
  "is_rcs_db (w\<lparr>rcs_cache := rc\<rparr>) = is_rcs_db w"
proof -
  have fp: "first_positive_cost (w\<lparr>cost_cache := cc\<rparr>) chan xs = first_positive_cost w chan xs" for chan xs
    by (induction xs) (auto simp: pricing_upper_def split: option.splits)
  show "price_db (w\<lparr>price_cache := pc\<rparr>) = price_db w"
    by (intro ext) (simp add: price_db_def unit_price_info_def account_by_id_def
          account_pricing_rows_def country_price_info_def pricing_exact_def
          cong: option.case_cong fetched.case_cong)
  show "base_cost_db enum (w\<lparr>cost_cache := cc\<rparr>) = base_cost_db enum w"
    by (intro ext) (simp add: base_cost_db_def channel_by_id_def pricing_exact_def fp
          cong: option.case_cong)
  show "is_rcs_db (w\<lparr>rcs_cache := rc\<rparr>) = is_rcs_db w"
    by (intro ext) (simp add: is_rcs_db_def channel_by_id_def)
qed

lemma price_db_key:
  assumes "price_key chan cc mnc i = price_key chan' cc' mnc' i'"
  shows "price_db w chan cc i = price_db w chan' cc' i'"
  using assms
  by (simp add: price_key_def price_db_def unit_price_info_def cong: option.case_cong)

interpretation price: read_through price_fetch price_args_key price_cache price_direct
proof
  fix w :: world and a v
  assume "price_cache w (price_args_key a) = Some v"
  then show "price_fetch w a = (Inr v, w)"
    by (cases a) (simp add: get_price_def)
next
  fix w :: world and a assume "price_cache w (price_args_key a) = None"
  then show "fst (price_fetch w a) = price_direct w a"
    by (cases a) (auto simp: get_price_def split: sum.splits option.splits)
next
  fix w :: world and a v k
  assume "price_cache w (price_args_key a) = None" "price_direct w a = Inr v"
  then show "price_cache (snd (price_fetch w a)) k =
               (if k = price_args_key a then Some v else price_cache w k)"
    by (cases a) (auto simp: get_price_def Let_def split: sum.splits option.splits)
next
  fix w :: world and a e
  assume "price_cache w (price_args_key a) = None" "price_direct w a = Inl e"
  then show "price_cache (snd (price_fetch w a)) = price_cache w"
    by (cases a) (auto simp: get_price_def Let_def split: sum.splits option.splits)
next
  fix w a b
  show "price_direct (snd (price_fetch w a)) b = price_direct w b"
    by (cases a; cases b) (auto simp: get_price_def Let_def split: sum.splits option.splits)
next
  fix a b w assume "price_args_key a = price_args_key b"
  then show "price_direct w a = price_direct w b"
    by (cases a; cases b) (auto intro!: arg_cong [where f = price_answer] price_db_key)
qed

text \<open>The cost of a channel and country, the channel taken from its table.\<close>

definition cost_fetch ::
    "(pystr list \<Rightarrow> pystr list) \<Rightarrow> world \<Rightarrow> int \<times> pystr \<Rightarrow> money outcome \<times> world" where
  "cost_fetch enum w a = resolve_base_cost_per_sms enum w (fst a) (snd a) None"

definition cost_direct ::
    "(pystr list \<Rightarrow> pystr list) \<Rightarrow> world \<Rightarrow> int \<times> pystr \<Rightarrow> money outcome" where
  "cost_direct enum w a = base_cost_db enum w (fst a) (snd a) None"

interpretation cost: read_through "cost_fetch enum" id cost_cache "cost_direct enum" for enum
  by unfold_locales
     (auto simp: cost_fetch_def cost_direct_def resolve_base_cost_per_sms_def
           split: sum.splits option.splits)

text \<open>The RCS discriminator of a channel the caller does not hold.\<close>

definition rcs_fetch :: "world \<Rightarrow> int \<Rightarrow> bool outcome \<times> world" where
  "rcs_fetch w chan = is_rcs_channel w chan None"

interpretation rcs: read_through rcs_fetch id rcs_cache is_rcs_db
  by unfold_locales
     (auto simp: rcs_fetch_def is_rcs_channel_def split: sum.splits option.splits)

section \<open>Lemmas on the charge\<close>

lemma get_price_tables: "get_price w chan cc mnc i = (r, w') \<Longrightarrow> same_tables w w'"
  by (auto simp: get_price_def Let_def split: sum.splits option.splits)

lemma resolve_cost_tables: "resolve_base_cost_per_sms enum w chan cc ch = (r, w') \<Longrightarrow> same_tables w w'"
  by (auto simp: resolve_base_cost_per_sms_def split: sum.splits option.splits)

lemma is_rcs_channel_tables: "is_rcs_channel w chan ch = (r, w') \<Longrightarrow> same_tables w w'"
  by (auto simp: is_rcs_channel_def split: sum.splits option.splits)

lemma quote_tables:
  "quote_message enum w i chan cc msg mnc ch = (r, w') \<Longrightarrow> same_tables w w'"
  unfolding quote_message_def
  by (auto split: prod.splits sum.splits option.splits dest!: get_price_tables resolve_cost_tables
        is_rcs_channel_tables intro: same_tables_trans)

text \<open>Either a charge leaves every table alone, or it moves exactly its total cost out of the
  account it names, and logs the movement unless it runs in batch mode.\<close>

lemma charge_cases:
  assumes wf: "wf_world w"
    and run: "calculate_and_charge enum w i chan cc msg mnc ch skip = (ans, w')"
  obtains (untouched) "same_tables w w'" "\<forall>r. ans \<noteq> Inr (Charged r)"
  | (charged) r a w1 p where "ans = Inr (Charged r)" "same_tables w w1"
      "account_by_id w i = Some a" "payment_type a = Prepaid \<Longrightarrow> total_cost r \<le> balance a" "p a"
      "w' = (let w2 = snd (add_balance_where p i (- total_cost r) w1)
             in if skip then w2
                else log_balance i Charge (- total_cost r) (balance a - total_cost r) w2)"
      "balance_after r = (if skip then None else Some (balance a - total_cost r))"
      "total_cost r = cr_price_per_sms r * of_nat (cr_message_count r)"
proof -
  obtain q w1 where q: "quote_message enum w i chan cc msg mnc ch = (q, w1)" by force
  then have st: "same_tables w w1" by (rule quote_tables)
  show thesis
  proof (cases q)
    case (Inl e)
    with q run st show ?thesis by (auto simp: calculate_and_charge_def intro: untouched)
  next
    case (Inr v)
    obtain units p c where v: "v = (units, p, c)" by (cases v)
    let ?t = "pi_price p * of_nat units"
    show ?thesis
    proof (cases "account_by_id w1 i")
      case None
      with q run st Inr v show ?thesis
        by (auto simp: calculate_and_charge_def Let_def intro: untouched)
    next
      case (Some a)
      define g :: "account \<Rightarrow> bool" where "g = (if payment_type a = Postpaid then (\<lambda>_. True) else (\<lambda>r. balance r \<ge> ?t))"
      have wf1: "distinct (map acc_id (accounts w1))"
        using wf st by (simp add: same_tables_def wf_world_def)
      note row = add_balance_own_row(1,2) [OF wf1 Some, where p = g and d = "- ?t"]
      have fst1: "fst (add_balance_where g i (- ?t) w1) = (if g a then 1 else 0)" by (rule row)
      obtain n w2 where upd: "add_balance_where g i (- ?t) w1 = (n, w2)" by force
      show ?thesis
      proof (cases "g a")
        case False
        with fst1 upd have "n = 0" by simp
        with q run st Inr v Some upd show ?thesis
          by (auto simp: calculate_and_charge_def Let_def g_def intro: untouched)
      next
        case True
        with fst1 upd have n: "n = 1" by simp
        from True row(2) upd have bal: "balance_of w2 i = Some (balance a - ?t)" by simp
        from st Some have aw: "account_by_id w i = Some a" by (simp add: same_tables_queries)
        show ?thesis
        proof (rule charged [of "\<lparr>total_cost = ?t, total_base_cost = c * of_nat units,
                 cr_message_count = units, cr_price_per_sms = pi_price p, base_cost_per_sms = c,
                 cr_currency = pi_currency p,
                 balance_after = (if skip then None else Some (balance a - ?t))\<rparr>" w1 a g])
          show "payment_type a = Prepaid \<Longrightarrow>
                  total_cost \<lparr>total_cost = ?t, total_base_cost = c * of_nat units,
                    cr_message_count = units, cr_price_per_sms = pi_price p,
                    base_cost_per_sms = c, cr_currency = pi_currency p,
                    balance_after = (if skip then None else Some (balance a - ?t))\<rparr>
                  \<le> balance a"
            using True by (simp add: g_def)
        qed (use q run st Inr v Some upd n True bal aw in
              \<open>auto simp: calculate_and_charge_def Let_def g_def split: if_splits\<close>)
      qed
    qed
  qed
qed

lemma first_positive_cost_pos: "first_positive_cost w chan xs = Some c \<Longrightarrow> 0 < c"
  by (induction xs) (auto split: option.splits if_splits)

lemma ordered_codes_registered:
  assumes row: "row \<in> set COUNTRY_DATA" and k: "k \<in> set (row_keys row)"
  shows "\<exists>rest. ordered_codes enum k = fst row # rest"
proof -
  note kc = row_key_chars [OF row own_code_key]
  have "py_upper (py_strip (fst row)) = fst row"
    using kc by (simp add: key_chars_strip key_chars_upper)
  then show ?thesis
    using kc(2) key_chars_strip [OF kc(1)] normalize_registered [OF row k]
    by (simp add: ordered_codes_def Let_def dedup_def del: row_keys.simps)
qed

text \<open>A world to evaluate in: a prepaid customer (1) with a unit price of 0.05 and 10.00 on the
  account, a postpaid one (2) without money, and an SMPP channel that costs 0.01.\<close>

definition demo_world :: world where
  "demo_world = empty_world
     \<lparr>accounts := [(new_account 1 (asc ''a'')) \<lparr>unit_price := Some (5 / 100), balance := 10\<rparr>,
                   (new_account 2 (asc ''b''))
                     \<lparr>unit_price := Some (5 / 100), payment_type := Postpaid\<rparr>],
      channels := [(new_channel 7 (asc ''c'') SMPP) \<lparr>cost_rate := Some (1 / 100)\<rparr>],
      cost_cache := [(7, asc ''TH'') \<mapsto> 1 / 100]\<rparr>"

definition demo_charge :: "int \<Rightarrow> bool \<Rightarrow> charge_answer outcome \<times> world" where
  "demo_charge i skip =
     calculate_and_charge id demo_world i 7 (asc ''TH'') (asc ''hello'') None None skip"

lemma demo_units: "count_sms_parts [104, 101, 108, 108, 111] = 1"
  by code_simp

lemmas demo_defs =
  demo_charge_def demo_world_def empty_world_def new_account_def new_channel_def
  calculate_and_charge_def quote_message_def is_rcs_channel_def is_rcs_db_def is_rcs_def
  get_gateway_config_def obj_get_def json_get_def get_price_def price_key_def truthy_id_def
  price_db_def unit_price_info_def account_by_id_def channel_by_id_def
  resolve_base_cost_per_sms_def billable_units_def add_balance_where_def rowcount_def
  upd_where_def balance_of_def log_balance_def asc_def Let_def demo_units

lemma demo_wf: "wf_world demo_world" and demo_covered: "prepaid_covered demo_world"
  by (simp_all add: demo_defs wf_world_def prepaid_covered_def)

lemma demo_charged:
  "\<exists>r w'. demo_charge 1 False = (Inr (Charged r), w') \<and> total_cost r = 5 / 100"
  "\<exists>r w'. demo_charge 2 False = (Inr (Charged r), w') \<and> total_cost r = 5 / 100"
  by (simp_all add: demo_defs)

section \<open>Properties\<close>

lemma charge_moves:
  assumes "wf_world w"
    and "calculate_and_charge enum w i chan cc msg mnc ch skip = (Inr (Charged r), w')"
  shows "\<exists>a. account_by_id w i = Some a
          \<and> balance_of w' i = Some (balance a - total_cost r)
          \<and> (\<forall>j. j \<noteq> i \<longrightarrow> account_by_id w' j = account_by_id w j)
          \<and> total_cost r = cr_price_per_sms r * of_nat (cr_message_count r)
          \<and> (payment_type a = Prepaid \<longrightarrow> total_cost r \<le> balance a)
          \<and> balance_logs w' = balance_logs w
              @ (if skip then []
                 else [\<lparr>bl_account_id = i, bl_change_type = Charge, bl_amount = - total_cost r,
                        bl_balance_after = balance a - total_cost r, related_order_id = None,
                        bl_created_at = now w\<rparr>])"
  using assms
proof (cases rule: charge_cases)
  case untouched
  then show ?thesis by simp
next
  case (charged r' a w1 p)
  have wf1: "distinct (map acc_id (accounts w1))" and a1: "account_by_id w1 i = Some a"
    using assms(1) charged(3) same_tables_queries(1,5) [OF charged(2)]
    by (simp_all add: wf_world_def)
  let ?w2 = "snd (add_balance_where p i (- total_cost r') w1)"
  have "balance_of ?w2 i = Some (balance a - total_cost r')"
    using add_balance_own_row(2) [where p = p and d = "- total_cost r'", OF wf1 a1 charged(5)]
    by simp
  moreover have "account_by_id ?w2 j = account_by_id w1 j" if "j \<noteq> i" for j
    using that by (rule add_balance_own_row(3) [OF wf1 a1])
  moreover have "account_by_id (log_balance i ct x y ?w2) j = account_by_id ?w2 j"
    "balance_of (log_balance i ct x y ?w2) j = balance_of ?w2 j" for ct x y j
    by (simp_all add: account_by_id_def balance_of_def)
  ultimately have bal: "balance_of w' i = Some (balance a - total_cost r')"
    and other: "\<And>j. j \<noteq> i \<Longrightarrow> account_by_id w' j = account_by_id w1 j"
    unfolding charged(6) by (simp_all add: Let_def)
  have logs: "balance_logs w' = balance_logs w
      @ (if skip then []
         else [\<lparr>bl_account_id = i, bl_change_type = Charge, bl_amount = - total_cost r',
                bl_balance_after = balance a - total_cost r', related_order_id = None,
                bl_created_at = now w\<rparr>])"
    using charged(2) unfolding charged(6) same_tables_def
    by (simp add: Let_def log_balance_def)
  have "r' = r" using charged(1) by simp
  with charged(3,4,8) bal other logs same_tables_queries(1) [OF charged(2)] show ?thesis
    by (intro exI [of _ a]) simp
qed

text \<open>C12: a successful charge takes exactly price times units from the account it names, from
  nobody else, never more than a prepaid account holds, and writes one log entry with the negated
  amount and the new balance, or none in batch mode.\<close>

theorem charge_effect:
  assumes "wf_world w"
    and "calculate_and_charge enum w i chan cc msg mnc ch skip = (Inr (Charged r), w')"
  shows "\<exists>a. account_by_id w i = Some a
          \<and> balance_of w' i = Some (balance a - total_cost r)
          \<and> (\<forall>j. j \<noteq> i \<longrightarrow> account_by_id w' j = account_by_id w j)
          \<and> total_cost r = cr_price_per_sms r * of_nat (cr_message_count r)
          \<and> (payment_type a = Prepaid \<longrightarrow> total_cost r \<le> balance a)
          \<and> balance_logs w' = balance_logs w
              @ (if skip then []
                 else [\<lparr>bl_account_id = i, bl_change_type = Charge, bl_amount = - total_cost r,
                        bl_balance_after = balance a - total_cost r, related_order_id = None,
                        bl_created_at = now w\<rparr>])"
  using assms by (rule charge_moves)

theorem charge_effect_witness:
  "\<exists>r w' a. demo_charge 1 False = (Inr (Charged r), w') \<and> account_by_id demo_world 1 = Some a
            \<and> balance_of w' 1 = Some (balance a - total_cost r)"
  using demo_charged(1) charge_effect [OF demo_wf, of id 1 7 "asc ''TH''" "asc ''hello''" None None False]
  unfolding demo_charge_def by blast

text \<open>C14: a charge that raises (no price, no cost, not enough money, several price rows) or finds no
  account leaves every table as it was; only the caches may have been filled.\<close>

theorem charge_failure_untouched:
  assumes "wf_world w" and "calculate_and_charge enum w i chan cc msg mnc ch skip = (ans, w')"
    and "\<forall>r. ans \<noteq> Inr (Charged r)"
  shows "same_tables w w'"
  using assms(1,2) by (cases rule: charge_cases) (use assms(3) in auto)

theorem charge_failure_untouched_witness: "same_tables demo_world (snd (demo_charge 3 False))"
proof -
  have "\<forall>r. fst (demo_charge 3 False) \<noteq> Inr (Charged r)"
    by (simp add: demo_defs country_price_info_def pricing_exact_def latest_pricing_def
                  account_pricing_rows_def)
  then show ?thesis
    using charge_failure_untouched [OF demo_wf, of id 3 7 "asc ''TH''" "asc ''hello''" None None False
        "fst (demo_charge 3 False)" "snd (demo_charge 3 False)"]
    by (simp add: demo_charge_def)
qed

lemma charge_covered:
  assumes "wf_world w" and "prepaid_covered w"
  shows "prepaid_covered (snd (calculate_and_charge enum w i chan cc msg mnc ch skip))"
proof -
  obtain ans w' where run: "calculate_and_charge enum w i chan cc msg mnc ch skip = (ans, w')"
    by force
  from assms(1) run have "prepaid_covered w'"
  proof (cases rule: charge_cases)
    case untouched
    with assms(2) show ?thesis by (simp add: same_tables_queries(4) [OF untouched(1)])
  next
    case (charged r a w1 p)
    have wf1: "distinct (map acc_id (accounts w1))" and a1: "account_by_id w1 i = Some a"
      and c1: "prepaid_covered w1"
      using assms charged(3) same_tables_queries(1,4,5) [OF charged(2)] by (simp_all add: wf_world_def)
    have "prepaid_covered (snd (add_balance_where p i (- total_cost r) w1))"
      using charged(4) add_balance_own_row(4) [OF wf1 a1]
      by (intro prepaid_covered_add [OF c1]) auto
    then show ?thesis unfolding charged(6) by (simp add: Let_def prepaid_covered_def)
  qed
  with run show ?thesis by simp
qed

text \<open>A charge that writes its log entry is an operation on money in the sense of World.\<close>

fun charge_run ::
    "(pystr list \<Rightarrow> pystr list) \<times> int \<times> int \<times> pystr \<times> pystr \<times> pystr option \<times> channel option
       \<Rightarrow> world \<Rightarrow> charge_answer outcome \<times> world" where
  "charge_run (enum, i, chan, cc, msg, mnc, ch) w =
     calculate_and_charge enum w i chan cc msg mnc ch False"

lemma charge_logged:
  assumes wf: "wf_world w" and run: "calculate_and_charge enum w i chan cc msg mnc ch False = (ans, w')"
  shows "wf_world w'" and "ledger_ok fund w \<Longrightarrow> ledger_ok fund w'"
proof -
  have "wf_world w' \<and> (ledger_ok fund w \<longrightarrow> ledger_ok fund w')"
    using wf run
  proof (cases rule: charge_cases)
    case untouched
    then show ?thesis using wf same_tables_queries [OF untouched(1)] by simp
  next
    case (charged r a w1 p)
    note q = same_tables_queries [OF charged(2)]
    have wf1: "distinct (map acc_id (accounts w1))" and a1: "account_by_id w1 i = Some a"
      using wf charged(3) q by (simp_all add: wf_world_def)
    have "p x" if "x \<in> set (accounts w1)" "acc_id x = i" for x
      using add_balance_own_row(4) [OF wf1 a1 that] charged(5) by simp
    then show ?thesis using charged(6) wf q ledger_ok_move [of fund w1 i p] by (simp add: Let_def)
  qed
  then show "wf_world w'" "ledger_ok fund w \<Longrightarrow> ledger_ok fund w'" by blast+
qed

interpretation charge: money_op charge_run
proof
  fix w :: world and fund
    and a :: "(pystr list \<Rightarrow> pystr list) \<times> int \<times> int \<times> pystr \<times> pystr \<times> pystr option \<times> channel option"
  obtain enum i chan cc msg mnc ch where a: "a = (enum, i, chan, cc, msg, mnc, ch)" by (cases a)
  note m = charge_logged [of w enum i chan cc msg mnc ch "fst (charge_run a w)" "snd (charge_run a w)"]
  show "wf_world w \<Longrightarrow> wf_world (snd (charge_run a w))" using m a by simp
  show "wf_world w \<Longrightarrow> ledger_ok fund w \<Longrightarrow> ledger_ok fund (snd (charge_run a w))" using m a by simp
  show "wf_world w \<Longrightarrow> prepaid_covered w \<Longrightarrow> prepaid_covered (snd (charge_run a w))"
    using charge_covered a by simp
qed

text \<open>no sequence point of a charge overdraws a prepaid account: if every prepaid balance was
  non-negative it still is, whatever the message, prices and mode.\<close>

theorem charge_keeps_prepaid_covered:
  assumes "wf_world w" and "prepaid_covered w"
  shows "prepaid_covered (snd (calculate_and_charge enum w i chan cc msg mnc ch skip))"
  using assms by (rule charge_covered)

theorem charge_keeps_prepaid_covered_witness: "prepaid_covered (snd (demo_charge 1 True))"
  unfolding demo_charge_def by (rule charge_keeps_prepaid_covered [OF demo_wf demo_covered])

text \<open>No cached price differs from what the tables give.\<close>

definition price_cache_fresh :: "world \<Rightarrow> bool" where
  "price_cache_fresh w \<longleftrightarrow>
     (\<forall>chan cc mnc i p. price_cache w (price_key chan cc mnc i) = Some p
        \<longrightarrow> price_db w chan cc i = Inr (Some p))"

lemma price_answer_Inr: "price_answer x = Inr p \<longleftrightarrow> x = Inr (Some p)"
  by (cases x rule: price_answer.cases) auto

lemma price_cache_fresh_coherent: "price_cache_fresh w = price.coherent w"
  by (auto simp: price_cache_fresh_def price.coherent_def price_answer_Inr)

text \<open>the sales price served through the cache is the one the tables give, and stays so, as long
  as no cached entry is stale.\<close>

theorem get_price_through_cache:
  assumes "price_cache_fresh w"
  shows "fst (get_price w chan cc mnc i) = price_db w chan cc i
         \<and> price_cache_fresh (snd (get_price w chan cc mnc i))"
proof -
  from assms have c: "price.coherent w" by (simp add: price_cache_fresh_coherent)
  have "price_answer (fst (get_price w chan cc mnc i)) = price_answer (price_db w chan cc i)"
    using price.fetch_eq_direct [OF c, of "(chan, cc, mnc, i)"] by simp
  moreover have "price.coherent (snd (get_price w chan cc mnc i))"
    using price.fetch_coherent [OF c, of "(chan, cc, mnc, i)"] by simp
  ultimately show ?thesis by (simp add: price_answer_inj price_cache_fresh_coherent)
qed

theorem get_price_through_cache_witness:
  "fst (get_price demo_world 7 (asc ''TH'') None (Some 1)) = price_db demo_world 7 (asc ''TH'') (Some 1)"
proof -
  have "price_cache_fresh demo_world"
    by (simp add: price_cache_fresh_def demo_world_def empty_world_def)
  then show ?thesis by (simp add: get_price_through_cache)
qed

text \<open>a cost taken from the tables is positive, or zero on a \<open>VIRTUAL\<close> channel; every other
  channel without a configured cost raises instead of billing at no cost.\<close>

theorem base_cost_positive:
  assumes "base_cost_db enum w chan cc ch = Inr c"
  shows "0 < c \<or> c = 0 \<and> (\<exists>x. (case ch of None \<Rightarrow> channel_by_id w chan | Some c \<Rightarrow> Some c) = Some x
                                \<and> ch_protocol x = VIRTUAL)"
  using assms
  by (auto simp: base_cost_db_def Let_def split: option.splits if_splits dest: first_positive_cost_pos)

theorem base_cost_positive_witness:
  "\<exists>c. base_cost_db id (empty_world\<lparr>channels := [new_channel 9 (asc ''v'') VIRTUAL]\<rparr>) 9
          (asc ''TH'') None = Inr c \<and> (0 < c \<or> c = 0)"
proof -
  let ?w = "empty_world\<lparr>channels := [new_channel 9 (asc ''v'') VIRTUAL]\<rparr>"
  have none: "first_positive_cost ?w 9 xs = None" for xs
    by (induction xs) (simp_all add: pricing_upper_def latest_pricing_def empty_world_def)
  have "base_cost_db id ?w 9 (asc ''TH'') None = Inr 0"
    unfolding base_cost_db_def none
    by (simp add: empty_world_def pricing_exact_def latest_pricing_def channel_by_id_def new_channel_def)
  from base_cost_positive [OF this] this show ?thesis by blast
qed

text \<open>whatever registered spelling of the country is asked for, and in whatever order the set of
  spellings is enumerated, a positive price configured for the ISO2 code is the cost.\<close>

theorem base_cost_iso2_first:
  assumes "row \<in> set COUNTRY_DATA" and "k \<in> set (row_keys row)"
    and "pricing_upper w chan (fst row) = Some p" and "0 < price_per_sms p"
  shows "base_cost_db enum w chan k ch = Inr (price_per_sms p)"
proof -
  obtain rest where "ordered_codes enum k = fst row # rest"
    using ordered_codes_registered [OF assms(1,2)] by blast
  with assms(3,4) show ?thesis by (simp add: base_cost_db_def Let_def)
qed

definition th_pricing :: country_pricing where
  "th_pricing = \<lparr>cp_id = 1, cp_channel_id = 7, cp_country_code = asc ''TH'', country_name = None,
     price_per_sms = 2 / 100, cp_currency = asc ''USD'', effective_date = 0, cp_remark = None,
     cp_created_at = 0, cp_updated_at = 0\<rparr>"

lemma th_row: "(asc ''TH'', asc ''66'', [[27888, 22269]]) \<in> set COUNTRY_DATA"
  by (simp add: COUNTRY_DATA_def asc_def)

lemma th_upper: "py_upper (asc ''TH'') = asc ''TH''"
  by code_simp

theorem base_cost_iso2_first_witness:
  "base_cost_db rev (empty_world\<lparr>country_pricings := [th_pricing]\<rparr>) 7 (asc ''66'') None = Inr (2 / 100)"
proof -
  let ?w = "empty_world\<lparr>country_pricings := [th_pricing]\<rparr>"
  have "pricing_upper ?w 7 (fst (asc ''TH'', asc ''66'', [[27888::int, 22269]])) = Some th_pricing"
    by (simp add: pricing_upper_def latest_pricing_def th_pricing_def th_upper)
  from base_cost_iso2_first [OF th_row _ this, of "asc ''66''" rev None] show ?thesis
    by (simp add: th_pricing_def)
qed

text \<open>the sales price, unlike the cost, is looked up under the exact spelling only: a channel
  priced for TH has a cost for the dialling code 66 and no sales price for it.\<close>

theorem sales_price_exact_spelling_only:
  "base_cost_db rev (empty_world\<lparr>country_pricings := [th_pricing]\<rparr>) 7 (asc ''66'') None = Inr (2 / 100)
   \<and> price_db (empty_world\<lparr>country_pricings := [th_pricing]\<rparr>) 7 (asc ''66'') None = Inr None
   \<and> price_db (empty_world\<lparr>country_pricings := [th_pricing]\<rparr>) 7 (asc ''TH'') None
       = Inr (Some \<lparr>pi_price = 2 / 100, pi_currency = asc ''USD'', pi_source = FromCountry None\<rparr>)"
proof -
  let ?w = "empty_world\<lparr>country_pricings := [th_pricing]\<rparr>"
  obtain rest where "ordered_codes rev (asc ''66'') = asc ''TH'' # rest"
    using ordered_codes_registered [OF th_row, of "asc ''66''" rev] by auto
  then have "base_cost_db rev ?w 7 (asc ''66'') None = Inr (2 / 100)"
    by (simp add: base_cost_db_def Let_def pricing_upper_def latest_pricing_def th_pricing_def th_upper)
  moreover have "asc ''TH'' \<noteq> asc ''66''" "asc ''TH'' \<noteq> asc ''*''" by (simp_all add: asc_def)
  ultimately show ?thesis
    by (simp add: price_db_def unit_price_info_def truthy_id_def country_price_info_def
          pricing_exact_def latest_pricing_def th_pricing_def)
qed

end
