(* ===== verification/Router.thy ===== *)
theory Router
  imports World CountryCode PhoneUtils "HOL-Library.Product_Lexorder"
begin

text \<open>
  The routing engine, \<open>backend/app/core/router.py\<close>: the candidate channels of a country (routing
  rules joined with channels, memoised for five minutes as a list of ids), the account and country
  bindings, and the selection strategies. The attribute \<open>_route_priority\<close> the code hangs on a
  channel is the second component of a candidate. \<open>rnd\<close> is the number in [0, 1) that
  \<open>random.choices\<close> draws.
\<close>

type_synonym candidate = "channel \<times> int"

definition live :: "channel \<Rightarrow> bool" where
  "live c \<longleftrightarrow> ch_status c = ChActive \<and> \<not> ch_is_deleted c"

section \<open>Account bindings\<close>

text \<open>One row of the loop: the ids bound for this country, and the default ids.\<close>

fun bind_step ::
    "pystr option \<Rightarrow> pystr \<Rightarrow> account_channel \<Rightarrow> int list \<times> int list \<Rightarrow> int list \<times> int list" where
  "bind_step cc_norm country_code row (specific, dflt) =
     (case ac_country_code row of
        None \<Rightarrow> (specific, dflt @ [ac_channel_id row])
      | Some cc \<Rightarrow>
          (if py_strip cc = [] then (specific, dflt @ [ac_channel_id row])
           else case cc_norm of
                  None \<Rightarrow> (specific, dflt)
                | Some n \<Rightarrow>
                    (if n \<noteq> [] \<and> (normalize_country_code (Some cc) = Some n \<or> cc = country_code)
                     then (specific @ [ac_channel_id row], dflt)
                     else (specific, dflt))))"

definition bound_ids :: "world \<Rightarrow> int \<Rightarrow> pystr \<Rightarrow> int list option" where
  "bound_ids w account_id country_code =
     (let rows = filter (\<lambda>r. ac_account_id r = account_id) (account_channels w)
      in if rows = [] then None
         else let cc_norm = (if country_code = [] then None
                             else normalize_country_code (Some country_code));
                  (specific, dflt) = fold (bind_step cc_norm country_code) rows ([], [])
              in Some (if specific \<noteq> [] then specific else dflt))"

definition filter_by_account_channels ::
    "world \<Rightarrow> (channel \<times> 'p) list \<Rightarrow> int \<Rightarrow> pystr \<Rightarrow> int list option \<times> (channel \<times> 'p) list" where
  "filter_by_account_channels w cands account_id country_code =
     (case bound_ids w account_id country_code of
        None \<Rightarrow> (None, cands)
      | Some ids \<Rightarrow> (Some ids, filter (\<lambda>c. ch_id (fst c) \<in> set ids) cands))"

section \<open>Candidates\<close>

definition get_channel_if_available ::
    "world \<Rightarrow> int \<Rightarrow> pystr \<Rightarrow> int option \<Rightarrow> channel option" where
  "get_channel_if_available w chan country_code account_id =
     (case find (\<lambda>c. ch_id c = chan \<and> live c) (channels w) of
        None \<Rightarrow> None
      | Some c \<Rightarrow>
          (case truthy_id account_id of
             None \<Rightarrow> Some c
           | Some a \<Rightarrow>
               (case snd (filter_by_account_channels w [(c, ())] a country_code) of
                  [] \<Rightarrow> None | (b, _) # _ \<Rightarrow> Some b)))"

definition codes_to_try :: "pystr \<Rightarrow> pystr list" where
  "codes_to_try cc =
     [cc, if py_isdigit cc then dial_to_country_code cc else country_to_dial_code cc]"

definition route_rows :: "world \<Rightarrow> pystr \<Rightarrow> candidate list" where
  "route_rows w cc =
     sort_desc (\<lambda>(c, p). (p, ch_priority c))
       (concat (map (\<lambda>c. map (\<lambda>r. (c, rr_priority r))
            (filter (\<lambda>r. rr_channel_id r = ch_id c \<and> is_active r
                         \<and> (rr_country_code r \<in> set (codes_to_try cc) \<or> rr_country_code r = asc ''*''))
                    (routing_rules w)))
          (filter live (channels w))))"

text \<open>The dictionary \<open>merged\<close>: one candidate per channel id, replaced only by a higher route priority,
  in insertion order.\<close>

fun merge_row :: "candidate \<Rightarrow> candidate list \<Rightarrow> candidate list" where
  "merge_row (c, p) [] = [(c, p)]"
| "merge_row (c, p) ((c', p') # ms) =
     (if ch_id c' = ch_id c then (if p > p' then (c, p) # ms else (c', p') # ms)
      else (c', p') # merge_row (c, p) ms)"

definition available_db :: "world \<Rightarrow> pystr \<Rightarrow> candidate list" where
  "available_db w cc =
     sort_desc (\<lambda>(c, p). (p, ch_priority c)) (fold merge_row (route_rows w cc) [])"

definition available_cached :: "world \<Rightarrow> route_entry \<Rightarrow> candidate list" where
  "available_cached w e =
     (let prio = (\<lambda>i. case map_of (rev (zip (re_channel_ids e) (re_route_priorities e))) i of
                        Some p \<Rightarrow> p | None \<Rightarrow> 0)
      in sort_desc snd
           (map (\<lambda>c. (c, prio (ch_id c)))
                (filter (\<lambda>c. ch_id c \<in> set (re_channel_ids e) \<and> live c) (channels w))))"

definition get_available_channels :: "world \<Rightarrow> pystr \<Rightarrow> candidate list \<times> world" where
  "get_available_channels w cc =
     (case (case route_cache w cc of
              Some e \<Rightarrow> if re_channel_ids e \<noteq> [] then Some e else None
            | None \<Rightarrow> None) of
        Some e \<Rightarrow> (available_cached w e, w)
      | None \<Rightarrow>
          (let cands = available_db w cc
           in if cands = [] then (cands, w)
              else (cands, w\<lparr>route_cache := (route_cache w)(cc \<mapsto>
                      \<lparr>re_channel_ids = map (ch_id \<circ> fst) cands,
                       re_route_priorities = map snd cands\<rparr>)\<rparr>)))"

section \<open>Strategies\<close>

datatype strategy = ByPriority | ByQuality | LoadBalance | OtherStrategy

text \<open>\<open>x._route_priority or x.priority or 0\<close>: a route priority of 0 falls back to the channel's.\<close>

definition effective_priority :: "candidate \<Rightarrow> int" where
  "effective_priority cand = (if snd cand \<noteq> 0 then snd cand else ch_priority (fst cand))"

definition select_by_priority :: "candidate list \<Rightarrow> channel outcome" where
  "select_by_priority cands =
     (case cands of [] \<Rightarrow> Inl ValueError
      | c # cs \<Rightarrow> Inr (fst (max_by_from effective_priority c cs)))"

text \<open>\<open>Channel\<close> has no attribute \<open>success_rate\<close>: the key function raises \<open>AttributeError\<close>.\<close>

definition select_by_quality :: "candidate list \<Rightarrow> channel outcome" where
  "select_by_quality cands = (case cands of [] \<Rightarrow> Inl ValueError | _ \<Rightarrow> Inl PyException)"

definition effective_weight :: "candidate \<Rightarrow> int" where
  "effective_weight cand = (if weight (fst cand) \<noteq> 0 then weight (fst cand) else 100)"

text \<open>The first candidate whose cumulated weight exceeds the draw, else the last one.\<close>

fun weighted_pick :: "rat \<Rightarrow> int \<Rightarrow> candidate list \<Rightarrow> channel option" where
  "weighted_pick x acc [] = None"
| "weighted_pick x acc [c] = Some (fst c)"
| "weighted_pick x acc (c # d # cs) =
     (if x < of_int (acc + effective_weight c) then Some (fst c)
      else weighted_pick x (acc + effective_weight c) (d # cs))"

definition select_by_weight :: "rat \<Rightarrow> candidate list \<Rightarrow> channel outcome" where
  "select_by_weight rnd cands =
     (let total_weight = sum_list (map effective_weight cands)
      in if total_weight \<le> 0 then Inl ValueError
         else case weighted_pick (rnd * of_int total_weight) 0 cands of
                Some c \<Rightarrow> Inr c | None \<Rightarrow> Inl PyException)"

definition apply_strategy :: "rat \<Rightarrow> strategy \<Rightarrow> candidate list \<Rightarrow> channel outcome" where
  "apply_strategy rnd st cands =
     (case st of
        ByPriority \<Rightarrow> select_by_priority cands
      | ByQuality \<Rightarrow> select_by_quality cands
      | LoadBalance \<Rightarrow> select_by_weight rnd cands
      | OtherStrategy \<Rightarrow> (case cands of [] \<Rightarrow> Inl PyException | c # _ \<Rightarrow> Inr (fst c)))"

definition select_channel ::
    "rat \<Rightarrow> world \<Rightarrow> pystr \<Rightarrow> int option \<Rightarrow> strategy \<Rightarrow> int option \<Rightarrow> channel outcome \<times> world" where
  "select_channel rnd w country_code preferred st account_id =
     (case (case truthy_id preferred of
              None \<Rightarrow> None
            | Some p \<Rightarrow> get_channel_if_available w p country_code account_id) of
        Some c \<Rightarrow> (Inr c, w)
      | None \<Rightarrow>
          (let (cands, w1) = get_available_channels w country_code
           in if cands = [] then (Inl ChannelNotAvailableError, w1)
              else case truthy_id account_id of
                     None \<Rightarrow> (apply_strategy rnd st cands, w1)
                   | Some a \<Rightarrow>
                       (let (restriction, cands') = filter_by_account_channels w1 cands a country_code
                        in if restriction \<noteq> None \<and> cands' = []
                           then (Inl ChannelNotAvailableError, w1)
                           else (apply_strategy rnd st cands', w1))))"

section \<open>Candidates are live rows of the channels table\<close>

lemma merge_row_subset: "set (merge_row x ms) \<subseteq> insert x (set ms)"
  by (induction x ms rule: merge_row.induct) auto

lemma fold_merge_row_subset: "set (fold merge_row rs ms) \<subseteq> set rs \<union> set ms"
  by (induction rs arbitrary: ms) (use merge_row_subset in \<open>fastforce+\<close>)

lemma merge_row_keeps:
  "(c, p) = x \<or> (c, p) \<in> set ms \<Longrightarrow>
     \<exists>c' p'. (c', p') \<in> set (merge_row x ms) \<and> ch_id c' = ch_id c \<and> p \<le> p'"
  by (induction x ms rule: merge_row.induct) (auto, force+)

lemma fold_merge_row_keeps:
  "(c, p) \<in> set rs \<union> set ms \<Longrightarrow>
     \<exists>c' p'. (c', p') \<in> set (fold merge_row rs ms) \<and> ch_id c' = ch_id c \<and> p \<le> p'"
proof (induction rs arbitrary: c p ms)
  case Nil
  then show ?case by auto
next
  case (Cons x rs)
  show ?case
  proof (cases "(c, p) \<in> set rs")
    case True
    then show ?thesis using Cons.IH [of c p "merge_row x ms"] by simp
  next
    case False
    with Cons.prems have "(c, p) = x \<or> (c, p) \<in> set ms" by auto
    from merge_row_keeps [OF this] obtain c' p' where
      "(c', p') \<in> set (merge_row x ms)" "ch_id c' = ch_id c" "p \<le> p'" by blast
    then show ?thesis using Cons.IH [of c' p' "merge_row x ms"] by fastforce
  qed
qed

definition rule_matches :: "pystr \<Rightarrow> routing_rule \<Rightarrow> bool" where
  "rule_matches cc r \<longleftrightarrow>
     is_active r \<and> (rr_country_code r \<in> set (codes_to_try cc) \<or> rr_country_code r = asc ''*'')"

lemma set_route_rows:
  "set (route_rows w cc) =
     {(c, rr_priority r) | c r. c \<in> set (channels w) \<and> live c \<and> r \<in> set (routing_rules w)
        \<and> rr_channel_id r = ch_id c \<and> rule_matches cc r}"
  by (auto simp: route_rows_def rule_matches_def)

lemma available_db_sound:
  "(c, p) \<in> set (available_db w cc) \<Longrightarrow>
     c \<in> set (channels w) \<and> live c
     \<and> (\<exists>r\<in>set (routing_rules w). rr_channel_id r = ch_id c \<and> rule_matches cc r \<and> rr_priority r = p)"
  using fold_merge_row_subset [of "route_rows w cc" "[]"]
  by (auto simp: available_db_def set_route_rows)

lemma get_available_channels_live:
  assumes "get_available_channels w cc = (cands, w1)" and "(c, p) \<in> set cands"
  shows "c \<in> set (channels w) \<and> live c"
  using assms available_db_sound
  by (fastforce simp: get_available_channels_def available_cached_def Let_def
      split: option.splits if_splits)

lemma get_available_channels_tables:
  "get_available_channels w cc = (cands, w1) \<Longrightarrow>
     account_channels w1 = account_channels w \<and> channels w1 = channels w
     \<and> routing_rules w1 = routing_rules w"
  by (auto simp: get_available_channels_def Let_def split: option.splits if_splits)

lemma weighted_pick_in: "weighted_pick x acc cs = Some c \<Longrightarrow> c \<in> fst ` set cs"
  by (induction x acc cs rule: weighted_pick.induct) (auto split: if_splits)

lemma select_by_priority_in:
  "select_by_priority cands = Inr c \<Longrightarrow>
     \<exists>p. (c, p) \<in> set cands \<and> (\<forall>d\<in>set cands. effective_priority d \<le> effective_priority (c, p))"
proof (cases cands)
  case (Cons d ds)
  assume "select_by_priority cands = Inr c"
  with Cons have "c = fst (max_by_from effective_priority d ds)"
    by (simp add: select_by_priority_def)
  then obtain p where m: "max_by_from effective_priority d ds = (c, p)"
    by (metis prod.collapse)
  have "(c, p) \<in> set cands" using max_by_from_in [of effective_priority d ds] m Cons by simp
  moreover have "\<forall>x\<in>set cands. effective_priority x \<le> effective_priority (c, p)"
    using max_by_from_ge [of effective_priority d ds] m Cons by simp
  ultimately show ?thesis by blast
qed (simp add: select_by_priority_def)

lemma apply_strategy_in: "apply_strategy rnd st cands = Inr c \<Longrightarrow> c \<in> fst ` set cands"
  by (auto simp: apply_strategy_def select_by_quality_def select_by_weight_def Let_def image_iff
      dest!: weighted_pick_in select_by_priority_in
      split: strategy.splits list.splits option.splits if_splits; force)

lemma filter_by_account_channels_None:
  "bound_ids w a cc = None \<Longrightarrow> filter_by_account_channels w cs a cc = (None, cs)"
  by (simp add: filter_by_account_channels_def)

lemma filter_by_account_channels_Some:
  "bound_ids w a cc = Some ids \<Longrightarrow> filter_by_account_channels w cs a cc =
     (Some ids, filter (\<lambda>c. ch_id (fst c) \<in> set ids) cs)"
  by (simp add: filter_by_account_channels_def)

lemma bound_ids_cong: "account_channels w1 = account_channels w \<Longrightarrow> bound_ids w1 = bound_ids w"
  by (intro ext) (simp add: bound_ids_def)

lemma get_channel_if_available_sound:
  assumes "get_channel_if_available w p cc acc = Some c"
  shows "c \<in> set (channels w) \<and> live c \<and> ch_id c = p
    \<and> (case truthy_id acc of None \<Rightarrow> True
         | Some a \<Rightarrow> (case bound_ids w a cc of None \<Rightarrow> True | Some ids \<Rightarrow> ch_id c \<in> set ids))"
  using assms
  by (auto simp: get_channel_if_available_def find_Some_iff filter_by_account_channels_def
      split: option.splits list.splits if_splits)

section \<open>What select_channel promises\<close>

definition within_binding :: "world \<Rightarrow> int option \<Rightarrow> pystr \<Rightarrow> channel \<Rightarrow> bool" where
  "within_binding w account_id cc c \<longleftrightarrow>
     (case truthy_id account_id of
        None \<Rightarrow> True
      | Some a \<Rightarrow> (case bound_ids w a cc of None \<Rightarrow> True | Some ids \<Rightarrow> ch_id c \<in> set ids))"

lemma select_channel_cases:
  obtains (preferred) c p where "select_channel rnd w cc pref st acc = (Inr c, w)"
      "get_channel_if_available w p cc acc = Some c"
  | (none) w1 where "get_available_channels w cc = ([], w1)"
      "select_channel rnd w cc pref st acc = (Inl ChannelNotAvailableError, w1)"
  | (unbound) cands w1 where "get_available_channels w cc = (cands, w1)" "cands \<noteq> []"
      "select_channel rnd w cc pref st acc = (apply_strategy rnd st cands, w1)"
      "\<And>c. within_binding w acc cc c"
  | (bound) cands w1 a ids where "get_available_channels w cc = (cands, w1)" "cands \<noteq> []"
      "truthy_id acc = Some a" "bound_ids w a cc = Some ids"
      "select_channel rnd w cc pref st acc =
         (let cs = filter (\<lambda>c. ch_id (fst c) \<in> set ids) cands
          in if cs = [] then Inl ChannelNotAvailableError else apply_strategy rnd st cs, w1)"
proof -
  obtain cands w1 where av: "get_available_channels w cc = (cands, w1)" by fastforce
  have bc: "bound_ids w1 = bound_ids w"
    using get_available_channels_tables [OF av] by (intro bound_ids_cong) simp
  show ?thesis
  proof (cases "case truthy_id pref of None \<Rightarrow> None | Some p \<Rightarrow> get_channel_if_available w p cc acc")
    case (Some c)
    then show ?thesis
      by (intro preferred [of c "the (truthy_id pref)"])
        (auto simp: select_channel_def split: option.splits)
  next
    case None
    note sel = select_channel_def [of rnd w cc pref st acc, unfolded None av]
    show ?thesis
    proof (cases "cands = []")
      case True
      then show ?thesis using av sel by (intro none) (simp_all add: Let_def)
    next
      case ne: False
      show ?thesis
      proof (cases "truthy_id acc")
        case None
        then show ?thesis using av sel ne
          by (intro unbound [of cands w1]) (simp_all add: within_binding_def)
      next
        case (Some a)
        show ?thesis
        proof (cases "bound_ids w a cc")
          case None
          then show ?thesis using av sel ne Some bc
            by (intro unbound [of cands w1])
              (simp_all add: within_binding_def filter_by_account_channels_None)
        next
          case ids: (Some ids)
          then show ?thesis using av sel ne Some bc
            by (intro bound [of cands w1 a ids])
              (simp_all add: filter_by_account_channels_Some Let_def)
        qed
      qed
    qed
  qed
qed

lemma get_available_channels_same: "get_available_channels w cc = (r, w') \<Longrightarrow> same_tables w w'"
  by (auto simp: get_available_channels_def Let_def split: option.splits if_splits)

lemma select_channel_same: "select_channel rnd w cc pref st acc = (r, w') \<Longrightarrow> same_tables w w'"
  by (cases rule: select_channel_cases [of rnd w cc pref st acc])
    (auto dest: get_available_channels_same)

lemma select_channel_sound:
  assumes "select_channel rnd w cc pref st acc = (Inr c, w')"
  shows "c \<in> set (channels w) \<and> live c \<and> within_binding w acc cc c"
proof (cases rule: select_channel_cases [of rnd w cc pref st acc])
  case (preferred c p)
  then show ?thesis
    using get_channel_if_available_sound [of w p cc acc c] assms by (simp add: within_binding_def)
next
  case none
  then show ?thesis using assms by simp
next
  case (unbound cands w1)
  then have "c \<in> fst ` set cands" using assms apply_strategy_in by simp
  then show ?thesis using get_available_channels_live [OF unbound(1)] unbound(4) by fastforce
next
  case (bound cands w1 a ids)
  then have "c \<in> fst ` set (filter (\<lambda>c. ch_id (fst c) \<in> set ids) cands)"
    using assms apply_strategy_in [of rnd st "filter (\<lambda>c. ch_id (fst c) \<in> set ids) cands" c]
    by (simp add: Let_def split: if_splits)
  then show ?thesis using get_available_channels_live [OF bound(1)] bound(3,4)
    by (fastforce simp: within_binding_def)
qed

text \<open>C38: A channel that routing returns - preferred, from the database or through the cache, under any
  strategy - is a row of the channels table that is active and not deleted, and when the account has
  channel bindings it is one of the channels bound for that country.\<close>

theorem routed_channel_is_live_and_bound:
  assumes "select_channel rnd w cc pref st acc = (Inr c, w')"
  shows "c \<in> set (channels w) \<and> live c \<and> within_binding w acc cc c"
  using assms by (rule select_channel_sound)

text \<open>An account that has channel bindings of which none is a live channel for this country is
  refused with ChannelNotAvailableError, whatever channel it prefers, whatever the strategy and the
  cache: routing never falls back to a channel outside the bindings.\<close>

theorem bound_account_never_falls_back:
  assumes "acc = Some a" and "a \<noteq> 0" and "bound_ids w a cc = Some ids"
    and "\<forall>c\<in>set (channels w). live c \<longrightarrow> ch_id c \<notin> set ids"
  shows "fst (select_channel rnd w cc pref st acc) = Inl ChannelNotAvailableError"
proof -
  have acc: "truthy_id acc = Some a" using assms(1,2) by (simp add: truthy_id_def)
  show ?thesis
  proof (cases rule: select_channel_cases [of rnd w cc pref st acc])
    case (preferred c p)
    then show ?thesis
      using get_channel_if_available_sound [of w p cc acc c] acc assms(3,4) by auto
  next
    case (unbound cands w1)
    then obtain c p where "(c, p) \<in> set cands" by (metis list.set_intros(1) neq_Nil_conv old.prod.exhaust)
    then have "c \<in> set (channels w)" "live c"
      using get_available_channels_live [OF unbound(1)] by auto
    then show ?thesis using unbound(4) [of c] acc assms(3,4) by (simp add: within_binding_def)
  next
    case (bound cands w1 a' ids')
    then have "filter (\<lambda>c. ch_id (fst c) \<in> set ids') cands = []"
      using get_available_channels_live [OF bound(1)] acc assms(3,4)
      by (fastforce simp: filter_empty_conv)
    then show ?thesis using bound(5) by (simp add: Let_def)
  qed simp
qed

section \<open>Precedence of bindings, and of route priorities\<close>

definition is_default_binding :: "account_channel \<Rightarrow> bool" where
  "is_default_binding r \<longleftrightarrow>
     (case ac_country_code r of None \<Rightarrow> True | Some cc \<Rightarrow> py_strip cc = [])"

definition binds_country :: "pystr \<Rightarrow> account_channel \<Rightarrow> bool" where
  "binds_country cc r \<longleftrightarrow>
     \<not> is_default_binding r \<and> cc \<noteq> []
     \<and> (case (ac_country_code r, normalize_country_code (Some cc)) of
          (Some rc, Some n) \<Rightarrow> n \<noteq> [] \<and> (normalize_country_code (Some rc) = Some n \<or> rc = cc)
        | _ \<Rightarrow> False)"

lemma fold_bind_step:
  "fold (bind_step (if cc = [] then None else normalize_country_code (Some cc)) cc) rs (s, d) =
     (s @ map ac_channel_id (filter (binds_country cc) rs),
      d @ map ac_channel_id (filter is_default_binding rs))"
  by (induction rs arbitrary: s d)
    (auto simp: binds_country_def is_default_binding_def split: option.splits)

text \<open>The channels an account may use in a country: the ones bound to that country when there is
  such a binding - the country-wide default bindings are then ignored - and otherwise the ones bound
  without a country; no restriction exactly when the account has no binding row at all.\<close>

theorem country_binding_overrides_default:
  "bound_ids w a cc =
     (let rows = filter (\<lambda>r. ac_account_id r = a) (account_channels w);
          specific = filter (binds_country cc) rows
      in if rows = [] then None
         else if specific \<noteq> [] then Some (map ac_channel_id specific)
         else Some (map ac_channel_id (filter is_default_binding rows)))"
  unfolding bound_ids_def Let_def fold_bind_step by simp

lemma available_db_complete:
  assumes "c \<in> set (channels w)" "live c" "r \<in> set (routing_rules w)" "rr_channel_id r = ch_id c"
    and "rule_matches cc r"
  shows "\<exists>c' p'. (c', p') \<in> set (available_db w cc) \<and> rr_priority r \<le> p'"
proof -
  have "(c, rr_priority r) \<in> set (route_rows w cc)" using assms by (auto simp: set_route_rows)
  then show ?thesis
    using fold_merge_row_keeps [of c "rr_priority r" "route_rows w cc" "[]"]
    by (auto simp: available_db_def)
qed

text \<open>For a country whose candidates are not cached, the priority strategy returns a channel that
  has an active rule for the country (or for every country) of the highest priority among all such
  rules of live channels, provided these rules have positive priorities.\<close>

theorem priority_strategy_highest_rule:
  assumes "route_cache w cc = None"
    and "\<forall>r\<in>set (routing_rules w). 0 < rr_priority r"
    and "fst (select_channel rnd w cc None ByPriority None) = Inr c"
  shows "\<exists>r\<in>set (routing_rules w). rr_channel_id r = ch_id c \<and> rule_matches cc r
    \<and> (\<forall>r'\<in>set (routing_rules w). \<forall>c'\<in>set (channels w).
         live c' \<and> rr_channel_id r' = ch_id c' \<and> rule_matches cc r' \<longrightarrow>
         rr_priority r' \<le> rr_priority r)"
proof -
  let ?a = "available_db w cc"
  have "select_by_priority ?a = Inr c"
    using assms(1,3)
    by (auto simp: select_channel_def truthy_id_def get_available_channels_def Let_def
        apply_strategy_def split: if_splits)
  then obtain p where p: "(c, p) \<in> set ?a"
      "\<forall>d\<in>set ?a. effective_priority d \<le> effective_priority (c, p)"
    using select_by_priority_in by blast
  have eff: "effective_priority (d, q) = q" if "(d, q) \<in> set ?a" for d q
    using available_db_sound [OF that] assms(2) by (auto simp: effective_priority_def)
  obtain r where r: "r \<in> set (routing_rules w)" "rr_channel_id r = ch_id c" "rule_matches cc r"
      "rr_priority r = p"
    using available_db_sound [OF p(1)] by blast
  have "rr_priority r' \<le> p"
    if "r' \<in> set (routing_rules w)" "c' \<in> set (channels w)" "live c'" "rr_channel_id r' = ch_id c'"
       "rule_matches cc r'" for r' c'
    using available_db_complete [OF that(2,3,1,4,5)] p(2) eff p(1) by fastforce
  with r show ?thesis by blast
qed

section \<open>A small routing table\<close>

definition demo_routes :: world where
  "demo_routes = empty_world
     \<lparr>channels := [(new_channel 1 (asc ''A'') HTTP)\<lparr>ch_priority := 1\<rparr>,
                   (new_channel 2 (asc ''B'') HTTP)\<lparr>ch_priority := 9\<rparr>],
      routing_rules :=
        [\<lparr>rr_id = 1, rr_channel_id = 1, rr_country_code = asc ''TH'', rr_priority = 5,
          is_active = True, rr_banned_words = None, rr_created_at = 0, rr_updated_at = 0\<rparr>,
         \<lparr>rr_id = 2, rr_channel_id = 2, rr_country_code = asc ''*'', rr_priority = 5,
          is_active = True, rr_banned_words = None, rr_created_at = 0, rr_updated_at = 0\<rparr>],
      account_channels :=
        [\<lparr>ac_id = 1, ac_account_id = 7, ac_channel_id = 3, ac_country_code = None,
          ac_is_default = False, ac_priority = 0, ac_created_at = 0\<rparr>]\<rparr>"

theorem routed_channel_is_live_and_bound_witness:
  "\<exists>c w'. select_channel 0 demo_routes (asc ''TH'') None ByPriority None = (Inr c, w')
     \<and> c \<in> set (channels demo_routes) \<and> live c \<and> within_binding demo_routes None (asc ''TH'') c"
proof -
  have "map_sum id ch_id (fst (select_channel 0 demo_routes (asc ''TH'') None ByPriority None)) = Inr 2"
    by code_simp
  then obtain c w' where
    "select_channel 0 demo_routes (asc ''TH'') None ByPriority None = (Inr c, w')"
    by (cases "select_channel 0 demo_routes (asc ''TH'') None ByPriority None";
        cases "fst (select_channel 0 demo_routes (asc ''TH'') None ByPriority None)") auto
  then show ?thesis using routed_channel_is_live_and_bound by blast
qed

theorem bound_account_never_falls_back_witness:
  "fst (select_channel 0 demo_routes (asc ''TH'') (Some 2) LoadBalance (Some 7)) =
     Inl ChannelNotAvailableError"
proof (rule bound_account_never_falls_back [where a = 7 and ids = "[3]"])
  show "bound_ids demo_routes 7 (asc ''TH'') = Some [3]"
    by (simp add: country_binding_overrides_default demo_routes_def empty_world_def
        binds_country_def is_default_binding_def)
qed (simp_all add: demo_routes_def empty_world_def new_channel_def)

theorem priority_strategy_highest_rule_witness:
  "\<exists>c. fst (select_channel 0 demo_routes (asc ''TH'') None ByPriority None) = Inr c
     \<and> (\<exists>r\<in>set (routing_rules demo_routes). rr_channel_id r = ch_id c \<and> rr_priority r = 5)"
proof -
  have "map_sum id ch_id (fst (select_channel 0 demo_routes (asc ''TH'') None ByPriority None)) = Inr 2"
    by code_simp
  then obtain c where
    c: "fst (select_channel 0 demo_routes (asc ''TH'') None ByPriority None) = Inr c"
    by (cases "fst (select_channel 0 demo_routes (asc ''TH'') None ByPriority None)") auto
  have "route_cache demo_routes (asc ''TH'') = None"
    by (simp add: demo_routes_def empty_world_def)
  moreover have pos: "\<forall>r\<in>set (routing_rules demo_routes). rr_priority r = 5"
    by (simp add: demo_routes_def empty_world_def)
  ultimately show ?thesis
    using priority_strategy_highest_rule [of demo_routes "asc ''TH''" 0 c] c by fastforce
qed

text \<open>Two channels whose rules have the same route priority: the first request takes the one of the
  higher channel priority, the next request within five minutes - same tables, answered from the
  cache, which does not carry the channel's priority into the order - the other one.\<close>

theorem cached_tie_ignores_channel_priority:
  "let (r1, w1) = select_channel 0 demo_routes (asc ''TH'') None ByPriority None;
       (r2, w2) = select_channel 0 w1 (asc ''TH'') None ByPriority None
   in map_sum id ch_id r1 = Inr 2 \<and> map_sum id ch_id r2 = Inr 1"
  by code_simp

end
