(* ===== verification/Refund.thy ===== *)
theory Refund
  imports World
begin

text \<open>
  Refunds of single messages, \<open>backend/app/services/sms_refund.py\<close>: eligibility, the list of
  candidates, and the three ways to refund (reviewed by an administrator, automatic, forced), which
  share the claim-then-pay core \<open>_do_refund\<close>. An answer carries the fields the callers read; the
  reasons are constructors. \<open>now w\<close> is the clock; amounts are exact.
\<close>

section \<open>Eligibility\<close>

datatype refund_reason =
    NotFailed sms_status
  | RefundedBefore
  | NoSellingPrice
  | LooksSubmitted
  | UnknownSystemError
  | NoChannelError
  | BlacklistError
  | BatchCancelledError
  | QueueError
  | NotBoundError
  | OtherSystemError
  | NonPositiveAmount
  | LogNotFound
  | AutoSource pystr
  | AdminForce

text \<open>\<open>_SUBMITTED_PATTERNS\<close>, searched without regard to case:
  \<open>SMPP Error:\s*\d+\<close>, \<open>SMPP DLR:\<close>, and two Chinese phrases.\<close>

definition re_fold :: "pystr \<Rightarrow> pystr" where
  "re_fold s = map re_fold_char s"

fun smpp_error_at :: "pystr \<Rightarrow> bool" where
  "smpp_error_at s =
     (if starts_with (asc ''smpp error:'') s
      then (case dropWhile py_isspace_char (drop 11 s) of [] \<Rightarrow> False | c # _ \<Rightarrow> re_digit_char c)
      else False)"

fun search_smpp_error :: "pystr \<Rightarrow> bool" where
  "search_smpp_error [] = smpp_error_at []"
| "search_smpp_error (c # cs) = (smpp_error_at (c # cs) \<or> search_smpp_error cs)"

definition submitted_pattern_search :: "pystr \<Rightarrow> bool" where
  "submitted_pattern_search err =
     (let s = re_fold err
      in search_smpp_error s
         \<or> contains_any [asc ''smpp dlr:'', asc ''dlr '' @ [36229, 26102],
                         asc ''submitsmresp'' @ [20002, 22833]] s)"

definition error_text :: "sms_log \<Rightarrow> pystr" where
  "error_text r = py_strip (case log_error_message r of Some e \<Rightarrow> e | None \<Rightarrow> [])"

definition looks_submitted_to_upstream :: "sms_log \<Rightarrow> bool" where
  "looks_submitted_to_upstream r =
     (if (case upstream_message_id r of Some u \<Rightarrow> u \<noteq> [] | None \<Rightarrow> False) then True
      else error_text r \<noteq> [] \<and> submitted_pattern_search (error_text r))"

definition error_category :: "pystr \<Rightarrow> refund_reason" where
  "error_category err =
     (if err = [] then UnknownSystemError
      else if contains_any [asc ''No available channel'', [26080, 21487, 29992, 36890, 36947]] err
        then NoChannelError
      else if contains_any [[40657, 21517, 21333], asc ''blacklist''] err then BlacklistError
      else if contains_any [[25209, 27425, 24050, 21462, 28040], asc ''cancelled''] err
        then BatchCancelledError
      else if contains_any [[38431, 21015], asc ''queue'', asc ''RabbitMQ''] err then QueueError
      else if contains_any [asc ''RBINDFAIL'', asc ''Bind Failed'', [26410, 32465, 23450]] err
        then NotBoundError
      else OtherSystemError)"

record refund_candidate =
  cand_log :: sms_log
  eligible :: bool
  reason :: refund_reason

definition classify_refund_candidate :: "sms_log \<Rightarrow> refund_candidate" where
  "classify_refund_candidate r =
     (if log_status r \<noteq> Failed
        then \<lparr>cand_log = r, eligible = False, reason = NotFailed (log_status r)\<rparr>
      else if refunded_at r \<noteq> None
        then \<lparr>cand_log = r, eligible = False, reason = RefundedBefore\<rparr>
      else if (case cost_price r of None \<Rightarrow> True | Some c \<Rightarrow> c \<le> 0)
        then \<lparr>cand_log = r, eligible = False, reason = NoSellingPrice\<rparr>
      else if looks_submitted_to_upstream r
        then \<lparr>cand_log = r, eligible = False, reason = LooksSubmitted\<rparr>
      else \<lparr>cand_log = r, eligible = True, reason = error_category (error_text r)\<rparr>)"

definition like_null :: "pystr \<Rightarrow> pystr option \<Rightarrow> bool" where
  "like_null pat t = (case t of None \<Rightarrow> False | Some s \<Rightarrow> sql_like pat s)"

definition list_refundable_where ::
    "int option \<Rightarrow> int option \<Rightarrow> int option \<Rightarrow> pystr option \<Rightarrow> bool \<Rightarrow> sms_log \<Rightarrow> bool" where
  "list_refundable_where account_id batch chan keyword include_ineligible r =
     (log_status r = Failed
      \<and> (include_ineligible
         \<or> refunded_at r = None
           \<and> (case cost_price r of Some c \<Rightarrow> 0 < c | None \<Rightarrow> False)
           \<and> upstream_message_id r = None
           \<and> (case log_error_message r of
                None \<Rightarrow> True
              | Some e \<Rightarrow> \<not> sql_like (asc ''%SMPP Error:%'') e \<and> \<not> sql_like (asc ''%SMPP DLR:%'') e))
      \<and> (case truthy_id account_id of None \<Rightarrow> True | Some i \<Rightarrow> log_account_id r = i)
      \<and> (case truthy_id batch of None \<Rightarrow> True | Some i \<Rightarrow> log_batch_id r = Some i)
      \<and> (case truthy_id chan of None \<Rightarrow> True | Some i \<Rightarrow> log_channel_id r = Some i)
      \<and> (case keyword of
           None \<Rightarrow> True
         | Some k \<Rightarrow>
             (k = []
              \<or> (let kw = [37] @ py_strip k @ [37]
                 in sql_like kw (message_id r) \<or> sql_like kw (phone_number r)
                    \<or> like_null kw (log_error_message r)))))"

definition list_refundable ::
    "world \<Rightarrow> int option \<Rightarrow> int option \<Rightarrow> int option \<Rightarrow> pystr option \<Rightarrow> int \<Rightarrow> int \<Rightarrow> bool
       \<Rightarrow> nat \<times> refund_candidate list" where
  "list_refundable w account_id batch chan keyword page page_size include_ineligible =
     (let p = max 1 (if page = 0 then 1 else page);
          size = max 1 (min (if page_size = 0 then 50 else page_size) 200);
          rows = filter (list_refundable_where account_id batch chan keyword include_ineligible)
                   (sms_logs w);
          shown = take (nat size) (drop (nat ((p - 1) * size)) (sort_desc log_id rows));
          cands = map classify_refund_candidate shown
      in (length rows, if include_ineligible then cands else filter eligible cands))"

definition get_refund_preview :: "world \<Rightarrow> int \<Rightarrow> refund_candidate option" where
  "get_refund_preview w i = map_option classify_refund_candidate (log_by_id w i)"

section \<open>The refund itself\<close>

record refund_receipt =
  rf_amount :: money
  rf_balance_after :: money
  rf_account :: int
  rf_category :: refund_reason

datatype refund_answer = NotRefunded refund_reason | Refunded refund_receipt

definition succeeded :: "refund_answer \<Rightarrow> bool" where
  "succeeded a = (case a of Refunded _ \<Rightarrow> True | NotRefunded _ \<Rightarrow> False)"

text \<open>Step 1, \<open>UPDATE sms_logs SET refunded_... WHERE id = i AND refunded_at IS NULL\<close>, with its row count.\<close>

definition claim_refund :: "int \<Rightarrow> money \<Rightarrow> pystr \<Rightarrow> world \<Rightarrow> nat \<times> world" where
  "claim_refund i amount by_whom w =
     (let claim = (\<lambda>r. log_id r = i \<and> refunded_at r = None)
      in (rowcount claim (sms_logs w),
          w\<lparr>sms_logs := upd_where claim
               (\<lambda>r. r\<lparr>refunded_at := Some (now w), refunded_by := Some (take 100 by_whom),
                      refunded_amount := Some amount\<rparr>) (sms_logs w)\<rparr>))"

text \<open>\<open>row\<close> is the row as the caller read it, which may be older than the table.\<close>

definition do_refund ::
    "world \<Rightarrow> sms_log \<Rightarrow> money \<Rightarrow> pystr \<Rightarrow> refund_reason \<Rightarrow> refund_answer \<times> world" where
  "do_refund w row amount by_whom category =
     (if amount \<le> 0 then (NotRefunded NonPositiveAmount, w)
      else
        let (n, w1) = claim_refund (log_id row) amount by_whom w
        in if n = 0 then (NotRefunded RefundedBefore, w1)
           else let w2 = snd (add_balance_where (\<lambda>_. True) (log_account_id row) amount w1);
                    bal = (case balance_of w2 (log_account_id row) of None \<Rightarrow> 0 | Some b \<Rightarrow> b)
                in (Refunded \<lparr>rf_amount = amount, rf_balance_after = bal,
                              rf_account = log_account_id row, rf_category = category\<rparr>,
                    log_balance (log_account_id row) Refund amount bal w2))"

definition selling_amount :: "sms_log \<Rightarrow> money" where
  "selling_amount r = (case selling_price r of None \<Rightarrow> 0 | Some p \<Rightarrow> p)"

definition execute_refund :: "world \<Rightarrow> int \<Rightarrow> pystr \<Rightarrow> refund_answer \<times> world" where
  "execute_refund w i admin_username =
     (case log_by_id w i of
        None \<Rightarrow> (NotRefunded LogNotFound, w)
      | Some row \<Rightarrow>
          (let cand = classify_refund_candidate row
           in if \<not> eligible cand then (NotRefunded (reason cand), w)
              else do_refund w row (selling_amount row) admin_username (reason cand)))"

definition execute_auto_refund :: "world \<Rightarrow> int \<Rightarrow> pystr \<Rightarrow> refund_answer \<times> world" where
  "execute_auto_refund w i source =
     (case log_by_id w i of
        None \<Rightarrow> (NotRefunded LogNotFound, w)
      | Some row \<Rightarrow>
          (if refunded_at row \<noteq> None then (NotRefunded RefundedBefore, w)
           else do_refund w row (selling_amount row) (asc ''system:'' @ source) (AutoSource source)))"

definition execute_admin_force_refund :: "world \<Rightarrow> int \<Rightarrow> pystr \<Rightarrow> refund_answer \<times> world" where
  "execute_admin_force_refund w i admin_username =
     (case log_by_id w i of
        None \<Rightarrow> (NotRefunded LogNotFound, w)
      | Some row \<Rightarrow>
          (if log_status row \<noteq> Failed then (NotRefunded (NotFailed (log_status row)), w)
           else if refunded_at row \<noteq> None then (NotRefunded RefundedBefore, w)
           else case selling_price row of
                  None \<Rightarrow> (NotRefunded NoSellingPrice, w)
                | Some p \<Rightarrow> (if p \<le> 0 then (NotRefunded NoSellingPrice, w)
                             else do_refund w row p admin_username AdminForce)))"

text \<open>The loop of the batch versions, over the single refund \<open>one\<close>.\<close>

record refund_summary =
  rs_ok :: nat
  rs_failed :: nat
  rs_total :: money
  rs_failures :: "(int \<times> refund_reason) list"

fun refund_loop ::
    "(world \<Rightarrow> int \<Rightarrow> refund_answer \<times> world) \<Rightarrow> int list \<Rightarrow> refund_summary \<Rightarrow> world
       \<Rightarrow> refund_summary \<times> world" where
  "refund_loop one [] acc w = (acc, w)"
| "refund_loop one (i # is) acc w =
     (case one w i of
        (Refunded r, w') \<Rightarrow>
          refund_loop one is (acc\<lparr>rs_ok := rs_ok acc + 1, rs_total := rs_total acc + rf_amount r\<rparr>) w'
      | (NotRefunded e, w') \<Rightarrow>
          refund_loop one is
            (acc\<lparr>rs_failed := rs_failed acc + 1, rs_failures := rs_failures acc @ [(i, e)]\<rparr>) w')"

definition refund_batch_of ::
    "(world \<Rightarrow> int \<Rightarrow> refund_answer \<times> world) \<Rightarrow> world \<Rightarrow> int list \<Rightarrow> refund_summary \<times> world" where
  "refund_batch_of one w ids =
     (case refund_loop one ids \<lparr>rs_ok = 0, rs_failed = 0, rs_total = 0, rs_failures = []\<rparr> w of
        (s, w') \<Rightarrow> (s\<lparr>rs_failures := take 50 (rs_failures s)\<rparr>, w'))"

definition execute_refund_batch ::
    "world \<Rightarrow> int list \<Rightarrow> pystr \<Rightarrow> refund_summary \<times> world" where
  "execute_refund_batch w ids admin_username =
     refund_batch_of (\<lambda>w i. execute_refund w i admin_username) w ids"

definition execute_admin_force_refund_batch ::
    "world \<Rightarrow> int list \<Rightarrow> pystr \<Rightarrow> refund_summary \<times> world" where
  "execute_admin_force_refund_batch w ids admin_username =
     refund_batch_of (\<lambda>w i. execute_admin_force_refund w i admin_username) w ids"

section \<open>The three entry points as one family\<close>

datatype refund_op = Reviewed int pystr | Automatic int pystr | Forced int pystr

fun refund_target :: "refund_op \<Rightarrow> int" where
  "refund_target (Reviewed i _) = i"
| "refund_target (Automatic i _) = i"
| "refund_target (Forced i _) = i"

fun refund_run :: "refund_op \<Rightarrow> world \<Rightarrow> refund_answer \<times> world" where
  "refund_run (Reviewed i admin) w = execute_refund w i admin"
| "refund_run (Automatic i source) w = execute_auto_refund w i source"
| "refund_run (Forced i admin) w = execute_admin_force_refund w i admin"

lemma log_by_id_unique:
  assumes "wf_world w" and "log_by_id w i = Some r" and "x \<in> set (sms_logs w)" and "log_id x = i"
  shows "x = r"
  using assms log_by_id_Some [OF assms(2)]
  by (metis distinct_map inj_onD wf_world_def)

lemma claim_refund_row:
  assumes wf: "wf_world w" and row: "log_by_id w i = Some r"
  shows "fst (claim_refund i amount by_whom w) = (if refunded_at r = None then 1 else 0)"
proof -
  have "filter (\<lambda>x. log_id x = i) (sms_logs w) = [r]"
    using log_by_id_Some [OF row] filter_distinct_key wf by (fastforce simp: wf_world_def)
  then have "filter (\<lambda>x. log_id x = i \<and> refunded_at x = None) (sms_logs w) =
      (if refunded_at r = None then [r] else [])"
    by (simp add: filter_filter [symmetric])
  then show ?thesis by (simp add: claim_refund_def Let_def rowcount_def)
qed

lemma claim_refund_log:
  "log_by_id (snd (claim_refund i amount by_whom w)) j =
     map_option (\<lambda>r. if log_id r = i \<and> refunded_at r = None
                     then r\<lparr>refunded_at := Some (now w), refunded_by := Some (take 100 by_whom),
                            refunded_amount := Some amount\<rparr> else r) (log_by_id w j)"
  by (simp add: claim_refund_def Let_def log_by_id_def find_upd_where)

lemma claim_refund_frame [simp]:
  "accounts (snd (claim_refund i amount by_whom w)) = accounts w"
  "balance_logs (snd (claim_refund i amount by_whom w)) = balance_logs w"
  "now (snd (claim_refund i amount by_whom w)) = now w"
  "wf_world (snd (claim_refund i amount by_whom w)) = wf_world w"
  "ledger_ok opening (snd (claim_refund i amount by_whom w)) = ledger_ok opening w"
  "prepaid_covered (snd (claim_refund i amount by_whom w)) = prepaid_covered w"
  "account_by_id (snd (claim_refund i amount by_whom w)) j = account_by_id w j"
  by (simp_all add: claim_refund_def Let_def wf_world_def map_upd_where)

lemma claim_refund_none: "fst (claim_refund i amount by_whom w) = 0 \<Longrightarrow> snd (claim_refund i amount by_whom w) = w"
  by (simp add: claim_refund_def Let_def upd_where_none)

text \<open>A refund is refused and changes nothing, or it marks the row and pays the amount.\<close>

lemma do_refund_cases:
  obtains (refused) e where "do_refund w row amount by_whom category = (NotRefunded e, w)"
      "amount \<le> 0 \<or> fst (claim_refund (log_id row) amount by_whom w) = 0"
  | (paid) rc b where "do_refund w row amount by_whom category =
        (Refunded rc, log_balance (log_account_id row) Refund amount b
           (snd (add_balance_where (\<lambda>_. True) (log_account_id row) amount
              (snd (claim_refund (log_id row) amount by_whom w)))))"
      "0 < amount" "fst (claim_refund (log_id row) amount by_whom w) \<noteq> 0"
      "rf_amount rc = amount" "rf_account rc = log_account_id row"
      "rf_balance_after rc = b" "rf_category rc = category"
proof (cases "amount \<le> 0 \<or> fst (claim_refund (log_id row) amount by_whom w) = 0")
  case True
  then show ?thesis
    using claim_refund_none [of "log_id row" amount by_whom w]
    by (intro refused [of "if amount \<le> 0 then NonPositiveAmount else RefundedBefore"])
      (auto simp: do_refund_def split_def)
next
  case False
  show ?thesis
    by (rule paid) (use False in \<open>auto simp: do_refund_def split_def Let_def\<close>)
qed

lemma do_refund_money:
  shows "wf_world w \<Longrightarrow> wf_world (snd (do_refund w row amount by_whom category))"
    and "ledger_ok opening w \<Longrightarrow> ledger_ok opening (snd (do_refund w row amount by_whom category))"
    and "prepaid_covered w \<Longrightarrow> prepaid_covered (snd (do_refund w row amount by_whom category))"
proof -
  show "wf_world w \<Longrightarrow> wf_world (snd (do_refund w row amount by_whom category))"
    by (cases rule: do_refund_cases [of w row amount by_whom category]) simp_all
  show "ledger_ok opening w \<Longrightarrow> ledger_ok opening (snd (do_refund w row amount by_whom category))"
    by (cases rule: do_refund_cases [of w row amount by_whom category])
      (simp_all add: ledger_ok_move)
  assume cov: "prepaid_covered w"
  show "prepaid_covered (snd (do_refund w row amount by_whom category))"
  proof (cases rule: do_refund_cases [of w row amount by_whom category])
    case (paid rc b)
    then show ?thesis using cov by (simp add: prepaid_covered_add)
  qed (simp add: cov)
qed

lemmas refund_entry_defs =
  execute_refund_def execute_auto_refund_def execute_admin_force_refund_def

text \<open>Every entry point refuses without effect, or reaches the core with the row of the table and
  its selling price.\<close>

lemma eligible_iff:
  "eligible (classify_refund_candidate r) \<longleftrightarrow>
     log_status r = Failed \<and> refunded_at r = None
     \<and> (case cost_price r of None \<Rightarrow> False | Some c \<Rightarrow> 0 < c) \<and> \<not> looks_submitted_to_upstream r"
  by (auto simp: classify_refund_candidate_def split: option.splits)

lemma refund_run_disj:
  "(\<exists>e. refund_run op w = (NotRefunded e, w))
   \<or> (\<exists>row by_whom category. log_by_id w (refund_target op) = Some row
        \<and> refund_run op w = do_refund w row (selling_amount row) by_whom category
        \<and> refunded_at row = None)"
proof (cases "log_by_id w (refund_target op)")
  case None
  then show ?thesis by (cases op) (simp_all add: refund_entry_defs)
next
  case (Some row)
  show ?thesis
  proof (cases op)
    case (Reviewed i admin)
    then show ?thesis using Some
      by (cases "eligible (classify_refund_candidate row)")
        (auto simp: execute_refund_def Let_def eligible_iff)
  next
    case (Automatic i source)
    then show ?thesis using Some
      by (cases "refunded_at row") (auto simp: execute_auto_refund_def)
  next
    case (Forced i admin)
    then show ?thesis using Some
      by (cases "refunded_at row"; cases "selling_price row")
        (auto simp: execute_admin_force_refund_def selling_amount_def)
  qed
qed

lemma refund_run_cases:
  obtains (refused) e where "refund_run op w = (NotRefunded e, w)"
  | (core) row by_whom category where "log_by_id w (refund_target op) = Some row"
      "refund_run op w = do_refund w row (selling_amount row) by_whom category"
      "refunded_at row = None"
  using refund_run_disj [of op w] by blast

interpretation refund: money_op refund_run
proof
  fix w :: world and op fund
  show "wf_world w \<Longrightarrow> wf_world (snd (refund_run op w))"
    by (cases rule: refund_run_cases [of op w]) (simp_all add: do_refund_money)
  show "wf_world w \<Longrightarrow> ledger_ok fund w \<Longrightarrow> ledger_ok fund (snd (refund_run op w))"
    by (cases rule: refund_run_cases [of op w]) (simp_all add: do_refund_money)
  show "wf_world w \<Longrightarrow> prepaid_covered w \<Longrightarrow> prepaid_covered (snd (refund_run op w))"
    by (cases rule: refund_run_cases [of op w]) (simp_all add: do_refund_money)
qed

section \<open>A refund happens once\<close>

lemma do_refund_paid_iff:
  assumes "wf_world w" and "log_by_id w (log_id row) = Some r"
  shows "succeeded (fst (do_refund w row amount by_whom category)) \<longleftrightarrow>
           0 < amount \<and> refunded_at r = None"
  by (cases rule: do_refund_cases [of w row amount by_whom category])
    (use claim_refund_row [OF assms] in \<open>auto simp: succeeded_def split: if_splits\<close>)

lemma do_refund_marks:
  assumes "succeeded (fst (do_refund w row amount by_whom category))"
    and "log_by_id w (log_id row) = Some r"
  shows "\<exists>r'. log_by_id (snd (do_refund w row amount by_whom category)) (log_id row) = Some r'
              \<and> refunded_at r' \<noteq> None"
  by (cases rule: do_refund_cases [of w row amount by_whom category])
    (use assms log_by_id_Some [OF assms(2)] in \<open>auto simp: succeeded_def claim_refund_log\<close>)

lemma refund_run_keeps_mark:
  assumes "log_by_id w i = Some r" and "refunded_at r \<noteq> None"
  shows "log_by_id (snd (refund_run op w)) i = Some r"
proof (cases rule: refund_run_cases [of op w])
  case (core row by_whom category)
  obtain t where t: "refunded_at r = Some t" using assms(2) by blast
  show ?thesis unfolding core(2)
    by (cases rule: do_refund_cases [of w row "selling_amount row" by_whom category])
      (use assms t in \<open>simp_all add: claim_refund_log\<close>)
qed (simp add: assms)

lemma history_keeps_mark:
  assumes "log_by_id w i = Some r" and "refunded_at r \<noteq> None"
  shows "log_by_id (refund.history ops w) i = Some r"
  using assms
  by (induction ops arbitrary: w) (simp_all add: refund.history_def refund_run_keeps_mark)

lemma refund_run_refused_when_marked:
  assumes "log_by_id w (refund_target op) = Some r" and "refunded_at r \<noteq> None"
  shows "\<not> succeeded (fst (refund_run op w)) \<and> snd (refund_run op w) = w"
  by (cases rule: refund_run_cases [of op w]) (use assms in \<open>auto simp: succeeded_def\<close>)

lemma refund_run_success:
  assumes wf: "wf_world w" and ok: "succeeded (fst (refund_run op w))"
  obtains row r' where "log_by_id w (refund_target op) = Some row" "refunded_at row = None"
    "0 < selling_amount row" "log_by_id (snd (refund_run op w)) (refund_target op) = Some r'"
    "refunded_at r' \<noteq> None"
proof (cases rule: refund_run_cases [of op w])
  case (refused e)
  then show ?thesis using ok by (simp add: succeeded_def)
next
  case (core row by_whom category)
  have i: "log_id row = refund_target op" using log_by_id_Some [OF core(1)] by simp
  have row: "log_by_id w (log_id row) = Some row" using core(1) i by simp
  have s: "succeeded (fst (do_refund w row (selling_amount row) by_whom category))"
    using ok core(2) by simp
  have "0 < selling_amount row" using s do_refund_paid_iff [OF wf row] by simp
  moreover obtain r' where
    "log_by_id (snd (refund_run op w)) (refund_target op) = Some r'" "refunded_at r' \<noteq> None"
    using do_refund_marks [OF s row] core(2) i by auto
  ultimately show ?thesis using core(1,3) that by blast
qed

text \<open>The amounts paid for message \<open>i\<close> while a sequence of refund calls runs.\<close>

fun payouts :: "int \<Rightarrow> refund_op list \<Rightarrow> world \<Rightarrow> money list" where
  "payouts i [] w = []"
| "payouts i (op # ops) w =
     (case refund_run op w of
        (Refunded rc, w') \<Rightarrow>
          (if refund_target op = i then rf_amount rc # payouts i ops w' else payouts i ops w')
      | (NotRefunded _, w') \<Rightarrow> payouts i ops w')"

lemma payouts_marked:
  assumes "log_by_id w i = Some r" and "refunded_at r \<noteq> None"
  shows "payouts i ops w = []"
  using assms
proof (induction ops arbitrary: w)
  case (Cons op ops)
  obtain a w' where run: "refund_run op w = (a, w')" by fastforce
  have keep: "log_by_id w' i = Some r" using refund_run_keeps_mark [OF Cons.prems, of op] run by simp
  have "\<not> succeeded a" if "refund_target op = i"
    using refund_run_refused_when_marked [of w op r] Cons.prems that run by simp
  then show ?case using Cons.IH [OF keep Cons.prems(2)] run
    by (auto simp: succeeded_def split: refund_answer.splits)
qed simp

text \<open>What a successful call pays is the selling price of the row.\<close>

lemma refund_run_amount:
  assumes "refund_run op w = (Refunded rc, w')"
  obtains row by_whom where "log_by_id w (refund_target op) = Some row" "refunded_at row = None"
    "rf_amount rc = selling_amount row" "0 < selling_amount row" "rf_account rc = log_account_id row"
    "w' = log_balance (log_account_id row) Refund (rf_amount rc) (rf_balance_after rc)
            (snd (add_balance_where (\<lambda>_. True) (log_account_id row) (rf_amount rc)
               (snd (claim_refund (refund_target op) (rf_amount rc) by_whom w))))"
proof (cases rule: refund_run_cases [of op w])
  case (refused e)
  then show ?thesis using assms by simp
next
  case (core row by_whom category)
  have i: "log_id row = refund_target op" using log_by_id_Some [OF core(1)] by simp
  show ?thesis
    by (cases rule: do_refund_cases [of w row "selling_amount row" by_whom category])
      (use assms core i in \<open>auto intro: that\<close>)
qed

lemma refund_run_other_unmarked:
  assumes "refund_run op w = (a, w')" and "refund_target op \<noteq> i"
  shows "log_by_id w' i = log_by_id w i"
proof (cases a)
  case (Refunded rc)
  with assms(1) obtain by_whom acc b where
    w': "w' = log_balance acc Refund (rf_amount rc) b
            (snd (add_balance_where (\<lambda>_. True) acc (rf_amount rc)
               (snd (claim_refund (refund_target op) (rf_amount rc) by_whom w))))"
    using refund_run_amount by metis
  show ?thesis unfolding w'
    using assms(2) log_by_id_Some [of w i] by (cases "log_by_id w i") (simp_all add: claim_refund_log)
next
  case (NotRefunded e)
  show ?thesis
  proof (cases rule: refund_run_cases [of op w])
    case (core row by_whom category)
    then show ?thesis using assms NotRefunded
      by (cases rule: do_refund_cases [of w row "selling_amount row" by_whom category]) auto
  qed (use assms in auto)
qed

text \<open>C11: However often, in whatever order and through whichever of the three entry points a message is
  refunded, it is paid at most once, the amount is its selling price, and it was not refunded
  before.\<close>

theorem refund_at_most_once:
  assumes "wf_world w"
  shows "payouts i ops w = []
         \<or> (\<exists>r. log_by_id w i = Some r \<and> refunded_at r = None \<and> 0 < selling_amount r
               \<and> payouts i ops w = [selling_amount r])"
  using assms
proof (induction ops arbitrary: w)
  case (Cons op ops)
  obtain a w' where run: "refund_run op w = (a, w')" by fastforce
  have wf': "wf_world w'" using refund.wf [OF Cons.prems, of op] run by simp
  show ?case
  proof (cases "refund_target op = i")
    case False
    then have "payouts i (op # ops) w = payouts i ops w'"
      using run by (simp split: refund_answer.splits)
    then show ?thesis
      using Cons.IH [OF wf'] refund_run_other_unmarked [OF run False] by simp
  next
    case True
    show ?thesis
    proof (cases a)
      case (Refunded rc)
      then have ok: "succeeded (fst (refund_run op w))" using run by (simp add: succeeded_def)
      obtain r' where "log_by_id w' i = Some r'" "refunded_at r' \<noteq> None"
        using refund_run_success [OF Cons.prems ok] run True by (metis snd_conv)
      then have "payouts i ops w' = []" by (rule payouts_marked)
      moreover obtain row where "log_by_id w i = Some row" "refunded_at row = None"
          "0 < selling_amount row" "rf_amount rc = selling_amount row"
        using refund_run_amount [of op w rc w'] run Refunded True by metis
      ultimately show ?thesis using run Refunded True by simp
    next
      case (NotRefunded e)
      have "w' = w"
      proof (cases rule: refund_run_cases [of op w])
        case (core row by_whom category)
        then show ?thesis using run NotRefunded
          by (cases rule: do_refund_cases [of w row "selling_amount row" by_whom category]) auto
      qed (use run in auto)
      then show ?thesis using Cons.IH [OF Cons.prems] run NotRefunded by simp
    qed
  qed
qed simp

text \<open>Two requests that read the same unrefunded row and both pass their checks: after the first has
  paid, and whatever other refunds run in between, the second one - still holding the old row - is
  refused and changes no table at all.\<close>

theorem stale_refund_refused:
  assumes "wf_world w" and "log_by_id w (log_id row) = Some r"
    and "do_refund w row amount by_whom category = (Refunded rc, w1)"
  shows "\<exists>e. do_refund (refund.history ops w1) row amount' by_whom' category'
               = (NotRefunded e, refund.history ops w1)"
proof -
  let ?h = "refund.history ops w1"
  have "succeeded (fst (do_refund w row amount by_whom category))"
    using assms(3) by (simp add: succeeded_def)
  then obtain r' where r': "log_by_id w1 (log_id row) = Some r'" "refunded_at r' \<noteq> None"
    using do_refund_marks [of w row amount by_whom category r] assms(2,3) by auto
  have "log_by_id ?h (log_id row) = Some r'" using r' by (rule history_keeps_mark)
  moreover have "wf_world ?h"
    using assms(1,3) do_refund_money(1) refund.history_wf by (metis snd_conv)
  ultimately have "fst (claim_refund (log_id row) amount' by_whom' ?h) = 0"
    using claim_refund_row r'(2) by simp
  then show ?thesis
    by (cases rule: do_refund_cases [of ?h row amount' by_whom' category']) auto
qed

text \<open>The reviewed refund pays exactly for the messages that failed, were not refunded, have a
  positive cost, do not look handed over to the supplier, and have a positive selling price.\<close>

theorem reviewed_refund_iff:
  assumes "wf_world w"
  shows "succeeded (fst (execute_refund w i admin)) \<longleftrightarrow>
    (\<exists>r. log_by_id w i = Some r \<and> log_status r = Failed \<and> refunded_at r = None
        \<and> (case cost_price r of None \<Rightarrow> False | Some c \<Rightarrow> 0 < c)
        \<and> \<not> looks_submitted_to_upstream r \<and> 0 < selling_amount r)"
proof (cases "log_by_id w i")
  case None
  then show ?thesis by (simp add: execute_refund_def succeeded_def)
next
  case (Some r)
  show ?thesis
  proof (cases "eligible (classify_refund_candidate r)")
    case True
    then have "execute_refund w i admin =
        do_refund w r (selling_amount r) admin (reason (classify_refund_candidate r))"
      using Some by (simp add: execute_refund_def Let_def)
    moreover have "log_by_id w (log_id r) = Some r" using Some log_by_id_Some [OF Some] by simp
    ultimately show ?thesis using do_refund_paid_iff [OF assms] True Some by (simp add: eligible_iff)
  next
    case False
    then have "\<not> succeeded (fst (execute_refund w i admin))"
      using Some by (simp add: execute_refund_def Let_def succeeded_def)
    with False Some show ?thesis by (auto simp: eligible_iff)
  qed
qed

lemma cand_log_classify [simp]: "cand_log (classify_refund_candidate r) = r"
  by (simp add: classify_refund_candidate_def split: option.splits)

lemma listed_refundable:
  assumes "cand \<in> set (snd (list_refundable w acc batch chan keyword page psize False))"
  obtains r where "r \<in> set (sms_logs w)" "cand = classify_refund_candidate r" "eligible cand"
proof -
  obtain n m rows where "snd (list_refundable w acc batch chan keyword page psize False) =
      filter eligible (map classify_refund_candidate (take n (drop m (sort_desc log_id rows))))"
    and rows: "set rows \<subseteq> set (sms_logs w)"
    by (simp only: list_refundable_def Let_def snd_conv if_False) (metis filter_is_subset)
  with assms have c: "cand \<in> classify_refund_candidate ` set (take n (drop m (sort_desc log_id rows)))"
    and el: "eligible cand"
    by (simp_all add: image_iff)
  from c obtain r where "r \<in> set (take n (drop m (sort_desc log_id rows)))"
      "cand = classify_refund_candidate r"
    by blast
  moreover from this have "r \<in> set (sms_logs w)"
    using rows in_set_takeD in_set_dropD by (metis set_sort_desc subsetD)
  ultimately show ?thesis using el that by blast
qed

text \<open>Every message on the default refund list, whatever the filters, keyword and page, can be
  refunded: the reviewed refund pays its selling price whenever that is positive.\<close>

theorem listed_refundable_pays:
  assumes "wf_world w"
    and "cand \<in> set (snd (list_refundable w acc batch chan keyword page psize False))"
    and "0 < selling_amount (cand_log cand)"
  shows "\<exists>rc w'. execute_refund w (log_id (cand_log cand)) admin = (Refunded rc, w')
               \<and> rf_amount rc = selling_amount (cand_log cand)"
proof -
  let ?r = "cand_log cand"
  obtain r where r: "r \<in> set (sms_logs w)" "cand = classify_refund_candidate r" "eligible cand"
    using assms(2) by (rule listed_refundable)
  then have el: "eligible (classify_refund_candidate ?r)" and mem: "?r \<in> set (sms_logs w)"
    by simp_all
  then have row: "log_by_id w (log_id ?r) = Some ?r"
    using assms(1) find_distinct_key [of log_id "sms_logs w" ?r]
    by (simp add: log_by_id_def wf_world_def)
  have "succeeded (fst (execute_refund w (log_id ?r) admin))"
    unfolding reviewed_refund_iff [OF assms(1)]
    using row el assms(3) by (simp add: eligible_iff)
  then obtain rc w' where run: "execute_refund w (log_id ?r) admin = (Refunded rc, w')"
    by (cases "execute_refund w (log_id ?r) admin") (auto simp: succeeded_def split: refund_answer.splits)
  then show ?thesis
    using refund_run_amount [of "Reviewed (log_id ?r) admin" w rc w'] row by auto
qed

section \<open>Batches of refunds\<close>

definition total_balance :: "world \<Rightarrow> money" where
  "total_balance w = sum_list (map balance (accounts w))"

text \<open>The foreign key \<open>sms_logs.account_id\<close>.\<close>

definition logs_have_accounts :: "world \<Rightarrow> bool" where
  "logs_have_accounts w \<longleftrightarrow>
     list_all (\<lambda>r. log_account_id r \<in> set (map acc_id (accounts w))) (sms_logs w)"

lemma sum_upd_distinct:
  fixes bal :: "'r \<Rightarrow> money"
  assumes "distinct (map key t)" and "i \<in> set (map key t)"
    and "\<And>r. bal (f r) = bal r + d"
  shows "sum_list (map bal (upd_where (\<lambda>r. key r = i) f t)) = sum_list (map bal t) + d"
  using assms(1,2)
proof (induction t)
  case (Cons r t)
  show ?case
  proof (cases "key r = i")
    case True
    have "key x \<noteq> key r" if "x \<in> set t" for x
      using Cons.prems(1) imageI [OF that, of key] by auto
    with True have "\<forall>x\<in>set t. key x \<noteq> i" by simp
    then have "upd_where (\<lambda>r. key r = i) f t = t"
      by (induction t) auto
    then show ?thesis using True assms(3) by simp
  next
    case False
    then show ?thesis using Cons by simp
  qed
qed simp

lemma total_balance_paid:
  assumes "wf_world w" and "i \<in> set (map acc_id (accounts w))"
  shows "total_balance (snd (add_balance_where (\<lambda>_. True) i d w)) = total_balance w + d"
  using assms sum_upd_distinct [of acc_id "accounts w" i balance "\<lambda>a. a\<lparr>balance := balance a + d\<rparr>" d]
  by (simp add: total_balance_def add_balance_where_def wf_world_def)

lemma refund_run_total:
  assumes "wf_world w" and "logs_have_accounts w" and "refund_run op w = (a, w')"
  shows "logs_have_accounts w'
    \<and> total_balance w' = total_balance w + (case a of Refunded rc \<Rightarrow> rf_amount rc | NotRefunded _ \<Rightarrow> 0)"
proof (cases a)
  case (Refunded rc)
  with assms(3) have "refund_run op w = (Refunded rc, w')" by simp
  then obtain row by_whom where
    row: "log_by_id w (refund_target op) = Some row" and
    w': "w' = log_balance (log_account_id row) Refund (rf_amount rc) (rf_balance_after rc)
            (snd (add_balance_where (\<lambda>_. True) (log_account_id row) (rf_amount rc)
               (snd (claim_refund (refund_target op) (rf_amount rc) by_whom w))))"
    by (rule refund_run_amount)
  let ?w1 = "snd (claim_refund (refund_target op) (rf_amount rc) by_whom w)"
  have "log_account_id row \<in> set (map acc_id (accounts w))"
    using assms(2) log_by_id_Some [OF row] by (simp add: logs_have_accounts_def list_all_iff)
  then have "total_balance (snd (add_balance_where (\<lambda>_. True) (log_account_id row) (rf_amount rc) ?w1))
      = total_balance ?w1 + rf_amount rc"
    using assms(1) by (intro total_balance_paid) simp_all
  moreover have "total_balance ?w1 = total_balance w" by (simp add: total_balance_def)
  moreover have "logs_have_accounts w'"
    using assms(2) unfolding w' logs_have_accounts_def
    by (simp add: list_all_iff claim_refund_def Let_def add_balance_where_def map_upd_where)
      (auto simp: upd_where_def)
  ultimately show ?thesis using Refunded w' by (simp add: total_balance_def)
next
  case (NotRefunded e)
  show ?thesis
  proof (cases rule: refund_run_cases [of op w])
    case (refused e')
    then show ?thesis using assms by auto
  next
    case (core row by_whom category)
    then show ?thesis using assms NotRefunded
      by (cases rule: do_refund_cases [of w row "selling_amount row" by_whom category]) auto
  qed
qed

lemma refund_loop_totals:
  assumes one: "one = (\<lambda>w i. refund_run (f i) w)"
    and "wf_world w" and "logs_have_accounts w" and "refund_loop one ids acc w = (s, w')"
    and "length (rs_failures acc) = rs_failed acc"
  shows "rs_ok s + rs_failed s = rs_ok acc + rs_failed acc + length ids
    \<and> total_balance w' - rs_total s = total_balance w - rs_total acc
    \<and> length (rs_failures s) = rs_failed s"
  using assms(2-)
proof (induction ids arbitrary: acc w)
  case (Cons i ids)
  obtain a w1 where run: "refund_run (f i) w = (a, w1)" by fastforce
  have wf1: "wf_world w1" using refund.wf [OF Cons.prems(1), of "f i"] run by simp
  note tot = refund_run_total [OF Cons.prems(1,2) run]
  show ?case
  proof (cases a)
    case (Refunded rc)
    let ?acc = "acc\<lparr>rs_ok := rs_ok acc + 1, rs_total := rs_total acc + rf_amount rc\<rparr>"
    have "refund_loop one ids ?acc w1 = (s, w')"
      using Cons.prems(3) run Refunded by (simp add: one)
    from Cons.IH [OF wf1 _ this] tot Cons.prems(4) Refunded show ?thesis by simp
  next
    case (NotRefunded e)
    let ?acc = "acc\<lparr>rs_failed := rs_failed acc + 1, rs_failures := rs_failures acc @ [(i, e)]\<rparr>"
    have "refund_loop one ids ?acc w1 = (s, w')"
      using Cons.prems(3) run NotRefunded by (simp add: one)
    from Cons.IH [OF wf1 _ this] tot Cons.prems(4) NotRefunded show ?thesis by simp
  qed
qed simp

text \<open>A batch of reviewed refunds accounts for every id it was given, and the total it reports is
  the amount by which the balances of all accounts together grew.\<close>

theorem refund_batch_totals:
  assumes "wf_world w" and "logs_have_accounts w"
    and "execute_refund_batch w ids admin = (s, w')"
  shows "rs_ok s + rs_failed s = length ids
    \<and> total_balance w' = total_balance w + rs_total s
    \<and> length (rs_failures s) = min 50 (rs_failed s)"
proof -
  let ?z = "\<lparr>rs_ok = 0, rs_failed = 0, rs_total = 0, rs_failures = []\<rparr>"
  obtain s1 where loop: "refund_loop (\<lambda>w i. execute_refund w i admin) ids ?z w = (s1, w')"
      "s = s1\<lparr>rs_failures := take 50 (rs_failures s1)\<rparr>"
    using assms(3) by (auto simp: execute_refund_batch_def refund_batch_of_def split: prod.splits)
  have "(\<lambda>w i. execute_refund w i admin) = (\<lambda>w i. refund_run (Reviewed i admin) w)" by simp
  from refund_loop_totals [OF this assms(1,2) loop(1)] loop(2) show ?thesis by simp
qed

section \<open>Two failed messages\<close>

definition demo_refunds :: world where
  "demo_refunds = empty_world
     \<lparr>accounts := [new_account 1 (asc ''a'')],
      sms_logs :=
        [(new_sms_log 10 (asc ''m1'') 1 (asc ''+66''))
           \<lparr>log_status := Failed, cost_price := Some 1, selling_price := Some 2\<rparr>,
         (new_sms_log 11 (asc ''m2'') 1 (asc ''+66''))
           \<lparr>log_status := Failed, cost_price := Some 1, selling_price := Some 2,
            upstream_message_id := Some (asc ''x'')\<rparr>]\<rparr>"

lemmas demo_refund_defs =
  demo_refunds_def empty_world_def new_account_def new_sms_log_def asc_def

lemma demo_refunds_wf: "wf_world demo_refunds"
  by (simp add: demo_refund_defs wf_world_def)

theorem refund_at_most_once_witness:
  "payouts 10 [Forced 10 [], Reviewed 10 [], Automatic 10 []] demo_refunds = [2]"
proof -
  have "payouts 10 [Forced 10 [], Reviewed 10 [], Automatic 10 []] demo_refunds \<noteq> []"
    by (simp add: demo_refund_defs refund_entry_defs log_by_id_def do_refund_def claim_refund_def
        Let_def rowcount_def)
  then show ?thesis
    using refund_at_most_once [OF demo_refunds_wf, of 10 "[Forced 10 [], Reviewed 10 [], Automatic 10 []]"]
    by (auto simp: demo_refund_defs log_by_id_def selling_amount_def)
qed

theorem stale_refund_refused_witness:
  "\<exists>row rc w1. log_by_id demo_refunds 10 = Some row
     \<and> do_refund demo_refunds row 2 [] AdminForce = (Refunded rc, w1)
     \<and> (\<exists>e. do_refund (refund.history [Forced 11 []] w1) row 2 [] AdminForce
               = (NotRefunded e, refund.history [Forced 11 []] w1))"
proof -
  obtain row where row: "log_by_id demo_refunds 10 = Some row" "log_id row = 10" "refunded_at row = None"
    by (simp add: demo_refund_defs log_by_id_def)
  then have "succeeded (fst (do_refund demo_refunds row 2 [] AdminForce))"
    using do_refund_paid_iff [OF demo_refunds_wf, of row row] by simp
  then obtain rc w1 where run: "do_refund demo_refunds row 2 [] AdminForce = (Refunded rc, w1)"
    by (cases "do_refund demo_refunds row 2 [] AdminForce")
      (auto simp: succeeded_def split: refund_answer.splits)
  show ?thesis
    using stale_refund_refused [OF demo_refunds_wf _ run, of row "[Forced 11 []]" 2 "[]" AdminForce]
      row run by auto
qed

theorem reviewed_refund_iff_witness:
  "\<not> succeeded (fst (execute_refund demo_refunds 11 []))"
  unfolding reviewed_refund_iff [OF demo_refunds_wf]
  by (simp add: demo_refund_defs log_by_id_def looks_submitted_to_upstream_def)

theorem listed_refundable_pays_witness:
  "\<exists>cand\<in>set (snd (list_refundable demo_refunds None None None None 1 50 False)).
     \<exists>rc w'. execute_refund demo_refunds (log_id (cand_log cand)) [] = (Refunded rc, w') \<and> rf_amount rc = 2"
proof -
  let ?l = "snd (list_refundable demo_refunds None None None None 1 50 False)"
  have ids: "map (log_id \<circ> cand_log) ?l = [10]"
    by (simp add: demo_refund_defs list_refundable_where_def truthy_id_def list_refundable_def Let_def
        eligible_iff looks_submitted_to_upstream_def error_text_def sort_desc_def)
  then obtain cand where c: "cand \<in> set ?l" "log_id (cand_log cand) = 10"
    by (cases ?l) auto
  moreover from c(1) obtain r where "r \<in> set (sms_logs demo_refunds)" "cand = classify_refund_candidate r"
    by (rule listed_refundable)
  ultimately have "selling_amount (cand_log cand) = 2"
    by (auto simp: demo_refund_defs selling_amount_def)
  note c = c(1) this
  show ?thesis using listed_refundable_pays [OF demo_refunds_wf c(1), of "[]"] c by fastforce
qed

theorem refund_batch_totals_witness:
  "rs_ok (fst (execute_refund_batch demo_refunds [10, 11, 10] []))
     + rs_failed (fst (execute_refund_batch demo_refunds [10, 11, 10] [])) = 3"
proof -
  have "logs_have_accounts demo_refunds"
    by (simp add: demo_refund_defs logs_have_accounts_def)
  then show ?thesis
    using refund_batch_totals [OF demo_refunds_wf, of "[10, 11, 10]" "[]"] by (metis length_Cons
        list.size(3) numeral_3_eq_3 prod.collapse)
qed

end
