(* ===== verification/BatchProgress.thy ===== *)
theory BatchProgress
  imports World
begin

text \<open>
  The progress of a batch, \<open>backend/app/modules/sms/batch_utils.py\<close>: the aggregate over the batch's
  messages, the target values of the batch row, the comparison that skips a write without change,
  the fall-back that expires the last messages of a virtual channel, and the intermediate progress
  of the pipeline. Python's float arithmetic on these counts (\<open>total * 0.02\<close>, the percentages) is
  exact rational arithmetic here. \<open>rnd\<close> is what \<open>random.randint(1, 999)\<close> returns.
\<close>

section \<open>Aggregates\<close>

record log_counts =
  n_pending :: int
  n_queued :: int
  n_sent :: int
  n_delivered :: int
  n_failed :: int
  n_expired :: int

definition batch_logs :: "world \<Rightarrow> int \<Rightarrow> sms_log list" where
  "batch_logs w b = filter (\<lambda>r. log_batch_id r = Some b) (sms_logs w)"

definition status_count :: "sms_status \<Rightarrow> sms_log list \<Rightarrow> int" where
  "status_count s ls = int (length (filter (\<lambda>r. log_status r = s) ls))"

definition counts_of :: "sms_log list \<Rightarrow> log_counts" where
  "counts_of ls =
     \<lparr>n_pending = status_count Pending ls, n_queued = status_count Queued ls,
      n_sent = status_count Sent ls, n_delivered = status_count Delivered ls,
      n_failed = status_count Failed ls, n_expired = status_count Expired ls\<rparr>"

definition sent_of :: "log_counts \<Rightarrow> int" where "sent_of c = n_sent c + n_delivered c"
definition failed_of :: "log_counts \<Rightarrow> int" where "failed_of c = n_failed c + n_expired c"
definition pending_of :: "log_counts \<Rightarrow> int" where "pending_of c = n_pending c + n_queued c"
definition log_total :: "log_counts \<Rightarrow> int" where
  "log_total c = n_pending c + n_queued c + n_sent c + n_delivered c + n_failed c + n_expired c"

text \<open>\<open>x or 0\<close>\<close>

definition or_zero :: "int option \<Rightarrow> int" where
  "or_zero x = (case x of Some n \<Rightarrow> n | None \<Rightarrow> 0)"

definition batch_total :: "sms_batch \<Rightarrow> log_counts \<Rightarrow> int" where
  "batch_total b c = (if or_zero (total_count b) \<noteq> 0 then or_zero (total_count b) else log_total c)"

text \<open>\<open>pending_cnt > 0 and pending_cnt <= total * 0.02\<close>\<close>

definition few_pending :: "int \<Rightarrow> int \<Rightarrow> bool" where
  "few_pending pending total_rows \<longleftrightarrow> 0 < pending \<and> 50 * pending \<le> total_rows"

definition PARTIAL_FAILURE :: pystr where
  "PARTIAL_FAILURE = [37096, 20998, 22833, 36133]"

definition partial_failure_text :: "int \<Rightarrow> int \<Rightarrow> pystr" where
  "partial_failure_text failed total_rows =
     PARTIAL_FAILURE @ [58, 32] @ text_of_int failed @ [47] @ text_of_int total_rows"

definition mimic_smpp_expired_dlr_message :: "nat \<Rightarrow> pystr" where
  "mimic_smpp_expired_dlr_message rnd =
     asc ''SMPP DLR: stat=EXPIRED err='' @ zfill 3 (text_of_nat rnd)"

section \<open>Target values\<close>

record progress_targets =
  new_success :: int
  new_delivered :: int
  new_failed :: int
  new_processing :: int
  new_progress :: int
  new_status :: batch_status
  new_completed_at :: "int option"
  new_error :: "pystr option"

definition norm_err :: "pystr option \<Rightarrow> pystr option" where
  "norm_err msg =
     (let s = py_strip (case msg of Some m \<Rightarrow> m | None \<Rightarrow> []) in if s \<noteq> [] then Some s else None)"

definition batch_targets_unchanged :: "sms_batch \<Rightarrow> progress_targets \<Rightarrow> bool" where
  "batch_targets_unchanged b t \<longleftrightarrow>
     or_zero (success_count b) = new_success t
     \<and> or_zero (delivered_count b) = new_delivered t
     \<and> or_zero (failed_count b) = new_failed t
     \<and> or_zero (processing_count b) = new_processing t
     \<and> or_zero (progress b) = new_progress t
     \<and> batch_status b = new_status t
     \<and> completed_at b = new_completed_at t
     \<and> norm_err (batch_error_message b) = norm_err (new_error t)"

definition percent_done :: "int \<Rightarrow> int \<Rightarrow> int" where
  "percent_done finished total_rows = min 100 (finished * 100 div max total_rows 1)"

text \<open>The status, \<open>completed_at\<close> and error message, from the ones of the row.\<close>

type_synonym batch_state = "batch_status \<times> int option \<times> pystr option"

definition drop_partial_failure :: "pystr option \<Rightarrow> pystr option" where
  "drop_partial_failure err =
     (case err of
        Some e \<Rightarrow> if e \<noteq> [] \<and> contains PARTIAL_FAILURE e then None else Some e
      | None \<Rightarrow> None)"

definition next_state :: "int \<Rightarrow> int \<Rightarrow> log_counts \<Rightarrow> batch_state \<Rightarrow> batch_state" where
  "next_state time tot c s =
     (case s of (status, completed, err) \<Rightarrow>
        (let sent = sent_of c; failed = failed_of c; finished = sent + failed;
             pending = pending_of c; lt = log_total c;
             fell_back = status = BCompleted \<and> (0 < pending \<or> finished < lt);
             st0 = (if fell_back then BProcessing else status);
             co0 = (if fell_back then None else completed)
         in if lt \<ge> tot \<and> finished \<ge> lt then
              (let st = (if failed = 0 then BCompleted
                         else if sent = 0 then BFailed else BCompleted)
               in (st, (if status = st \<and> completed \<noteq> None then completed else Some time),
                   (if failed \<noteq> 0 \<and> sent \<noteq> 0 then Some (partial_failure_text failed tot) else err)))
            else if lt \<ge> tot \<and> few_pending pending tot then (BProcessing, None, err)
            else if lt \<ge> tot \<and> status = BCompleted then (st0, co0, err)
            else ((if st0 \<in> {BCompleted, BFailed, BCancelled} then st0 else BProcessing), None,
                  drop_partial_failure err)))"

definition compute_targets :: "int \<Rightarrow> sms_batch \<Rightarrow> log_counts \<Rightarrow> progress_targets" where
  "compute_targets time b c =
     (let finished = sent_of c + failed_of c; tot = batch_total b c;
          (st, co, err) =
            next_state time tot c (batch_status b, completed_at b, batch_error_message b)
      in \<lparr>new_success = sent_of c, new_delivered = n_delivered c, new_failed = failed_of c,
          new_processing = max 0 (tot - finished), new_progress = percent_done finished tot,
          new_status = st, new_completed_at = co, new_error = err\<rparr>)"

section \<open>update_batch_progress\<close>

definition save_batch :: "int \<Rightarrow> (sms_batch \<Rightarrow> sms_batch) \<Rightarrow> world \<Rightarrow> world" where
  "save_batch b f w =
     w\<lparr>sms_batches := upd_where (\<lambda>x. batch_id x = b)
                        (\<lambda>x. (f x)\<lparr>batch_updated_at := now w\<rparr>) (sms_batches w)\<rparr>"

definition write_targets :: "progress_targets \<Rightarrow> sms_batch \<Rightarrow> sms_batch" where
  "write_targets t b =
     b\<lparr>success_count := Some (new_success t), delivered_count := Some (new_delivered t),
       failed_count := Some (new_failed t), processing_count := Some (new_processing t),
       progress := Some (new_progress t), batch_status := new_status t,
       completed_at := new_completed_at t, batch_error_message := new_error t\<rparr>"

definition is_unsent :: "sms_log \<Rightarrow> bool" where
  "is_unsent r \<longleftrightarrow> log_status r = Pending \<or> log_status r = Queued"

definition all_virtual_pending :: "world \<Rightarrow> int \<Rightarrow> bool" where
  "all_virtual_pending w b =
     (let pend = filter is_unsent (batch_logs w b)
      in pend \<noteq> []
         \<and> list_all (\<lambda>r. case log_channel_id r of
                            None \<Rightarrow> False
                          | Some c \<Rightarrow> (case channel_by_id w c of
                                         None \<Rightarrow> False | Some ch \<Rightarrow> ch_protocol ch = VIRTUAL)) pend)"

definition expire_pending :: "nat \<Rightarrow> int \<Rightarrow> world \<Rightarrow> world" where
  "expire_pending rnd b w =
     (let ids = map message_id (filter is_unsent (batch_logs w b))
      in w\<lparr>sms_logs := upd_where (\<lambda>r. message_id r \<in> set ids)
             (\<lambda>r. r\<lparr>log_status := Expired,
                    log_error_message := Some (mimic_smpp_expired_dlr_message rnd),
                    sent_time := Some (now w)\<rparr>) (sms_logs w)\<rparr>)"

definition virtual_final :: "int \<Rightarrow> int \<Rightarrow> log_counts \<Rightarrow> sms_batch \<Rightarrow> sms_batch" where
  "virtual_final time tot c b =
     b\<lparr>success_count := Some (sent_of c), delivered_count := Some (n_delivered c),
       failed_count := Some (failed_of c), processing_count := Some 0, progress := Some 100,
       batch_status := BCompleted, completed_at := Some time,
       batch_error_message :=
         (if 0 < failed_of c then Some (partial_failure_text (failed_of c) tot) else None)\<rparr>"

definition update_batch_progress :: "nat \<Rightarrow> world \<Rightarrow> int \<Rightarrow> bool \<times> world" where
  "update_batch_progress rnd w b =
     (if b = 0 then (False, w)
      else
        let c = counts_of (batch_logs w b)
        in case batch_by_id w b of
             None \<Rightarrow> (False, w)
           | Some batch \<Rightarrow>
               (let tot = batch_total batch c
                in if log_total c \<ge> tot \<and> few_pending (pending_of c) tot \<and> all_virtual_pending w b
                   then (let w1 = expire_pending rnd b w;
                             c2 = counts_of (batch_logs w1 b)
                         in (True, save_batch b (virtual_final (now w) tot c2) w1))
                   else (let t = compute_targets (now w) batch c
                         in if batch_targets_unchanged batch t then (False, w)
                            else (True, save_batch b (write_targets t) w))))"

definition publish_batch_pipeline_progress ::
    "world \<Rightarrow> int \<Rightarrow> int \<Rightarrow> int \<Rightarrow> int \<Rightarrow> world" where
  "publish_batch_pipeline_progress w b tot inserted queued =
     (if b = 0 \<or> tot \<le> 0 then w
      else
        let ins = max 0 (min inserted tot);
            q = max 0 (min queued tot);
            p = \<lfloor>min 99 (of_int ins * 50 / of_int tot + of_int q * 49 / of_int tot :: rat)\<rfloor>
        in w\<lparr>sms_batches := upd_where (\<lambda>x. batch_id x = b \<and> \<not> batch_is_deleted x)
               (\<lambda>x. x\<lparr>progress := Some p, total_count := Some (max (or_zero (total_count x)) tot),
                      batch_updated_at := now w\<rparr>) (sms_batches w)\<rparr>)"

section \<open>Refreshing settles\<close>

lemma drop_partial_failure_idem [simp]:
  "drop_partial_failure (drop_partial_failure e) = drop_partial_failure e"
  by (auto simp: drop_partial_failure_def split: option.splits)

lemma log_total_split: "log_total c = sent_of c + failed_of c + pending_of c"
  by (simp add: log_total_def sent_of_def failed_of_def pending_of_def)

lemmas next_state_simps = next_state_def Let_def log_total_split few_pending_def

lemma next_state_twice:
  assumes "0 \<le> pending_of c"
  shows "next_state t'' tot c (next_state t' tot c (next_state t tot c s)) =
           next_state t' tot c (next_state t tot c s)"
proof -
  obtain st co e where s: "s = (st, co, e)" by (cases s)
  show ?thesis
  proof (cases "pending_of c = 0")
    case True
    then show ?thesis unfolding s
      by (cases "tot \<le> log_total c") (auto simp: next_state_simps)
  next
    case False
    then show ?thesis using assms unfolding s
      by (cases "tot \<le> log_total c") (auto simp: next_state_simps)
  qed
qed

lemma next_state_done:
  assumes "pending_of c = 0"
  shows "next_state t' tot c (next_state t tot c s) = next_state t tot c s"
proof -
  obtain st co e where s: "s = (st, co, e)" by (cases s)
  show ?thesis using assms unfolding s
    by (cases "tot \<le> log_total c") (auto simp: next_state_simps)
qed

definition state_of :: "sms_batch \<Rightarrow> batch_state" where
  "state_of b = (batch_status b, completed_at b, batch_error_message b)"

definition target_state :: "progress_targets \<Rightarrow> batch_state" where
  "target_state t = (new_status t, new_completed_at t, new_error t)"

lemma target_state_compute [simp]:
  "target_state (compute_targets time b c) = next_state time (batch_total b c) c (state_of b)"
  by (simp add: target_state_def compute_targets_def state_of_def Let_def split: prod.splits)

lemma state_of_write [simp]: "state_of (write_targets t b) = target_state t"
  by (simp add: state_of_def target_state_def write_targets_def)

lemma batch_total_write [simp]: "batch_total (write_targets t b) c = batch_total b c"
  by (simp add: batch_total_def write_targets_def)

lemma updated_at_irrelevant [simp]:
  "compute_targets time (b\<lparr>batch_updated_at := u\<rparr>) c = compute_targets time b c"
  "batch_targets_unchanged (b\<lparr>batch_updated_at := u\<rparr>) t = batch_targets_unchanged b t"
  "batch_total (b\<lparr>batch_updated_at := u\<rparr>) c = batch_total b c"
  "state_of (b\<lparr>batch_updated_at := u\<rparr>) = state_of b"
  by (simp_all add: compute_targets_def batch_targets_unchanged_def batch_total_def state_of_def)

lemma written_unchanged:
  assumes "next_state t' (batch_total b c) c (next_state t (batch_total b c) c (state_of b))
             = next_state t (batch_total b c) c (state_of b)"
  shows "batch_targets_unchanged (write_targets (compute_targets t b c) b)
           (compute_targets t' (write_targets (compute_targets t b c) b) c)"
proof -
  let ?b = "write_targets (compute_targets t b c) b"
  have "target_state (compute_targets t' ?b c) = target_state (compute_targets t b c)"
    using assms by simp
  moreover have "new_success (compute_targets t' ?b c) = new_success (compute_targets t b c)"
    "new_delivered (compute_targets t' ?b c) = new_delivered (compute_targets t b c)"
    "new_failed (compute_targets t' ?b c) = new_failed (compute_targets t b c)"
    "new_processing (compute_targets t' ?b c) = new_processing (compute_targets t b c)"
    "new_progress (compute_targets t' ?b c) = new_progress (compute_targets t b c)"
    by (simp_all add: compute_targets_def Let_def split: prod.splits)
  ultimately show ?thesis
    by (simp add: batch_targets_unchanged_def write_targets_def or_zero_def target_state_def)
qed

text \<open>Without a change the clock does not matter.\<close>

lemma unchanged_any_time:
  assumes "batch_targets_unchanged b (compute_targets t b c)"
  shows "compute_targets t' b c = compute_targets t b c"
proof -
  have s: "new_status (compute_targets t b c) = batch_status b"
    "new_completed_at (compute_targets t b c) = completed_at b"
    using assms by (simp_all add: batch_targets_unchanged_def)
  have "next_state t' tot c (state_of b) = next_state t tot c (state_of b)"
    if "fst (next_state t tot c (state_of b)) = batch_status b"
       "fst (snd (next_state t tot c (state_of b))) = completed_at b" for tot
    using that by (auto simp: next_state_def state_of_def Let_def split: if_splits)
  moreover have "next_state t (batch_total b c) c (state_of b) =
      (batch_status b, completed_at b, new_error (compute_targets t b c))"
    using s target_state_compute [of t b c] by (simp add: target_state_def)
  ultimately show ?thesis
    by (simp add: compute_targets_def state_of_def Let_def split: prod.splits)
qed

lemma batch_by_id_save:
  assumes "\<And>x. batch_id (f x) = batch_id x"
  shows "batch_by_id (save_batch b f w) b =
           map_option (\<lambda>x. (f x)\<lparr>batch_updated_at := now w\<rparr>) (batch_by_id w b)"
proof -
  have "batch_by_id (save_batch b f w) b = map_option
      (\<lambda>x. if batch_id x = b then (f x)\<lparr>batch_updated_at := now w\<rparr> else x) (batch_by_id w b)"
    using assms by (simp add: batch_by_id_def save_batch_def find_upd_where)
  moreover have "batch_id x = b" if "batch_by_id w b = Some x" for x
    using that by (auto simp: batch_by_id_def find_Some_iff)
  ultimately show ?thesis by (cases "batch_by_id w b") simp_all
qed

lemma write_targets_id [simp]: "batch_id (write_targets t b) = batch_id b"
  by (simp add: write_targets_def)

lemma save_batch_frame [simp]:
  "sms_logs (save_batch b f w) = sms_logs w" "channels (save_batch b f w) = channels w"
  "accounts (save_batch b f w) = accounts w" "balance_logs (save_batch b f w) = balance_logs w"
  "batch_logs (save_batch b f w) i = batch_logs w i"
  by (simp_all add: save_batch_def batch_logs_def)

definition needs_virtual :: "world \<Rightarrow> int \<Rightarrow> sms_batch \<Rightarrow> bool" where
  "needs_virtual w b x \<longleftrightarrow>
     (let c = counts_of (batch_logs w b); tot = batch_total x c
      in log_total c \<ge> tot \<and> few_pending (pending_of c) tot \<and> all_virtual_pending w b)"

lemma refresh_cases:
  assumes "b \<noteq> 0" and "batch_by_id w b = Some x"
  shows "update_batch_progress rnd w b =
    (if needs_virtual w b x
     then (True, save_batch b (virtual_final (now w) (batch_total x (counts_of (batch_logs w b)))
                   (counts_of (batch_logs (expire_pending rnd b w) b))) (expire_pending rnd b w))
     else if batch_targets_unchanged x (compute_targets (now w) x (counts_of (batch_logs w b)))
     then (False, w)
     else (True, save_batch b (write_targets (compute_targets (now w) x (counts_of (batch_logs w b)))) w))"
  using assms by (simp add: update_batch_progress_def needs_virtual_def Let_def)

lemma pending_nonneg: "0 \<le> pending_of (counts_of ls)"
  by (simp add: pending_of_def counts_of_def status_count_def)

lemma pending_zero_iff: "pending_of (counts_of ls) = 0 \<longleftrightarrow> (\<forall>r\<in>set ls. \<not> is_unsent r)"
  by (simp add: pending_of_def counts_of_def status_count_def is_unsent_def filter_empty_conv
      add_nonneg_eq_0_iff) blast

lemma expire_pending_none_left:
  "pending_of (counts_of (batch_logs (expire_pending rnd b w) b)) = 0"
  by (auto simp: pending_zero_iff batch_logs_def expire_pending_def Let_def upd_where_def is_unsent_def)

lemma channel_by_id_frame [simp]:
  "channel_by_id (w\<lparr>now := t\<rparr>) i = channel_by_id w i"
  "channel_by_id (save_batch b f w) i = channel_by_id w i"
  by (simp_all add: channel_by_id_def)

lemma clock_irrelevant [simp]:
  "batch_by_id (w\<lparr>now := t\<rparr>) b = batch_by_id w b" "batch_logs (w\<lparr>now := t\<rparr>) b = batch_logs w b"
  "needs_virtual (w\<lparr>now := t\<rparr>) b x = needs_virtual w b x"
  by (simp_all add: batch_by_id_def batch_logs_def needs_virtual_def all_virtual_pending_def
      cong: option.case_cong)

lemma needs_virtual_save [simp]:
  "needs_virtual (save_batch b f w) i x = needs_virtual w i x"
  by (simp add: needs_virtual_def all_virtual_pending_def cong: option.case_cong)

lemma needs_virtual_total:
  "batch_total x (counts_of (batch_logs w b)) = batch_total y (counts_of (batch_logs w b)) \<Longrightarrow>
     needs_virtual w b x = needs_virtual w b y"
  by (simp add: needs_virtual_def Let_def)

lemma unchanged_then_noop:
  assumes "b \<noteq> 0" "batch_by_id u b = Some x" "\<not> needs_virtual u b x"
    and "batch_targets_unchanged x (compute_targets t x (counts_of (batch_logs u b)))"
  shows "update_batch_progress rnd (u\<lparr>now := t'\<rparr>) b = (False, u\<lparr>now := t'\<rparr>)"
  using assms(4) unchanged_any_time [OF assms(4), of t']
  by (simp add: refresh_cases [OF assms(1)] assms(2,3))

lemma main_then_noop:
  assumes b: "b \<noteq> 0" and x: "batch_by_id u b = Some x" and nv: "\<not> needs_virtual u b x"
    and fixed: "\<And>t t'. next_state t' (batch_total x (counts_of (batch_logs u b))) (counts_of (batch_logs u b))
        (next_state t (batch_total x (counts_of (batch_logs u b))) (counts_of (batch_logs u b)) (state_of x))
      = next_state t (batch_total x (counts_of (batch_logs u b))) (counts_of (batch_logs u b)) (state_of x)"
  shows "update_batch_progress rnd' ((snd (update_batch_progress rnd u b))\<lparr>now := t'\<rparr>) b
           = (False, (snd (update_batch_progress rnd u b))\<lparr>now := t'\<rparr>)"
proof -
  let ?c = "counts_of (batch_logs u b)" and ?t = "compute_targets (now u) x (counts_of (batch_logs u b))"
  show ?thesis
  proof (cases "batch_targets_unchanged x ?t")
    case True
    then show ?thesis
      using unchanged_then_noop [OF b x nv True] by (simp add: refresh_cases [OF b x] nv)
  next
    case False
    let ?u = "save_batch b (write_targets ?t) u"
    have u: "snd (update_batch_progress rnd u b) = ?u"
      using False by (simp add: refresh_cases [OF b x] nv)
    have x': "batch_by_id ?u b = Some ((write_targets ?t x)\<lparr>batch_updated_at := now u\<rparr>)"
      using x by (simp add: batch_by_id_save)
    have "\<not> needs_virtual ?u b ((write_targets ?t x)\<lparr>batch_updated_at := now u\<rparr>)"
      using nv needs_virtual_total [of "(write_targets ?t x)\<lparr>batch_updated_at := now u\<rparr>" u b x] by simp
    from unchanged_then_noop [OF b x' this] written_unchanged [OF fixed] show ?thesis
      unfolding u by simp
  qed
qed

text \<open>C34: Refreshing settles: whatever the batch and its messages, two refreshes in a row - the clock may
  move between them - reach a row that every later refresh leaves untouched, its \<open>updated_at\<close>
  included, until a message changes.\<close>

theorem progress_settles:
  "let w1 = snd (update_batch_progress r1 w b);
       w2 = snd (update_batch_progress r2 (w1\<lparr>now := t1\<rparr>) b)
   in update_batch_progress r3 (w2\<lparr>now := t2\<rparr>) b = (False, w2\<lparr>now := t2\<rparr>)"
proof (cases "b = 0 \<or> batch_by_id w b = None")
  case True
  then show ?thesis by (auto simp: update_batch_progress_def Let_def)
next
  case False
  then obtain x where b: "b \<noteq> 0" and x: "batch_by_id w b = Some x" by auto
  let ?c = "counts_of (batch_logs w b)"
  show ?thesis
  proof (cases "needs_virtual w b x")
    case True
    let ?e = "expire_pending r1 b w"
    let ?ce = "counts_of (batch_logs ?e b)"
    let ?f = "virtual_final (now w) (batch_total x ?c) ?ce"
    let ?u = "(save_batch b ?f ?e)\<lparr>now := t1\<rparr>"
    have w1: "snd (update_batch_progress r1 w b) = save_batch b ?f ?e"
      using True by (simp add: refresh_cases [OF b x])
    have "batch_by_id ?e b = Some x" using x by (simp add: expire_pending_def batch_by_id_def Let_def)
    then have x1: "batch_by_id ?u b = Some ((?f x)\<lparr>batch_updated_at := now ?e\<rparr>)"
      by (simp add: batch_by_id_save virtual_final_def)
    have pend: "pending_of (counts_of (batch_logs ?u b)) = 0"
      using expire_pending_none_left by simp
    have "\<not> needs_virtual ?u b ((?f x)\<lparr>batch_updated_at := now ?e\<rparr>)"
      using pend by (simp add: needs_virtual_def Let_def few_pending_def)
    from main_then_noop [OF b x1 this next_state_done [OF pend]] show ?thesis
      unfolding w1 Let_def by simp
  next
    case nv: False
    let ?t = "compute_targets (now w) x ?c"
    show ?thesis
    proof (cases "batch_targets_unchanged x ?t")
      case True
      then have w1: "snd (update_batch_progress r1 w b) = w"
        by (simp add: refresh_cases [OF b x] nv)
      have noop: "update_batch_progress r (w\<lparr>now := t\<rparr>) b = (False, w\<lparr>now := t\<rparr>)" for r t
        using unchanged_then_noop [OF b x nv True] .
      show ?thesis using noop [of r2 t1] noop [of r3 t2] unfolding w1 Let_def by simp
    next
      case False
      let ?y = "(write_targets ?t x)\<lparr>batch_updated_at := now w\<rparr>"
      let ?u = "(save_batch b (write_targets ?t) w)\<lparr>now := t1\<rparr>"
      have w1: "snd (update_batch_progress r1 w b) = save_batch b (write_targets ?t) w"
        using False by (simp add: refresh_cases [OF b x] nv)
      have x1: "batch_by_id ?u b = Some ?y" using x by (simp add: batch_by_id_save)
      have nv1: "\<not> needs_virtual ?u b ?y"
        using nv needs_virtual_total [of ?y w b x] by simp
      have "next_state t' (batch_total ?y (counts_of (batch_logs ?u b))) (counts_of (batch_logs ?u b))
          (next_state t (batch_total ?y (counts_of (batch_logs ?u b))) (counts_of (batch_logs ?u b)) (state_of ?y))
        = next_state t (batch_total ?y (counts_of (batch_logs ?u b))) (counts_of (batch_logs ?u b)) (state_of ?y)"
        for t t'
        using next_state_twice [OF pending_nonneg] by simp
      from main_then_noop [OF b x1 nv1 this] show ?thesis unfolding w1 Let_def by simp
    qed
  qed
qed

section \<open>What a refresh leaves in the row\<close>

definition reports :: "sms_batch \<Rightarrow> log_counts \<Rightarrow> bool" where
  "reports y c \<longleftrightarrow>
     or_zero (success_count y) = sent_of c \<and> or_zero (delivered_count y) = n_delivered c
     \<and> or_zero (failed_count y) = failed_of c
     \<and> or_zero (processing_count y) = max 0 (batch_total y c - (sent_of c + failed_of c))
     \<and> or_zero (progress y) = percent_done (sent_of c + failed_of c) (batch_total y c)"

lemma reports_unchanged:
  "batch_targets_unchanged x (compute_targets t x c) \<Longrightarrow> reports x c"
  by (simp add: reports_def batch_targets_unchanged_def compute_targets_def Let_def split: prod.splits)

lemma reports_written: "reports ((write_targets (compute_targets t x c) x)\<lparr>batch_updated_at := u\<rparr>) c"
  by (simp add: reports_def write_targets_def compute_targets_def Let_def or_zero_def batch_total_def
      split: prod.splits)

lemma expire_pending_frame [simp]:
  "accounts (expire_pending rnd b w) = accounts w"
  "balance_logs (expire_pending rnd b w) = balance_logs w"
  "batch_by_id (expire_pending rnd b w) i = batch_by_id w i"
  "now (expire_pending rnd b w) = now w"
  by (simp_all add: expire_pending_def Let_def batch_by_id_def)

lemma virtual_final_id [simp]: "batch_id (virtual_final t tot c x) = batch_id x"
  by (simp add: virtual_final_def)

lemma expire_pending_keeps_total:
  "log_total (counts_of (batch_logs (expire_pending rnd b w) b)) = log_total (counts_of (batch_logs w b))"
proof -
  have lt: "log_total (counts_of ls) = int (length ls)" for ls
  proof (induction ls)
    case (Cons r ls)
    then show ?case
      by (cases "log_status r") (simp_all add: log_total_def counts_of_def status_count_def)
  qed (simp add: log_total_def counts_of_def status_count_def)
  have "length (filter (\<lambda>r. log_batch_id r = Some b) (upd_where p (\<lambda>r. r\<lparr>log_status := s,
      log_error_message := e, sent_time := t\<rparr>) ls)) = length (filter (\<lambda>r. log_batch_id r = Some b) ls)"
    for p s e t ls
    by (induction ls) auto
  then show ?thesis unfolding lt by (simp add: batch_logs_def expire_pending_def Let_def)
qed

lemma reports_virtual:
  assumes nv: "needs_virtual w b x" and w1: "w1 = expire_pending rnd b w"
  shows "reports ((virtual_final t (batch_total x (counts_of (batch_logs w b)))
           (counts_of (batch_logs w1 b)) x)\<lparr>batch_updated_at := u\<rparr>) (counts_of (batch_logs w1 b))"
proof -
  let ?c = "counts_of (batch_logs w b)" and ?d = "counts_of (batch_logs w1 b)"
  have lt: "log_total ?d = log_total ?c" unfolding w1 by (rule expire_pending_keeps_total)
  have p0: "pending_of ?d = 0" unfolding w1 by (rule expire_pending_none_left)
  have tot: "batch_total x ?d = batch_total x ?c" using lt by (simp add: batch_total_def)
  have n: "batch_total x ?c \<le> log_total ?c" "0 < batch_total x ?c"
    using nv by (auto simp: needs_virtual_def Let_def few_pending_def)
  have fin: "sent_of ?d + failed_of ?d = log_total ?c" using lt p0 by (simp add: log_total_split)
  have "(100::int) = batch_total x ?c * 100 div max (batch_total x ?c) 1" using n(2) by simp
  also have "\<dots> \<le> log_total ?c * 100 div max (batch_total x ?c) 1"
    by (rule zdiv_mono1) (use n(1) in auto)
  finally have "100 \<le> log_total ?c * 100 div max (batch_total x ?c) 1" .
  then have "percent_done (log_total ?c) (batch_total x ?c) = 100" by (simp add: percent_done_def)
  moreover have "batch_total ((virtual_final t (batch_total x ?c) ?d x)\<lparr>batch_updated_at := u\<rparr>) ?d
      = batch_total x ?c"
    using lt by (simp add: batch_total_def virtual_final_def)
  ultimately show ?thesis using fin n
    by (simp add: reports_def virtual_final_def or_zero_def)
qed

text \<open>After a refresh, whether it wrote or not, the counters and the percentage of the batch row are
  those of its messages, and no account, balance entry or message outside the batch's unsent ones
  was touched.\<close>

theorem refresh_reports_messages:
  assumes "b \<noteq> 0" and "batch_by_id w b = Some x"
  shows "let w1 = snd (update_batch_progress rnd w b)
         in (\<exists>y. batch_by_id w1 b = Some y \<and> reports y (counts_of (batch_logs w1 b)))
            \<and> accounts w1 = accounts w \<and> balance_logs w1 = balance_logs w
            \<and> (\<not> needs_virtual w b x \<longrightarrow> sms_logs w1 = sms_logs w)"
proof -
  let ?c = "counts_of (batch_logs w b)"
  show ?thesis
  proof (cases "needs_virtual w b x")
    case True
    let ?f = "virtual_final (now w) (batch_total x ?c) (counts_of (batch_logs (expire_pending rnd b w) b))"
    have "batch_by_id (save_batch b ?f (expire_pending rnd b w)) b =
        Some ((?f x)\<lparr>batch_updated_at := now w\<rparr>)"
      using assms(2) by (simp add: batch_by_id_save)
    then show ?thesis
      using True reports_virtual [OF True refl, where rnd = rnd and t = "now w" and u = "now w"]
      by (simp add: refresh_cases [OF assms] Let_def)
  next
    case False
    then show ?thesis
      using assms(2) reports_unchanged [of x "now w" ?c] reports_written
      by (simp add: refresh_cases [OF assms] batch_by_id_save Let_def)
  qed
qed

lemma refresh_main_state:
  assumes "b \<noteq> 0" and "batch_by_id w b = Some x" and "\<not> needs_virtual w b x"
  shows "\<exists>y. batch_by_id (snd (update_batch_progress rnd w b)) b = Some y
    \<and> batch_status y = fst (next_state (now w) (batch_total x (counts_of (batch_logs w b)))
                              (counts_of (batch_logs w b)) (state_of x))
    \<and> completed_at y = fst (snd (next_state (now w) (batch_total x (counts_of (batch_logs w b)))
                              (counts_of (batch_logs w b)) (state_of x)))"
proof -
  let ?t = "compute_targets (now w) x (counts_of (batch_logs w b))"
  have t: "next_state (now w) (batch_total x (counts_of (batch_logs w b))) (counts_of (batch_logs w b))
      (state_of x) = (new_status ?t, new_completed_at ?t, new_error ?t)"
    using target_state_compute [of "now w" x "counts_of (batch_logs w b)"] by (simp add: target_state_def)
  show ?thesis
    by (cases "batch_targets_unchanged x ?t")
      (simp_all add: refresh_cases [OF assms(1,2)] assms(2,3) batch_by_id_save t write_targets_def
        batch_targets_unchanged_def)
qed


text \<open>A refresh undoes a pause: a paused batch that still has unsent messages (and is not in the
  virtual fall-back) is put back to processing by the next refresh, whoever triggers it.\<close>

theorem refresh_undoes_pause:
  assumes "b \<noteq> 0" and "batch_by_id w b = Some x" and "\<not> needs_virtual w b x"
    and "batch_status x = BPaused" and "r \<in> set (batch_logs w b)" and "is_unsent r"
  shows "\<exists>y. batch_by_id (snd (update_batch_progress rnd w b)) b = Some y
              \<and> batch_status y = BProcessing"
proof -
  let ?c = "counts_of (batch_logs w b)"
  have "pending_of ?c \<noteq> 0" using assms(5,6) pending_zero_iff by blast
  then have "0 < pending_of ?c" using pending_nonneg [of "batch_logs w b"] by linarith
  then show ?thesis using refresh_main_state [OF assms(1-3), of rnd] assms(4)
    by (auto simp: next_state_def state_of_def Let_def log_total_split)
qed

lemma publish_progress_bounds:
  assumes "batch_by_id (publish_batch_pipeline_progress w b tot ins q) b = Some y"
    and "batch_by_id w b = Some x" and "y \<noteq> x"
  shows "0 \<le> or_zero (progress y) \<and> or_zero (progress y) \<le> 99
         \<and> or_zero (total_count x) \<le> or_zero (total_count y)"
proof -
  define i where "i = max 0 (min ins tot)"
  define k where "k = max 0 (min q tot)"
  let ?p = "\<lfloor>min 99 (of_int i * 50 / of_int tot + of_int k * 49 / of_int tot :: rat)\<rfloor>"
  have "b \<noteq> 0" "0 < tot" using assms by (auto simp: publish_batch_pipeline_progress_def split: if_splits)
  then have y: "or_zero (progress y) = ?p"
      "or_zero (total_count y) = max (or_zero (total_count x)) tot"
    using assms
    by (auto simp: publish_batch_pipeline_progress_def Let_def batch_by_id_def find_upd_where or_zero_def
        i_def k_def split: if_splits)
  have "0 \<le> of_int i * 50 / (of_int tot :: rat)" "0 \<le> of_int k * 49 / (of_int tot :: rat)"
    using \<open>0 < tot\<close> by (simp_all add: i_def k_def)
  then have "0 \<le> ?p" by simp
  moreover have "?p \<le> 99" by (simp add: floor_le_iff)
  ultimately show ?thesis using y by simp
qed

section \<open>A small batch\<close>

definition demo_batch :: world where
  "demo_batch = empty_world
     \<lparr>sms_batches := [(new_sms_batch 1 1 []) \<lparr>total_count := Some 2, batch_status := BPaused\<rparr>,
                      (new_sms_batch 2 1 []) \<lparr>total_count := Some 1, batch_status := BProcessing\<rparr>],
      sms_logs := [(new_sms_log 1 (asc ''a'') 1 []) \<lparr>log_batch_id := Some 1, log_status := Sent\<rparr>,
                   (new_sms_log 2 (asc ''b'') 1 []) \<lparr>log_batch_id := Some 1\<rparr>,
                   (new_sms_log 3 (asc ''c'') 1 []) \<lparr>log_batch_id := Some 2, log_status := Failed\<rparr>]\<rparr>"

lemmas demo_batch_defs =
  demo_batch_def empty_world_def new_sms_batch_def new_sms_log_def batch_by_id_def batch_logs_def

theorem refresh_reports_messages_witness:
  "\<exists>y. batch_by_id (snd (update_batch_progress 1 demo_batch 1)) 1 = Some y
       \<and> reports y (counts_of (batch_logs (snd (update_batch_progress 1 demo_batch 1)) 1))"
proof -
  have "\<exists>x. batch_by_id demo_batch 1 = Some x" by (simp add: demo_batch_defs)
  then show ?thesis using refresh_reports_messages [of 1 demo_batch _ 1] by (auto simp: Let_def)
qed


theorem refresh_undoes_pause_witness:
  "\<exists>y. batch_by_id (snd (update_batch_progress 1 demo_batch 1)) 1 = Some y \<and> batch_status y = BProcessing"
proof -
  obtain x where x: "batch_by_id demo_batch 1 = Some x" "batch_status x = BPaused"
    by (simp add: demo_batch_defs)
  have "\<not> all_virtual_pending demo_batch 1"
    by (simp add: all_virtual_pending_def demo_batch_defs is_unsent_def)
  then have "\<not> needs_virtual demo_batch 1 x" by (simp add: needs_virtual_def Let_def)
  moreover have "\<exists>r\<in>set (batch_logs demo_batch 1). is_unsent r"
    by (simp add: demo_batch_defs is_unsent_def)
  ultimately show ?thesis using refresh_undoes_pause [of 1 demo_batch x _ 1] x by auto
qed

end
