(* ===== verification/BatchAdmin.thy ===== *)
theory BatchAdmin
  imports Pricing Router Refund BatchProgress
begin

text \<open>
  The administrator's operations on a batch, \<open>backend/app/services/batch_admin.py\<close>: pause, clear the
  queue, switch the channel of the unsent messages with re-pricing, preview of that switch, resume.
  \<open>enum\<close> is the iteration order of a set of country spellings (see CountryCode), \<open>queue\<close> answers
  whether the message broker accepted a message. A refusal is \<open>Inr (Refused reason)\<close>, an exception
  \<open>Inl\<close>; a raising operation is rolled back, so only the caches may differ.
\<close>

section \<open>Helpers\<close>

datatype admin_reason =
    NoSuchBatch
  | NotPausable batch_status
  | NotPaused
  | ChannelUnusable int
  | NoRouteForCountry int pystr
  | NothingUnsent
  | SameChannel
  | NoSalesPrice

datatype 'a answer = Refused admin_reason | Done 'a

definition select_unsent_logs :: "world \<Rightarrow> int \<Rightarrow> sms_log list" where
  "select_unsent_logs w b = filter is_unsent (batch_logs w b)"

definition count_unsent :: "world \<Rightarrow> int \<Rightarrow> nat" where
  "count_unsent w b = length (select_unsent_logs w b)"

definition validate_channel_for_country ::
    "world \<Rightarrow> int \<Rightarrow> pystr option \<Rightarrow> channel answer \<times> world" where
  "validate_channel_for_country w chan country_code =
     (case find (\<lambda>c. ch_id c = chan \<and> live c) (channels w) of
        None \<Rightarrow> (Refused (ChannelUnusable chan), w)
      | Some ch \<Rightarrow>
          (case country_code of
             None \<Rightarrow> (Done ch, w)
           | Some cc \<Rightarrow>
               (if cc = [] then (Done ch, w)
                else let (cands, w1) = get_available_channels w cc
                     in if list_ex (\<lambda>c. ch_id (fst c) = ch_id ch) cands then (Done ch, w1)
                        else (Refused (NoRouteForCountry chan cc), w1))))"

section \<open>Pause and clear\<close>

definition pause_batch :: "world \<Rightarrow> int \<Rightarrow> nat answer \<times> world" where
  "pause_batch w b =
     (case batch_by_id w b of
        None \<Rightarrow> (Refused NoSuchBatch, w)
      | Some batch \<Rightarrow>
          (if batch_status batch \<notin> {BProcessing, BPending}
           then (Refused (NotPausable (batch_status batch)), w)
           else (Done (count_unsent w b), save_batch b (\<lambda>x. x\<lparr>batch_status := BPaused\<rparr>) w)))"

definition CLEARED_TEXT :: pystr where
  "CLEARED_TEXT = [31649, 29702, 21592, 28165, 31354, 38431, 21015]"

text \<open>
  The update writes \<open>'cancelled'\<close> to \<open>sms_logs.status\<close>, an \<open>ENUM\<close> of six other values: MySQL in
  strict mode refuses to store it in a row (\<open>DataError\<close>); without a matching row nothing is stored.
\<close>

definition clear_batch_queue :: "nat \<Rightarrow> world \<Rightarrow> int \<Rightarrow> nat answer outcome \<times> world" where
  "clear_batch_queue rnd w b =
     (case batch_by_id w b of
        None \<Rightarrow> (Inr (Refused NoSuchBatch), w)
      | Some batch \<Rightarrow>
          (if batch_status batch \<noteq> BPaused then (Inr (Refused NotPaused), w)
           else if count_unsent w b \<noteq> 0 then (Inl DataError, w)
           else
             let w1 = save_batch b
                        (\<lambda>x. x\<lparr>batch_status := BCancelled,
                               batch_error_message :=
                                 (case batch_error_message x of
                                    Some e \<Rightarrow> if e \<noteq> [] then Some e else Some CLEARED_TEXT
                                  | None \<Rightarrow> Some CLEARED_TEXT)\<rparr>) w
             in (Inr (Done 0), snd (update_batch_progress rnd w1 b))))"

section \<open>Switching the channel\<close>

record repriced =
  rp_log :: sms_log
  rp_cost :: money
  rp_sell :: money
  rp_diff :: money

definition msg_count :: "sms_log \<Rightarrow> int" where
  "msg_count r = (case message_count r of Some n \<Rightarrow> if n = 0 then 1 else n | None \<Rightarrow> 1)"

text \<open>The loop of \<open>_compute_repricing\<close>; \<open>pc\<close> and \<open>kc\<close> are its two local dictionaries.\<close>

fun repricing_loop ::
    "(pystr list \<Rightarrow> pystr list) \<Rightarrow> channel \<Rightarrow> sms_log list \<Rightarrow> (pystr \<times> int \<rightharpoonup> money)
       \<Rightarrow> (pystr \<rightharpoonup> money) \<Rightarrow> world \<Rightarrow> repriced list outcome \<times> world" where
  "repricing_loop enum ch [] pc kc w = (Inr [], w)"
| "repricing_loop enum ch (r # rs) pc kc w =
     (let cc = (case log_country_code r of Some c \<Rightarrow> c | None \<Rightarrow> []);
          key = (cc, log_account_id r);
          (price, w1) =
            (case pc key of
               Some p \<Rightarrow> (Inr p, w)
             | None \<Rightarrow>
                 (case get_price w (ch_id ch) cc None (Some (log_account_id r)) of
                    (Inl e, w1) \<Rightarrow> (Inl e, w1)
                  | (Inr None, w1) \<Rightarrow> (Inl ValueError, w1)
                  | (Inr (Some p), w1) \<Rightarrow> (Inr (pi_price p), w1)))
      in case price of
           Inl e \<Rightarrow> (Inl e, w1)
         | Inr unit_sell \<Rightarrow>
             (let (cost, w2) =
                    (case kc cc of
                       Some c \<Rightarrow> (Inr c, w1)
                     | None \<Rightarrow> resolve_base_cost_per_sms enum w1 (ch_id ch) cc (Some ch))
              in case cost of
                   Inl e \<Rightarrow> (Inl e, w2)
                 | Inr unit_cost \<Rightarrow>
                     (let n = of_int (msg_count r); sell = unit_sell * n; c = unit_cost * n
                      in case repricing_loop enum ch rs (pc(key \<mapsto> unit_sell))
                                (kc(cc \<mapsto> unit_cost)) w2 of
                           (Inl e, w3) \<Rightarrow> (Inl e, w3)
                         | (Inr out, w3) \<Rightarrow>
                             (Inr (\<lparr>rp_log = r, rp_cost = c, rp_sell = sell,
                                    rp_diff = sell - selling_amount r\<rparr> # out), w3))))"

definition compute_repricing ::
    "(pystr list \<Rightarrow> pystr list) \<Rightarrow> world \<Rightarrow> sms_log list \<Rightarrow> channel
       \<Rightarrow> (repriced list \<times> money) outcome \<times> world" where
  "compute_repricing enum w logs ch =
     (case repricing_loop enum ch logs Map.empty Map.empty w of
        (Inl e, w1) \<Rightarrow> (Inl e, w1)
      | (Inr rows, w1) \<Rightarrow> (Inr (rows, sum_list (map rp_diff rows)), w1))"

text \<open>The part that \<open>switch_channel_for_unsent\<close> and \<open>preview_switch_channel\<close> have in common: every
  check and the new prices. A \<open>ValueError\<close> becomes a refusal.\<close>

definition plan_switch ::
    "(pystr list \<Rightarrow> pystr list) \<Rightarrow> world \<Rightarrow> int \<Rightarrow> int
       \<Rightarrow> (sms_batch \<times> channel \<times> repriced list \<times> money) answer outcome \<times> world" where
  "plan_switch enum w b new_channel_id =
     (case batch_by_id w b of
        None \<Rightarrow> (Inr (Refused NoSuchBatch), w)
      | Some batch \<Rightarrow>
          (let logs = select_unsent_logs w b;
               country_sample = (case logs of [] \<Rightarrow> None | r # _ \<Rightarrow> log_country_code r)
           in case validate_channel_for_country w new_channel_id country_sample of
                (Refused e, w1) \<Rightarrow> (Inr (Refused e), w1)
              | (Done ch, w1) \<Rightarrow>
                  (if logs = [] then (Inr (Refused NothingUnsent), w1)
                   else
                     let old = filter (\<lambda>i. i \<noteq> 0) (map (\<lambda>r. or_zero (log_channel_id r)) logs)
                     in if card (set old) = 1 \<and> ch_id ch \<in> set old
                        then (Inr (Refused SameChannel), w1)
                        else case compute_repricing enum w1 logs ch of
                               (Inl e, w2) \<Rightarrow>
                                 ((if e = ValueError then Inr (Refused NoSalesPrice) else Inl e), w2)
                             | (Inr (rows, d), w2) \<Rightarrow> (Inr (Done (batch, ch, rows, d)), w2))))"

record switch_result =
  sw_channel :: int
  sw_unsent :: nat
  sw_total_diff :: money
  sw_balance_before :: money
  sw_balance_after :: money

definition balance_or_zero :: "world \<Rightarrow> int \<Rightarrow> money" where
  "balance_or_zero w i = (case balance_of w i of Some b \<Rightarrow> b | None \<Rightarrow> 0)"

text \<open>The guarded debit of a surcharge, the unguarded credit of a saving, nothing for no difference.\<close>

definition settle_diff :: "int \<Rightarrow> money \<Rightarrow> world \<Rightarrow> nat \<times> world" where
  "settle_diff acc d w =
     (if d > 0 then add_balance_where (\<lambda>a. balance a \<ge> d) acc (- d) w
      else if d < 0 then add_balance_where (\<lambda>_. True) acc \<bar>d\<bar> w
      else (1, w))"

definition reprice_log :: "int \<Rightarrow> repriced \<Rightarrow> world \<Rightarrow> world" where
  "reprice_log chan p w =
     w\<lparr>sms_logs := upd_where (\<lambda>r. log_id r = log_id (rp_log p))
          (\<lambda>r. r\<lparr>log_channel_id := Some chan, cost_price := Some (rp_cost p),
                 selling_price := Some (rp_sell p)\<rparr>) (sms_logs w)\<rparr>"

definition switch_channel_for_unsent ::
    "(pystr list \<Rightarrow> pystr list) \<Rightarrow> world \<Rightarrow> int \<Rightarrow> int \<Rightarrow> switch_result answer outcome \<times> world" where
  "switch_channel_for_unsent enum w b new_channel_id =
     (case plan_switch enum w b new_channel_id of
        (Inl e, w1) \<Rightarrow> (Inl e, w1)
      | (Inr (Refused e), w1) \<Rightarrow> (Inr (Refused e), w1)
      | (Inr (Done (batch, ch, rows, d)), w1) \<Rightarrow>
          (let acc = batch_account_id batch;
               before = balance_or_zero w1 acc;
               (n, w2) = settle_diff acc d w1
           in if d > 0 \<and> n = 0 then (Inl (InsufficientBalanceError d before), w1)
              else
                let after = balance_or_zero w2 acc;
                    w3 = fold (reprice_log (ch_id ch)) rows w2;
                    w4 = (if d \<noteq> 0 then log_balance acc Adjustment (- d) after w3 else w3)
                in (Inr (Done \<lparr>sw_channel = ch_id ch, sw_unsent = length rows, sw_total_diff = d,
                               sw_balance_before = before, sw_balance_after = after\<rparr>), w4)))"

record switch_preview =
  pv_channel :: int
  pv_unsent :: nat
  pv_total_diff :: money
  pv_balance_before :: money
  pv_balance_after_estimate :: money
  pv_balance_sufficient :: bool

definition preview_switch_channel ::
    "(pystr list \<Rightarrow> pystr list) \<Rightarrow> world \<Rightarrow> int \<Rightarrow> int \<Rightarrow> switch_preview answer outcome \<times> world" where
  "preview_switch_channel enum w b new_channel_id =
     (case plan_switch enum w b new_channel_id of
        (Inl e, w1) \<Rightarrow> (Inl e, w1)
      | (Inr (Refused e), w1) \<Rightarrow> (Inr (Refused e), w1)
      | (Inr (Done (batch, ch, rows, d)), w1) \<Rightarrow>
          (let bal = balance_or_zero w1 (batch_account_id batch)
           in (Inr (Done \<lparr>pv_channel = ch_id ch, pv_unsent = length rows, pv_total_diff = d,
                          pv_balance_before = bal, pv_balance_after_estimate = bal - d,
                          pv_balance_sufficient = (d \<le> 0 \<or> bal \<ge> d)\<rparr>), w1)))"

section \<open>Resume\<close>

record resume_result =
  rs_unsent :: nat
  requeued_ok :: nat
  requeued_fail :: nat
  rs_switch :: "switch_result option"

definition resume_batch ::
    "(pystr list \<Rightarrow> pystr list) \<Rightarrow> (pystr \<Rightarrow> bool) \<Rightarrow> world \<Rightarrow> int \<Rightarrow> int option
       \<Rightarrow> resume_result answer outcome \<times> world" where
  "resume_batch enum queue w b new_channel_id =
     (case batch_by_id w b of
        None \<Rightarrow> (Inr (Refused NoSuchBatch), w)
      | Some batch \<Rightarrow>
          (if batch_status batch \<noteq> BPaused then (Inr (Refused NotPaused), w)
           else
             let (sw, w1) =
                   (case truthy_id new_channel_id of
                      None \<Rightarrow> (Inr (Done None), w)
                    | Some c \<Rightarrow>
                        (case switch_channel_for_unsent enum w b c of
                           (Inl e, w1) \<Rightarrow> (Inl e, w1)
                         | (Inr (Refused e), w1) \<Rightarrow> (Inr (Refused e), w1)
                         | (Inr (Done r), w1) \<Rightarrow> (Inr (Done (Some r)), w1)))
             in case sw of
                  Inl e \<Rightarrow> (Inl e, w1)
                | Inr (Refused e) \<Rightarrow> (Inr (Refused e), w1)
                | Inr (Done s) \<Rightarrow>
                    (let w2 = save_batch b (\<lambda>x. x\<lparr>batch_status := BProcessing\<rparr>) w1;
                         logs = select_unsent_logs w2 b;
                         ok = length (filter (\<lambda>r. queue (message_id r)) logs)
                     in (Inr (Done \<lparr>rs_unsent = length logs, requeued_ok = ok,
                                    requeued_fail = length logs - ok, rs_switch = s\<rparr>), w2))))"

section \<open>Checks and prices leave the tables alone\<close>

lemma validate_channel:
  assumes "validate_channel_for_country w chan cc = (a, w1)"
  shows "same_tables w w1
    \<and> (case a of Done ch \<Rightarrow> ch \<in> set (channels w) \<and> live ch \<and> ch_id ch = chan | Refused _ \<Rightarrow> True)"
  using assms get_available_channels_same
  by (auto simp: validate_channel_for_country_def find_Some_iff
      split: option.splits if_splits prod.splits)

lemma repricing_loop_tables:
  "repricing_loop enum ch rs pc kc w = (out, w') \<Longrightarrow> same_tables w w'"
proof (induction rs arbitrary: pc kc w out w')
  case (Cons r rs)
  let ?cc = "case log_country_code r of Some c \<Rightarrow> c | None \<Rightarrow> []"
  obtain price w1 where p: "(case pc (?cc, log_account_id r) of
               Some p \<Rightarrow> (Inr p, w)
             | None \<Rightarrow>
                 (case get_price w (ch_id ch) ?cc None (Some (log_account_id r)) of
                    (Inl e, w1) \<Rightarrow> (Inl e, w1)
                  | (Inr None, w1) \<Rightarrow> (Inl ValueError, w1)
                  | (Inr (Some p), w1) \<Rightarrow> (Inr (pi_price p), w1))) = (price, w1)"
    by (rule prod.exhaust)
  have t1: "same_tables w w1"
    using p get_price_tables by (fastforce split: option.splits prod.splits sum.splits)
  show ?case
  proof (cases price)
    case (Inl e)
    then show ?thesis using Cons.prems p t1 by (simp add: Let_def)
  next
    case (Inr us)
    obtain cost w2 where c: "(case kc ?cc of Some c \<Rightarrow> (Inr c, w1)
        | None \<Rightarrow> resolve_base_cost_per_sms enum w1 (ch_id ch) ?cc (Some ch)) = (cost, w2)"
      by (rule prod.exhaust)
    have t2: "same_tables w1 w2" using c resolve_cost_tables by (auto split: option.splits)
    show ?thesis
    proof (cases cost)
      case (Inl e)
      then show ?thesis using Cons.prems p c Inr t1 t2 by (simp add: Let_def same_tables_trans)
    next
      case c2: (Inr uc)
      obtain o3 w3 where rec: "repricing_loop enum ch rs (pc((?cc, log_account_id r) \<mapsto> us))
          (kc(?cc \<mapsto> uc)) w2 = (o3, w3)"
        by (rule prod.exhaust)
      have "w' = w3" using Cons.prems p c Inr c2 rec by (cases o3) (auto simp: Let_def)
      then show ?thesis using Cons.IH [OF rec] t1 t2 by (blast intro: same_tables_trans)
    qed
  qed
qed simp

lemma repricing_loop_rows:
  "repricing_loop enum ch rs pc kc w = (Inr out, w') \<Longrightarrow>
     map rp_log out = rs \<and> list_all (\<lambda>p. rp_diff p = rp_sell p - selling_amount (rp_log p)) out"
proof (induction rs arbitrary: pc kc w out)
  case (Cons r rs)
  then show ?case
    by (auto simp: Let_def split: prod.splits sum.splits)
qed simp

lemma plan_switch_tables: "plan_switch enum w b c = (r, w1) \<Longrightarrow> same_tables w w1"
  by (auto simp: plan_switch_def compute_repricing_def Let_def
      split: option.splits prod.splits answer.splits if_splits sum.splits
      dest!: validate_channel repricing_loop_tables intro: same_tables_trans)

lemma plan_switch_done:
  assumes "plan_switch enum w b c = (Inr (Done (batch, ch, rows, d)), w1)"
  shows "batch_by_id w b = Some batch \<and> ch \<in> set (channels w) \<and> live ch \<and> ch_id ch = c
    \<and> map rp_log rows = select_unsent_logs w b
    \<and> d = sum_list (map rp_diff rows)
    \<and> list_all (\<lambda>p. rp_diff p = rp_sell p - selling_amount (rp_log p)) rows"
proof -
  obtain x where x: "batch_by_id w b = Some x"
    using assms by (auto simp: plan_switch_def split: option.splits)
  let ?cc = "case select_unsent_logs w b of [] \<Rightarrow> None | r # _ \<Rightarrow> log_country_code r"
  obtain v w0 where v: "validate_channel_for_country w c ?cc = (v, w0)" by (rule prod.exhaust)
  then obtain ch' where d: "v = Done ch'"
    using assms x by (cases v) (auto simp: plan_switch_def Let_def)
  obtain o2 w2 where rep: "repricing_loop enum ch' (select_unsent_logs w b) Map.empty Map.empty w0 = (o2, w2)"
    by (rule prod.exhaust)
  have "batch = x" "ch = ch'" "o2 = Inr rows" "d = sum_list (map rp_diff rows)"
    using assms x v d rep
    by (auto simp: plan_switch_def compute_repricing_def Let_def split: if_splits sum.splits)
  moreover have "ch' \<in> set (channels w)" "live ch'" "ch_id ch' = c"
    using validate_channel [OF v] d by simp_all
  ultimately show ?thesis
    using x repricing_loop_rows [of enum ch' _ Map.empty Map.empty w0 rows w2] rep by auto
qed

section \<open>Writing the new prices\<close>

text \<open>What the row-by-row updates do to one message.\<close>

definition repriced_row :: "int \<Rightarrow> repriced list \<Rightarrow> sms_log \<Rightarrow> sms_log" where
  "repriced_row chan rows r =
     (case find (\<lambda>p. log_id (rp_log p) = log_id r) rows of
        None \<Rightarrow> r
      | Some p \<Rightarrow> r\<lparr>log_channel_id := Some chan, cost_price := Some (rp_cost p),
                    selling_price := Some (rp_sell p)\<rparr>)"

lemma fold_reprice_frame [simp]:
  "accounts (fold (reprice_log chan) rows w) = accounts w"
  "balance_logs (fold (reprice_log chan) rows w) = balance_logs w"
  "sms_batches (fold (reprice_log chan) rows w) = sms_batches w"
  "channels (fold (reprice_log chan) rows w) = channels w"
  "now (fold (reprice_log chan) rows w) = now w"
  by (induction rows arbitrary: w) (simp_all add: reprice_log_def)

lemma repriced_row_keeps [simp]:
  "log_id (repriced_row chan rows r) = log_id r"
  "log_batch_id (repriced_row chan rows r) = log_batch_id r"
  "is_unsent (repriced_row chan rows r) = is_unsent r"
  by (simp_all add: repriced_row_def is_unsent_def split: option.splits)

lemma fold_reprice_logs:
  assumes "distinct (map (log_id \<circ> rp_log) rows)"
  shows "sms_logs (fold (reprice_log chan) rows w) = map (repriced_row chan rows) (sms_logs w)"
  using assms
proof (induction rows arbitrary: w)
  case Nil
  then show ?case by (simp add: repriced_row_def)
next
  case (Cons p rows)
  have none: "find (\<lambda>q. log_id (rp_log q) = log_id (rp_log p)) rows = None"
    using Cons.prems by (auto simp: find_None_iff image_iff)
  have one: "repriced_row chan rows
      (if log_id (rp_log p) = log_id r
       then r\<lparr>log_channel_id := Some chan, cost_price := Some (rp_cost p), selling_price := Some (rp_sell p)\<rparr>
       else r) = repriced_row chan (p # rows) r" for r
    using none by (auto simp: repriced_row_def)
  have "sms_logs (fold (reprice_log chan) (p # rows) w) =
      map (repriced_row chan rows) (sms_logs (reprice_log chan p w))"
    using Cons.IH [of "reprice_log chan p w"] Cons.prems by simp
  also have "\<dots> = map (repriced_row chan (p # rows)) (sms_logs w)"
    by (auto simp: reprice_log_def upd_where_def one [symmetric] eq_commute)
  finally show ?case .
qed

lemma batch_unsent_distinct:
  "wf_world w \<Longrightarrow> distinct (map log_id (select_unsent_logs w b))"
  by (simp add: wf_world_def select_unsent_logs_def batch_logs_def distinct_map_filter)

lemma select_unsent_repriced:
  assumes "sms_logs w' = map (repriced_row chan rows) (sms_logs w)"
  shows "select_unsent_logs w' b = map (repriced_row chan rows) (select_unsent_logs w b)"
  by (simp add: select_unsent_logs_def batch_logs_def assms filter_map comp_def)

definition unsent_total :: "world \<Rightarrow> int \<Rightarrow> money" where
  "unsent_total w b = sum_list (map selling_amount (select_unsent_logs w b))"

lemma repriced_row_own:
  assumes "distinct (map (log_id \<circ> rp_log) rows)" and "p \<in> set rows"
  shows "repriced_row chan rows (rp_log p) = (rp_log p)\<lparr>log_channel_id := Some chan,
           cost_price := Some (rp_cost p), selling_price := Some (rp_sell p)\<rparr>"
  using find_distinct_key [OF assms] by (simp add: repriced_row_def)

lemma repriced_rows_total:
  assumes "distinct (map (log_id \<circ> rp_log) rows)"
  shows "map (selling_amount \<circ> repriced_row chan rows \<circ> rp_log) rows = map rp_sell rows"
  using repriced_row_own [OF assms] by (simp add: selling_amount_def)

lemma repriced_row_other:
  assumes wf: "wf_world w" and rows: "map rp_log rows = select_unsent_logs w b"
    and x: "x \<in> set (sms_logs w)" and other: "\<not> (is_unsent x \<and> log_batch_id x = Some b)"
  shows "repriced_row chan rows x = x"
proof -
  have "log_id (rp_log p) \<noteq> log_id x" if p: "p \<in> set rows" for p
  proof
    assume eq: "log_id (rp_log p) = log_id x"
    have "rp_log p \<in> set (map rp_log rows)" using p by simp
    then have sel: "rp_log p \<in> set (sms_logs w)" "is_unsent (rp_log p)" "log_batch_id (rp_log p) = Some b"
      unfolding rows by (simp_all add: select_unsent_logs_def batch_logs_def)
    have "inj_on log_id (set (sms_logs w))" using wf by (simp add: wf_world_def distinct_map)
    then have "rp_log p = x" using eq x sel(1) by (meson inj_onD)
    then show False using other sel(2,3) by simp
  qed
  then have "find (\<lambda>p. log_id (rp_log p) = log_id x) rows = None" by (simp add: find_None_iff)
  then show ?thesis by (simp add: repriced_row_def)
qed

lemma sum_diffs:
  assumes "list_all (\<lambda>p. rp_diff p = rp_sell p - selling_amount (rp_log p)) rows"
  shows "sum_list (map rp_diff rows) =
           sum_list (map rp_sell rows) - sum_list (map selling_amount (map rp_log rows))"
  using assms by (induction rows) simp_all

section \<open>What a switch does\<close>

lemma settle_diff_frame [simp]:
  "sms_logs (snd (settle_diff acc d w)) = sms_logs w"
  "sms_batches (snd (settle_diff acc d w)) = sms_batches w"
  "balance_logs (snd (settle_diff acc d w)) = balance_logs w"
  "wf_world (snd (settle_diff acc d w)) = wf_world w"
  "now (snd (settle_diff acc d w)) = now w"
  by (simp_all add: settle_diff_def)

lemma settle_diff_account:
  assumes wf: "wf_world w" and a: "account_by_id w acc = Some a" and ok: "\<not> (0 < d \<and> fst (settle_diff acc d w) = 0)"
  shows "balance_of (snd (settle_diff acc d w)) acc = Some (balance a - d)"
    and "j \<noteq> acc \<Longrightarrow> account_by_id (snd (settle_diff acc d w)) j = account_by_id w j"
    and "d \<le> balance a \<or> d \<le> 0"
proof -
  have dist: "distinct (map acc_id (accounts w))" using wf by (simp add: wf_world_def)
  note own = add_balance_own_row [OF dist a]
  have g: "d \<le> balance a" if "0 < d"
    using ok that own(1) [of "\<lambda>a. balance a \<ge> d" "- d"] by (auto simp: settle_diff_def split: if_splits)
  then show "d \<le> balance a \<or> d \<le> 0" by force
  show "balance_of (snd (settle_diff acc d w)) acc = Some (balance a - d)"
    using own(2) [of "\<lambda>a. balance a \<ge> d" "- d"] own(2) [of "\<lambda>_. True" "\<bar>d\<bar>"] g a
    by (auto simp: settle_diff_def balance_of_def)
  show "account_by_id (snd (settle_diff acc d w)) j = account_by_id w j" if "j \<noteq> acc"
    using own(3) [OF that] by (simp add: settle_diff_def)
qed

lemma switch_cases:
  assumes run: "switch_channel_for_unsent enum w b c = (ans, w')"
  obtains (stopped) "same_tables w w'" "\<forall>r. ans \<noteq> Inr (Done r)"
  | (switched) batch ch rows d w1 r where "ans = Inr (Done r)"
      "plan_switch enum w b c = (Inr (Done (batch, ch, rows, d)), w1)" "same_tables w w1"
      "\<not> (0 < d \<and> fst (settle_diff (batch_account_id batch) d w1) = 0)"
      "w' = (let w3 = fold (reprice_log (ch_id ch)) rows (snd (settle_diff (batch_account_id batch) d w1))
             in if d \<noteq> 0 then log_balance (batch_account_id batch) Adjustment (- d)
                     (balance_or_zero (snd (settle_diff (batch_account_id batch) d w1))
                        (batch_account_id batch)) w3
                else w3)"
      "sw_channel r = ch_id ch" "sw_unsent r = length rows" "sw_total_diff r = d"
      "sw_balance_before r = balance_or_zero w1 (batch_account_id batch)"
      "sw_balance_after r = balance_or_zero (snd (settle_diff (batch_account_id batch) d w1))
                              (batch_account_id batch)"
proof -
  obtain pl w1 where pl: "plan_switch enum w b c = (pl, w1)" by fastforce
  have st: "same_tables w w1" using pl by (rule plan_switch_tables)
  show thesis
  proof (cases "\<exists>batch ch rows d. pl = Inr (Done (batch, ch, rows, d))")
    case False
    then have "w' = w1 \<and> (\<forall>r. ans \<noteq> Inr (Done r))"
      using run pl
      by (auto simp: switch_channel_for_unsent_def split: sum.splits answer.splits prod.splits)
    then show thesis using st stopped by blast
  next
    case True
    then obtain batch ch rows d where dn: "pl = Inr (Done (batch, ch, rows, d))" by blast
    let ?acc = "batch_account_id batch"
    obtain n w2 where s: "settle_diff ?acc d w1 = (n, w2)" by fastforce
    show thesis
    proof (cases "0 < d \<and> n = 0")
      case True
      then have "w' = w1 \<and> (\<forall>r. ans \<noteq> Inr (Done r))"
        using run pl dn s
        by (auto simp: switch_channel_for_unsent_def Let_def)
      then show thesis using st stopped by blast
    next
      case False
      define w3 where "w3 = fold (reprice_log (ch_id ch)) rows w2"
      have "ans = Inr (Done \<lparr>sw_channel = ch_id ch, sw_unsent = length rows, sw_total_diff = d,
                sw_balance_before = balance_or_zero w1 ?acc, sw_balance_after = balance_or_zero w2 ?acc\<rparr>)
          \<and> w' = (if d \<noteq> 0 then log_balance ?acc Adjustment (- d) (balance_or_zero w2 ?acc) w3 else w3)"
        using run pl dn s False unfolding w3_def switch_channel_for_unsent_def
        by (auto simp: Let_def split: if_splits)
      then show thesis using dn pl st s False
        by (intro switched) (auto simp: Let_def w3_def)
    qed
  qed
qed

lemma switch_rows_distinct:
  assumes "wf_world w" and "plan_switch enum w b c = (Inr (Done (batch, ch, rows, d)), w1)"
  shows "distinct (map (log_id \<circ> rp_log) rows)"
  using batch_unsent_distinct [OF assms(1), of b] plan_switch_done [OF assms(2)]
  by (metis map_map)

text \<open>C13: A successful channel switch moves every unsent message of the batch to the new, live channel,
  leaves all other messages alone, and conserves money: the customer's balance falls by exactly the
  amount by which the selling prices of the unsent messages rise, never below zero on a surcharge,
  with one adjustment entry in the balance log unless the difference is zero.\<close>

theorem switch_conserves_money:
  assumes "wf_world w" and "batch_by_id w b = Some batch"
    and "account_by_id w (batch_account_id batch) = Some a"
    and "switch_channel_for_unsent enum w b c = (Inr (Done r), w')"
  shows "balance_of w' (batch_account_id batch) = Some (balance a - sw_total_diff r)
    \<and> unsent_total w' b = unsent_total w b + sw_total_diff r
    \<and> (0 < sw_total_diff r \<longrightarrow> sw_total_diff r \<le> balance a)
    \<and> (\<forall>x\<in>set (select_unsent_logs w' b). log_channel_id x = Some (sw_channel r))
    \<and> filter (\<lambda>x. \<not> (is_unsent x \<and> log_batch_id x = Some b)) (sms_logs w')
        = filter (\<lambda>x. \<not> (is_unsent x \<and> log_batch_id x = Some b)) (sms_logs w)
    \<and> logged_total (batch_account_id batch) (balance_logs w')
        = logged_total (batch_account_id batch) (balance_logs w) - sw_total_diff r"
  using assms(4)
proof (cases rule: switch_cases)
  case stopped
  then show ?thesis by simp
next
  case (switched batch' ch rows d w1 r')
  have r: "r' = r" using switched(1) by simp
  note plan = plan_switch_done [OF switched(2)]
  have b: "batch' = batch" using plan assms(2) by simp
  let ?acc = "batch_account_id batch"
  have wf1: "wf_world w1" and a1: "account_by_id w1 ?acc = Some a" and logs1: "sms_logs w1 = sms_logs w"
    and bl1: "balance_logs w1 = balance_logs w"
    using assms(1,3) switched(3) same_tables_queries(1,5) [OF switched(3)]
    by (simp_all add: same_tables_def)
  have dist: "distinct (map (log_id \<circ> rp_log) rows)"
    using switch_rows_distinct assms(1) switched(2) by blast
  let ?w2 = "snd (settle_diff ?acc d w1)"
  have "sms_logs w' = sms_logs (fold (reprice_log (ch_id ch)) rows ?w2)"
    unfolding switched(5) b by (simp add: Let_def)
  then have logs: "sms_logs w' = map (repriced_row (ch_id ch) rows) (sms_logs w)"
    using fold_reprice_logs [OF dist, of "ch_id ch" ?w2] logs1 by simp
  have unsent: "select_unsent_logs w' b = map (repriced_row (ch_id ch) rows \<circ> rp_log) rows"
    using select_unsent_repriced [OF logs, of b] plan by (metis map_map)
  have "balance_of w' ?acc = balance_of ?w2 ?acc"
    by (simp add: switched(5) Let_def b balance_of_def account_by_id_def)
  then have "balance_of w' ?acc = Some (balance a - d)" and "0 < d \<longrightarrow> d \<le> balance a"
    using settle_diff_account(1,3) [OF wf1 a1, of d] switched(4) b by auto
  moreover have "unsent_total w' b = sum_list (map rp_sell rows)"
    using arg_cong [OF repriced_rows_total [OF dist, of "ch_id ch"], of sum_list]
    by (simp only: unsent_total_def unsent map_map comp_assoc)
  moreover have "unsent_total w b + d = sum_list (map rp_sell rows)"
    using plan sum_diffs [of rows] by (simp add: unsent_total_def)
  moreover have "log_channel_id x = Some (ch_id ch)" if x: "x \<in> set (select_unsent_logs w' b)" for x
  proof -
    obtain p where p: "p \<in> set rows" "x = repriced_row (ch_id ch) rows (rp_log p)"
      using x unsent by auto
    show ?thesis using repriced_row_own [OF dist p(1)] p(2) by simp
  qed
  moreover have "filter (\<lambda>x. \<not> (is_unsent x \<and> log_batch_id x = Some b)) (sms_logs w')
      = filter (\<lambda>x. \<not> (is_unsent x \<and> log_batch_id x = Some b)) (sms_logs w)"
  proof -
    have "repriced_row (ch_id ch) rows x = x"
      if "x \<in> set (sms_logs w)" "\<not> (is_unsent x \<and> log_batch_id x = Some b)" for x
      using repriced_row_other [OF assms(1) _ that] plan by blast
    then show ?thesis unfolding logs by (simp add: filter_map comp_def cong: filter_cong)
        (rule map_idI, simp)
  qed
  moreover have "logged_total ?acc (balance_logs w') = logged_total ?acc (balance_logs w) - d"
    using bl1 by (simp add: switched(5) Let_def b log_balance_def)
  ultimately show ?thesis using switched(6,8) r by simp
qed

lemma money_cong:
  assumes "accounts w = accounts v" and "balance_logs w = balance_logs v"
  shows "ledger_ok fund w = ledger_ok fund v" and "prepaid_covered w = prepaid_covered v"
  using assms by (simp_all add: ledger_ok_def prepaid_covered_def)

lemma fold_reprice_wf [simp]: "wf_world (fold (reprice_log k) rows v) = wf_world v"
proof (induction rows arbitrary: v)
  case (Cons p rows)
  have "wf_world (reprice_log k p v) = wf_world v"
    by (simp add: reprice_log_def wf_world_def map_upd_where)
  then show ?case using Cons.IH by simp
qed simp

lemma settle_diff_money:
  assumes wf: "wf_world w" and ok: "\<not> (0 < d \<and> fst (settle_diff acc d w) = 0)"
  shows "ledger_ok fund w \<Longrightarrow> d \<noteq> 0 \<Longrightarrow>
           ledger_ok fund (log_balance acc ct (- d) x (snd (settle_diff acc d w)))"
    and "ledger_ok fund w \<Longrightarrow> d = 0 \<Longrightarrow> ledger_ok fund (snd (settle_diff acc d w))"
    and "prepaid_covered w \<Longrightarrow> prepaid_covered (snd (settle_diff acc d w))"
proof -
  let ?g = "\<lambda>a. d \<le> balance a"
  have guard: "?g a" if "0 < d" "a \<in> set (accounts w)" "acc_id a = acc" for a
  proof -
    have "fst (add_balance_where ?g acc (- d) w) \<noteq> 0" using ok that by (simp add: settle_diff_def)
    then show ?thesis using add_balance_where_hit [of w ?g acc "- d"] wf that
      by (metis wf_world_def)
  qed
  show "ledger_ok fund w \<Longrightarrow> d \<noteq> 0 \<Longrightarrow>
           ledger_ok fund (log_balance acc ct (- d) x (snd (settle_diff acc d w)))"
    using guard ledger_ok_move [of fund w acc ?g ct "- d" x] ledger_ok_move [of fund w acc "\<lambda>_. True" ct "- d" x]
    by (auto simp: settle_diff_def)
  show "ledger_ok fund w \<Longrightarrow> d = 0 \<Longrightarrow> ledger_ok fund (snd (settle_diff acc d w))"
    by (simp add: settle_diff_def)
  show "prepaid_covered w \<Longrightarrow> prepaid_covered (snd (settle_diff acc d w))"
    by (auto simp: settle_diff_def intro!: prepaid_covered_add)
qed

lemma switch_money:
  assumes wf: "wf_world w" and run: "switch_channel_for_unsent enum w b c = (ans, w')"
  shows "wf_world w'" and "ledger_ok fund w \<Longrightarrow> ledger_ok fund w'"
    and "prepaid_covered w \<Longrightarrow> prepaid_covered w'"
proof -
  have "wf_world w' \<and> (ledger_ok fund w \<longrightarrow> ledger_ok fund w')
        \<and> (prepaid_covered w \<longrightarrow> prepaid_covered w')"
    using run
  proof (cases rule: switch_cases)
    case stopped
    then show ?thesis using wf same_tables_queries [OF stopped(1)] by simp
  next
    case (switched batch ch rows d w1 r)
    let ?acc = "batch_account_id batch"
    let ?w2 = "snd (settle_diff ?acc d w1)"
    note q = same_tables_queries [OF switched(3)]
    have wf1: "wf_world w1" using wf q by simp
    note m = settle_diff_money [OF wf1 switched(4)]
    have "ledger_ok fund w' = (if d \<noteq> 0 then ledger_ok fund (log_balance ?acc Adjustment (- d)
              (balance_or_zero ?w2 ?acc) ?w2) else ledger_ok fund ?w2)"
      unfolding switched(5) Let_def by (auto intro!: money_cong(1) simp: log_balance_def)
    moreover have "prepaid_covered w' = prepaid_covered ?w2"
      unfolding switched(5) Let_def by (auto simp: prepaid_covered_def)
    moreover have "wf_world w'" unfolding switched(5) Let_def using wf1 by simp
    ultimately show ?thesis using m q by auto
  qed
  then show "wf_world w'" "ledger_ok fund w \<Longrightarrow> ledger_ok fund w'"
    "prepaid_covered w \<Longrightarrow> prepaid_covered w'" by blast+
qed

fun switch_run :: "(pystr list \<Rightarrow> pystr list) \<times> int \<times> int \<Rightarrow> world \<Rightarrow> switch_result answer outcome \<times> world" where
  "switch_run (enum, b, c) w = switch_channel_for_unsent enum w b c"

interpretation switch: money_op switch_run
proof
  fix w :: world and a :: "(pystr list \<Rightarrow> pystr list) \<times> int \<times> int" and fund
  obtain enum b c where a: "a = (enum, b, c)" by (cases a)
  note m = switch_money [of w enum b c "fst (switch_run a w)" "snd (switch_run a w)"]
  show "wf_world w \<Longrightarrow> wf_world (snd (switch_run a w))" using m a by simp
  show "wf_world w \<Longrightarrow> ledger_ok fund w \<Longrightarrow> ledger_ok fund (snd (switch_run a w))" using m a by simp
  show "wf_world w \<Longrightarrow> prepaid_covered w \<Longrightarrow> prepaid_covered (snd (switch_run a w))" using m a by simp
qed

text \<open>C37: The preview is honest: when it reports a difference and a sufficient balance, a switch started in
  the same state succeeds with that difference and the estimated balance; when it reports an
  insufficient one, the switch raises InsufficientBalanceError and changes no table; and it refuses
  exactly what the switch refuses.\<close>

theorem preview_agrees_with_switch:
  assumes "wf_world w" and "preview_switch_channel enum w b c = (Inr (Done p), w1)"
    and "batch_by_id w b = Some batch" and "account_by_id w (batch_account_id batch) = Some a"
  shows "if pv_balance_sufficient p
         then \<exists>r w'. switch_channel_for_unsent enum w b c = (Inr (Done r), w')
                \<and> sw_total_diff r = pv_total_diff p \<and> sw_unsent r = pv_unsent p
                \<and> sw_balance_after r = pv_balance_after_estimate p
         else fst (switch_channel_for_unsent enum w b c)
                = Inl (InsufficientBalanceError (pv_total_diff p) (pv_balance_before p))
              \<and> same_tables w (snd (switch_channel_for_unsent enum w b c))"
proof -
  obtain batch' ch rows d where pl: "plan_switch enum w b c = (Inr (Done (batch', ch, rows, d)), w1)"
    and p: "p = \<lparr>pv_channel = ch_id ch, pv_unsent = length rows, pv_total_diff = d,
             pv_balance_before = balance_or_zero w1 (batch_account_id batch'),
             pv_balance_after_estimate = balance_or_zero w1 (batch_account_id batch') - d,
             pv_balance_sufficient = (d \<le> 0 \<or> balance_or_zero w1 (batch_account_id batch') \<ge> d)\<rparr>"
    using assms(2)
    by (auto simp: preview_switch_channel_def Let_def split: sum.splits prod.splits answer.splits)
  have b: "batch' = batch" using plan_switch_done [OF pl] assms(3) by simp
  let ?acc = "batch_account_id batch"
  have st: "same_tables w w1" using pl by (rule plan_switch_tables)
  have wf1: "wf_world w1" and a1: "account_by_id w1 ?acc = Some a"
    using assms(1,4) same_tables_queries [OF st] by simp_all
  have bal: "balance_or_zero w1 ?acc = balance a" using a1 by (simp add: balance_or_zero_def balance_of_def)
  have dist: "distinct (map acc_id (accounts w1))" using wf1 by (simp add: wf_world_def)
  have hit: "fst (settle_diff ?acc d w1) \<noteq> 0 \<longleftrightarrow> d \<le> balance a" if "0 < d"
    using add_balance_own_row(1) [OF dist a1, of "\<lambda>a. d \<le> balance a" "- d"] that
    by (simp add: settle_diff_def)
  show ?thesis
  proof (cases "pv_balance_sufficient p")
    case True
    then have ok: "\<not> (0 < d \<and> fst (settle_diff ?acc d w1) = 0)" using p bal b hit by auto
    have "balance_or_zero (snd (settle_diff ?acc d w1)) ?acc = balance a - d"
      using settle_diff_account(1) [OF wf1 a1 ok] by (simp add: balance_or_zero_def)
    then show ?thesis using pl p b bal ok True
      by (auto simp: switch_channel_for_unsent_def Let_def split_def)
  next
    case False
    then have d: "0 < d" "balance a < d" using p bal b by auto
    then have "fst (settle_diff ?acc d w1) = 0" using hit by auto
    then show ?thesis using pl p b bal d False st
      by (auto simp: switch_channel_for_unsent_def Let_def split_def)
  qed
qed

section \<open>Pause, resume and clear\<close>

text \<open>Pausing a running or pending batch and resuming it without a new channel leaves every message
  and every balance as it was, sets the batch to processing, and hands exactly the unsent messages
  to the broker again, each counted once as accepted or refused.\<close>

theorem pause_resume_roundtrip:
  assumes "batch_by_id w b = Some x" and "batch_status x \<in> {BProcessing, BPending}"
  shows "\<exists>n w1 res w2. pause_batch w b = (Done n, w1)
    \<and> (\<exists>y. batch_by_id w1 b = Some y \<and> batch_status y = BPaused)
    \<and> resume_batch enum queue w1 b None = (Inr (Done res), w2)
    \<and> (\<exists>z. batch_by_id w2 b = Some z \<and> batch_status z = BProcessing)
    \<and> rs_unsent res = count_unsent w b \<and> requeued_ok res + requeued_fail res = count_unsent w b
    \<and> requeued_ok res = length (filter (queue \<circ> message_id) (select_unsent_logs w b))
    \<and> sms_logs w2 = sms_logs w \<and> accounts w2 = accounts w \<and> balance_logs w2 = balance_logs w"
proof -
  let ?w1 = "save_batch b (\<lambda>x. x\<lparr>batch_status := BPaused\<rparr>) w"
  let ?w2 = "save_batch b (\<lambda>x. x\<lparr>batch_status := BProcessing\<rparr>) ?w1"
  have pause: "pause_batch w b = (Done (count_unsent w b), ?w1)"
    using assms by (auto simp: pause_batch_def)
  have y: "batch_by_id ?w1 b = Some (x\<lparr>batch_status := BPaused, batch_updated_at := now w\<rparr>)"
    using assms(1) by (simp add: batch_by_id_save)
  have logs: "select_unsent_logs ?w2 b = select_unsent_logs w b" by (simp add: select_unsent_logs_def)
  have "resume_batch enum queue ?w1 b None = (Inr (Done
      \<lparr>rs_unsent = length (select_unsent_logs w b),
       requeued_ok = length (filter (\<lambda>r. queue (message_id r)) (select_unsent_logs w b)),
       requeued_fail = length (select_unsent_logs w b)
         - length (filter (\<lambda>r. queue (message_id r)) (select_unsent_logs w b)),
       rs_switch = None\<rparr>), ?w2)"
    using y logs by (simp add: resume_batch_def truthy_id_def Let_def)
  moreover have "\<exists>z. batch_by_id ?w2 b = Some z \<and> batch_status z = BProcessing"
    using assms(1) by (simp add: batch_by_id_save)
  ultimately show ?thesis using pause y
    by (auto simp: count_unsent_def comp_def intro!: exI [of _ "?w1"])
qed

text \<open>Clearing the queue of a paused batch that has unsent messages never succeeds: the status it
  writes is not a value of the column, the update is refused, and every table stays as it was.\<close>

theorem clear_with_unsent_fails:
  assumes "batch_by_id w b = Some x" and "batch_status x = BPaused"
    and "r \<in> set (batch_logs w b)" and "is_unsent r"
  shows "clear_batch_queue rnd w b = (Inl DataError, w)"
proof -
  have "select_unsent_logs w b \<noteq> []"
    using assms(3,4) by (auto simp: select_unsent_logs_def filter_empty_conv)
  then show ?thesis using assms(1,2) by (simp add: clear_batch_queue_def count_unsent_def)
qed

theorem pause_resume_roundtrip_witness:
  "\<exists>n w1 res w2. pause_batch demo_batch 2 = (Done n, w1)
     \<and> resume_batch id (\<lambda>_. True) w1 2 None = (Inr (Done res), w2) \<and> sms_logs w2 = sms_logs demo_batch"
proof -
  have "\<exists>x. batch_by_id demo_batch 2 = Some x \<and> batch_status x \<in> {BProcessing, BPending}"
    by (simp add: demo_batch_defs)
  then show ?thesis using pause_resume_roundtrip [of demo_batch 2 _ id "\<lambda>_. True"] by blast
qed

theorem clear_with_unsent_fails_witness: "clear_batch_queue 1 demo_batch 1 = (Inl DataError, demo_batch)"
proof -
  have "\<exists>x. batch_by_id demo_batch 1 = Some x \<and> batch_status x = BPaused"
    "\<exists>r\<in>set (batch_logs demo_batch 1). is_unsent r"
    by (simp_all add: demo_batch_defs is_unsent_def)
  then show ?thesis using clear_with_unsent_fails by blast
qed

section \<open>A switch\<close>

text \<open>Two unsent messages billed at 0.02 and 0.04; the account pays 0.05 a message.\<close>

definition demo_switch :: world where
  "demo_switch = empty_world
     \<lparr>accounts := [(new_account 1 (asc ''a'')) \<lparr>unit_price := Some (5 / 100), balance := 10\<rparr>],
      channels := [(new_channel 7 (asc ''c'') SMPP) \<lparr>cost_rate := Some (1 / 100)\<rparr>],
      cost_cache := [(7, []) \<mapsto> 1 / 100],
      sms_batches := [(new_sms_batch 1 1 []) \<lparr>batch_status := BPaused\<rparr>],
      sms_logs := [(new_sms_log 1 (asc ''a'') 1 [])
                     \<lparr>log_batch_id := Some 1, selling_price := Some (2 / 100)\<rparr>,
                   (new_sms_log 2 (asc ''b'') 1 [])
                     \<lparr>log_batch_id := Some 1, selling_price := Some (4 / 100)\<rparr>]\<rparr>"

lemma demo_switch_wf: "wf_world demo_switch"
  by (simp add: demo_switch_def empty_world_def wf_world_def new_account_def new_sms_log_def
      new_sms_batch_def)

lemma demo_switch_rows:
  "\<exists>batch a. batch_by_id demo_switch 1 = Some batch \<and> account_by_id demo_switch (batch_account_id batch) = Some a
     \<and> balance a = 10"
  by (simp add: demo_switch_def empty_world_def batch_by_id_def account_by_id_def new_account_def
      new_sms_batch_def)

lemma demo_preview:
  "\<exists>p w1. preview_switch_channel id demo_switch 1 7 = (Inr (Done p), w1)
          \<and> pv_total_diff p = 4 / 100 \<and> pv_balance_sufficient p"
  by (simp add: preview_switch_channel_def plan_switch_def demo_switch_def empty_world_def
      batch_by_id_def select_unsent_logs_def batch_logs_def is_unsent_def new_sms_batch_def
      new_sms_log_def new_account_def new_channel_def validate_channel_for_country_def live_def
      compute_repricing_def get_price_def price_key_def truthy_id_def price_db_def unit_price_info_def
      account_by_id_def resolve_base_cost_per_sms_def msg_count_def selling_amount_def or_zero_def
      balance_or_zero_def balance_of_def Let_def)

theorem switch_conserves_money_witness:
  "\<exists>r w'. switch_channel_for_unsent id demo_switch 1 7 = (Inr (Done r), w')
     \<and> unsent_total w' 1 = unsent_total demo_switch 1 + sw_total_diff r"
proof -
  obtain batch a where b: "batch_by_id demo_switch 1 = Some batch"
      "account_by_id demo_switch (batch_account_id batch) = Some a"
    using demo_switch_rows by blast
  obtain p w1 where pr: "preview_switch_channel id demo_switch 1 7 = (Inr (Done p), w1)"
      "pv_balance_sufficient p" "pv_total_diff p = 4 / 100"
    using demo_preview by blast
  obtain batch' ch rows d where pl: "plan_switch id demo_switch 1 7 = (Inr (Done (batch', ch, rows, d)), w1)"
    and bal: "d \<le> 0 \<or> d \<le> balance_or_zero w1 (batch_account_id batch')"
    using pr(1,2)
    by (auto simp: preview_switch_channel_def Let_def split: sum.splits prod.splits answer.splits)
  have bb: "batch' = batch" using plan_switch_done [OF pl] b(1) by simp
  have st: "same_tables demo_switch w1" using pl by (rule plan_switch_tables)
  have wf1: "wf_world w1" and a1: "account_by_id w1 (batch_account_id batch) = Some a"
    using demo_switch_wf b(2) same_tables_queries [OF st] by simp_all
  have "distinct (map acc_id (accounts w1))" using wf1 by (simp add: wf_world_def)
  then have "\<not> (0 < d \<and> fst (settle_diff (batch_account_id batch) d w1) = 0)"
    using add_balance_own_row(1) [OF _ a1, of "\<lambda>a. d \<le> balance a" "- d"] bal a1 bb
    by (auto simp: settle_diff_def balance_or_zero_def balance_of_def)
  then obtain r w' where sw: "switch_channel_for_unsent id demo_switch 1 7 = (Inr (Done r), w')"
    using pl bb by (auto simp: switch_channel_for_unsent_def Let_def split_def)
  then show ?thesis using switch_conserves_money [OF demo_switch_wf b sw] by blast
qed

theorem preview_agrees_with_switch_witness:
  "\<exists>r w'. switch_channel_for_unsent id demo_switch 1 7 = (Inr (Done r), w') \<and> sw_total_diff r = 4 / 100"
proof -
  obtain batch a where b: "batch_by_id demo_switch 1 = Some batch"
      "account_by_id demo_switch (batch_account_id batch) = Some a"
    using demo_switch_rows by blast
  obtain p w1 where pr: "preview_switch_channel id demo_switch 1 7 = (Inr (Done p), w1)"
      "pv_balance_sufficient p" "pv_total_diff p = 4 / 100"
    using demo_preview by blast
  show ?thesis
    using preview_agrees_with_switch [OF demo_switch_wf pr(1) b] pr(2,3) by auto
qed

end
