(* ===== verification/DlrBuffer.thy ===== *)
theory DlrBuffer
  imports Db "HOL-Library.List_Lexorder" "HOL-Library.Product_Lexorder"
begin

text \<open>
  The retry buffer for delivery reports that arrive before the message they are about,
  \<open>backend/app/utils/dlr_buffer.py\<close>: a Redis hash of the reports and a sorted set of their expiry
  times. The hash is the list of its fields in the order \<open>HGETALL\<close> yields them; the sorted set is the
  list of its members with their scores, and a range sorts them by score and then by member, as Redis
  does (the order of UTF-8 bytes is the order of code points). A field is the pair that its text
  \<open>channel_id:upstream_id\<close> spells. Values are the records \<open>json.loads\<close> gives back. While \<open>rd_up\<close> is
  false every command raises. \<open>owned\<close> holds the ownership keys of the gateway with their expiry
  times (\<open>None\<close>: a key without one). Times are whole seconds.
\<close>

type_synonym retry_key = "int \<times> pystr"

record retry_item =
  it_channel_id :: int
  it_upstream_id :: pystr
  it_new_status :: sms_status
  it_stat :: pystr
  it_err :: pystr
  it_dest_addr :: pystr
  it_source_addr :: pystr
  it_receipted_message_id :: pystr
  it_first_seen :: int
  it_retry_count :: nat

record redis_buffer =
  rd_up :: bool
  retry_hash :: "(retry_key \<times> retry_item) list"
  retry_zset :: "(retry_key \<times> int) list"
  owned :: "retry_key \<rightharpoonup> int option"

definition RETRY_TTL :: int where
  "RETRY_TTL = 3600"

definition MAX_RETRIES :: nat where
  "MAX_RETRIES = 20"

section \<open>Redis commands\<close>

definition hget :: "retry_key \<Rightarrow> redis_buffer \<Rightarrow> retry_item option" where
  "hget k b = map_of (retry_hash b) k"

definition hdel :: "retry_key set \<Rightarrow> redis_buffer \<Rightarrow> redis_buffer" where
  "hdel ks b = b\<lparr>retry_hash := filter (\<lambda>(k, _). k \<notin> ks) (retry_hash b)\<rparr>"

definition zrem :: "retry_key set \<Rightarrow> redis_buffer \<Rightarrow> redis_buffer" where
  "zrem ks b = b\<lparr>retry_zset := filter (\<lambda>(k, _). k \<notin> ks) (retry_zset b)\<rparr>"

definition hset :: "retry_key \<Rightarrow> retry_item \<Rightarrow> redis_buffer \<Rightarrow> redis_buffer" where
  "hset k v b =
     b\<lparr>retry_hash := (if k \<in> fst ` set (retry_hash b)
                      then map (\<lambda>(k', v'). (k', if k' = k then v else v')) (retry_hash b)
                      else retry_hash b @ [(k, v)])\<rparr>"

definition hsetnx :: "retry_key \<Rightarrow> retry_item \<Rightarrow> redis_buffer \<Rightarrow> bool \<times> redis_buffer" where
  "hsetnx k v b = (if k \<in> fst ` set (retry_hash b) then (False, b) else (True, hset k v b))"

definition zadd_nx :: "retry_key \<Rightarrow> int \<Rightarrow> redis_buffer \<Rightarrow> redis_buffer" where
  "zadd_nx k score b =
     (if k \<in> fst ` set (retry_zset b) then b else b\<lparr>retry_zset := retry_zset b @ [(k, score)]\<rparr>)"

text \<open>The text of a field, and the order of a sorted set.\<close>

definition field_text :: "retry_key \<Rightarrow> pystr" where
  "field_text k = text_of_int (fst k) @ 58 # snd k"

definition by_score :: "redis_buffer \<Rightarrow> (retry_key \<times> int) list" where
  "by_score b = sort_key (\<lambda>(k, score). (score, field_text k)) (retry_zset b)"

definition zrange :: "nat \<Rightarrow> redis_buffer \<Rightarrow> retry_key list" where
  "zrange limit b = map fst (take limit (by_score b))"

definition zrangebyscore :: "int \<Rightarrow> nat \<Rightarrow> redis_buffer \<Rightarrow> retry_key list" where
  "zrangebyscore hi num b = map fst (take num (filter (\<lambda>(_, score). score \<le> hi) (by_score b)))"

definition owned_at :: "int \<Rightarrow> retry_key \<Rightarrow> redis_buffer \<Rightarrow> bool" where
  "owned_at time k b =
     (case owned b k of None \<Rightarrow> False | Some None \<Rightarrow> True | Some (Some expiry) \<Rightarrow> time < expiry)"

section \<open>The operations\<close>

definition dlr_is_owned :: "int \<Rightarrow> redis_buffer \<Rightarrow> int \<Rightarrow> pystr \<Rightarrow> bool" where
  "dlr_is_owned time b chan uid =
     (if \<not> rd_up b then True
      else list_ex (\<lambda>u. u \<noteq> [] \<and> owned_at time (chan, u) b) [uid, py_upper uid, py_lower uid])"

definition buffer_unmatched_dlr ::
    "bool \<Rightarrow> int \<Rightarrow> retry_item \<Rightarrow> redis_buffer \<Rightarrow> bool \<times> redis_buffer" where
  "buffer_unmatched_dlr ownership_filter time item b =
     (if it_upstream_id item = [] then (False, b)
      else
        let k = (it_channel_id item, it_upstream_id item)
        in if ownership_filter \<and> \<not> dlr_is_owned time b (it_channel_id item) (it_upstream_id item)
           then (False, zrem {k} (hdel {k} b))
           else if \<not> rd_up b then (False, b)
           else let (added, b1) = hsetnx k (item\<lparr>it_first_seen := time, it_retry_count := 0\<rparr>) b
                in (True, if added then zadd_nx k (time + RETRY_TTL) b1 else b1))"

text \<open>The fields of the sorted set that the hash has lost are dropped on the way.\<close>

fun pop_fields :: "retry_key list \<Rightarrow> redis_buffer \<Rightarrow> (retry_key \<times> retry_item) list \<times> redis_buffer" where
  "pop_fields [] b = ([], b)"
| "pop_fields (k # ks) b =
     (case hget k b of
        None \<Rightarrow> pop_fields ks (zrem {k} b)
      | Some v \<Rightarrow> (case pop_fields ks b of (items, b1) \<Rightarrow> ((k, v) # items, b1)))"

definition pop_retry_buffer ::
    "int \<Rightarrow> nat \<Rightarrow> redis_buffer \<Rightarrow> (retry_key \<times> retry_item) list \<times> redis_buffer" where
  "pop_retry_buffer time limit b =
     (if \<not> rd_up b then ([], b)
      else
        let fields = zrange limit b
        in if fields \<noteq> [] then pop_fields fields b
           else let items = take limit (retry_hash b)
                in (items, fold (\<lambda>(k, _) u. zadd_nx k (time + RETRY_TTL) u) items b))"

definition remove_retry_item :: "retry_key \<Rightarrow> redis_buffer \<Rightarrow> redis_buffer" where
  "remove_retry_item k b = (if \<not> rd_up b then b else zrem {k} (hdel {k} b))"

definition increment_retry_count :: "retry_key \<Rightarrow> retry_item \<Rightarrow> redis_buffer \<Rightarrow> redis_buffer" where
  "increment_retry_count k item b =
     (if \<not> rd_up b then b
      else let n = it_retry_count item + 1
           in if n \<ge> MAX_RETRIES then zrem {k} (hdel {k} b)
              else hset k (item\<lparr>it_retry_count := n\<rparr>) b)"

definition cleanup_expired :: "int \<Rightarrow> redis_buffer \<Rightarrow> nat \<times> redis_buffer" where
  "cleanup_expired time b =
     (if \<not> rd_up b then (0, b)
      else let gone = zrangebyscore time 500 b
           in if gone = [] then (0, b)
              else (length gone, zrem (set gone) (hdel (set gone) b)))"

definition retry_buffer_size :: "redis_buffer \<Rightarrow> int" where
  "retry_buffer_size b = (if rd_up b then int (length (retry_hash b)) else -1)"

section \<open>The invariant of the buffer\<close>

definition hash_keys :: "redis_buffer \<Rightarrow> retry_key set" where
  "hash_keys b = fst ` set (retry_hash b)"

definition zset_keys :: "redis_buffer \<Rightarrow> retry_key set" where
  "zset_keys b = fst ` set (retry_zset b)"

definition wf_buffer :: "int \<Rightarrow> redis_buffer \<Rightarrow> bool" where
  "wf_buffer time b \<longleftrightarrow>
     distinct (map fst (retry_hash b)) \<and> distinct (map fst (retry_zset b))
     \<and> list_all (\<lambda>(_, v). it_retry_count v < MAX_RETRIES) (retry_hash b)
     \<and> list_all (\<lambda>(_, score). score \<le> time + RETRY_TTL) (retry_zset b)"

text \<open>Every report of the hash is indexed by the sorted set, and the other way round.\<close>

definition indexed :: "redis_buffer \<Rightarrow> bool" where
  "indexed b \<longleftrightarrow> hash_keys b = zset_keys b"

lemma hget_None_iff: "hget k b = None \<longleftrightarrow> k \<notin> hash_keys b"
  by (simp add: hget_def hash_keys_def map_of_eq_None_iff)

lemma keys_simps [simp]:
  "hash_keys (hdel ks b) = hash_keys b - ks" "zset_keys (hdel ks b) = zset_keys b"
  "hash_keys (zrem ks b) = hash_keys b" "zset_keys (zrem ks b) = zset_keys b - ks"
  "hash_keys (hset k v b) = insert k (hash_keys b)" "zset_keys (hset k v b) = zset_keys b"
  "hash_keys (zadd_nx k s b) = hash_keys b" "zset_keys (zadd_nx k s b) = insert k (zset_keys b)"
  by (force simp: hash_keys_def zset_keys_def hdel_def zrem_def hset_def zadd_nx_def)+

lemma wf_buffer_del: "wf_buffer t b \<Longrightarrow> wf_buffer t (zrem ks' (hdel ks b))"
  by (auto simp: wf_buffer_def hdel_def zrem_def list_all_iff distinct_map_filter)

lemma wf_buffer_zrem: "wf_buffer t b \<Longrightarrow> wf_buffer t (zrem ks b)"
  by (auto simp: wf_buffer_def zrem_def list_all_iff distinct_map_filter)

lemma hset_keys:
  "map fst (retry_hash (hset k v b)) =
     (if k \<in> fst ` set (retry_hash b) then map fst (retry_hash b) else map fst (retry_hash b) @ [k])"
  by (simp add: hset_def comp_def case_prod_beta)

lemma hset_values:
  "(k', v') \<in> set (retry_hash (hset k v b)) \<Longrightarrow> v' = v \<or> (k', v') \<in> set (retry_hash b)"
  by (auto simp: hset_def split: if_splits)

lemma hset_zset [simp]: "retry_zset (hset k v b) = retry_zset b"
  by (simp add: hset_def)

lemma wf_buffer_hset:
  assumes wf: "wf_buffer t b" and "it_retry_count v < MAX_RETRIES"
  shows "wf_buffer t (hset k v b)"
proof -
  have "distinct (map fst (retry_hash (hset k v b)))"
    using wf by (simp add: hset_keys wf_buffer_def)
  moreover have "it_retry_count v' < MAX_RETRIES" if "(k', v') \<in> set (retry_hash (hset k v b))" for k' v'
    using hset_values [OF that] assms by (auto simp: wf_buffer_def list_all_iff)
  then have "list_all (\<lambda>(_, v). it_retry_count v < MAX_RETRIES) (retry_hash (hset k v b))"
    by (auto simp: list_all_iff)
  ultimately show ?thesis using wf by (simp add: wf_buffer_def)
qed

lemma wf_buffer_zadd:
  "wf_buffer t b \<Longrightarrow> s \<le> t + RETRY_TTL \<Longrightarrow> wf_buffer t (zadd_nx k s b)"
  by (auto simp: wf_buffer_def zadd_nx_def)

lemma wf_buffer_later: "wf_buffer t b \<Longrightarrow> t \<le> t' \<Longrightarrow> wf_buffer t' b"
  by (auto simp: wf_buffer_def list_all_iff)

lemma map_of_replace:
  "map_of (map (\<lambda>p. (fst p, if fst p = k then v else snd p)) xs) k'
     = (if k' = k \<and> k \<in> fst ` set xs then Some v else map_of xs k')"
proof (induction xs)
  case (Cons p xs)
  then show ?case by (cases "fst p = k"; cases "fst p = k'") simp_all
qed simp

lemma hget_hset [simp]: "hget k' (hset k v b) = (if k' = k then Some v else hget k' b)"
proof (cases "k \<in> fst ` set (retry_hash b)")
  case True
  then show ?thesis by (simp add: hget_def hset_def case_prod_unfold map_of_replace)
next
  case False
  then have "map_of (retry_hash b) k = None" by (simp add: map_of_eq_None_iff)
  with False show ?thesis by (auto simp: hget_def hset_def map_add_def split: option.split)
qed

lemma hget_other [simp]:
  "hget k (zrem ks b) = hget k b" "hget k (zadd_nx k' s b) = hget k b"
  by (simp_all add: hget_def zrem_def zadd_nx_def)

lemma map_of_filter_keys:
  "map_of (filter (\<lambda>p. fst p \<notin> ks) xs) k = (if k \<in> ks then None else map_of xs k)"
proof (induction xs)
  case (Cons p xs)
  then show ?case by (cases "fst p = k"; cases "fst p \<in> ks") simp_all
qed simp

lemma hget_hdel [simp]: "hget k (hdel ks b) = (if k \<in> ks then None else hget k b)"
  by (simp add: hget_def hdel_def case_prod_unfold map_of_filter_keys)

lemma buffer_unmatched_keeps:
  assumes "wf_buffer t b"
  shows "wf_buffer t (snd (buffer_unmatched_dlr flt t item b))
    \<and> (indexed b \<longrightarrow> indexed (snd (buffer_unmatched_dlr flt t item b)))"
  using assms
  by (auto simp: buffer_unmatched_dlr_def Let_def hsetnx_def indexed_def MAX_RETRIES_def
      hash_keys_def [symmetric] intro!: wf_buffer_del wf_buffer_zadd wf_buffer_hset)

lemma pop_fields_hash: "retry_hash (snd (pop_fields ks b)) = retry_hash b"
  by (induction ks b rule: pop_fields.induct)
     (auto simp: zrem_def split: option.splits prod.splits)

lemma pop_fields_wf: "wf_buffer t b \<Longrightarrow> wf_buffer t (snd (pop_fields ks b))"
  by (induction ks b rule: pop_fields.induct)
     (auto simp: wf_buffer_zrem split: option.splits prod.splits)

text \<open>As long as the fields are all in the hash, popping changes nothing and yields each of them.\<close>

lemma pop_fields_present:
  "set ks \<subseteq> hash_keys b \<Longrightarrow> snd (pop_fields ks b) = b \<and> map fst (fst (pop_fields ks b)) = ks"
proof (induction ks)
  case (Cons k ks)
  then obtain v where "hget k b = Some v" using hget_None_iff [of k b] by auto
  with Cons show ?case by (cases "pop_fields ks b") simp
qed simp

lemma pop_fields_values: "(k, v) \<in> set (fst (pop_fields ks b)) \<Longrightarrow> hget k b = Some v"
proof (induction ks arbitrary: b)
  case (Cons x ks)
  show ?case
  proof (cases "hget x b")
    case None
    with Cons.prems have "(k, v) \<in> set (fst (pop_fields ks (zrem {x} b)))" by simp
    from Cons.IH [OF this] show ?thesis by simp
  next
    case (Some y)
    with Cons.prems have "(k, v) = (x, y) \<or> (k, v) \<in> set (fst (pop_fields ks b))"
      by (cases "pop_fields ks b") simp
    with Some Cons.IH show ?thesis by auto
  qed
qed simp

lemma set_zrange: "set (zrange n b) \<subseteq> zset_keys b"
  unfolding zrange_def zset_keys_def by_score_def
  by (auto dest!: in_set_takeD intro: rev_image_eqI)

lemma set_zrangebyscore: "set (zrangebyscore t n b) \<subseteq> zset_keys b"
  unfolding zrangebyscore_def zset_keys_def by_score_def
  by (auto dest!: in_set_takeD intro: rev_image_eqI)

lemma zrange_empty: "n > 0 \<Longrightarrow> zrange n b = [] \<longleftrightarrow> retry_zset b = []"
  by (auto simp: zrange_def by_score_def simp flip: length_0_conv)

lemma fold_zadd_wf:
  "wf_buffer t b \<Longrightarrow> wf_buffer t (fold (\<lambda>(k, _) u. zadd_nx k (t + RETRY_TTL) u) items b)"
  by (induction items arbitrary: b) (auto simp: wf_buffer_zadd)

lemma pop_retry_buffer_keeps:
  assumes wf: "wf_buffer t b" and n: "n > 0"
  shows "wf_buffer t (snd (pop_retry_buffer t n b))
    \<and> (indexed b \<longrightarrow> snd (pop_retry_buffer t n b) = b)"
proof (cases "zrange n b = []")
  case True
  have "wf_buffer t (snd (pop_retry_buffer t n b))"
    using True wf by (simp add: pop_retry_buffer_def Let_def fold_zadd_wf)
  moreover have "retry_hash b = []" if "indexed b"
    using that True zrange_empty [OF n, of b] by (simp add: indexed_def hash_keys_def zset_keys_def)
  ultimately show ?thesis using True by (simp add: pop_retry_buffer_def Let_def)
next
  case False
  then show ?thesis
    using pop_fields_wf [OF wf] wf pop_fields_present [of "zrange n b" b] set_zrange [of n b]
    by (auto simp: pop_retry_buffer_def indexed_def)
qed

lemma increment_keeps:
  assumes "wf_buffer t b"
  shows "wf_buffer t (increment_retry_count k v b)
    \<and> (indexed b \<longrightarrow> k \<in> hash_keys b \<longrightarrow> indexed (increment_retry_count k v b))"
  using assms
  by (auto simp: increment_retry_count_def Let_def indexed_def intro!: wf_buffer_del wf_buffer_hset)

lemma remove_keeps:
  assumes "wf_buffer t b"
  shows "wf_buffer t (remove_retry_item k b) \<and> (indexed b \<longrightarrow> indexed (remove_retry_item k b))"
  using assms by (auto simp: remove_retry_item_def indexed_def intro!: wf_buffer_del)

lemma cleanup_keeps:
  assumes "wf_buffer t b"
  shows "wf_buffer t (snd (cleanup_expired t' b)) \<and> (indexed b \<longrightarrow> indexed (snd (cleanup_expired t' b)))"
  using assms by (auto simp: cleanup_expired_def Let_def indexed_def intro!: wf_buffer_del)

section \<open>Histories\<close>

text \<open>What the workers do to the buffer. A count is raised for a report that is still there; the clock
  moves on; the gateway sets ownership keys; Redis goes and comes.\<close>

inductive buffer_step :: "bool \<Rightarrow> int \<times> redis_buffer \<Rightarrow> int \<times> redis_buffer \<Rightarrow> bool" for flt where
  put: "buffer_step flt (t, b) (t, snd (buffer_unmatched_dlr flt t item b))"
| pop: "n > 0 \<Longrightarrow> buffer_step flt (t, b) (t, snd (pop_retry_buffer t n b))"
| remove: "buffer_step flt (t, b) (t, remove_retry_item k b)"
| retry: "hget k b = Some v \<Longrightarrow> buffer_step flt (t, b) (t, increment_retry_count k v b)"
| cleanup: "buffer_step flt (t, b) (t, snd (cleanup_expired t b))"
| tick: "t \<le> t' \<Longrightarrow> buffer_step flt (t, b) (t', b)"
| own: "buffer_step flt (t, b) (t, b\<lparr>owned := os\<rparr>)"
| outage: "buffer_step flt (t, b) (t, b\<lparr>rd_up := up\<rparr>)"

inductive buffer_reachable :: "bool \<Rightarrow> int \<times> redis_buffer \<Rightarrow> bool" for flt where
  start: "retry_hash b = [] \<Longrightarrow> retry_zset b = [] \<Longrightarrow> buffer_reachable flt (t, b)"
| step: "buffer_reachable flt s \<Longrightarrow> buffer_step flt s s' \<Longrightarrow> buffer_reachable flt s'"

inductive_cases buffer_stepE: "buffer_step flt (t, b) s'"

lemma buffer_step_keeps:
  assumes "buffer_step flt s s'" and "wf_buffer (fst s) (snd s)" and "indexed (snd s)"
  shows "wf_buffer (fst s') (snd s') \<and> indexed (snd s')"
  using assms
proof (cases rule: buffer_step.cases)
  case (put t b item)
  then show ?thesis using buffer_unmatched_keeps assms(2,3) by auto
next
  case (pop n t b)
  then show ?thesis using pop_retry_buffer_keeps assms(2,3) by auto
next
  case (remove t b k)
  then show ?thesis using remove_keeps assms(2,3) by auto
next
  case (retry k b v t)
  then have "k \<in> hash_keys b" using hget_None_iff [of k b] by auto
  with retry show ?thesis using increment_keeps assms(2,3) by auto
next
  case (cleanup t b)
  then show ?thesis using cleanup_keeps assms(2,3) by auto
next
  case (tick t t' b)
  then show ?thesis using wf_buffer_later assms(2,3) by auto
qed (use assms(2,3) in \<open>auto simp: wf_buffer_def indexed_def hash_keys_def zset_keys_def\<close>)


lemma buffer_invariant_demo:
  "buffer_reachable False (5, snd (buffer_unmatched_dlr False 5 item \<lparr>rd_up = True, retry_hash = [], retry_zset = [], owned = Map.empty\<rparr>))"
  by (rule buffer_reachable.step [OF buffer_reachable.start buffer_step.put]) simp_all


section \<open>A report is given up\<close>

definition retry_once :: "retry_key \<Rightarrow> redis_buffer \<Rightarrow> redis_buffer" where
  "retry_once k b = (case hget k b of None \<Rightarrow> b | Some v \<Rightarrow> increment_retry_count k v b)"

lemma rd_up_simps [simp]:
  "rd_up (hset k v b) = rd_up b" "rd_up (zrem ks b) = rd_up b" "rd_up (hdel ks b) = rd_up b"
  by (simp_all add: hset_def zrem_def hdel_def)

lemma retry_once_cases:
  assumes "rd_up b"
  shows "rd_up (retry_once k b)"
    and "hget k b = None \<Longrightarrow> hget k (retry_once k b) = None"
    and "hget k b = Some v \<Longrightarrow> hget k (retry_once k b) =
           (if it_retry_count v + 1 \<ge> MAX_RETRIES then None else Some (v\<lparr>it_retry_count := it_retry_count v + 1\<rparr>))"
  using assms
  by (simp_all add: retry_once_def increment_retry_count_def Let_def split: option.split)

text \<open>A buffered report that is never matched leaves the buffer after at most 20 retries, and exactly
  after the ones its count lacks.\<close>

theorem retry_gives_up:
  assumes up: "rd_up b" and v: "hget k b = Some v" and c: "it_retry_count v < 20"
  shows "(hget k ((retry_once k ^^ n) b) = None) = (20 - it_retry_count v \<le> n)"
proof -
  have "rd_up ((retry_once k ^^ n) b)
    \<and> hget k ((retry_once k ^^ n) b) =
        (if it_retry_count v + n \<ge> MAX_RETRIES then None else Some (v\<lparr>it_retry_count := it_retry_count v + n\<rparr>))"
  proof (induction n)
    case 0
    then show ?case using up v c by (simp add: MAX_RETRIES_def)
  next
    case (Suc n)
    then have "rd_up ((retry_once k ^^ n) b)" by blast
    note step = retry_once_cases [OF this, of k]
    show ?case
    proof (cases "it_retry_count v + n \<ge> MAX_RETRIES")
      case True
      then show ?thesis using step(1,2) Suc.IH by simp
    next
      case False
      then show ?thesis using step(1) step(3) [of "v\<lparr>it_retry_count := it_retry_count v + n\<rparr>"] Suc.IH by simp
    qed
  qed
  then show ?thesis by (auto simp: MAX_RETRIES_def)
qed

theorem retry_gives_up_witness:
  "\<exists>b k. hget k b \<noteq> None \<and> hget k ((retry_once k ^^ 20) b) = None"
proof -
  let ?i = "\<lparr>it_channel_id = 7, it_upstream_id = asc ''a1'', it_new_status = Delivered, it_stat = [], it_err = [],
    it_dest_addr = [], it_source_addr = [], it_receipted_message_id = [], it_first_seen = 0, it_retry_count = 0\<rparr>"
  let ?b = "\<lparr>rd_up = True, retry_hash = [((7, asc ''a1''), ?i)], retry_zset = [((7, asc ''a1''), 9)], owned = Map.empty\<rparr>"
  have "hget (7, asc ''a1'') ?b = Some ?i" by (simp add: hget_def)
  then show ?thesis using retry_gives_up [of ?b "(7, asc ''a1'')" ?i 20] by auto
qed

section \<open>Reading and clearing by expiry time\<close>

text \<open>The reports that are retried are those that expire first: no report that was left behind expires
  before one that was taken.\<close>

lemma pop_takes_earliest:
  assumes "distinct (map fst (retry_zset b))"
    and "(k, s) \<in> set (retry_zset b)" and "k \<in> set (zrange n b)"
    and "(k', s') \<in> set (retry_zset b)" and "k' \<notin> set (zrange n b)"
  shows "s \<le> s'"
proof -
  let ?xs = "by_score b" and ?f = "\<lambda>(k, score). (score, field_text k)"
  have set: "set ?xs = set (retry_zset b)" and dist: "distinct (map fst ?xs)"
    using assms(1) by (simp_all add: by_score_def distinct_map distinct_sort)
  have sorted: "sorted (map ?f ?xs)" by (simp add: by_score_def)
  have eq: "s1 = s2" if "(j, s1) \<in> set ?xs" "(j, s2) \<in> set ?xs" for j s1 s2
    using that dist by (metis eq_key_imp_eq_value)
  obtain s0 where "(k, s0) \<in> set (take n ?xs)" using assms(3) by (auto simp: zrange_def)
  then have 1: "(k, s) \<in> set (take n ?xs)" using eq assms(2) set by (metis in_set_takeD)
  have "(k', s') \<notin> set (take n ?xs)" using assms(5) by (force simp: zrange_def)
  moreover have "(k', s') \<in> set (take n ?xs @ drop n ?xs)" using assms(4) set by simp
  ultimately have 2: "(k', s') \<in> set (drop n ?xs)" by (simp only: set_append Un_iff) blast
  have "sorted_wrt (\<le>) (map ?f (take n ?xs) @ map ?f (drop n ?xs))"
    using sorted by (simp flip: map_append)
  then have "?f (k, s) \<le> ?f (k', s')"
    using 1 2 by (force simp: sorted_append)
  then show ?thesis by auto
qed

end
