(* ===== verification/DlrParse.thy ===== *)
theory DlrParse
  imports Db Errors
begin

text \<open>
  Delivery reports as the upstreams send them, \<open>backend/app/core/dlr_handler.py\<close> up to the parsers:
  the JSON, XML and form formats, the normal form of a status, and the spellings under which an
  upstream identifier is looked for. The regular expressions are written out as the left-to-right
  searches they denote, with \<open>re.IGNORECASE\<close> as \<open>re_fold_char\<close>.
  \<open>json.loads\<close> and \<open>parse_qs\<close> are arguments of \<open>detect_and_parse_dlr\<close> (\<open>None\<close> when they raise);
  \<open>show\<close> is \<open>str\<close> on a value that is neither a string, nor an integer, nor \<open>True\<close>, \<open>False\<close>, \<open>None\<close>.
\<close>

section \<open>Reports\<close>

datatype dlr_status = DLR_DELIVERED | DLR_FAILED | DLR_EXPIRED | DLR_REJECTED | DLR_UNKNOWN | DLR_PENDING

record dlr_report =
  dr_message_id :: json
  dr_mobile :: json
  dr_status_code :: json
  dr_error_code :: json
  dr_delivery_time :: json

text \<open>\<open>x or y or \<dots>\<close>: the first true operand, else the last one.\<close>

fun first_truthy :: "json list \<Rightarrow> json" where
  "first_truthy [] = JNull"
| "first_truthy [x] = x"
| "first_truthy (x # y # ys) = (if json_truthy x then x else first_truthy (y # ys))"

definition pick :: "(pystr \<times> json) list \<Rightarrow> string list \<Rightarrow> json" where
  "pick kvs ks = first_truthy (map (\<lambda>k. json_get (asc k) kvs) ks)"

section \<open>Numbers in reports\<close>

text \<open>\<open>int(s)\<close> refuses texts of more than 4300 digits, and digits that are not decimal (the
  superscripts, for which \<open>isdigit\<close> is true).\<close>

definition int_max_str_digits :: nat where
  "int_max_str_digits = 4300"

fun decimal_value :: "int \<Rightarrow> nat option" where
  "decimal_value c =
     (if 48 \<le> c \<and> c \<le> 57 then Some (nat (c - 48))
      else if 1632 \<le> c \<and> c \<le> 1641 then Some (nat (c - 1632))
      else if 65296 \<le> c \<and> c \<le> 65305 then Some (nat (c - 65296)) else None)"

fun int_of_digits :: "nat \<Rightarrow> pystr \<Rightarrow> nat option" where
  "int_of_digits a [] = Some a"
| "int_of_digits a (c # cs) =
     (case decimal_value c of None \<Rightarrow> None | Some d \<Rightarrow> int_of_digits (10 * a + d) cs)"

definition py_int :: "pystr \<Rightarrow> nat option" where
  "py_int s = (if length s > int_max_str_digits then None else int_of_digits 0 s)"

fun hex_value :: "int \<Rightarrow> nat option" where
  "hex_value c =
     (if 97 \<le> c \<and> c \<le> 102 then Some (nat (c - 87))
      else if 65 \<le> c \<and> c \<le> 70 then Some (nat (c - 55)) else decimal_value c)"

text \<open>\<open>int(s, 16)\<close> after an optional prefix: digits, with single underscores between them.\<close>

fun hex_first :: "nat \<Rightarrow> pystr \<Rightarrow> nat option" and hex_tail :: "nat \<Rightarrow> pystr \<Rightarrow> nat option" where
  "hex_first a [] = None"
| "hex_first a (c # cs) = (case hex_value c of None \<Rightarrow> None | Some d \<Rightarrow> hex_tail (16 * a + d) cs)"
| "hex_tail a [] = Some a"
| "hex_tail a (c # cs) =
     (if c = 95 then hex_first a cs
      else case hex_value c of None \<Rightarrow> None | Some d \<Rightarrow> hex_tail (16 * a + d) cs)"

definition py_int16 :: "pystr \<Rightarrow> nat option" where
  "py_int16 s =
     (if starts_with (asc ''0x'') s \<or> starts_with (asc ''0X'') s then
        hex_first 0 (if starts_with [95] (drop 2 s) then drop 3 s else drop 2 s)
      else hex_first 0 s)"

definition hex_char :: "nat \<Rightarrow> int" where
  "hex_char d = (if d < 10 then 48 + int d else 87 + int d)"

fun hex_text :: "nat \<Rightarrow> pystr" where
  "hex_text n = (if n < 16 then [hex_char n] else hex_text (n div 16) @ [hex_char (n mod 16)])"

declare hex_text.simps [simp del] hex_value.simps [simp del] decimal_value.simps [simp del]

definition py_hex :: "nat \<Rightarrow> pystr" where
  "py_hex n = asc ''0x'' @ hex_text n"

text \<open>\<open>str(n)\<close>, which also refuses more than 4300 digits.\<close>

definition str_of_int :: "nat \<Rightarrow> pystr option" where
  "str_of_int n = (let s = text_of_nat n in if length s > int_max_str_digits then None else Some s)"

section \<open>normalize_status\<close>

definition DELIVERED_CODES :: "pystr list" where
  "DELIVERED_CODES =
     map asc [''0'', ''1'', ''10'', ''100'', ''200'',
              ''delivrd'', ''delivered'', ''success'', ''ok'', ''sent'', ''accepted'',
              ''deliveredtonetwork'', ''deliveredtoterminal'', ''sm_deliveredtomob'',
              ''dlvrd'', ''submitted'', ''receive'', ''received'']"

definition FAILED_CODES :: "pystr list" where
  "FAILED_CODES =
     map asc [''undeliv'', ''undelivered'', ''failed'', ''rejected'', ''rejectd'', ''error'',
              ''expired'', ''unknown'', ''absent'', ''blocked'', ''invalid'', ''notexist'',
              ''blacklist'', ''spam'', ''denied'', ''unreachable'', ''busy'', ''noroute'']"

definition status_text :: "(json \<Rightarrow> pystr) \<Rightarrow> json \<Rightarrow> pystr" where
  "status_text show v = (if v = JNull then [] else py_strip (py_lower (py_str show v)))"

definition dlr_error_text :: "(json \<Rightarrow> pystr) \<Rightarrow> json \<Rightarrow> pystr" where
  "dlr_error_text show v = (if json_truthy v then py_strip (py_lower (py_str show v)) else [])"

definition normalize_status :: "(json \<Rightarrow> pystr) \<Rightarrow> json \<Rightarrow> json \<Rightarrow> dlr_status outcome" where
  "normalize_status show sc ec =
     (let st = status_text show sc; er = dlr_error_text show ec
      in if list_ex (\<lambda>k. contains k st \<or> contains k er) FAILED_CODES then Inr DLR_FAILED
         else if contains (asc ''delivrd'') st \<or> contains (asc ''delivrd'') er then Inr DLR_DELIVERED
         else if st \<in> set DELIVERED_CODES \<or> er \<in> set DELIVERED_CODES then Inr DLR_DELIVERED
         else if py_isdigit st then
           (case py_int st of
              None \<Rightarrow> Inl ValueError
            | Some code \<Rightarrow>
                (if code \<in> {0, 1, 2, 10, 11, 20, 100, 200} then Inr DLR_DELIVERED
                 else if code > 1000 then Inr DLR_FAILED
                 else Inr DLR_UNKNOWN))
         else Inr DLR_UNKNOWN)"

section \<open>_dlr_upstream_id_candidates\<close>

definition ascii_hex_char :: "int \<Rightarrow> bool" where
  "ascii_hex_char c \<longleftrightarrow> (48 \<le> c \<and> c \<le> 57) \<or> (97 \<le> c \<and> c \<le> 102) \<or> (65 \<le> c \<and> c \<le> 70)"

definition case_variants :: "pystr \<Rightarrow> pystr list" where
  "case_variants s =
     (if list_ex (\<lambda>c. 65 \<le> c \<and> c \<le> 70) (py_upper s) then [py_upper s, py_lower s] else [])"

text \<open>\<open>k\<close> is the least length of a bare hexadecimal identifier: 2 here, 1 in the SMPP worker.\<close>

definition radix_variants :: "nat \<Rightarrow> pystr \<Rightarrow> pystr list" where
  "radix_variants k s =
     (let decimal = (\<lambda>v. case v of None \<Rightarrow> []
                         | Some n \<Rightarrow> (case str_of_int n of None \<Rightarrow> [] | Some t \<Rightarrow> [t]))
      in if starts_with (asc ''0x'') s \<or> starts_with (asc ''0X'') s then decimal (py_int16 s)
         else if py_isdigit s then (case py_int s of None \<Rightarrow> [] | Some n \<Rightarrow> [py_hex n])
         else if length s \<ge> k \<and> list_all ascii_hex_char s then decimal (py_int16 s)
         else [])"

definition dlr_upstream_id_candidates :: "pystr \<Rightarrow> pystr list" where
  "dlr_upstream_id_candidates raw =
     (let s = py_strip raw
      in if s = [] then [] else dedup ([s] @ case_variants s @ radix_variants 2 s))"

section \<open>parse_json_dlr\<close>

definition list_report :: "(pystr \<times> json) list \<Rightarrow> dlr_report" where
  "list_report item =
     \<lparr>dr_message_id = pick item [''mid'', ''message_id'', ''msgid'', ''taskid'', ''smsid'', ''sms_id'', ''sm_id''],
      dr_mobile = pick item [''mobile'', ''phone'', ''to''],
      dr_status_code = pick item [''result'', ''status'', ''state''],
      dr_error_code = pick item [''errorcode'', ''error'', ''desc''],
      dr_delivery_time = pick item [''recvTime'', ''deliverytime'', ''time'']\<rparr>"

definition array_report :: "(pystr \<times> json) list \<Rightarrow> dlr_report" where
  "array_report item =
     \<lparr>dr_message_id = pick item [''mid'', ''message_id'', ''msgid'', ''taskid'', ''smsid'', ''sms_id''],
      dr_mobile = pick item [''mobile'', ''phone''],
      dr_status_code = pick item [''result'', ''status''],
      dr_error_code = pick item [''errorcode'', ''error''],
      dr_delivery_time = pick item [''recvTime'', ''deliverytime'']\<rparr>"

definition single_report :: "(pystr \<times> json) list \<Rightarrow> dlr_report" where
  "single_report data =
     \<lparr>dr_message_id = pick data [''mid'', ''message_id'', ''msgid'', ''taskid'', ''id'', ''smsid'', ''sms_id'', ''sm_id''],
      dr_mobile = pick data [''mobile'', ''phone'', ''to''],
      dr_status_code = pick data [''result'', ''status'', ''state''],
      dr_error_code = pick data [''errorcode'', ''error'', ''desc''],
      dr_delivery_time = pick data [''recvTime'', ''deliverytime'', ''time'']\<rparr>"

text \<open>The loop over the items: \<open>item.get\<close> raises on an item that is no object, which ends the loop
  and keeps the reports before it.\<close>

fun collect_items ::
    "((pystr \<times> json) list \<Rightarrow> dlr_report) \<Rightarrow> json list \<Rightarrow> dlr_report list" where
  "collect_items f [] = []"
| "collect_items f (x # xs) =
     (case x of
        JObj item \<Rightarrow>
          (if json_truthy (dr_message_id (f item)) then f item # collect_items f xs
           else collect_items f xs)
      | _ \<Rightarrow> [])"

definition parse_json_dlr :: "json \<Rightarrow> dlr_report list" where
  "parse_json_dlr data =
     (case data of
        JObj kvs \<Rightarrow>
          (if asc ''list'' \<in> fst ` set kvs then
             (case json_get (asc ''list'') kvs of JArr items \<Rightarrow> collect_items list_report items | _ \<Rightarrow> [])
           else if json_truthy (dr_message_id (single_report kvs)) then [single_report kvs] else [])
      | JArr items \<Rightarrow>
          (if JStr (asc ''list'') \<in> set items then [] else collect_items array_report items)
      | _ \<Rightarrow> [])"

section \<open>parse_xml_dlr\<close>

text \<open>Literals of a pattern under \<open>re.IGNORECASE\<close>: the rest after the literal, and the first split
  of a text at a literal.\<close>

fun ci_strip_prefix :: "pystr \<Rightarrow> pystr \<Rightarrow> pystr option" where
  "ci_strip_prefix [] s = Some s"
| "ci_strip_prefix (p # ps) [] = None"
| "ci_strip_prefix (p # ps) (c # cs) =
     (if re_fold_char c = re_fold_char p then ci_strip_prefix ps cs else None)"

fun ci_split :: "pystr \<Rightarrow> pystr \<Rightarrow> (pystr \<times> pystr) option" where
  "ci_split p [] = (if p = [] then Some ([], []) else None)"
| "ci_split p (c # cs) =
     (case ci_strip_prefix p (c # cs) of
        Some r \<Rightarrow> Some ([], r)
      | None \<Rightarrow> map_option (\<lambda>(a, r). (c # a, r)) (ci_split p cs))"

lemma ci_strip_prefix_length: "ci_strip_prefix p s = Some r \<Longrightarrow> length s = length p + length r"
  by (induction p s rule: ci_strip_prefix.induct) (auto split: if_splits)

lemma ci_split_length: "ci_split p s = Some (a, r) \<Longrightarrow> length s = length a + length p + length r"
  by (induction s arbitrary: a)
     (auto split: if_splits option.splits dest: ci_strip_prefix_length)

definition open_tag :: "string \<Rightarrow> pystr" where
  "open_tag tag = [60] @ asc tag @ [62]"

definition close_tag :: "string \<Rightarrow> pystr" where
  "close_tag tag = [60, 47] @ asc tag @ [62]"

lemma tag_length [simp]: "length (open_tag tag) = length tag + 2" "length (close_tag tag) = length tag + 3"
  by (simp_all add: open_tag_def close_tag_def asc_def)

text \<open>\<open>re.findall('<tag>(.*?)</tag>', s, DOTALL | IGNORECASE)\<close>.\<close>

function xml_blocks :: "string \<Rightarrow> pystr \<Rightarrow> pystr list" where
  "xml_blocks tag s =
     (case ci_split (open_tag tag) s of
        None \<Rightarrow> []
      | Some (_, r) \<Rightarrow>
          (case ci_split (close_tag tag) r of
             None \<Rightarrow> []
           | Some (b, r') \<Rightarrow> b # xml_blocks tag r'))"
  by pat_completeness auto
termination
  by (relation "measure (\<lambda>(_, s). length s)") (auto dest!: ci_split_length)

declare xml_blocks.simps [simp del]

text \<open>\<open>re.search('<tag>([^<]*)</tag>', s, IGNORECASE)\<close>, stripped.\<close>

definition xml_value_at :: "string \<Rightarrow> pystr \<Rightarrow> pystr option" where
  "xml_value_at tag s =
     (case ci_strip_prefix (open_tag tag) s of
        None \<Rightarrow> None
      | Some r \<Rightarrow>
          (case ci_strip_prefix (close_tag tag) (dropWhile (\<lambda>c. c \<noteq> 60) r) of
             None \<Rightarrow> None
           | Some _ \<Rightarrow> Some (py_strip (takeWhile (\<lambda>c. c \<noteq> 60) r))))"

fun extract_xml_value :: "pystr \<Rightarrow> string \<Rightarrow> pystr option" where
  "extract_xml_value [] tag = None"
| "extract_xml_value (c # cs) tag =
     (case xml_value_at tag (c # cs) of
        Some v \<Rightarrow> Some v
      | None \<Rightarrow> extract_xml_value cs tag)"

text \<open>\<open>name=["']([^"']*)["']\<close>.\<close>

definition is_quote :: "int \<Rightarrow> bool" where
  "is_quote c \<longleftrightarrow> c = 34 \<or> c = 39"

definition xml_attr_at :: "string \<Rightarrow> pystr \<Rightarrow> pystr option" where
  "xml_attr_at name s =
     (case ci_strip_prefix (asc name @ [61]) s of
        Some (q # r) \<Rightarrow>
          (if is_quote q \<and> dropWhile (\<lambda>c. \<not> is_quote c) r \<noteq> []
           then Some (takeWhile (\<lambda>c. \<not> is_quote c) r) else None)
      | _ \<Rightarrow> None)"

fun extract_xml_attr :: "pystr \<Rightarrow> string \<Rightarrow> pystr option" where
  "extract_xml_attr [] name = None"
| "extract_xml_attr (c # cs) name =
     (case xml_attr_at name (c # cs) of
        Some v \<Rightarrow> Some v
      | None \<Rightarrow> extract_xml_attr cs name)"

text \<open>\<open><report\s+([^>]+)/?>(?:</report>)?\<close>: the group takes everything up to the next \<open>>\<close>; when
  nothing but white space is there, \<open>\s+\<close> leaves it the last one.\<close>

definition report_tag_at :: "pystr \<Rightarrow> (pystr \<times> pystr) option" where
  "report_tag_at s =
     (case ci_strip_prefix (asc ''<report'') s of
        None \<Rightarrow> None
      | Some r \<Rightarrow>
          (let ws = takeWhile py_isspace_char r; body = dropWhile py_isspace_char r;
               attrs = takeWhile (\<lambda>c. c \<noteq> 62) body
           in case dropWhile (\<lambda>c. c \<noteq> 62) body of
                [] \<Rightarrow> None
              | _ # rest \<Rightarrow>
                  (let rest' = (case ci_strip_prefix (close_tag ''report'') rest of
                                  Some x \<Rightarrow> x | None \<Rightarrow> rest)
                   in if ws \<noteq> [] \<and> attrs \<noteq> [] then Some (attrs, rest')
                      else if length ws \<ge> 2 then Some ([last ws], rest') else None)))"

lemma report_tag_at_length: "report_tag_at s = Some (a, r) \<Longrightarrow> length r < length s"
proof -
  assume "report_tag_at s = Some (a, r)"
  then obtain q t rest where q: "ci_strip_prefix (asc ''<report'') s = Some q"
    and rest: "dropWhile (\<lambda>c. c \<noteq> 62) (dropWhile py_isspace_char q) = t # rest"
    and r: "r = (case ci_strip_prefix (close_tag ''report'') rest of Some x \<Rightarrow> x | None \<Rightarrow> rest)"
    by (auto simp: report_tag_at_def Let_def split: option.splits list.splits if_splits)
  have "length r \<le> length rest"
    using r by (auto split: option.splits dest: ci_strip_prefix_length)
  moreover have "length (t # rest) \<le> length q"
    using rest by (metis length_dropWhile_le order_trans)
  ultimately show ?thesis using ci_strip_prefix_length [OF q] by simp
qed

function report_tags :: "pystr \<Rightarrow> pystr list" where
  "report_tags [] = []"
| "report_tags (c # cs) =
     (case report_tag_at (c # cs) of
        Some (a, rest) \<Rightarrow> a # report_tags rest
      | None \<Rightarrow> report_tags cs)"
  by pat_completeness auto
termination
  by (relation "measure length") (auto dest: report_tag_at_length)

definition json_of_opt :: "pystr option \<Rightarrow> json" where
  "json_of_opt v = (case v of None \<Rightarrow> JNull | Some s \<Rightarrow> JStr s)"

definition pick_values :: "(pystr \<Rightarrow> string \<Rightarrow> pystr option) \<Rightarrow> pystr \<Rightarrow> string list \<Rightarrow> json" where
  "pick_values get s ks = first_truthy (map (\<lambda>k. json_of_opt (get s k)) ks)"

definition statusbox_report :: "pystr \<Rightarrow> dlr_report" where
  "statusbox_report b =
     \<lparr>dr_message_id = pick_values extract_xml_value b [''taskid'', ''mid'', ''msgid'', ''messageid''],
      dr_mobile = json_of_opt (extract_xml_value b ''mobile''),
      dr_status_code = json_of_opt (extract_xml_value b ''status''),
      dr_error_code = json_of_opt (extract_xml_value b ''errorcode''),
      dr_delivery_time = pick_values extract_xml_value b [''receivetime'', ''recvtime'', ''deliverytime'']\<rparr>"

definition attrs_report :: "pystr \<Rightarrow> dlr_report" where
  "attrs_report a =
     \<lparr>dr_message_id = pick_values extract_xml_attr a [''mid'', ''msgid''],
      dr_mobile = pick_values extract_xml_attr a [''mobile'', ''to''],
      dr_status_code = pick_values extract_xml_attr a [''status'', ''state''],
      dr_error_code = pick_values extract_xml_attr a [''error'', ''desc''],
      dr_delivery_time = JNull\<rparr>"

definition block_report :: "pystr \<Rightarrow> dlr_report" where
  "block_report b =
     \<lparr>dr_message_id = pick_values extract_xml_value b [''mid'', ''msgid'', ''id''],
      dr_mobile = json_of_opt (extract_xml_value b ''mobile''),
      dr_status_code = json_of_opt (extract_xml_value b ''status''),
      dr_error_code = json_of_opt (extract_xml_value b ''error''),
      dr_delivery_time = json_of_opt (extract_xml_value b ''time'')\<rparr>"

definition identified :: "dlr_report list \<Rightarrow> dlr_report list" where
  "identified rs = filter (\<lambda>r. json_truthy (dr_message_id r)) rs"

fun first_tag_reports :: "string list \<Rightarrow> pystr \<Rightarrow> dlr_report list" where
  "first_tag_reports [] s = []"
| "first_tag_reports (tag # tags) s =
     (let rs = identified (map block_report (xml_blocks tag s))
      in if rs \<noteq> [] then rs else first_tag_reports tags s)"

definition parse_xml_dlr :: "pystr \<Rightarrow> dlr_report list" where
  "parse_xml_dlr xml =
     (let boxes = identified (map statusbox_report (xml_blocks ''statusbox'' xml))
      in if boxes \<noteq> [] then boxes
         else let tags = identified (map attrs_report (report_tags xml))
              in if tags \<noteq> [] then tags
                 else first_tag_reports [''message'', ''sms'', ''dlr'', ''delivery''] xml)"

section \<open>parse_form_dlr and detect_and_parse_dlr\<close>

definition form_report :: "(pystr \<times> json) list \<Rightarrow> dlr_report" where
  "form_report form =
     \<lparr>dr_message_id = pick form [''mid'', ''message_id'', ''msgid'', ''messageid'', ''taskid'', ''task_id'',
        ''id'', ''smsid'', ''sms_id'', ''sm_id'', ''msg_id'', ''sn'', ''seq'', ''upstream_id'', ''upstreamid''],
      dr_mobile = pick form [''mobile'', ''phone'', ''to'', ''msisdn''],
      dr_status_code = pick form [''result'', ''status'', ''state'', ''dlr_status'', ''stat'', ''dr'',
        ''delivery_status'', ''code''],
      dr_error_code = pick form [''errorcode'', ''error'', ''err_desc'', ''reason'', ''err'', ''fail_reason''],
      dr_delivery_time = pick form [''recvTime'', ''deliverytime'', ''time'', ''done_date'']\<rparr>"

definition parse_form_dlr :: "(pystr \<times> json) list \<Rightarrow> dlr_report list" where
  "parse_form_dlr form = identified [form_report form]"

text \<open>A JSON document that does not parse falls through to the other formats.\<close>

definition sniff_and_parse ::
    "(pystr \<Rightarrow> json option) \<Rightarrow> (pystr \<Rightarrow> (pystr \<times> pystr) list option) \<Rightarrow> pystr \<Rightarrow> dlr_report list" where
  "sniff_and_parse loads qs content =
     (let rest = (if starts_with (asc ''<?xml'') content \<or> starts_with (asc ''<'') content
                  then parse_xml_dlr content
                  else if contains (asc ''='') content then
                    (case qs content of
                       None \<Rightarrow> []
                     | Some form \<Rightarrow> parse_form_dlr (map (map_prod id JStr) form))
                  else [])
      in if starts_with (asc ''{'') content \<or> starts_with (asc ''['') content then
           (case loads content of Some d \<Rightarrow> parse_json_dlr d | None \<Rightarrow> rest)
         else rest)"

definition detect_and_parse_dlr ::
    "(pystr \<Rightarrow> json option) \<Rightarrow> (pystr \<Rightarrow> (pystr \<times> pystr) list option) \<Rightarrow> pystr \<Rightarrow> pystr
       \<Rightarrow> dlr_report list" where
  "detect_and_parse_dlr loads qs raw content_type =
     (let content = py_strip raw; ct = py_lower content_type
      in if contains (asc ''json'') ct then
           (case loads content of Some d \<Rightarrow> parse_json_dlr d | None \<Rightarrow> sniff_and_parse loads qs content)
         else if contains (asc ''xml'') ct then parse_xml_dlr content
         else sniff_and_parse loads qs content)"

section \<open>Identifiers in decimal and hexadecimal\<close>

lemma hex_value_char: "d < 16 \<Longrightarrow> hex_value (hex_char d) = Some d"
  by (auto simp: hex_value.simps decimal_value.simps hex_char_def)

lemma hex_char_ne: "d < 16 \<Longrightarrow> hex_char d \<noteq> 95"
  by (auto simp: hex_char_def)

lemma hex_digits_snoc:
  assumes d: "hex_value c = Some d" "c \<noteq> 95"
  shows "hex_first a xs = Some b \<Longrightarrow> hex_first a (xs @ [c]) = Some (16 * b + d)"
    and "hex_tail a xs = Some b \<Longrightarrow> hex_tail a (xs @ [c]) = Some (16 * b + d)"
  by (induction a xs and a xs rule: hex_first_hex_tail.induct)
     (auto simp: d split: option.splits if_splits)

lemma hex_first_text: "hex_first 0 (hex_text n) = Some n"
proof (induction n rule: hex_text.induct)
  case (1 n)
  show ?case
  proof (cases "n < 16")
    case True
    then show ?thesis by (simp add: hex_text.simps [of n] hex_value_char)
  next
    case False
    then have "hex_first 0 (hex_text (n div 16)) = Some (n div 16)" by (rule 1)
    from hex_digits_snoc(1) [OF hex_value_char hex_char_ne this, of "n mod 16"] False
    show ?thesis by (simp add: hex_text.simps [of n])
  qed
qed

lemma hex_text_chars: "list_all ascii_hex_char (hex_text n)" "hex_text n \<noteq> []"
  by (induction n rule: hex_text.induct)
     (subst hex_text.simps, simp add: list_all_append ascii_hex_char_def hex_char_def; linarith?)+

lemma int_of_digits_snoc:
  "decimal_value c = Some d \<Longrightarrow> int_of_digits a xs = Some b \<Longrightarrow> int_of_digits a (xs @ [c]) = Some (10 * b + d)"
  by (induction a xs rule: int_of_digits.induct) (auto split: option.splits)

lemma text_of_nat_parses: "int_of_digits 0 (text_of_nat n) = Some n"
proof (induction n rule: text_of_nat.induct)
  case (1 n)
  have v: "d < 10 \<Longrightarrow> decimal_value (48 + int d) = Some d" for d
    by (simp add: decimal_value.simps)
  show ?case
  proof (cases "n < 10")
    case True
    then show ?thesis by (simp add: text_of_nat.simps [of n] v)
  next
    case False
    with 1 have "int_of_digits 0 (text_of_nat (n div 10)) = Some (n div 10)" by blast
    from int_of_digits_snoc [OF v this, of "n mod 10"] False
    show ?thesis by (simp add: text_of_nat.simps [of n])
  qed
qed

lemma text_of_nat_digits: "list_all (\<lambda>c. 48 \<le> c \<and> c \<le> 57) (text_of_nat n)" "text_of_nat n \<noteq> []"
  by (induction n rule: text_of_nat.induct)
     (subst text_of_nat.simps, simp add: list_all_append; linarith?)+

lemma text_of_nat_isdigit: "py_isdigit (text_of_nat n)"
  using text_of_nat_digits [of n]
  by (auto simp: py_isdigit_def list_all_iff py_isdigit_char.simps)

text \<open>A text whose first and last characters are ASCII letters or digits is stripped already.\<close>

lemma py_strip_solid:
  assumes "s \<noteq> []" and "list_all (\<lambda>c. 33 \<le> c \<and> c \<le> 126) s"
  shows "py_strip s = s"
proof -
  have "\<not> py_isspace_char c" if "c \<in> set s" for c
    using that assms(2) by (auto simp: list_all_iff py_isspace_char.simps)
  then show ?thesis using assms(1) by (intro py_strip_fixed) simp
qed

lemma candidates_solid:
  assumes "s \<noteq> []" and "list_all (\<lambda>c. 33 \<le> c \<and> c \<le> 126) s"
  shows "set (dlr_upstream_id_candidates s) = insert s (set (case_variants s) \<union> set (radix_variants 2 s))"
  using assms by (simp add: dlr_upstream_id_candidates_def py_strip_solid)

lemma solid_texts:
  "list_all (\<lambda>c. 33 \<le> c \<and> c \<le> 126) (text_of_nat n)" "list_all (\<lambda>c. 33 \<le> c \<and> c \<le> 126) (hex_text n)"
  "list_all (\<lambda>c. 33 \<le> c \<and> c \<le> 126) (py_hex n)"
  using text_of_nat_digits(1) [of n] hex_text_chars(1) [of n]
  by (auto simp: list_all_iff ascii_hex_char_def py_hex_def asc_def)

lemma py_hex_parses: "py_int16 (py_hex n) = Some n"
proof -
  have "\<not> starts_with [95] (hex_text n)"
    using hex_text_chars [of n] by (cases "hex_text n") (auto simp: ascii_hex_char_def)
  then show ?thesis by (simp add: py_int16_def py_hex_def asc_def hex_first_text)
qed

lemma not_0x:
  assumes "list_all ascii_hex_char s"
  shows "\<not> starts_with (asc ''0x'') s" "\<not> starts_with (asc ''0X'') s"
  using assms by (auto simp: starts_with_iff asc_def ascii_hex_char_def)

text \<open>An identifier is found in the other radix: the decimal spelling of a number is looked for as
  its \<open>0x\<close> spelling too, and the \<open>0x\<close> spelling, like a bare hexadecimal one with a letter in it,
  as the decimal one - up to the 4300 digits Python converts.\<close>

theorem candidates_change_radix:
  assumes len: "length (text_of_nat n) \<le> 4300"
  shows "py_hex n \<in> set (dlr_upstream_id_candidates (text_of_nat n))
    \<and> text_of_nat n \<in> set (dlr_upstream_id_candidates (py_hex n))
    \<and> (2 \<le> length (hex_text n) \<and> \<not> py_isdigit (hex_text n)
        \<longrightarrow> text_of_nat n \<in> set (dlr_upstream_id_candidates (hex_text n)))"
proof (intro conjI impI)
  have ascii: "list_all ascii_hex_char (text_of_nat n)"
    using text_of_nat_digits(1) [of n] by (auto simp: list_all_iff ascii_hex_char_def)
  have int: "py_int (text_of_nat n) = Some n" and str: "str_of_int n = Some (text_of_nat n)"
    using len by (simp_all add: py_int_def str_of_int_def int_max_str_digits_def text_of_nat_parses)
  have "set (radix_variants 2 (text_of_nat n)) = {py_hex n}"
    using not_0x [OF ascii] by (simp add: radix_variants_def text_of_nat_isdigit int)
  then show "py_hex n \<in> set (dlr_upstream_id_candidates (text_of_nat n))"
    by (simp add: candidates_solid text_of_nat_digits(2) solid_texts)
  have pre: "starts_with (asc ''0x'') (py_hex n)" by (simp add: py_hex_def asc_def)
  have "set (radix_variants 2 (py_hex n)) = {text_of_nat n}"
    by (simp add: radix_variants_def pre py_hex_parses str)
  then show "text_of_nat n \<in> set (dlr_upstream_id_candidates (py_hex n))"
    using candidates_solid [OF _ solid_texts(3), of n] by (simp add: py_hex_def asc_def)
  assume "2 \<le> length (hex_text n) \<and> \<not> py_isdigit (hex_text n)"
  then have "set (radix_variants 2 (hex_text n)) = {text_of_nat n}"
    using not_0x [OF hex_text_chars(1)] hex_text_chars(1) [of n]
    by (simp add: radix_variants_def py_int16_def hex_first_text str)
  then show "text_of_nat n \<in> set (dlr_upstream_id_candidates (hex_text n))"
    by (simp add: candidates_solid hex_text_chars(2) solid_texts)
qed

theorem candidates_change_radix_witness:
  "py_hex 255 \<in> set (dlr_upstream_id_candidates (text_of_nat 255))
   \<and> text_of_nat 255 \<in> set (dlr_upstream_id_candidates (hex_text 255))"
  using candidates_change_radix [of 255]
  by (simp add: text_of_nat.simps hex_text.simps hex_char_def py_isdigit_def py_isdigit_char.simps)

text \<open>The other direction is missing: a bare hexadecimal identifier that was stored is not among the
  candidates of its decimal spelling, and one without letters is read as decimal.\<close>

theorem bare_hex_not_candidate:
  "asc ''ff'' \<notin> set (dlr_upstream_id_candidates (asc ''255''))
   \<and> asc ''16'' \<notin> set (dlr_upstream_id_candidates (asc ''10''))"
  by code_simp

text \<open>With a status of superscript digits \<open>isdigit\<close> holds and \<open>int\<close> raises.\<close>

theorem superscript_status_raises: "normalize_status show (JStr [178]) JNull = Inl ValueError"
  by code_simp

text \<open>The documented success format of the \<open>list\<close> reports, \<open>"result": 0\<close>, gets lost: 0 is no true
  operand of \<open>or\<close>, so the status stays empty and the report is unrecognised.\<close>

theorem zero_result_is_lost:
  "map (\<lambda>r. (dr_status_code r, normalize_status show (dr_status_code r) (dr_error_code r)))
     (parse_json_dlr (JObj [(asc ''list'', JArr [JObj [(asc ''mid'', JStr (asc ''m1'')), (asc ''result'', JNum 0)]])]))
   = [(JNull, Inr DLR_UNKNOWN)]"
  by code_simp

section \<open>Printing and parsing an XML report\<close>

definition xml_elem :: "string \<Rightarrow> pystr \<Rightarrow> pystr" where
  "xml_elem tag v = open_tag tag @ v @ close_tag tag"

text \<open>A report the way the upstream prints it.\<close>

record box =
  box_mobile :: pystr
  box_taskid :: pystr
  box_status :: pystr
  box_errorcode :: pystr

definition print_box :: "box \<Rightarrow> pystr" where
  "print_box b = xml_elem ''statusbox''
     (xml_elem ''mobile'' (box_mobile b) @ xml_elem ''taskid'' (box_taskid b)
      @ xml_elem ''status'' (box_status b) @ xml_elem ''errorcode'' (box_errorcode b))"

definition print_boxes :: "box list \<Rightarrow> pystr" where
  "print_boxes bs = xml_elem ''returnsms'' (concat (map print_box bs))"

definition box_report :: "box \<Rightarrow> dlr_report" where
  "box_report b =
     \<lparr>dr_message_id = JStr (box_taskid b), dr_mobile = JStr (box_mobile b),
      dr_status_code = JStr (box_status b), dr_error_code = JStr (box_errorcode b),
      dr_delivery_time = JNull\<rparr>"

definition plain_text :: "pystr \<Rightarrow> bool" where
  "plain_text v \<longleftrightarrow> 60 \<notin> set v \<and> py_strip v = v"

definition plain_box :: "box \<Rightarrow> bool" where
  "plain_box b \<longleftrightarrow> plain_text (box_mobile b) \<and> plain_text (box_taskid b) \<and> box_taskid b \<noteq> []
     \<and> plain_text (box_status b) \<and> plain_text (box_errorcode b)"

lemma re_fold_lt: "re_fold_char c = 60 \<longleftrightarrow> c = 60"
  by (auto simp: py_lower_char.simps)

lemma ci_split_skip:
  assumes "60 \<notin> set v"
  shows "ci_split (60 # ps) (v @ s) = map_option (\<lambda>(a, r). (v @ a, r)) (ci_split (60 # ps) s)"
  using assms
proof (induction v)
  case Nil
  then show ?case by (cases "ci_split (60 # ps) s") auto
next
  case (Cons c v)
  then have "re_fold_char c \<noteq> re_fold_char 60" using re_fold_lt [of c] by (auto simp: py_lower_char.simps)
  with Cons show ?case by (cases "ci_split (60 # ps) s") (auto simp del: re_fold_char.simps)
qed

lemma extract_skip:
  assumes "60 \<notin> set v"
  shows "extract_xml_value (v @ s) tag = extract_xml_value s tag"
  using assms
proof (induction v)
  case (Cons c v)
  then have "re_fold_char c \<noteq> re_fold_char 60" using re_fold_lt [of c] by (auto simp: py_lower_char.simps)
  with Cons show ?case by (simp add: xml_value_at_def open_tag_def del: re_fold_char.simps)
qed simp

lemma span_skip:
  assumes "60 \<notin> set v"
  shows "takeWhile (\<lambda>c. c \<noteq> 60) (v @ 60 # s) = v" "dropWhile (\<lambda>c. c \<noteq> 60) (v @ 60 # s) = 60 # s"
  using assms by (induction v) auto

lemmas xml_eval = xml_elem_def open_tag_def close_tag_def asc_def py_lower_char.simps

lemma statusbox_report_print:
  assumes "plain_box b"
  shows "statusbox_report (xml_elem ''mobile'' (box_mobile b) @ xml_elem ''taskid'' (box_taskid b)
      @ xml_elem ''status'' (box_status b) @ xml_elem ''errorcode'' (box_errorcode b)) = box_report b"
  using assms
  by (simp add: statusbox_report_def box_report_def pick_values_def plain_box_def plain_text_def
      xml_eval xml_value_at_def extract_skip span_skip json_of_opt_def)

lemma ci_split_body:
  assumes "plain_box b"
  shows "ci_split (close_tag ''statusbox'')
     (xml_elem ''mobile'' (box_mobile b) @ xml_elem ''taskid'' (box_taskid b)
      @ xml_elem ''status'' (box_status b) @ xml_elem ''errorcode'' (box_errorcode b) @ close_tag ''statusbox'' @ s)
   = Some (xml_elem ''mobile'' (box_mobile b) @ xml_elem ''taskid'' (box_taskid b)
      @ xml_elem ''status'' (box_status b) @ xml_elem ''errorcode'' (box_errorcode b), s)"
  using assms
  by (simp add: plain_box_def plain_text_def xml_eval ci_split_skip)

lemma xml_blocks_box:
  assumes "plain_box b"
  shows "map statusbox_report (xml_blocks ''statusbox'' (print_box b @ s))
       = box_report b # map statusbox_report (xml_blocks ''statusbox'' s)"
proof -
  have "ci_split (open_tag ''statusbox'') (open_tag ''statusbox'' @ t) = Some ([], t)" for t
    by (simp add: xml_eval)
  then show ?thesis using ci_split_body [OF assms] statusbox_report_print [OF assms]
    by (subst xml_blocks.simps) (simp add: print_box_def xml_elem_def [of "''statusbox''"])
qed

lemma xml_blocks_none: "ci_split (open_tag tag) s = None \<Longrightarrow> xml_blocks tag s = []"
  by (simp add: xml_blocks.simps)

lemma xml_blocks_boxes:
  assumes "list_all plain_box bs" and "xml_blocks ''statusbox'' t = []"
  shows "map statusbox_report (xml_blocks ''statusbox'' (concat (map print_box bs) @ t)) = map box_report bs"
  using assms by (induction bs) (simp_all add: xml_blocks_box)

lemma xml_blocks_prefix:
  assumes "ci_split (open_tag tag) (p @ s) = map_option (\<lambda>(a, r). (p @ a, r)) (ci_split (open_tag tag) s)"
  shows "xml_blocks tag (p @ s) = xml_blocks tag s"
  by (subst (1 2) xml_blocks.simps) (simp add: assms split: option.splits prod.splits)

text \<open>Printing any list of delivery reports in the upstream's XML format and parsing the document
  gives back exactly these reports, in order - for texts without an opening angle bracket and
  without white space at their ends, and reports that name their message.\<close>

theorem parse_xml_print:
  assumes plain: "list_all plain_box bs" and ne: "bs \<noteq> []"
  shows "parse_xml_dlr (print_boxes bs) = map box_report bs"
proof -
  have skip: "ci_split (open_tag ''statusbox'') (open_tag ''returnsms'' @ s)
      = map_option (\<lambda>(a, r). (open_tag ''returnsms'' @ a, r)) (ci_split (open_tag ''statusbox'') s)" for s
    by (cases "ci_split (open_tag ''statusbox'') s") (auto simp: xml_eval)
  have "xml_blocks ''statusbox'' (close_tag ''returnsms'') = []"
    by (rule xml_blocks_none) (simp add: xml_eval)
  then have "map statusbox_report (xml_blocks ''statusbox'' (print_boxes bs)) = map box_report bs"
    using xml_blocks_boxes [OF plain] xml_blocks_prefix [OF skip]
    by (simp add: print_boxes_def xml_elem_def)
  moreover have "identified (map box_report bs) = map box_report bs"
    using plain by (induction bs) (simp_all add: identified_def plain_box_def box_report_def)
  ultimately show ?thesis using ne by (simp add: parse_xml_dlr_def)
qed

theorem parse_xml_print_witness:
  "parse_xml_dlr (print_boxes [\<lparr>box_mobile = asc ''66'', box_taskid = asc ''t1'',
                                box_status = asc ''10'', box_errorcode = asc ''DELIVRD''\<rparr>])
   = [\<lparr>dr_message_id = JStr (asc ''t1''), dr_mobile = JStr (asc ''66''), dr_status_code = JStr (asc ''10''),
       dr_error_code = JStr (asc ''DELIVRD''), dr_delivery_time = JNull\<rparr>]"
proof -
  have "list_all plain_box [\<lparr>box_mobile = asc ''66'', box_taskid = asc ''t1'',
                                box_status = asc ''10'', box_errorcode = asc ''DELIVRD''\<rparr>]"
    by (simp add: plain_box_def plain_text_def asc_def py_strip_solid)
  from parse_xml_print [OF this] show ?thesis by (simp add: box_report_def)
qed

end
