(* ===== verification/Dlr.thy ===== *)
theory Dlr
  imports DlrParse World BatchProgress
begin

text \<open>
  Delivery reports applied to the messages, \<open>process_dlr_reports\<close> of
  \<open>backend/app/core/dlr_handler.py\<close>. The session neither flushes before a query nor expires rows
  at a commit, so the queries of the loop see the table as it was committed (\<open>rows\<close>) while the row
  objects they return are the current ones of the session (\<open>sms_logs\<close> of the world); the commit
  makes the latter the table. Calls that leave the database - the webhook and the water trigger -
  are recorded in order. Of messages with one submit time the earlier row is taken.
  \<open>order\<close> is the order in which Python iterates over the set of affected batches, \<open>rnd\<close> the draws of
  the progress refreshes.
\<close>

datatype dlr_call =
    TriggerWater int
  | TriggerWebhook pystr sms_status

record dlr_run =
  dlr_world :: world
  dlr_success :: nat
  dlr_fail :: nat
  dlr_batches :: "int list" \<comment> \<open>the set, as the list of its elements in order of insertion\<close>
  dlr_calls :: "dlr_call list"

definition start_run :: "world \<Rightarrow> dlr_run" where
  "start_run w = \<lparr>dlr_world = w, dlr_success = 0, dlr_fail = 0, dlr_batches = [], dlr_calls = []\<rparr>"

definition in_channel :: "int option \<Rightarrow> sms_log \<Rightarrow> bool" where
  "in_channel chan r \<longleftrightarrow> (case chan of None \<Rightarrow> True | Some c \<Rightarrow> log_channel_id r = Some c)"

definition newest :: "sms_log list \<Rightarrow> sms_log option" where
  "newest rs = first_row (sort_desc submit_time rs)"

definition match_upstream :: "sms_log list \<Rightarrow> int option \<Rightarrow> pystr \<Rightarrow> sms_log option" where
  "match_upstream rows chan mid =
     (let cands = dlr_upstream_id_candidates mid
      in if cands = [] then None
         else newest (filter (\<lambda>r. (case upstream_message_id r of None \<Rightarrow> False | Some u \<Rightarrow> u \<in> set cands)
                                   \<and> in_channel chan r) rows))"

definition match_own :: "sms_log list \<Rightarrow> int option \<Rightarrow> pystr \<Rightarrow> sms_log option" where
  "match_own rows chan mid = newest (filter (\<lambda>r. message_id r = mid \<and> in_channel chan r) rows)"

definition match_phone ::
    "(json \<Rightarrow> pystr) \<Rightarrow> sms_log list \<Rightarrow> int \<Rightarrow> int option \<Rightarrow> json \<Rightarrow> sms_log option" where
  "match_phone show rows time chan mobile =
     (case chan of
        Some c \<Rightarrow>
          (if json_truthy mobile then
             (let clean = py_strip (py_lstrip_chars [43] (py_str show mobile))
              in newest (filter (\<lambda>r. sql_like (37 # clean) (phone_number r) \<and> log_status r = Sent
                                     \<and> log_channel_id r = Some c \<and> submit_time r > time - 86400) rows))
           else None)
      | None \<Rightarrow> None)"

definition find_report_log ::
    "(json \<Rightarrow> pystr) \<Rightarrow> sms_log list \<Rightarrow> int \<Rightarrow> int option \<Rightarrow> dlr_report \<Rightarrow> sms_log option" where
  "find_report_log show rows time chan rep =
     (let mid = py_strip (py_str show (dr_message_id rep))
      in case match_upstream rows chan mid of
           Some r \<Rightarrow> Some r
         | None \<Rightarrow>
             (case match_own rows chan mid of
                Some r \<Rightarrow> Some r
              | None \<Rightarrow> match_phone show rows time chan (dr_mobile rep)))"

definition is_waiting :: "sms_status \<Rightarrow> bool" where
  "is_waiting s \<longleftrightarrow> s \<in> {Sent, Pending, Queued}"

definition dlr_error_message :: "(json \<Rightarrow> pystr) \<Rightarrow> dlr_report \<Rightarrow> pystr" where
  "dlr_error_message show rep =
     asc ''DLR: '' @ py_str show (first_truthy [dr_error_code rep, dr_status_code rep, JStr (asc ''unknown'')])"

definition set_log :: "int \<Rightarrow> (sms_log \<Rightarrow> sms_log) \<Rightarrow> world \<Rightarrow> world" where
  "set_log i f w = w\<lparr>sms_logs := upd_where (\<lambda>r. log_id r = i) f (sms_logs w)\<rparr>"

definition mark_delivered :: "int \<Rightarrow> sms_log \<Rightarrow> sms_log" where
  "mark_delivered time r = r\<lparr>log_status := Delivered, delivery_time := Some time, log_error_message := None\<rparr>"

definition mark_failed :: "pystr \<Rightarrow> sms_log \<Rightarrow> sms_log" where
  "mark_failed msg r = r\<lparr>log_status := Failed, log_error_message := Some msg\<rparr>"

text \<open>The update of a waiting row. An exception of \<open>normalize_status\<close> ends the report.\<close>

definition apply_report :: "(json \<Rightarrow> pystr) \<Rightarrow> dlr_report \<Rightarrow> sms_log \<Rightarrow> dlr_run \<Rightarrow> dlr_run" where
  "apply_report show rep r s =
     (case normalize_status show (dr_status_code rep) (dr_error_code rep) of
        Inl e \<Rightarrow> s
      | Inr st \<Rightarrow>
          (let w = dlr_world s; i = log_id r
           in if st = DLR_DELIVERED then
                s\<lparr>dlr_world := set_log i (mark_delivered (now w)) w, dlr_success := dlr_success s + 1,
                  dlr_calls := dlr_calls s @ (if log_account_id r \<noteq> 0 then [TriggerWater i] else [])
                                 @ [TriggerWebhook (message_id r) Delivered]\<rparr>
              else if st \<in> {DLR_FAILED, DLR_EXPIRED, DLR_REJECTED} then
                s\<lparr>dlr_world := set_log i (mark_failed (dlr_error_message show rep)) w, dlr_fail := dlr_fail s + 1,
                  dlr_calls := dlr_calls s @ [TriggerWebhook (message_id r) Failed]\<rparr>
              else s\<lparr>dlr_calls := dlr_calls s @ [TriggerWebhook (message_id r) (log_status r)]\<rparr>))"

definition add_batch :: "int option \<Rightarrow> int list \<Rightarrow> int list" where
  "add_batch b bs = (case truthy_id b of None \<Rightarrow> bs | Some i \<Rightarrow> if i \<in> set bs then bs else bs @ [i])"

definition dlr_step ::
    "(json \<Rightarrow> pystr) \<Rightarrow> sms_log list \<Rightarrow> int option \<Rightarrow> dlr_report \<Rightarrow> dlr_run \<Rightarrow> dlr_run" where
  "dlr_step show rows chan rep s =
     (if \<not> json_truthy (dr_message_id rep) then s
      else
        case find_report_log show rows (now (dlr_world s)) chan rep of
          None \<Rightarrow> s
        | Some found \<Rightarrow>
            (case log_by_id (dlr_world s) (log_id found) of
               None \<Rightarrow> s
             | Some r \<Rightarrow>
                 (let s1 = s\<lparr>dlr_batches := add_batch (log_batch_id r) (dlr_batches s)\<rparr>
                  in if is_waiting (log_status r) then apply_report show rep r s1 else s1)))"

definition dlr_loop ::
    "(json \<Rightarrow> pystr) \<Rightarrow> sms_log list \<Rightarrow> int option \<Rightarrow> dlr_report list \<Rightarrow> dlr_run \<Rightarrow> dlr_run" where
  "dlr_loop show rows chan reps s = fold (dlr_step show rows chan) reps s"

definition refresh_batches :: "(int \<Rightarrow> nat) \<Rightarrow> int list \<Rightarrow> world \<Rightarrow> world" where
  "refresh_batches rnd bs w = fold (\<lambda>b u. snd (update_batch_progress (rnd b) u b)) bs w"

definition process_dlr_reports ::
    "(json \<Rightarrow> pystr) \<Rightarrow> (int list \<Rightarrow> int list) \<Rightarrow> (int \<Rightarrow> nat) \<Rightarrow> dlr_report list \<Rightarrow> int option \<Rightarrow> world
       \<Rightarrow> dlr_run" where
  "process_dlr_reports show order rnd reps chan w =
     (let s = dlr_loop show (sms_logs w) chan reps (start_run w)
      in s\<lparr>dlr_world := refresh_batches rnd (order (dlr_batches s)) (dlr_world s)\<rparr>)"

section \<open>The push callback\<close>

text \<open>\<open>_handle_dlr_callback_post\<close> of \<open>backend/app/api/v1/sms.py\<close> refreshes the affected batches a
  second time.\<close>

definition callback_post ::
    "(json \<Rightarrow> pystr) \<Rightarrow> (int list \<Rightarrow> int list) \<Rightarrow> (int \<Rightarrow> nat) \<Rightarrow> (int \<Rightarrow> nat) \<Rightarrow> dlr_report list
       \<Rightarrow> int option \<Rightarrow> world \<Rightarrow> nat option \<times> world" where
  "callback_post show order rnd rnd' reps chan w =
     (if reps = [] then (None, w)
      else let s = process_dlr_reports show order rnd reps chan w
           in (Some (dlr_success s + dlr_fail s),
               refresh_batches rnd' (order (dlr_batches s)) (dlr_world s)))"

section \<open>What the loop does to the rows\<close>

lemma rowcount_upd_key:
  assumes "distinct (map key t)" and "r \<in> set t"
  shows "rowcount P (upd_where (\<lambda>x. key x = key r) f t) + (if P r then 1 else 0)
       = rowcount P t + (if P (f r) then 1 else 0)"
  using assms
proof (induction t)
  case (Cons x t)
  show ?case
  proof (cases "x = r")
    case True
    with Cons.prems have "upd_where (\<lambda>x. key x = key r) f t = t"
      by (auto simp: upd_where_def intro!: map_idI) (metis imageI)
    with True show ?thesis by (simp add: rowcount_def)
  next
    case False
    with Cons.prems have "key x \<noteq> key r" "r \<in> set t" by auto
    with Cons show ?thesis by (simp add: rowcount_def)
  qed
qed simp

lemma newest_in: "newest rs = Some r \<Longrightarrow> r \<in> set rs"
  by (cases "sort_desc submit_time rs")
     (auto simp: newest_def first_row_def simp flip: set_sort_desc [of submit_time rs])

lemma find_report_log_in:
  assumes "find_report_log show rows t chan rep = Some r"
  shows "r \<in> set rows \<and> in_channel chan r"
  using assms
  by (auto simp: find_report_log_def match_upstream_def match_own_def match_phone_def Let_def in_channel_def
      dest!: newest_in split: option.splits if_splits)

definition dlr_change :: "int option \<Rightarrow> int \<Rightarrow> sms_log \<Rightarrow> sms_log \<Rightarrow> bool" where
  "dlr_change chan time r r' \<longleftrightarrow>
     r' = r \<or> (is_waiting (log_status r) \<and> in_channel chan r
               \<and> (r' = mark_delivered time r \<or> (\<exists>msg. r' = mark_failed msg r)))"

text \<open>What a report matches a row by, and what no report changes.\<close>

definition match_key :: "sms_log \<Rightarrow> int \<times> pystr option \<times> pystr \<times> int option \<times> int" where
  "match_key r = (log_id r, upstream_message_id r, message_id r, log_channel_id r, submit_time r)"

lemma mark_keys [simp]:
  "match_key (mark_delivered t r) = match_key r" "match_key (mark_failed m r) = match_key r"
  "log_id (mark_delivered t r) = log_id r" "log_id (mark_failed m r) = log_id r"
  "log_status (mark_delivered t r) = Delivered" "log_status (mark_failed m r) = Failed"
  by (simp_all add: match_key_def mark_delivered_def mark_failed_def)

lemma in_channel_key: "match_key r' = match_key r \<Longrightarrow> in_channel chan r' = in_channel chan r"
  by (simp add: match_key_def in_channel_def split: option.split)

text \<open>The state of the loop, relative to the table it started from.\<close>

definition dlr_inv :: "int option \<Rightarrow> world \<Rightarrow> dlr_run \<Rightarrow> bool" where
  "dlr_inv chan w s \<longleftrightarrow>
     (\<exists>g. dlr_world s = w\<lparr>sms_logs := map g (sms_logs w)\<rparr>
        \<and> (\<forall>r. match_key (g r) = match_key r \<and> dlr_change chan (now w) r (g r)))
     \<and> rowcount (\<lambda>r. log_status r = Delivered) (sms_logs (dlr_world s))
         = rowcount (\<lambda>r. log_status r = Delivered) (sms_logs w) + dlr_success s
     \<and> rowcount (\<lambda>r. log_status r = Failed) (sms_logs (dlr_world s))
         = rowcount (\<lambda>r. log_status r = Failed) (sms_logs w) + dlr_fail s"

lemma dlr_inv_start: "dlr_inv chan w (start_run w)"
  by (auto simp: dlr_inv_def start_run_def dlr_change_def intro!: exI [of _ "\<lambda>r. r"])

lemma dlr_inv_batches [simp]:
  "dlr_inv chan w (s\<lparr>dlr_batches := bs\<rparr>) = dlr_inv chan w s"
  "dlr_inv chan w (s\<lparr>dlr_calls := cs\<rparr>) = dlr_inv chan w s"
  by (simp_all add: dlr_inv_def)

lemma dlr_inv_set_log:
  assumes inv: "dlr_inv chan w s" and wf: "wf_world w"
    and r: "log_by_id (dlr_world s) i = Some r" "is_waiting (log_status r)" "in_channel chan r"
    and f: "\<And>x. match_key (f x) = match_key x" "\<And>x. f x = mark_delivered (now w) x \<or> (\<exists>m. f x = mark_failed m x)"
  defines "s' \<equiv> s\<lparr>dlr_world := set_log i f (dlr_world s),
       dlr_success := dlr_success s + (if log_status (f r) = Delivered then 1 else 0),
       dlr_fail := dlr_fail s + (if log_status (f r) = Failed then 1 else 0)\<rparr>"
  shows "dlr_inv chan w s'"
proof -
  obtain g where w: "dlr_world s = w\<lparr>sms_logs := map g (sms_logs w)\<rparr>"
    and g: "\<And>x. match_key (g x) = match_key x" "\<And>x. dlr_change chan (now w) x (g x)"
    using inv by (auto simp: dlr_inv_def)
  have ids: "log_id (g x) = log_id x" for x using g(1) [of x] by (simp add: match_key_def)
  have mem: "r \<in> set (sms_logs (dlr_world s))" "log_id r = i" using log_by_id_Some [OF r(1)] by auto
  have dist: "distinct (map log_id (sms_logs (dlr_world s)))"
    using wf w by (simp add: wf_world_def ids comp_def)
  then have uniq: "x = r" if "x \<in> set (sms_logs (dlr_world s))" "log_id x = i" for x
    using that mem by (metis distinct_map inj_onD)
  let ?h = "\<lambda>x. if x \<in> set (sms_logs w) \<and> log_id (g x) = i then f (g x) else g x"
  have "dlr_world s' = w\<lparr>sms_logs := map ?h (sms_logs w)\<rparr>"
    by (simp add: s'_def w set_log_def upd_where_def)
  moreover have "match_key (?h x) = match_key x" for x using f(1) g(1) by simp
  moreover have "dlr_change chan (now w) x (?h x)" for x
  proof (cases "x \<in> set (sms_logs w) \<and> log_id (g x) = i")
    case True
    then have gx: "g x = r" using uniq w by auto
    then have "g x = x"
      using g(2) [of x] r(2) by (auto simp: dlr_change_def is_waiting_def)
    with gx r f(2) [of r] True show ?thesis by (auto simp: dlr_change_def)
  next
    case False
    then show ?thesis using g(2) by auto
  qed
  moreover have "rowcount (\<lambda>r. log_status r = st) (sms_logs (dlr_world s'))
      = rowcount (\<lambda>r. log_status r = st) (sms_logs (dlr_world s)) + (if log_status (f r) = st then 1 else 0)"
    if "st = Delivered \<or> st = Failed" for st
    using rowcount_upd_key [OF dist mem(1), of "\<lambda>r. log_status r = st" f] mem(2) r(2) that
    by (auto simp: s'_def set_log_def is_waiting_def)
  ultimately show ?thesis
    using inv by (auto simp: dlr_inv_def s'_def)
qed

lemma apply_report_inv:
  assumes inv: "dlr_inv chan w s" and wf: "wf_world w"
    and r: "log_by_id (dlr_world s) (log_id r) = Some r" "is_waiting (log_status r)" "in_channel chan r"
  shows "dlr_inv chan w (apply_report show rep r s)"
proof -
  have now: "now (dlr_world s) = now w" using inv by (auto simp: dlr_inv_def)
  show ?thesis
  proof (cases "normalize_status show (dr_status_code rep) (dr_error_code rep)")
    case (Inr st)
    consider "st = DLR_DELIVERED" | "st \<in> {DLR_FAILED, DLR_EXPIRED, DLR_REJECTED}"
      | "st \<notin> {DLR_DELIVERED, DLR_FAILED, DLR_EXPIRED, DLR_REJECTED}" by auto
    then show ?thesis
    proof cases
      case 1
      then show ?thesis
        using dlr_inv_set_log [OF inv wf r, of "mark_delivered (now w)"] Inr now
        by (simp add: apply_report_def Let_def dlr_inv_def)
    next
      case 2
      then show ?thesis
        using dlr_inv_set_log [OF inv wf r, of "mark_failed (dlr_error_message show rep)"] Inr
        by (auto simp add: apply_report_def Let_def dlr_inv_def)
    qed (use inv Inr in \<open>simp add: apply_report_def Let_def\<close>)
  qed (use inv in \<open>simp add: apply_report_def\<close>)
qed

lemma dlr_step_inv:
  assumes inv: "dlr_inv chan w s" and wf: "wf_world w"
  shows "dlr_inv chan w (dlr_step show (sms_logs w) chan rep s)"
proof -
  obtain g where w: "dlr_world s = w\<lparr>sms_logs := map g (sms_logs w)\<rparr>"
    and g: "\<And>x. match_key (g x) = match_key x"
    using inv by (auto simp: dlr_inv_def)
  have same: "in_channel chan r \<and> log_id r = log_id found"
    if found: "find_report_log show (sms_logs w) t chan rep = Some found"
      and row: "log_by_id (dlr_world s) (log_id found) = Some r" for t found r
  proof -
    obtain x where x: "x \<in> set (sms_logs w)" "r = g x" "log_id r = log_id found"
      using log_by_id_Some [OF row] w by auto
    then have "log_id x = log_id found" using g [of x] by (simp add: match_key_def)
    moreover have "found \<in> set (sms_logs w)" using find_report_log_in [OF found] by blast
    ultimately have "x = found" using wf x(1) by (auto simp: wf_world_def distinct_map dest: inj_onD)
    with x find_report_log_in [OF found] in_channel_key [OF g] show ?thesis by auto
  qed
  show ?thesis
  proof (cases "find_report_log show (sms_logs w) (now (dlr_world s)) chan rep")
    case (Some found)
    show ?thesis
    proof (cases "log_by_id (dlr_world s) (log_id found)")
      case row: (Some r)
      from same [OF Some row] row have "log_by_id (dlr_world s) (log_id r) = Some r" "in_channel chan r" by simp_all
      then have "is_waiting (log_status r) \<Longrightarrow>
          dlr_inv chan w (apply_report show rep r (s\<lparr>dlr_batches := add_batch (log_batch_id r) (dlr_batches s)\<rparr>))"
        using inv wf by (intro apply_report_inv) simp_all
      then show ?thesis using inv by (simp add: dlr_step_def Let_def Some row)
    qed (use inv in \<open>simp add: dlr_step_def Some\<close>)
  qed (use inv in \<open>simp add: dlr_step_def\<close>)
qed

lemma dlr_loop_inv:
  assumes "dlr_inv chan w s" and wf: "wf_world w"
  shows "dlr_inv chan w (dlr_loop show (sms_logs w) chan reps s)"
  using assms(1) unfolding dlr_loop_def
  by (induction reps arbitrary: s) (simp_all add: dlr_step_inv [OF _ wf])

text \<open>Applying a list of delivery reports touches nothing but messages that are still waiting, of the
  given channel; each of them becomes delivered or failed and keeps every other field but its
  delivery time and error text. The two counts are exactly the growth of the delivered and the
  failed messages.\<close>

theorem dlr_updates_waiting_only:
  assumes wf: "wf_world w"
  shows "let s = dlr_loop show (sms_logs w) chan reps (start_run w)
    in dlr_world s = w\<lparr>sms_logs := sms_logs (dlr_world s)\<rparr>
    \<and> list_all2 (dlr_change chan (now w)) (sms_logs w) (sms_logs (dlr_world s))
    \<and> rowcount (\<lambda>r. log_status r = Delivered) (sms_logs (dlr_world s))
        = rowcount (\<lambda>r. log_status r = Delivered) (sms_logs w) + dlr_success s
    \<and> rowcount (\<lambda>r. log_status r = Failed) (sms_logs (dlr_world s))
        = rowcount (\<lambda>r. log_status r = Failed) (sms_logs w) + dlr_fail s"
proof -
  define s where "s = dlr_loop show (sms_logs w) chan reps (start_run w)"
  have inv: "dlr_inv chan w s" unfolding s_def by (rule dlr_loop_inv [OF dlr_inv_start wf])
  then obtain g where g: "dlr_world s = w\<lparr>sms_logs := map g (sms_logs w)\<rparr>"
      "\<forall>r. dlr_change chan (now w) r (g r)"
    by (auto simp: dlr_inv_def)
  have "list_all2 (dlr_change chan (now w)) (sms_logs w) (map g (sms_logs w))"
    using g(2) by (simp add: list_all2_map2 list_all2_same)
  with g(1) inv show ?thesis by (simp add: dlr_inv_def flip: s_def)
qed

section \<open>Replayed reports\<close>

lemma sort_key_map: "sort_key f (map g xs) = map g (sort_key (f \<circ> g) xs)"
proof -
  have "insort_key f (g x) (map g ys) = map g (insort_key (f \<circ> g) x ys)" for x ys
    by (induction ys) auto
  then show ?thesis by (induction xs) simp_all
qed

lemma newest_map:
  assumes "\<And>r. match_key (g r) = match_key r" and "\<And>r. P (g r) = P r"
  shows "newest (filter P (map g rs)) = map_option g (newest (filter P rs))"
proof -
  have st: "submit_time \<circ> g = submit_time" using assms(1) by (auto simp: match_key_def fun_eq_iff)
  have "P \<circ> g = P" using assms(2) by (auto simp: fun_eq_iff)
  then have "newest (filter P (map g rs)) = first_row (map g (sort_desc submit_time (filter P rs)))"
    by (simp add: newest_def sort_desc_def filter_map rev_map sort_key_map st)
  then show ?thesis by (simp add: newest_def first_row_def split: list.split)
qed

lemma find_report_log_map:
  assumes g: "\<And>r. match_key (g r) = match_key r"
  shows "find_report_log show (map g rows) t None rep = map_option g (find_report_log show rows t' None rep)"
proof -
  have key: "upstream_message_id (g r) = upstream_message_id r" "message_id (g r) = message_id r" for r
    using g [of r] by (simp_all add: match_key_def)
  have "match_upstream (map g rows) None mid = map_option g (match_upstream rows None mid)"
    "match_own (map g rows) None mid = map_option g (match_own rows None mid)" for mid
    by (simp_all add: match_upstream_def match_own_def Let_def newest_map [OF g] key in_channel_key [OF g])
  then show ?thesis by (simp add: find_report_log_def match_phone_def Let_def split: option.split)
qed

text \<open>A report is settled in a world when its row no longer waits, or when it has nothing to say.\<close>

definition mute :: "(json \<Rightarrow> pystr) \<Rightarrow> dlr_report \<Rightarrow> bool" where
  "mute show rep \<longleftrightarrow>
     (case normalize_status show (dr_status_code rep) (dr_error_code rep) of
        Inl _ \<Rightarrow> True | Inr st \<Rightarrow> st \<notin> {DLR_DELIVERED, DLR_FAILED, DLR_EXPIRED, DLR_REJECTED})"

definition settled :: "(json \<Rightarrow> pystr) \<Rightarrow> sms_log list \<Rightarrow> world \<Rightarrow> dlr_report \<Rightarrow> bool" where
  "settled show rows u rep \<longleftrightarrow>
     \<not> json_truthy (dr_message_id rep) \<or> mute show rep
     \<or> (case find_report_log show rows 0 None rep of
          None \<Rightarrow> True
        | Some found \<Rightarrow> (case log_by_id u (log_id found) of
            None \<Rightarrow> True | Some r \<Rightarrow> \<not> is_waiting (log_status r)))"

lemma find_any_time: "find_report_log show rows t None rep = find_report_log show rows 0 None rep"
  using find_report_log_map [of "\<lambda>r. r" "show" rows t rep 0] by (simp add: option.map_ident)

text \<open>A settled report changes nothing.\<close>

lemma settled_step:
  assumes "settled show rows (dlr_world s) rep"
  shows "dlr_world (dlr_step show rows None rep s) = dlr_world s
    \<and> dlr_success (dlr_step show rows None rep s) = dlr_success s
    \<and> dlr_fail (dlr_step show rows None rep s) = dlr_fail s"
  using assms
  by (auto simp: dlr_step_def settled_def find_any_time [of "show" rows "now (dlr_world s)"] mute_def
      apply_report_def Let_def split: option.splits sum.splits)

lemma settled_loop:
  assumes "\<forall>rep \<in> set reps. settled show rows (dlr_world s) rep"
  shows "dlr_world (dlr_loop show rows None reps s) = dlr_world s
    \<and> dlr_success (dlr_loop show rows None reps s) = dlr_success s
    \<and> dlr_fail (dlr_loop show rows None reps s) = dlr_fail s"
  using assms
proof (induction reps arbitrary: s)
  case (Cons rep reps)
  have step: "dlr_world (dlr_step show rows None rep s) = dlr_world s"
    "dlr_success (dlr_step show rows None rep s) = dlr_success s"
    "dlr_fail (dlr_step show rows None rep s) = dlr_fail s"
    using settled_step Cons.prems by auto
  show ?case using Cons.IH [of "dlr_step show rows None rep s"] Cons.prems
    by (simp add: dlr_loop_def step)
qed (simp add: dlr_loop_def)

text \<open>A step settles its own report and keeps the others settled.\<close>

lemma log_by_id_set_log:
  assumes "\<And>x. log_id (f x) = log_id x"
  shows "log_by_id (set_log i f w) j = map_option (\<lambda>r. if j = i then f r else r) (log_by_id w j)"
proof -
  have "log_by_id (set_log i f w) j
      = map_option (\<lambda>r. if log_id r = i then f r else r) (log_by_id w j)"
    using assms by (simp add: log_by_id_def set_log_def find_upd_where)
  then show ?thesis using log_by_id_Some [of w j] by (cases "log_by_id w j") auto
qed

lemma apply_report_waiting:
  assumes "log_by_id (dlr_world s) (log_id r) = Some r"
  shows "mute show rep \<and> dlr_world (apply_report show rep r s) = dlr_world s
    \<or> (\<exists>r'. log_by_id (dlr_world (apply_report show rep r s)) (log_id r) = Some r' \<and> \<not> is_waiting (log_status r'))
      \<and> (\<forall>j. j \<noteq> log_id r \<longrightarrow> log_by_id (dlr_world (apply_report show rep r s)) j = log_by_id (dlr_world s) j)"
  using assms
  by (cases "normalize_status show (dr_status_code rep) (dr_error_code rep)")
     (auto simp: mute_def apply_report_def Let_def log_by_id_set_log is_waiting_def option.map_ident)

lemma dlr_step_settles:
  shows "settled show rows (dlr_world (dlr_step show rows None rep s)) rep"
    and "settled show rows (dlr_world s) rep' \<Longrightarrow> settled show rows (dlr_world (dlr_step show rows None rep s)) rep'"
proof -
  let ?s' = "dlr_step show rows None rep s"
  have "settled show rows (dlr_world ?s') rep
      \<and> (settled show rows (dlr_world s) rep' \<longrightarrow> settled show rows (dlr_world ?s') rep')"
  proof (cases "dlr_world ?s' = dlr_world s \<and> settled show rows (dlr_world s) rep")
    case False
    then have act: "json_truthy (dr_message_id rep)" "\<not> settled show rows (dlr_world s) rep"
      using settled_step [of "show" rows s rep] unfolding settled_def by blast+
    then obtain found r where fr: "find_report_log show rows 0 None rep = Some found"
        "log_by_id (dlr_world s) (log_id found) = Some r" "is_waiting (log_status r)" "\<not> mute show rep"
      by (auto simp: settled_def split: option.splits)
    let ?t = "s\<lparr>dlr_batches := add_batch (log_batch_id r) (dlr_batches s)\<rparr>"
    have id: "log_id found = log_id r" using log_by_id_Some [OF fr(2)] by simp
    have s': "?s' = apply_report show rep r ?t"
      using act(1) fr by (simp add: dlr_step_def find_any_time [of "show" rows "now (dlr_world s)"] Let_def)
    have "log_by_id (dlr_world ?t) (log_id r) = Some r" using fr(2) id by simp
    from apply_report_waiting [OF this, of "show" rep] fr(4)
    obtain r' where "log_by_id (dlr_world ?s') (log_id r) = Some r'" "\<not> is_waiting (log_status r')"
      "\<forall>j. j \<noteq> log_id r \<longrightarrow> log_by_id (dlr_world ?s') j = log_by_id (dlr_world s) j"
      unfolding s' by auto
    then show ?thesis using fr(1) id
      by (auto simp: settled_def split: option.splits)
        (metis option.inject option.distinct(1))+
  qed simp
  then show "settled show rows (dlr_world ?s') rep"
    and "settled show rows (dlr_world s) rep' \<Longrightarrow> settled show rows (dlr_world ?s') rep'" by auto
qed

lemma dlr_loop_settles:
  "rep \<in> set reps \<or> settled show rows (dlr_world s) rep
     \<Longrightarrow> settled show rows (dlr_world (dlr_loop show rows None reps s)) rep"
proof (induction reps arbitrary: s)
  case (Cons x reps)
  then show ?case using dlr_step_settles by (simp add: dlr_loop_def) blast
qed (simp add: dlr_loop_def)

text \<open>Replaying a list of reports, at any later time, finds nothing more to do: no message changes and
  both counts are zero - as long as no channel is given, so that rows are found by identifier only.\<close>

theorem dlr_replay_is_noop:
  assumes wf: "wf_world w"
  shows "let u = (dlr_world (dlr_loop show (sms_logs w) None reps (start_run w)))\<lparr>now := t\<rparr>;
             s = dlr_loop show (sms_logs u) None reps (start_run u)
         in dlr_world s = u \<and> dlr_success s = 0 \<and> dlr_fail s = 0"
proof -
  define v where "v = dlr_world (dlr_loop show (sms_logs w) None reps (start_run w))"
  obtain g where g: "v = w\<lparr>sms_logs := map g (sms_logs w)\<rparr>" "\<And>r. match_key (g r) = match_key r"
    using dlr_loop_inv [OF dlr_inv_start wf, of None "show" reps] by (auto simp: dlr_inv_def v_def)
  let ?u = "v\<lparr>now := t\<rparr>"
  have "settled show (sms_logs ?u) ?u rep" if rep: "rep \<in> set reps" for rep
  proof -
    have "settled show (sms_logs w) v rep"
      unfolding v_def using dlr_loop_settles [of rep reps] rep by blast
    moreover have "log_id (g r) = log_id r" for r using g(2) [of r] by (simp add: match_key_def)
    moreover have "log_by_id ?u i = log_by_id v i" for i by (simp add: log_by_id_def)
    ultimately show ?thesis
      using find_report_log_map [OF g(2), of "show" "sms_logs w" 0 rep 0]
      by (auto simp: settled_def g(1) split: option.splits)
  qed
  then show ?thesis
    using settled_loop [of reps "show" "sms_logs ?u" "start_run ?u"]
    by (simp add: start_run_def v_def Let_def)
qed

section \<open>Reports on a small table\<close>

definition demo_dlr :: world where
  "demo_dlr = empty_world\<lparr>sms_logs :=
     [(new_sms_log 1 (asc ''m1'') 5 (asc ''+6681''))\<lparr>log_status := Sent, log_channel_id := Some 7,
        upstream_message_id := Some (asc ''0xff''), submit_time := 10\<rparr>,
      (new_sms_log 2 (asc ''m2'') 5 (asc ''+6681''))\<lparr>log_status := Sent, log_channel_id := Some 7,
        submit_time := 20\<rparr>,
      (new_sms_log 3 (asc ''m3'') 5 (asc ''+6682''))\<lparr>log_status := Delivered, log_channel_id := Some 7\<rparr>],
     now := 100\<rparr>"

lemma demo_dlr_wf: "wf_world demo_dlr"
  by (simp add: wf_world_def demo_dlr_def empty_world_def new_sms_log_def)

definition demo_reports :: "dlr_report list" where
  "demo_reports =
     parse_json_dlr (JArr [JObj [(asc ''mid'', JStr (asc ''255'')), (asc ''status'', JStr (asc ''DELIVRD''))],
                           JObj [(asc ''mid'', JStr (asc ''m3'')), (asc ''status'', JStr (asc ''UNDELIV''))]])"

lemma demo_dlr_counts:
  "dlr_success (dlr_loop show (sms_logs demo_dlr) (Some 7) demo_reports (start_run demo_dlr)) = 1"
  by code_simp

theorem dlr_updates_waiting_only_witness:
  "let s = dlr_loop (\<lambda>_. []) (sms_logs demo_dlr) (Some 7) demo_reports (start_run demo_dlr)
   in rowcount (\<lambda>r. log_status r = Delivered) (sms_logs (dlr_world s))
        = rowcount (\<lambda>r. log_status r = Delivered) (sms_logs demo_dlr) + 1"
  using dlr_updates_waiting_only [OF demo_dlr_wf, of "\<lambda>_. []" "Some 7" demo_reports] demo_dlr_counts
  by (simp add: Let_def)

theorem dlr_replay_is_noop_witness:
  "let u = (dlr_world (dlr_loop (\<lambda>_. []) (sms_logs demo_dlr) None demo_reports (start_run demo_dlr)))\<lparr>now := 500\<rparr>
   in dlr_world (dlr_loop (\<lambda>_. []) (sms_logs u) None demo_reports (start_run u)) = u"
  using dlr_replay_is_noop [OF demo_dlr_wf, of 500 "\<lambda>_. []" demo_reports] by (simp add: Let_def)

text \<open>With a channel, a replayed report whose identifier is unknown falls back to the number each time
  and takes the next message to it.\<close>

definition phone_report :: dlr_report where
  "phone_report = \<lparr>dr_message_id = JStr (asc ''zz''), dr_mobile = JStr (asc ''6681''),
     dr_status_code = JStr (asc ''DELIVRD''), dr_error_code = JNull, dr_delivery_time = JNull\<rparr>"

theorem phone_replay_takes_next:
  "let u = dlr_world (dlr_loop show (sms_logs demo_dlr) (Some 7) [phone_report] (start_run demo_dlr));
       v = dlr_world (dlr_loop show (sms_logs u) (Some 7) [phone_report] (start_run u))
   in map log_status (sms_logs u) = [Sent, Delivered, Delivered]
      \<and> map log_status (sms_logs v) = [Delivered, Delivered, Delivered]"
  by code_simp

end
