(* ===== verification/UrlExtract.thy ===== *)
theory UrlExtract
  imports Prelude
begin

text \<open>
  The links of a message, \<open>extract_urls\<close> of \<open>backend/app/utils/url_extractor.py\<close>. The two regular
  expressions are written out as searches from left to right: both have only one way to match at a
  position, because what follows each repetition is outside its character class. \<open>re.IGNORECASE\<close>
  is \<open>re_fold_char\<close>, which also lets the Kelvin sign and the long s into the classes of letters.
\<close>

text \<open>\<open>[^\s<>"'\<dots>]\<close>: white space, angle brackets, quotes, closing brackets and full-width punctuation end
  a link.\<close>

definition url_stop :: "int \<Rightarrow> bool" where
  "url_stop c \<longleftrightarrow>
     py_isspace_char c
     \<or> c \<in> {60, 62, 34, 39, 65292, 12290, 65281, 65311, 12289, 65307, 65306, 65289, 12305, 125, 93}"

definition fold_prefix :: "pystr \<Rightarrow> pystr \<Rightarrow> bool" where
  "fold_prefix p s \<longleftrightarrow> starts_with (map re_fold_char p) (map re_fold_char s)"

text \<open>\<open>https?://[^...]+\<close> at the start of a text: its length.\<close>

definition url_at :: "pystr \<Rightarrow> nat option" where
  "url_at s =
     (let n = (if fold_prefix (asc ''https://'') s then 8 else if fold_prefix (asc ''http://'') s then 7 else 0);
          body = takeWhile (\<lambda>c. \<not> url_stop c) (drop n s)
      in if n = 0 \<or> body = [] then None else Some (n + length body))"

text \<open>\<open>findall\<close> of a matcher that gives the length of its match.\<close>

function find_spans :: "(pystr \<Rightarrow> nat option) \<Rightarrow> pystr \<Rightarrow> pystr list" where
  "find_spans m [] = []"
| "find_spans m (c # cs) =
     (case m (c # cs) of
        Some (Suc n) \<Rightarrow> take (Suc n) (c # cs) # find_spans m (drop n cs)
      | _ \<Rightarrow> find_spans m cs)"
  by pat_completeness auto
termination
  by (relation "measure (\<lambda>(_, s). length s)") auto

definition fold_alnum :: "int \<Rightarrow> bool" where
  "fold_alnum c \<longleftrightarrow> (let f = re_fold_char c in (97 \<le> f \<and> f \<le> 122) \<or> (48 \<le> f \<and> f \<le> 57))"

definition fold_alpha :: "int \<Rightarrow> bool" where
  "fold_alpha c \<longleftrightarrow> (let f = re_fold_char c in 97 \<le> f \<and> f \<le> 122)"

text \<open>\<open>([a-zA-Z0-9][-a-zA-Z0-9]*\.[a-z]{2,6}/[^...]+)\<close>: its length.\<close>

definition bare_at :: "pystr \<Rightarrow> nat option" where
  "bare_at s =
     (case s of
        [] \<Rightarrow> None
      | c # _ \<Rightarrow>
          (let name = takeWhile (\<lambda>c. fold_alnum c \<or> c = 45) s; s1 = drop (length name) s;
               tld = takeWhile fold_alpha (drop 1 s1); s2 = drop (1 + length tld) s1;
               path = takeWhile (\<lambda>c. \<not> url_stop c) (drop 1 s2)
           in if fold_alnum c \<and> starts_with [46] s1 \<and> 2 \<le> length tld \<and> length tld \<le> 6
                 \<and> starts_with [47] s2 \<and> path \<noteq> []
              then Some (length name + 1 + length tld + 1 + length path) else None))"

text \<open>\<open>finditer\<close> with the look-behind \<open>(?<![a-zA-Z0-9])\<close>: \<open>p\<close> tells whether the character before is a
  letter or digit.\<close>

function find_bare :: "bool \<Rightarrow> pystr \<Rightarrow> pystr list" where
  "find_bare p [] = []"
| "find_bare p (c # cs) =
     (case (if p then None else bare_at (c # cs)) of
        Some (Suc n) \<Rightarrow>
          take (Suc n) (c # cs) # find_bare (fold_alnum (last (take (Suc n) (c # cs)))) (drop n cs)
      | _ \<Rightarrow> find_bare (fold_alnum c) cs)"
  by pat_completeness auto
termination
  by (relation "measure (\<lambda>(_, s). length s)") auto

definition add_bare :: "pystr \<Rightarrow> pystr list \<Rightarrow> pystr list" where
  "add_bare bare urls =
     (let full = asc ''https://'' @ bare
      in if contains (asc ''..'') bare \<or> full \<in> set urls then urls else urls @ [full])"

definition clean_url :: "pystr \<Rightarrow> pystr" where
  "clean_url u = py_rstrip_chars (asc ''.,;:!?)'') u"

definition extract_urls :: "pystr \<Rightarrow> pystr list" where
  "extract_urls s =
     (if s = [] then []
      else
        let urls = fold add_bare (find_bare False s) (find_spans url_at s)
        in dedup (filter (\<lambda>u. u \<noteq> [] \<and> length u > 8) (map clean_url urls)))"

lemma extract_urls_distinct: "distinct (extract_urls s)"
  by (simp add: extract_urls_def Let_def)

lemma extract_urls_long: "u \<in> set (extract_urls s) \<Longrightarrow> 8 < length u"
  by (auto simp: extract_urls_def Let_def split: if_splits)

text \<open>A link whose host has a subdomain is listed a second time without it: after the dot the search for
  bare domains starts anew.\<close>

lemma subdomain_link_listed_twice:
  "extract_urls (asc ''https://www.example.com/x'') = map asc [''https://www.example.com/x'', ''https://example.com/x'']"
  by code_simp

end
