(* ===== verification/SmppDlr.thy ===== *)
theory SmppDlr
  imports DlrBuffer Dlr UrlExtract
begin

text \<open>
  Delivery reports of the SMPP upstreams, \<open>_process_smpp_dlr_async\<close> and the flush of the retry buffer
  in \<open>backend/app/workers/sms_worker.py\<close>. A report carries the arguments that the buffer stores, so
  \<open>retry_item\<close> serves for both. \<open>dlr_sys\<close> is what the worker sees: the database, the table of water
  configurations, Redis (the buffer and the three families of marks, each key with its expiry time),
  the account caches of the process, and the tasks it has queued, in order. The gateway sends only
  the statuses \<open>sent\<close>, \<open>delivered\<close> and \<open>failed\<close> (\<open>handleDeliverSM\<close> in \<open>go-smpp-gateway/connector.go\<close>).
  The attempts to match a report run in one transaction under MySQL's default isolation, so each of
  them sees the same rows. One call runs at one moment, and Redis is up or down for all of it.
\<close>

record inbound_dlr =
  in_system_id :: pystr
  in_message_id :: pystr
  in_source_addr :: pystr
  in_dest_addr :: pystr
  in_stat :: pystr
  in_err :: pystr
  in_submit_date :: int
  in_done_date :: int
  in_text_preview :: pystr

datatype smpp_call =
    InboundDlr inbound_dlr
  | WebhookTask int pystr sms_status pystr "pystr option" "pystr option" \<comment> \<open>account, message, status, phone, country, error\<close>
  | WaterTask int pystr pystr int int \<comment> \<open>log, text, country, account, channel\<close>

record dlr_sys =
  ds_world :: world
  water_configs :: "(int \<times> bool) list"
  ds_redis :: redis_buffer
  seen_keys :: "int \<times> pystr \<times> sms_status \<rightharpoonup> int"
  unmatched_keys :: "int \<times> pystr \<rightharpoonup> int"
  fx_keys :: "pystr \<times> sms_status \<rightharpoonup> int"
  flush_lock :: "int option"
  webhook_cache :: "int list \<times> int"
  water_cache :: "int list \<times> int"
  ds_calls :: "smpp_call list"

text \<open>The environment variables the worker reads.\<close>

record smpp_cfg =
  match_attempts :: nat
  seen_ttl :: int
  unmatched_ttl :: int
  fx_ttl :: int
  owned_ttl :: int
  orphan_age :: int
  ownership_filter :: bool

definition default_cfg :: smpp_cfg where
  "default_cfg = \<lparr>match_attempts = 3, seen_ttl = 7200, unmatched_ttl = 90, fx_ttl = 7200,
     owned_ttl = 604800, orphan_age = 7200, ownership_filter = False\<rparr>"

definition ds_up :: "dlr_sys \<Rightarrow> bool" where
  "ds_up s = rd_up (ds_redis s)"

definition ds_now :: "dlr_sys \<Rightarrow> int" where
  "ds_now s = now (ds_world s)"

definition live_key :: "int \<Rightarrow> ('k \<rightharpoonup> int) \<Rightarrow> 'k \<Rightarrow> bool" where
  "live_key time m k \<longleftrightarrow> (case m k of None \<Rightarrow> False | Some expiry \<Rightarrow> time < expiry)"

section \<open>Marks\<close>

definition is_terminal :: "sms_status \<Rightarrow> bool" where
  "is_terminal st \<longleftrightarrow> st \<in> {Delivered, Failed}"

definition seen_key :: "retry_item \<Rightarrow> (int \<times> pystr \<times> sms_status) option" where
  "seen_key it =
     (if it_upstream_id it \<noteq> [] \<and> is_terminal (it_new_status it)
      then Some (it_channel_id it, py_strip (it_upstream_id it), it_new_status it) else None)"

definition unmatched_key :: "retry_item \<Rightarrow> (int \<times> pystr) option" where
  "unmatched_key it =
     (if it_upstream_id it \<noteq> [] then Some (it_channel_id it, py_strip (it_upstream_id it)) else None)"

definition mark_seen :: "smpp_cfg \<Rightarrow> retry_item \<Rightarrow> dlr_sys \<Rightarrow> dlr_sys" where
  "mark_seen cfg it s =
     (case seen_key it of
        None \<Rightarrow> s
      | Some k \<Rightarrow> if ds_up s then s\<lparr>seen_keys := (seen_keys s)(k \<mapsto> ds_now s + seen_ttl cfg)\<rparr> else s)"

definition short_circuit :: "bool \<Rightarrow> retry_item \<Rightarrow> dlr_sys \<Rightarrow> bool" where
  "short_circuit from_flush it s \<longleftrightarrow>
     ds_up s
     \<and> ((case seen_key it of None \<Rightarrow> False | Some k \<Rightarrow> live_key (ds_now s) (seen_keys s) k)
        \<or> (\<not> from_flush
           \<and> (case unmatched_key it of None \<Rightarrow> False | Some k \<Rightarrow> live_key (ds_now s) (unmatched_keys s) k)))"

section \<open>Finding the message\<close>

definition expand_id_candidates :: "pystr \<Rightarrow> pystr list" where
  "expand_id_candidates raw =
     (let s = py_strip raw in if s = [] then [] else dedup ([s] @ case_variants s @ radix_variants 1 s))"

definition candidate_ids :: "retry_item \<Rightarrow> pystr list" where
  "candidate_ids it =
     dedup (expand_id_candidates (it_upstream_id it) @ expand_id_candidates (it_receipted_message_id it))"

definition upstream_row :: "world \<Rightarrow> int \<Rightarrow> pystr list \<Rightarrow> sms_log option" where
  "upstream_row w chan cands =
     newest (filter (\<lambda>r. log_channel_id r = Some chan
                         \<and> (case upstream_message_id r of None \<Rightarrow> False | Some u \<Rightarrow> u \<in> set cands)
                         \<and> log_status r \<in> {Sent, Pending, Queued, Delivered, Failed}) (sms_logs w))"

text \<open>The attempts, each on the rows of the same snapshot.\<close>

fun attempts :: "nat \<Rightarrow> 'r option \<Rightarrow> 'r option" where
  "attempts 0 q = None"
| "attempts (Suc n) q = (case q of Some r \<Rightarrow> Some r | None \<Rightarrow> attempts n q)"

text \<open>\<open>ORDER BY sent_time DESC\<close> puts NULL last.\<close>

definition sent_order :: "sms_log \<Rightarrow> bool \<times> int" where
  "sent_order r = (case sent_time r of None \<Rightarrow> (False, 0) | Some t \<Rightarrow> (True, t))"

definition digits :: "pystr \<Rightarrow> pystr" where
  "digits s = filter py_isdigit_char s"

definition number_row :: "world \<Rightarrow> int \<Rightarrow> pystr \<Rightarrow> sms_log option" where
  "number_row w chan d =
     first_row (sort_desc sent_order
       (filter (\<lambda>r. log_channel_id r = Some chan \<and> log_status r \<in> {Sent, Pending, Queued}
                     \<and> (sql_like (37 # d) (phone_number r) \<or> phone_number r = 43 # d)) (sms_logs w)))"

fun number_fallback :: "world \<Rightarrow> int \<Rightarrow> pystr list \<Rightarrow> sms_log option" where
  "number_fallback w chan [] = None"
| "number_fallback w chan (addr # addrs) =
     (let d = digits addr
      in if length d < 8 then number_fallback w chan addrs
         else case number_row w chan d of
                Some r \<Rightarrow> Some r
              | None \<Rightarrow> number_fallback w chan addrs)"

definition match_report :: "smpp_cfg \<Rightarrow> world \<Rightarrow> retry_item \<Rightarrow> sms_log option" where
  "match_report cfg w it =
     (case (if candidate_ids it \<noteq> []
            then attempts (match_attempts cfg) (upstream_row w (it_channel_id it) (candidate_ids it)) else None) of
        Some r \<Rightarrow> Some r
      | None \<Rightarrow> number_fallback w (it_channel_id it) [it_dest_addr it, it_source_addr it])"

section \<open>A report without a message\<close>

definition is_orphan :: "smpp_cfg \<Rightarrow> retry_item \<Rightarrow> dlr_sys \<Rightarrow> bool" where
  "is_orphan cfg it s \<longleftrightarrow>
     it_upstream_id it \<noteq> [] \<and> ds_up s
     \<and> (case owned (ds_redis s) (it_channel_id it, py_strip (it_upstream_id it)) of
          Some (Some expiry) \<Rightarrow>
            ds_now s < expiry \<and> expiry - ds_now s < owned_ttl cfg - orphan_age cfg
        | _ \<Rightarrow> False)"

definition handle_unmatched :: "smpp_cfg \<Rightarrow> retry_item \<Rightarrow> dlr_sys \<Rightarrow> dlr_sys" where
  "handle_unmatched cfg it s =
     (let s1 = (if is_orphan cfg it s then s
                else s\<lparr>ds_redis := snd (buffer_unmatched_dlr (ownership_filter cfg) (ds_now s) it (ds_redis s))\<rparr>)
      in case unmatched_key it of
           None \<Rightarrow> s1
         | Some k \<Rightarrow>
             if ds_up s1 then s1\<lparr>unmatched_keys := (unmatched_keys s1)(k \<mapsto> ds_now s1 + unmatched_ttl cfg)\<rparr>
             else s1)"

section \<open>Follow-up tasks\<close>

definition live_account :: "account \<Rightarrow> bool" where
  "live_account a \<longleftrightarrow> \<not> acc_is_deleted a \<and> acc_status a \<noteq> AccClosed"

definition webhook_ids :: "world \<Rightarrow> int list" where
  "webhook_ids w = map acc_id (filter (\<lambda>a. webhook_url a \<noteq> None \<and> webhook_url a \<noteq> Some [] \<and> live_account a) (accounts w))"

definition account_has_webhook :: "int \<Rightarrow> dlr_sys \<Rightarrow> bool \<times> dlr_sys" where
  "account_has_webhook i s =
     (if i = 0 then (False, s)
      else
        let s1 = (if ds_now s \<ge> snd (webhook_cache s)
                  then s\<lparr>webhook_cache := (webhook_ids (ds_world s), ds_now s + 60)\<rparr> else s)
        in (i \<in> set (fst (webhook_cache s1)), s1))"

definition water_ids :: "dlr_sys \<Rightarrow> int list" where
  "water_ids s =
     map fst (filter (\<lambda>(i, enabled). enabled \<and> list_ex (\<lambda>a. acc_id a = i \<and> live_account a) (accounts (ds_world s)))
                     (water_configs s))"

definition account_has_water_config :: "int \<Rightarrow> dlr_sys \<Rightarrow> bool \<times> dlr_sys" where
  "account_has_water_config i s =
     (if i = 0 then (False, s)
      else
        let s1 = (if ds_now s \<ge> snd (water_cache s)
                  then s\<lparr>water_cache := (water_ids s, ds_now s + 60)\<rparr> else s)
        in (i \<in> set (fst (water_cache s1)), s1))"

definition or_empty :: "pystr option \<Rightarrow> pystr" where
  "or_empty x = (case x of None \<Rightarrow> [] | Some s \<Rightarrow> s)"

definition or_else :: "pystr \<Rightarrow> pystr \<Rightarrow> pystr" where
  "or_else s d = (if s = [] then d else s)"

definition forward_inbound :: "retry_item \<Rightarrow> sms_log \<Rightarrow> dlr_sys \<Rightarrow> dlr_sys" where
  "forward_inbound it r s =
     (case account_by_id (ds_world s) (log_account_id r) of
        None \<Rightarrow> s
      | Some a \<Rightarrow>
          (if acc_protocol a = AccSMPP \<and> or_empty (smpp_system_id a) \<noteq> [] then
             s\<lparr>ds_calls := ds_calls s @ [InboundDlr
                \<lparr>in_system_id = or_empty (smpp_system_id a), in_message_id = message_id r,
                 in_source_addr = it_source_addr it,
                 in_dest_addr = or_else (it_dest_addr it) (phone_number r),
                 in_stat = it_stat it, in_err = or_else (it_err it) (asc ''000''),
                 in_submit_date = submit_time r,
                 in_done_date = (case delivery_time r of None \<Rightarrow> ds_now s | Some t \<Rightarrow> t),
                 in_text_preview = take 20 (or_empty (message r))\<rparr>]\<rparr>
           else s))"

definition queue_webhook :: "retry_item \<Rightarrow> sms_log \<Rightarrow> dlr_sys \<Rightarrow> dlr_sys" where
  "queue_webhook it r s =
     (let (has, s1) = account_has_webhook (log_account_id r) s
      in if has then
           s1\<lparr>ds_calls := ds_calls s1 @ [WebhookTask (log_account_id r) (message_id r) (it_new_status it)
                (phone_number r) (log_country_code r) (log_error_message r)]\<rparr>
         else s1)"

definition queue_water :: "retry_item \<Rightarrow> sms_log \<Rightarrow> dlr_sys \<Rightarrow> dlr_sys" where
  "queue_water it r s =
     (if it_new_status it = Delivered \<and> log_account_id r \<noteq> 0
         \<and> extract_urls (or_empty (message r)) \<noteq> [] then
        (let (has, s1) = account_has_water_config (log_account_id r) s
         in if has then
              s1\<lparr>ds_calls := ds_calls s1 @ [WaterTask (log_id r) (or_empty (message r))
                   (or_empty (log_country_code r)) (log_account_id r)
                   (case log_channel_id r of None \<Rightarrow> 0 | Some c \<Rightarrow> c)]\<rparr>
            else s1)
      else s)"

definition dispatch :: "retry_item \<Rightarrow> sms_log \<Rightarrow> dlr_sys \<Rightarrow> dlr_sys" where
  "dispatch it r s = queue_water it r (queue_webhook it r (forward_inbound it r s))"

section \<open>A report with a message\<close>

definition smpp_update :: "retry_item \<Rightarrow> int \<Rightarrow> sms_log \<Rightarrow> sms_log" where
  "smpp_update it time r =
     (let r1 = r\<lparr>log_status := it_new_status it\<rparr>;
          r2 = (if it_new_status it = Delivered then r1\<lparr>delivery_time := Some time, log_error_message := None\<rparr>
                else if it_new_status it = Failed then
                  r1\<lparr>log_error_message := Some (asc ''SMPP DLR: stat='' @ it_stat it @ asc '' err='' @ it_err it)\<rparr>
                else r1)
      in if it_upstream_id it \<noteq> [] \<and> or_empty (upstream_message_id r2) \<noteq> py_strip (it_upstream_id it)
         then r2\<lparr>upstream_message_id := Some (py_strip (it_upstream_id it))\<rparr> else r2)"

text \<open>\<open>SET dlr_fx NX EX\<close>: whether this is the first report of this status for the message.\<close>

definition claim_effects :: "smpp_cfg \<Rightarrow> pystr \<times> sms_status \<Rightarrow> dlr_sys \<Rightarrow> bool \<times> dlr_sys" where
  "claim_effects cfg k s =
     (if ds_up s \<and> \<not> live_key (ds_now s) (fx_keys s) k
      then (True, s\<lparr>fx_keys := (fx_keys s)(k \<mapsto> ds_now s + fx_ttl cfg)\<rparr>) else (False, s))"

definition handle_matched :: "smpp_cfg \<Rightarrow> retry_item \<Rightarrow> sms_log \<Rightarrow> dlr_sys \<Rightarrow> dlr_sys" where
  "handle_matched cfg it r s =
     (if is_terminal (log_status r) \<and> is_terminal (it_new_status it) \<and> log_status r \<noteq> it_new_status it
      then mark_seen cfg it s
      else
        let r' = (if log_status r = it_new_status it then r else smpp_update it (ds_now s) r);
            s1 = s\<lparr>ds_world := set_log (log_id r) (\<lambda>_. r') (ds_world s)\<rparr>;
            (first, s2) = claim_effects cfg (message_id r', it_new_status it) s1;
            s3 = mark_seen cfg it s2
        in if first then dispatch it r' s3 else s3)"

definition process_smpp_dlr :: "smpp_cfg \<Rightarrow> bool \<Rightarrow> retry_item \<Rightarrow> dlr_sys \<Rightarrow> bool \<times> dlr_sys" where
  "process_smpp_dlr cfg from_flush it s =
     (if short_circuit from_flush it s then (True, s)
      else case match_report cfg (ds_world s) it of
             None \<Rightarrow> (False, handle_unmatched cfg it s)
           | Some r \<Rightarrow> (True, handle_matched cfg it r s))"

section \<open>Flushing the buffer\<close>

definition flush_item :: "smpp_cfg \<Rightarrow> retry_key \<times> retry_item \<Rightarrow> dlr_sys \<Rightarrow> dlr_sys" where
  "flush_item cfg ki s =
     (let (matched, s1) = process_smpp_dlr cfg True (snd ki) s
      in if matched then s1\<lparr>ds_redis := remove_retry_item (fst ki) (ds_redis s1)\<rparr>
         else s1\<lparr>ds_redis := increment_retry_count (fst ki) (snd ki) (ds_redis s1)\<rparr>)"

text \<open>\<open>n\<close> is the number of reports the time budget allows. Without Redis the lock raises.\<close>

definition flush_dlr_retry_buffer :: "smpp_cfg \<Rightarrow> nat \<Rightarrow> dlr_sys \<Rightarrow> dlr_sys" where
  "flush_dlr_retry_buffer cfg n s =
     (if \<not> ds_up s \<or> (case flush_lock s of None \<Rightarrow> False | Some expiry \<Rightarrow> ds_now s < expiry) then s
      else
        let s1 = s\<lparr>flush_lock := Some (ds_now s + 30)\<rparr>;
            s2 = s1\<lparr>ds_redis := snd (cleanup_expired (ds_now s1) (ds_redis s1))\<rparr>
        in (if retry_buffer_size (ds_redis s2) \<le> 0 then s2
            else
              let (items, b) = pop_retry_buffer (ds_now s2) 50 (ds_redis s2)
              in fold (flush_item cfg) (take n items) (s2\<lparr>ds_redis := b\<rparr>))\<lparr>flush_lock := None\<rparr>)"

section \<open>Frames\<close>

lemma mark_seen_frame [simp]:
  "ds_world (mark_seen cfg it s) = ds_world s" "ds_calls (mark_seen cfg it s) = ds_calls s"
  "ds_redis (mark_seen cfg it s) = ds_redis s" "fx_keys (mark_seen cfg it s) = fx_keys s"
  by (simp_all add: mark_seen_def split: option.split)

lemma handle_unmatched_frame [simp]:
  "ds_world (handle_unmatched cfg it s) = ds_world s" "ds_calls (handle_unmatched cfg it s) = ds_calls s"
  "fx_keys (handle_unmatched cfg it s) = fx_keys s"
  by (simp_all add: handle_unmatched_def Let_def split: option.split)

lemma caches_frame [simp]:
  "ds_world (snd (account_has_webhook i s)) = ds_world s" "ds_calls (snd (account_has_webhook i s)) = ds_calls s"
  "ds_redis (snd (account_has_webhook i s)) = ds_redis s" "fx_keys (snd (account_has_webhook i s)) = fx_keys s"
  "ds_world (snd (account_has_water_config i s)) = ds_world s" "ds_calls (snd (account_has_water_config i s)) = ds_calls s"
  "ds_redis (snd (account_has_water_config i s)) = ds_redis s" "fx_keys (snd (account_has_water_config i s)) = fx_keys s"
  by (simp_all add: account_has_webhook_def account_has_water_config_def Let_def)

lemma forward_inbound_frame [simp]:
  "ds_world (forward_inbound it r s) = ds_world s" "ds_redis (forward_inbound it r s) = ds_redis s"
  "fx_keys (forward_inbound it r s) = fx_keys s"
  by (simp_all add: forward_inbound_def split: option.split)

lemma queue_frame [simp]:
  "ds_world (queue_webhook it r s) = ds_world s" "ds_redis (queue_webhook it r s) = ds_redis s"
  "fx_keys (queue_webhook it r s) = fx_keys s"
  "ds_world (queue_water it r s) = ds_world s" "ds_redis (queue_water it r s) = ds_redis s"
  "fx_keys (queue_water it r s) = fx_keys s"
  by (simp_all add: queue_webhook_def queue_water_def case_prod_beta)

lemma dispatch_frame [simp]:
  "ds_world (dispatch it r s) = ds_world s" "ds_redis (dispatch it r s) = ds_redis s"
  "fx_keys (dispatch it r s) = fx_keys s"
  by (simp_all add: dispatch_def)

lemma claim_effects_frame [simp]:
  "ds_world (snd (claim_effects cfg k s)) = ds_world s" "ds_calls (snd (claim_effects cfg k s)) = ds_calls s"
  "ds_redis (snd (claim_effects cfg k s)) = ds_redis s"
  by (simp_all add: claim_effects_def)

lemma match_report_in: "match_report cfg w it = Some r \<Longrightarrow> r \<in> set (sms_logs w)"
proof -
  have at: "attempts n q = Some r \<Longrightarrow> q = Some r" for n and q :: "sms_log option"
    by (induction n) (auto split: option.splits)
  have num: "number_fallback w c addrs = Some r \<Longrightarrow> r \<in> set (sms_logs w)" for c addrs
  proof (induction addrs)
    case (Cons a addrs)
    have "number_row w c d = Some r \<Longrightarrow> r \<in> set (sms_logs w)" for d
      by (auto simp: number_row_def first_row_def split: list.splits
          dest!: arg_cong [where f = set])
    with Cons show ?case by (auto simp: Let_def split: if_splits option.splits)
  qed simp
  show "match_report cfg w it = Some r \<Longrightarrow> r \<in> set (sms_logs w)"
    by (auto simp: match_report_def upstream_row_def simp del: number_fallback.simps dest!: at num newest_in split: option.splits if_splits)
qed

lemma smpp_update_keys [simp]:
  "log_id (smpp_update it t r) = log_id r" "message_id (smpp_update it t r) = message_id r"
  "log_status (smpp_update it t r) = it_new_status it"
  "log_account_id (smpp_update it t r) = log_account_id r"
  "refunded_at (smpp_update it t r) = refunded_at r" "refunded_amount (smpp_update it t r) = refunded_amount r"
  by (simp_all add: smpp_update_def Let_def)

lemma handle_matched_world:
  "ds_world (handle_matched cfg it r s) = ds_world s
   \<or> ds_world (handle_matched cfg it r s) =
       set_log (log_id r) (\<lambda>_. if log_status r = it_new_status it then r else smpp_update it (ds_now s) r) (ds_world s)
     \<and> \<not> (is_terminal (log_status r) \<and> is_terminal (it_new_status it) \<and> log_status r \<noteq> it_new_status it)"
  by (auto simp: handle_matched_def Let_def case_prod_beta ds_now_def)

lemma set_log_wf: 
  assumes "log_id r' = i"
  shows "wf_world (set_log i (\<lambda>_. r') w) = wf_world w"
proof -
  have "map log_id (upd_where (\<lambda>r. log_id r = i) (\<lambda>_. r') ls) = map log_id ls" for ls
    using assms by (induction ls) auto
  then show ?thesis by (simp add: set_log_def wf_world_sms_logs)
qed

lemma log_by_id_set_const:
  assumes "log_id r' = i"
  shows "log_by_id (set_log i (\<lambda>_. r') w) j = map_option (\<lambda>r. if j = i then r' else r) (log_by_id w j)"
proof -
  have "find (\<lambda>r. log_id r = j) (upd_where (\<lambda>r. log_id r = i) (\<lambda>_. r') ls)
      = map_option (\<lambda>r. if j = i then r' else r) (find (\<lambda>r. log_id r = j) ls)" for ls
    using assms by (induction ls) auto
  then show ?thesis by (simp add: log_by_id_def set_log_def)
qed

section \<open>A terminal status is final\<close>

text \<open>One run of a report task, of the flush, and what happens around them. The reports of the tasks
  are of terminal status.\<close>

inductive smpp_step :: "smpp_cfg \<Rightarrow> dlr_sys \<Rightarrow> dlr_sys \<Rightarrow> bool" for cfg where
  task: "is_terminal (it_new_status it) \<Longrightarrow> process_smpp_dlr cfg False it s = (b, s') \<Longrightarrow> smpp_step cfg s s'"
| flush: "smpp_step cfg s (flush_dlr_retry_buffer cfg n s)"
| tick: "ds_now s \<le> t \<Longrightarrow> smpp_step cfg s (s\<lparr>ds_world := (ds_world s)\<lparr>now := t\<rparr>\<rparr>)"
| outage: "smpp_step cfg s (s\<lparr>ds_redis := (ds_redis s)\<lparr>rd_up := up\<rparr>\<rparr>)"

inductive_cases smpp_stepE: "smpp_step cfg s s'"

definition terminal_items :: "redis_buffer \<Rightarrow> bool" where
  "terminal_items b \<longleftrightarrow> (\<forall>kv \<in> set (retry_hash b). is_terminal (it_new_status (snd kv)))"

definition terminal_buffer :: "dlr_sys \<Rightarrow> bool" where
  "terminal_buffer s \<longleftrightarrow> terminal_items (ds_redis s)"

lemma terminal_items_simps [simp]:
  "terminal_items (zrem ks b) = terminal_items b" "terminal_items (zadd_nx k t b) = terminal_items b"
  "terminal_items b \<Longrightarrow> terminal_items (hdel ks b)"
  by (auto simp: terminal_items_def zrem_def zadd_nx_def hdel_def)

lemma terminal_items_hset:
  assumes b: "terminal_items b" and v: "is_terminal (it_new_status v)"
  shows "terminal_items (hset k v b)"
  unfolding terminal_items_def
proof
  fix kv assume "kv \<in> set (retry_hash (hset k v b))"
  then have "snd kv = v \<or> kv \<in> set (retry_hash b)" using hset_values [of "fst kv" "snd kv" k v b] by simp
  then show "is_terminal (it_new_status (snd kv))" using b v by (auto simp: terminal_items_def)
qed

definition keeps_rows :: "dlr_sys \<Rightarrow> dlr_sys \<Rightarrow> bool" where
  "keeps_rows s s' \<longleftrightarrow>
     wf_world (ds_world s')
     \<and> (\<forall>i r. log_by_id (ds_world s) i = Some r \<longrightarrow> is_terminal (log_status r)
              \<longrightarrow> log_by_id (ds_world s') i = Some r)"

lemma keeps_rows_refl: "wf_world (ds_world s) \<Longrightarrow> keeps_rows s s"
  by (simp add: keeps_rows_def)

lemma keeps_rows_trans: "keeps_rows s t \<Longrightarrow> keeps_rows t u \<Longrightarrow> keeps_rows s u"
  by (simp add: keeps_rows_def)

lemma keeps_rows_same: "wf_world (ds_world s) \<Longrightarrow> ds_world s' = ds_world s \<Longrightarrow> keeps_rows s s'"
  by (simp add: keeps_rows_def)

lemma handle_matched_keeps:
  assumes wf: "wf_world (ds_world s)" and r: "r \<in> set (sms_logs (ds_world s))"
    and t: "is_terminal (it_new_status it)"
  shows "keeps_rows s (handle_matched cfg it r s)"
  using handle_matched_world [of cfg it r s]
proof
  assume "ds_world (handle_matched cfg it r s) = ds_world s"
  then show ?thesis using wf by (simp add: keeps_rows_def)
next
  let ?r = "if log_status r = it_new_status it then r else smpp_update it (ds_now s) r"
  assume a: "ds_world (handle_matched cfg it r s) = set_log (log_id r) (\<lambda>_. ?r) (ds_world s)
     \<and> \<not> (is_terminal (log_status r) \<and> is_terminal (it_new_status it) \<and> log_status r \<noteq> it_new_status it)"
  have id: "log_id ?r = log_id r" by simp
  have own: "log_by_id (ds_world s) (log_id r) = Some r"
    unfolding log_by_id_def using find_distinct_key [of log_id _ r] wf r by (simp add: wf_world_def)
  show ?thesis
    unfolding keeps_rows_def conjunct1 [OF a] set_log_wf [OF id] log_by_id_set_const [OF id]
    using wf own conjunct2 [OF a] t by auto
qed

lemma process_keeps:
  assumes wf: "wf_world (ds_world s)" and t: "is_terminal (it_new_status it)"
  shows "keeps_rows s (snd (process_smpp_dlr cfg ff it s))"
  using handle_matched_keeps [OF wf match_report_in t]
  by (auto simp: process_smpp_dlr_def keeps_rows_same [OF wf] split: option.split)

lemma buffer_terminal:
  assumes t: "is_terminal (it_new_status it)" and b: "terminal_items b"
  shows "terminal_items (snd (buffer_unmatched_dlr flt u it b))"
    and "terminal_items (increment_retry_count j it b)"
    and "terminal_items (remove_retry_item j b)"
  using terminal_items_hset [OF b, of "it\<lparr>it_first_seen := u, it_retry_count := 0\<rparr>"]
    terminal_items_hset [OF b, of "it\<lparr>it_retry_count := it_retry_count it + 1\<rparr>"] t b
  by (simp_all add: buffer_unmatched_dlr_def increment_retry_count_def remove_retry_item_def Let_def hsetnx_def)

lemma process_buffer:
  assumes t: "is_terminal (it_new_status it)" and b: "terminal_buffer s"
  shows "terminal_buffer (snd (process_smpp_dlr cfg ff it s))"
proof -
  have "ds_redis (handle_matched cfg it r s) = ds_redis s" for r
    by (simp add: handle_matched_def Let_def case_prod_beta)
  moreover have "ds_redis (handle_unmatched cfg it s) = ds_redis s
     \<or> ds_redis (handle_unmatched cfg it s) = snd (buffer_unmatched_dlr (ownership_filter cfg) (ds_now s) it (ds_redis s))"
    by (simp add: handle_unmatched_def Let_def split: option.split)
  ultimately show ?thesis
    using b buffer_terminal(1) [OF t, of "ds_redis s" "ownership_filter cfg" "ds_now s"]
    unfolding process_smpp_dlr_def terminal_buffer_def by (auto split: option.split)
qed

lemma flush_item_keeps:
  assumes wf: "wf_world (ds_world s)" and b: "terminal_buffer s" and t: "is_terminal (it_new_status (snd ki))"
  shows "keeps_rows s (flush_item cfg ki s) \<and> terminal_buffer (flush_item cfg ki s)"
proof -
  let ?p = "process_smpp_dlr cfg True (snd ki) s"
  have k: "keeps_rows s (snd ?p)" and tb: "terminal_buffer (snd ?p)"
    using process_keeps [OF wf t] process_buffer [OF t b] by auto
  have "ds_world (flush_item cfg ki s) = ds_world (snd ?p)"
    by (simp add: flush_item_def case_prod_beta)
  moreover have "terminal_buffer (flush_item cfg ki s)"
    using tb buffer_terminal(2,3) [OF t] by (simp add: flush_item_def case_prod_beta terminal_buffer_def)
  ultimately show ?thesis using k by (simp add: keeps_rows_def)
qed

lemma flush_items_keep:
  assumes "wf_world (ds_world s)" and "terminal_buffer s"
    and "\<forall>kv \<in> set items. is_terminal (it_new_status (snd kv))"
  shows "keeps_rows s (fold (flush_item cfg) items s) \<and> terminal_buffer (fold (flush_item cfg) items s)"
  using assms
proof (induction items arbitrary: s)
  case (Cons ki items)
  then have "keeps_rows s (flush_item cfg ki s) \<and> terminal_buffer (flush_item cfg ki s)"
    by (intro flush_item_keeps) auto
  then show ?case using Cons.IH [of "flush_item cfg ki s"] Cons.prems(3) keeps_rows_trans
    by (auto simp: keeps_rows_def)
qed (simp add: keeps_rows_refl)

lemma pop_items_terminal:
  assumes "terminal_items b" and "pop_retry_buffer t n b = (items, b')"
  shows "terminal_items b' \<and> (\<forall>kv \<in> set items. is_terminal (it_new_status (snd kv)))"
proof -
  have fold: "retry_hash (fold (\<lambda>(k, _) u. zadd_nx k x u) its b) = retry_hash b" for x its and b :: redis_buffer
    by (induction its arbitrary: b) (auto simp: zadd_nx_def)
  have vals: "(k, v) \<in> set (fst (pop_fields ks b)) \<Longrightarrow> is_terminal (it_new_status v)" for k v ks
    using pop_fields_values [of k v ks b] assms(1) map_of_SomeD [of "retry_hash b" k v]
    by (auto simp: terminal_items_def hget_def)
  have "terminal_items b'"
    using assms pop_fields_hash [of "zrange n b" b]
    by (auto simp: pop_retry_buffer_def Let_def terminal_items_def fold split: if_splits)
  moreover have "\<forall>kv \<in> set items. is_terminal (it_new_status (snd kv))"
  proof
    fix kv assume kv: "kv \<in> set items"
    show "is_terminal (it_new_status (snd kv))"
    proof (cases "rd_up b \<and> zrange n b \<noteq> []")
      case True
      with assms(2) kv have "(fst kv, snd kv) \<in> set (fst (pop_fields (zrange n b) b))"
        by (simp add: pop_retry_buffer_def Let_def)
      then show ?thesis by (rule vals)
    next
      case False
      with assms kv show ?thesis
        by (auto simp: pop_retry_buffer_def Let_def terminal_items_def dest: in_set_takeD split: if_splits)
    qed
  qed
  ultimately show ?thesis by blast
qed

lemma cleanup_terminal: "terminal_items b \<Longrightarrow> terminal_items (snd (cleanup_expired t b))"
  by (simp add: cleanup_expired_def Let_def)

lemma flush_keeps:
  assumes wf: "wf_world (ds_world s)" and b: "terminal_buffer s"
  shows "keeps_rows s (flush_dlr_retry_buffer cfg n s) \<and> terminal_buffer (flush_dlr_retry_buffer cfg n s)"
proof -
  let ?s1 = "s\<lparr>flush_lock := Some (ds_now s + 30)\<rparr>"
  let ?s2 = "?s1\<lparr>ds_redis := snd (cleanup_expired (ds_now ?s1) (ds_redis ?s1))\<rparr>"
  obtain items c where p: "pop_retry_buffer (ds_now ?s2) 50 (ds_redis ?s2) = (items, c)" by fastforce
  have t2: "terminal_items (ds_redis ?s2)" using b cleanup_terminal by (simp add: terminal_buffer_def)
  from pop_items_terminal [OF this p]
  have c: "terminal_items c" "\<forall>kv \<in> set (take n items). is_terminal (it_new_status (snd kv))"
    by (auto dest: in_set_takeD)
  have "keeps_rows (?s2\<lparr>ds_redis := c\<rparr>) (fold (flush_item cfg) (take n items) (?s2\<lparr>ds_redis := c\<rparr>))
      \<and> terminal_buffer (fold (flush_item cfg) (take n items) (?s2\<lparr>ds_redis := c\<rparr>))"
    using wf c by (intro flush_items_keep) (simp_all add: terminal_buffer_def)
  then show ?thesis
    using wf b t2 p
    by (simp add: flush_dlr_retry_buffer_def Let_def keeps_rows_def terminal_buffer_def)
qed

lemma smpp_step_keeps:
  assumes "smpp_step cfg s s'" and wf: "wf_world (ds_world s)" and b: "terminal_buffer s"
  shows "keeps_rows s s' \<and> terminal_buffer s'"
  using assms(1)
proof cases
  case (task it x)
  then show ?thesis using process_keeps [OF wf] process_buffer [OF _ b] by (metis snd_conv)
next
  case (flush n)
  then show ?thesis using flush_keeps [OF wf b] by simp
qed (use wf b in \<open>auto simp: keeps_rows_def terminal_buffer_def terminal_items_def wf_world_def log_by_id_def\<close>)

text \<open>C31: Once an SMPP report has made a message delivered or failed, no later or repeated report of a
  terminal status, direct or from the retry buffer, in any order and through outages of Redis, changes
  anything of that message.\<close>

theorem terminal_status_final:
  assumes run: "(smpp_step cfg)\<^sup>*\<^sup>* s s'" and wf: "wf_world (ds_world s)" and b: "terminal_buffer s"
    and r: "log_by_id (ds_world s) i = Some r" "is_terminal (log_status r)"
  shows "log_by_id (ds_world s') i = Some r"
proof -
  from run have "keeps_rows s s' \<and> terminal_buffer s'"
  proof (induction rule: rtranclp_induct)
    case (step t u)
    then have "wf_world (ds_world t)" by (simp add: keeps_rows_def)
    with step show ?case using smpp_step_keeps keeps_rows_trans by blast
  qed (simp add: keeps_rows_refl [OF wf] b)
  with r show ?thesis by (simp add: keeps_rows_def)
qed

section \<open>Customers hear of a status once\<close>

definition webhooks :: "pystr \<Rightarrow> sms_status \<Rightarrow> smpp_call list \<Rightarrow> nat" where
  "webhooks mid st calls =
     length (filter (\<lambda>c. case c of WebhookTask _ m s _ _ _ \<Rightarrow> m = mid \<and> s = st | _ \<Rightarrow> False) calls)"

text \<open>Since \<open>t0\<close> a webhook has been queued at most once, and then its mark is set for the whole TTL.\<close>

definition marked_once :: "smpp_cfg \<Rightarrow> int \<Rightarrow> dlr_sys \<Rightarrow> bool" where
  "marked_once cfg t0 s \<longleftrightarrow> t0 \<le> ds_now s \<and>
     (\<forall>mid st. webhooks mid st (ds_calls s) \<le> 1
        \<and> (webhooks mid st (ds_calls s) = 1 \<longrightarrow>
             (\<exists>e. fx_keys s (mid, st) = Some e \<and> t0 + fx_ttl cfg \<le> e)))"

lemma webhooks_dispatch:
  "webhooks mid st (ds_calls (dispatch it r s))
     \<le> webhooks mid st (ds_calls s) + (if (mid, st) = (message_id r, it_new_status it) then 1 else 0)"
proof -
  have fwd: "webhooks mid st (ds_calls (forward_inbound it r s)) = webhooks mid st (ds_calls s)" for s
    by (simp add: forward_inbound_def webhooks_def split: option.split)
  have wat: "webhooks mid st (ds_calls (queue_water it r s)) = webhooks mid st (ds_calls s)" for s
    by (simp add: queue_water_def webhooks_def case_prod_beta)
  have "webhooks mid st (ds_calls (queue_webhook it r s))
      \<le> webhooks mid st (ds_calls s) + (if (mid, st) = (message_id r, it_new_status it) then 1 else 0)" for s
    by (simp add: queue_webhook_def webhooks_def case_prod_beta)
  from this [of "forward_inbound it r s"] show ?thesis by (simp add: dispatch_def wat fwd)
qed

lemma now_set_log [simp]: "now (set_log i f w) = now w"
  by (simp add: set_log_def)

lemma handle_matched_once:
  assumes inv: "marked_once cfg t0 s" and soon: "ds_now s < t0 + fx_ttl cfg"
  shows "marked_once cfg t0 (handle_matched cfg it r s)"
proof (cases "is_terminal (log_status r) \<and> is_terminal (it_new_status it) \<and> log_status r \<noteq> it_new_status it")
  case True
  then have "handle_matched cfg it r s = mark_seen cfg it s" by (simp add: handle_matched_def)
  then show ?thesis using inv by (simp add: marked_once_def ds_now_def)
next
  case False
  let ?r = "if log_status r = it_new_status it then r else smpp_update it (ds_now s) r"
  let ?s1 = "s\<lparr>ds_world := set_log (log_id r) (\<lambda>_. ?r) (ds_world s)\<rparr>"
  let ?k = "(message_id ?r, it_new_status it)"
  have eq: "handle_matched cfg it r s =
      (if fst (claim_effects cfg ?k ?s1) then dispatch it ?r (mark_seen cfg it (snd (claim_effects cfg ?k ?s1)))
       else mark_seen cfg it (snd (claim_effects cfg ?k ?s1)))"
    unfolding handle_matched_def Let_def case_prod_beta by (simp only: if_not_P [OF False] cong: if_cong)
  have now: "ds_now ?s1 = ds_now s" by (simp add: ds_now_def)
  show ?thesis
  proof (cases "ds_up s \<and> \<not> live_key (ds_now s) (fx_keys s) ?k")
    case no: False
    then have "claim_effects cfg ?k ?s1 = (False, ?s1)"
      by (auto simp: claim_effects_def ds_up_def ds_now_def)
    then show ?thesis using inv by (simp add: eq marked_once_def ds_now_def)
  next
    case yes: True
    let ?s2 = "?s1\<lparr>fx_keys := (fx_keys s)(?k \<mapsto> ds_now s + fx_ttl cfg)\<rparr>"
    have claim: "claim_effects cfg ?k ?s1 = (True, ?s2)"
      using yes by (simp add: claim_effects_def ds_up_def ds_now_def)
    have "webhooks (message_id ?r) (it_new_status it) (ds_calls s) \<noteq> 1"
    proof
      assume "webhooks (message_id ?r) (it_new_status it) (ds_calls s) = 1"
      then obtain e where "fx_keys s ?k = Some e" "t0 + fx_ttl cfg \<le> e" using inv unfolding marked_once_def by blast
      with soon yes show False by (simp add: live_key_def)
    qed
    then have zero: "webhooks (message_id ?r) (it_new_status it) (ds_calls s) = 0"
      using inv unfolding marked_once_def by (metis le_neq_implies_less less_one)
    have calls: "webhooks mid st (ds_calls (handle_matched cfg it r s))
        \<le> webhooks mid st (ds_calls s) + (if (mid, st) = ?k then 1 else 0)" for mid st
      using webhooks_dispatch [of mid st it ?r "mark_seen cfg it ?s2"]
      unfolding eq claim fst_conv snd_conv if_True mark_seen_frame(2) by simp
    have keys: "fx_keys (handle_matched cfg it r s) = (fx_keys s)(?k \<mapsto> ds_now s + fx_ttl cfg)"
      by (simp add: eq claim)
    have "t0 \<le> ds_now (handle_matched cfg it r s)" using inv by (simp add: eq claim marked_once_def ds_now_def)
    moreover have "webhooks mid st (ds_calls (handle_matched cfg it r s)) \<le> 1
        \<and> (webhooks mid st (ds_calls (handle_matched cfg it r s)) = 1 \<longrightarrow>
             (\<exists>e. fx_keys (handle_matched cfg it r s) (mid, st) = Some e \<and> t0 + fx_ttl cfg \<le> e))" for mid st
    proof (cases "(mid, st) = ?k")
      case True
      then show ?thesis using calls [of mid st] zero inv by (auto simp: keys marked_once_def)
    next
      case other: False
      have "webhooks mid st (ds_calls (handle_matched cfg it r s)) \<le> webhooks mid st (ds_calls s)"
        using calls [of mid st] unfolding if_not_P [OF other] by simp
      moreover have "webhooks mid st (ds_calls s) \<le> 1
          \<and> (webhooks mid st (ds_calls s) = 1 \<longrightarrow> (\<exists>e. fx_keys s (mid, st) = Some e \<and> t0 + fx_ttl cfg \<le> e))"
        using inv unfolding marked_once_def by blast
      ultimately show ?thesis using other unfolding keys
        by (metis fun_upd_apply le_antisym le_trans)
    qed
    ultimately show ?thesis unfolding marked_once_def by blast
  qed
qed

lemma marked_once_same:
  "ds_calls s' = ds_calls s \<Longrightarrow> fx_keys s' = fx_keys s \<Longrightarrow> ds_world s' = ds_world s
     \<Longrightarrow> marked_once cfg t0 s' = marked_once cfg t0 s"
  by (simp add: marked_once_def ds_now_def)

lemma process_once:
  assumes "marked_once cfg t0 s" and "ds_now s < t0 + fx_ttl cfg"
  shows "marked_once cfg t0 (snd (process_smpp_dlr cfg ff it s))"
  using assms handle_matched_once [OF assms] marked_once_same [of "handle_unmatched cfg it s" s]
  by (simp add: process_smpp_dlr_def split: option.split)

lemma handle_matched_now [simp]: "now (ds_world (handle_matched cfg it r s)) = now (ds_world s)"
  using handle_matched_world [of cfg it r s] by auto

lemma process_now: "ds_now (snd (process_smpp_dlr cfg ff it s)) = ds_now s"
  by (simp add: process_smpp_dlr_def ds_now_def split: option.split)

lemma flush_item_once:
  assumes "marked_once cfg t0 s" and "ds_now s < t0 + fx_ttl cfg"
  shows "marked_once cfg t0 (flush_item cfg ki s) \<and> ds_now (flush_item cfg ki s) = ds_now s"
proof -
  have "ds_calls (flush_item cfg ki s) = ds_calls (snd (process_smpp_dlr cfg True (snd ki) s))"
    "fx_keys (flush_item cfg ki s) = fx_keys (snd (process_smpp_dlr cfg True (snd ki) s))"
    "ds_world (flush_item cfg ki s) = ds_world (snd (process_smpp_dlr cfg True (snd ki) s))"
    by (simp_all add: flush_item_def case_prod_beta)
  then show ?thesis
    using process_once [OF assms] process_now marked_once_same unfolding ds_now_def by metis
qed

lemma flush_items_once:
  assumes "marked_once cfg t0 s" and "ds_now s < t0 + fx_ttl cfg"
  shows "marked_once cfg t0 (fold (flush_item cfg) items s) \<and> ds_now (fold (flush_item cfg) items s) = ds_now s"
  using assms
proof (induction items arbitrary: s)
  case (Cons ki items)
  with flush_item_once [OF Cons.prems, of ki] show ?case by simp
qed simp

lemma flush_once:
  assumes "marked_once cfg t0 s" and "ds_now s < t0 + fx_ttl cfg"
  shows "marked_once cfg t0 (flush_dlr_retry_buffer cfg n s) \<and> ds_now (flush_dlr_retry_buffer cfg n s) = ds_now s"
proof -
  have go: "marked_once cfg t0 (fold (flush_item cfg) items s') \<and> ds_now (fold (flush_item cfg) items s') = ds_now s"
    if "ds_calls s' = ds_calls s" "fx_keys s' = fx_keys s" "ds_world s' = ds_world s" for items s'
    using flush_items_once [of cfg t0 s' items] assms marked_once_same [OF that, of cfg t0] that(3)
    by (simp add: ds_now_def)
  have lock: "marked_once cfg t0 (u\<lparr>flush_lock := l\<rparr>) = marked_once cfg t0 u" "ds_now (u\<lparr>flush_lock := l\<rparr>) = ds_now u"
    for u l by (simp_all add: marked_once_def ds_now_def)
  have redis: "marked_once cfg t0 (u\<lparr>ds_redis := b\<rparr>) = marked_once cfg t0 u" "ds_now (u\<lparr>ds_redis := b\<rparr>) = ds_now u"
    for u b by (simp_all add: marked_once_def ds_now_def)
  show ?thesis
    using assms go by (simp add: flush_dlr_retry_buffer_def Let_def case_prod_beta lock redis)
qed

lemma smpp_step_time: "smpp_step cfg s s' \<Longrightarrow> marked_once cfg t0 s \<Longrightarrow> ds_now s < t0 + fx_ttl cfg \<Longrightarrow>
    marked_once cfg t0 s' \<and> ds_now s \<le> ds_now s'"
proof (erule smpp_step.cases, goal_cases)
  case (1 it s b s')
  then show ?case using process_once [of cfg t0 s False it] process_now [of cfg False it s] by simp
next
  case (2 s n)
  then show ?case using flush_once by fastforce
qed (auto simp: marked_once_def ds_now_def)

lemma smpp_step_later: "smpp_step cfg s s' \<Longrightarrow> ds_now s \<le> ds_now s'"
proof (erule smpp_step.cases, goal_cases)
  case (1 it s b s')
  then show ?case using process_now [of cfg False it s] by simp
next
  case (2 s n)
  have items: "ds_now (fold (flush_item cfg) items u) = ds_now u" for items u
  proof (induction items arbitrary: u)
    case (Cons ki items)
    have "ds_now (flush_item cfg ki u) = ds_now u"
      using process_now [of cfg True "snd ki" u] by (simp add: flush_item_def ds_now_def case_prod_beta)
    with Cons show ?case by simp
  qed simp
  have "ds_now (flush_dlr_retry_buffer cfg n s) = ds_now s"
    using items unfolding ds_now_def by (simp add: flush_dlr_retry_buffer_def Let_def case_prod_beta)
  with 2 show ?case by simp
qed (auto simp: ds_now_def)

text \<open>C32: As long as the marks last, a customer's webhook is called at most once for a status of a message,
  however often the upstream repeats its report, whatever the buffer replays, and through outages of
  Redis.\<close>

theorem webhook_once:
  assumes run: "(smpp_step cfg)\<^sup>*\<^sup>* s s'" and fresh: "ds_calls s = []"
    and soon: "ds_now s' < ds_now s + fx_ttl cfg"
  shows "webhooks mid st (ds_calls s') \<le> 1"
proof -
  have "ds_now s' < ds_now s + fx_ttl cfg \<longrightarrow> marked_once cfg (ds_now s) s'"
    using run
  proof (induction rule: rtranclp_induct)
    case base
    then show ?case by (simp add: marked_once_def webhooks_def fresh)
  next
    case (step t u)
    then show ?case using smpp_step_later [OF step.hyps(2)] smpp_step_time [OF step.hyps(2)] by force
  qed
  then show ?thesis using soon by (simp add: marked_once_def)
qed

section \<open>Runs on a small system\<close>

definition demo_item :: "pystr \<Rightarrow> sms_status \<Rightarrow> retry_item" where
  "demo_item uid st = \<lparr>it_channel_id = 7, it_upstream_id = uid, it_new_status = st, it_stat = [], it_err = [],
     it_dest_addr = [], it_source_addr = [], it_receipted_message_id = [], it_first_seen = 0, it_retry_count = 0\<rparr>"

definition demo_smpp :: dlr_sys where
  "demo_smpp =
     \<lparr>ds_world = demo_dlr\<lparr>accounts := [(new_account 5 (asc ''a''))\<lparr>webhook_url := Some (asc ''u'')\<rparr>]\<rparr>,
      water_configs = [],
      ds_redis = \<lparr>rd_up = True, retry_hash = [], retry_zset = [], owned = Map.empty\<rparr>,
      seen_keys = Map.empty, unmatched_keys = Map.empty, fx_keys = Map.empty, flush_lock = None,
      webhook_cache = ([], 0), water_cache = ([], 0), ds_calls = []\<rparr>"

definition demo_delivered :: dlr_sys where
  "demo_delivered = snd (process_smpp_dlr default_cfg False (demo_item (asc ''255'') Delivered) demo_smpp)"

lemma demo_smpp_wf: "wf_world (ds_world demo_smpp)"
  by (simp add: wf_world_def demo_smpp_def demo_dlr_def empty_world_def new_sms_log_def new_account_def)

lemma demo_step: "smpp_step default_cfg demo_smpp demo_delivered"
  unfolding demo_delivered_def
  by (rule smpp_step.task [where it = "demo_item (asc ''255'') Delivered"])
     (simp_all add: is_terminal_def demo_item_def prod_eq_iff)

lemma demo_smpp_run: "(smpp_step default_cfg)\<^sup>*\<^sup>* demo_smpp demo_delivered"
  using demo_step by (rule r_into_rtranclp)

lemma demo_delivered_row:
  "map_option log_status (log_by_id (ds_world demo_delivered) 1) = Some Delivered"
  "webhooks (asc ''m1'') Delivered (ds_calls demo_delivered) = 1"
  "ds_now demo_delivered = ds_now demo_smpp"
  by code_simp+

text \<open>An intermediate report - the gateway sends \<open>sent\<close> for every status it does not know, such as
  \<open>ACCEPTD\<close> - takes a delivered message back to \<open>sent\<close>, and then even a failure is accepted: the
  protection of terminal statuses asks that the new status be terminal too.\<close>

theorem intermediate_report_reopens:
  "let s1 = demo_delivered;
       s2 = snd (process_smpp_dlr default_cfg False (demo_item (asc ''255'') Sent) s1);
       s3 = snd (process_smpp_dlr default_cfg False (demo_item (asc ''255'') Failed) s2)
   in map (\<lambda>s. map_option log_status (log_by_id (ds_world s) 1)) [s1, s2, s3]
      = [Some Delivered, Some Sent, Some Failed]"
  by code_simp

text \<open>The flush puts a foreign report back that it has just dropped: the buffer deletes it, and the retry
  counter then writes it into the hash again, without an expiry time - for as long as other reports
  are waiting it is neither retried nor expired.\<close>

definition demo_foreign :: dlr_sys where
  "demo_foreign = demo_smpp\<lparr>ds_redis :=
     \<lparr>rd_up = True, retry_hash = [((7, asc ''zz''), demo_item (asc ''zz'') Delivered)],
      retry_zset = [((7, asc ''zz''), 5000)], owned = Map.empty\<rparr>\<rparr>"

theorem flush_restores_foreign:
  "let cfg = default_cfg\<lparr>ownership_filter := True\<rparr>;
       dropped = snd (process_smpp_dlr cfg True (demo_item (asc ''zz'') Delivered) demo_foreign);
       flushed = flush_dlr_retry_buffer cfg 50 demo_foreign
   in (map fst (retry_hash (ds_redis dropped)), map fst (retry_zset (ds_redis dropped))) = ([], [])
      \<and> (map fst (retry_hash (ds_redis flushed)), map fst (retry_zset (ds_redis flushed))) = ([(7, asc ''zz'')], [])"
  by code_simp

text \<open>Without Redis a report is still written to the database, and no follow-up task is queued.\<close>

lemma outage_queues_nothing:
  assumes "\<not> ds_up s"
  shows "ds_calls (snd (process_smpp_dlr cfg ff it s)) = ds_calls s"
proof -
  have "ds_calls (handle_matched cfg it r s) = ds_calls s" for r
    using assms by (simp add: handle_matched_def Let_def case_prod_beta claim_effects_def ds_up_def)
  then show ?thesis by (simp add: process_smpp_dlr_def split: option.split)
qed

theorem terminal_status_final_witness:
  "\<exists>r. log_by_id (ds_world demo_delivered) 3 = Some r \<and> log_status r = Delivered"
proof -
  have "log_by_id (ds_world demo_smpp) 3 = Some ((new_sms_log 3 (asc ''m3'') 5 (asc ''+6682''))
      \<lparr>log_status := Delivered, log_channel_id := Some 7\<rparr>)"
    by (simp add: log_by_id_def demo_smpp_def demo_dlr_def new_sms_log_def)
  moreover have "terminal_buffer demo_smpp"
    by (simp add: terminal_buffer_def terminal_items_def demo_smpp_def)
  ultimately show ?thesis
    using terminal_status_final [OF demo_smpp_run demo_smpp_wf]
    by (auto simp: is_terminal_def)
qed

theorem webhook_once_witness:
  "webhooks (asc ''m1'') Delivered (ds_calls demo_delivered) \<le> 1 \<and> ds_calls demo_delivered \<noteq> []"
proof -
  have "ds_calls demo_delivered \<noteq> []" using demo_delivered_row(2) by (auto simp: webhooks_def)
  then show ?thesis
    using webhook_once [OF demo_smpp_run] demo_delivered_row(3)
    by (simp add: demo_smpp_def default_cfg_def ds_now_def)
qed

end
