(* ===== verification/Quiet.thy ===== *)
theory Quiet
  imports BatchAdmin SmppDlr
begin

text \<open>
  What the operations do to money and refund marks: the refund entries of the balance log agree with
  the marks on the messages (\<open>refunds_audited\<close>), and most operations are \<open>quiet\<close>, they move no money,
  set no mark and keep the keys of the tables.
\<close>

text \<open>A new row has a fresh key and has not been refunded.\<close>

definition fresh_log :: "world \<Rightarrow> sms_log \<Rightarrow> bool" where
  "fresh_log w r \<longleftrightarrow> log_id r \<notin> set (map log_id (sms_logs w))
     \<and> refunded_at r = None \<and> refunded_amount r = None"

section \<open>What refunds leave behind\<close>

text \<open>The refund entries of an account in the balance log, and the refund marks on its messages.\<close>

definition refund_entries :: "int \<Rightarrow> world \<Rightarrow> money" where
  "refund_entries i w =
     sum_list (map bl_amount (filter (\<lambda>l. bl_account_id l = i \<and> bl_change_type l = Refund) (balance_logs w)))"

definition mark_of :: "int \<Rightarrow> sms_log \<Rightarrow> money" where
  "mark_of i r = (if log_account_id r = i
                  then (case refunded_amount r of Some a \<Rightarrow> a | None \<Rightarrow> 0) else 0)"

definition refund_marks :: "int \<Rightarrow> world \<Rightarrow> money" where
  "refund_marks i w = sum_list (map (mark_of i) (sms_logs w))"

definition unmarked_ok :: "world \<Rightarrow> bool" where
  "unmarked_ok w \<longleftrightarrow> list_all (\<lambda>r. refunded_at r = None \<longrightarrow> refunded_amount r = None) (sms_logs w)"

definition refunds_audited :: "world \<Rightarrow> bool" where
  "refunds_audited w \<longleftrightarrow> unmarked_ok w \<and> (\<forall>i. refund_entries i w = refund_marks i w)"

definition billing_inv :: "(int \<Rightarrow> money) \<Rightarrow> world \<Rightarrow> bool" where
  "billing_inv fund w \<longleftrightarrow> wf_world w \<and> ledger_ok fund w \<and> refunds_audited w"

text \<open>What a step that is no money movement keeps: keys, balances, the log, the refund marks.\<close>

definition log_view :: "world \<Rightarrow> (int \<times> int \<times> int option \<times> money option) list" where
  "log_view w = map (\<lambda>r. (log_id r, log_account_id r, refunded_at r, refunded_amount r)) (sms_logs w)"

definition quiet :: "world \<Rightarrow> world \<Rightarrow> bool" where
  "quiet w w' \<longleftrightarrow> accounts w' = accounts w \<and> balance_logs w' = balance_logs w
     \<and> log_view w' = log_view w \<and> map batch_id (sms_batches w') = map batch_id (sms_batches w)"

lemma quiet_refl [simp]: "quiet w w"
  by (simp add: quiet_def)

lemma quiet_trans: "quiet u v \<Longrightarrow> quiet v w \<Longrightarrow> quiet u w"
  by (simp add: quiet_def)

lemma same_tables_quiet: "same_tables w w' \<Longrightarrow> quiet w w'"
  by (simp add: quiet_def same_tables_def log_view_def)

lemma log_view_map:
  assumes "log_view w' = log_view w"
    and "\<And>r. f r = g (log_id r, log_account_id r, refunded_at r, refunded_amount r)"
  shows "map f (sms_logs w') = map f (sms_logs w)"
proof -
  have "f = (\<lambda>r. g (log_id r, log_account_id r, refunded_at r, refunded_amount r))"
    using assms(2) by auto
  then show ?thesis using arg_cong [OF assms(1), of "map g"] by (simp add: log_view_def comp_def)
qed

lemma log_view_maps:
  assumes v: "log_view w' = log_view w"
  shows "map log_id (sms_logs w') = map log_id (sms_logs w)"
    and "map (mark_of i) (sms_logs w') = map (mark_of i) (sms_logs w)"
    and "unmarked_ok w' = unmarked_ok w"
proof -
  show "map log_id (sms_logs w') = map log_id (sms_logs w)"
    by (rule log_view_map [OF v, of _ fst]) simp
  show "map (mark_of i) (sms_logs w') = map (mark_of i) (sms_logs w)"
    by (rule log_view_map [OF v, of _ "\<lambda>(_, a, _, x). if a = i then (case x of Some a \<Rightarrow> a | None \<Rightarrow> 0) else 0"])
      (simp add: mark_of_def)
  let ?u = "\<lambda>r. refunded_at r = None \<longrightarrow> refunded_amount r = None"
  have "map ?u (sms_logs w') = map ?u (sms_logs w)"
    by (rule log_view_map [OF v, of _ "\<lambda>(_, _, t, x). t = None \<longrightarrow> x = None"]) simp
  moreover have "unmarked_ok u \<longleftrightarrow> list_all id (map ?u (sms_logs u))" for u
    by (simp add: unmarked_ok_def list_all_iff)
  ultimately show "unmarked_ok w' = unmarked_ok w" by simp
qed

lemma quiet_inv: "quiet w w' \<Longrightarrow> billing_inv fund w \<Longrightarrow> billing_inv fund w'"
  using log_view_maps [of w' w]
  by (simp add: quiet_def billing_inv_def wf_world_def ledger_ok_def refunds_audited_def
      refund_entries_def refund_marks_def)

lemma quiet_covered: "quiet w w' \<Longrightarrow> prepaid_covered w' = prepaid_covered w"
  by (simp add: quiet_def prepaid_covered_def)

section \<open>Every step keeps the invariant\<close>

lemma log_view_upd:
  assumes "\<And>r. (log_id (f r), log_account_id (f r), refunded_at (f r), refunded_amount (f r))
                = (log_id r, log_account_id r, refunded_at r, refunded_amount r)"
  shows "log_view (w\<lparr>sms_logs := upd_where p f (sms_logs w)\<rparr>) = log_view w"
  using assms by (simp add: log_view_def upd_where_def)

lemma save_batch_quiet [simp]:
  assumes "\<And>x. batch_id (f x) = batch_id x"
  shows "quiet w (save_batch b f w)"
  using assms by (simp add: quiet_def log_view_def save_batch_def map_upd_where)

lemma expire_pending_quiet: "quiet w (expire_pending rnd b w)"
proof -
  have "log_view (expire_pending rnd b w) = log_view w"
    unfolding expire_pending_def Let_def by (rule log_view_upd) simp
  then show ?thesis by (simp add: quiet_def expire_pending_def Let_def)
qed

lemma refresh_quiet: "quiet w (snd (update_batch_progress rnd w b))"
proof (cases "b = 0 \<or> batch_by_id w b = None")
  case True
  then show ?thesis by (auto simp: update_batch_progress_def Let_def)
next
  case False
  then obtain x where "b \<noteq> 0" "batch_by_id w b = Some x" by auto
  then show ?thesis
    using quiet_trans [OF expire_pending_quiet save_batch_quiet [OF virtual_final_id]]
    by (simp add: refresh_cases)
qed

lemma publish_quiet: "quiet w (publish_batch_pipeline_progress w b tot ins q)"
  by (simp add: quiet_def log_view_def publish_batch_pipeline_progress_def Let_def map_upd_where)

lemma pause_quiet: "quiet w (snd (pause_batch w b))"
  by (simp add: pause_batch_def split: option.splits)

lemma clear_quiet: "quiet w (snd (clear_batch_queue rnd w b))"
proof -
  have "quiet w (snd (update_batch_progress rnd (save_batch b f w) b))"
    if "\<And>x. batch_id (f x) = batch_id x" for f
    using quiet_trans [OF save_batch_quiet [OF that] refresh_quiet] .
  then show ?thesis by (simp add: clear_batch_queue_def Let_def split: option.splits)
qed

lemma select_channel_quiet: "quiet w (snd (select_channel rnd w cc pref st acc))"
  by (rule same_tables_quiet [OF select_channel_same]) (rule surjective_pairing)

text \<open>Delivery reports change statuses, times and texts of messages, and batch rows.\<close>

lemma set_log_quiet:
  assumes "\<And>r. (log_id (f r), log_account_id (f r), refunded_at (f r), refunded_amount (f r))
                = (log_id r, log_account_id r, refunded_at r, refunded_amount r)"
  shows "quiet w (set_log i f w)"
  using log_view_upd [OF assms] by (simp add: set_log_def quiet_def)

lemma apply_report_quiet: "quiet (dlr_world s) (dlr_world (apply_report show rep r s))"
  using set_log_quiet [of "mark_delivered (now (dlr_world s))" "dlr_world s" "log_id r"]
    set_log_quiet [of "mark_failed (dlr_error_message show rep)" "dlr_world s" "log_id r"]
  by (auto simp: apply_report_def Let_def mark_delivered_def mark_failed_def split: sum.split)

lemma dlr_loop_quiet: "quiet (dlr_world s) (dlr_world (dlr_loop show rows chan reps s))"
proof (induction reps arbitrary: s)
  case (Cons rep reps)
  have "quiet (dlr_world s) (dlr_world (dlr_step show rows chan rep s))"
    using apply_report_quiet [of "s\<lparr>dlr_batches := b\<rparr>" for b]
    by (auto simp: dlr_step_def Let_def split: option.split)
  then show ?case using Cons quiet_trans by (auto simp: dlr_loop_def)
qed (simp add: dlr_loop_def)

lemma refresh_batches_quiet: "quiet w (refresh_batches rnd bs w)"
proof (induction bs arbitrary: w)
  case (Cons b bs)
  have "quiet w (refresh_batches rnd bs (snd (update_batch_progress (rnd b) w b)))"
    by (rule quiet_trans [OF refresh_quiet Cons.IH])
  then show ?case by (simp add: refresh_batches_def)
qed (simp add: refresh_batches_def)

lemma reports_quiet: "quiet w (dlr_world (process_dlr_reports show order rnd reps chan w))"
  using quiet_trans [OF dlr_loop_quiet refresh_batches_quiet, of "start_run w"]
  by (simp add: process_dlr_reports_def Let_def start_run_def)

lemma log_view_rows:
  assumes "\<And>x. x \<in> set (sms_logs w) \<Longrightarrow> (log_id (g x), log_account_id (g x), refunded_at (g x), refunded_amount (g x))
                = (log_id x, log_account_id x, refunded_at x, refunded_amount x)"
  shows "log_view (w\<lparr>sms_logs := map g (sms_logs w)\<rparr>) = log_view w"
  using assms by (simp add: log_view_def)

lemma handle_matched_quiet:
  assumes wf: "wf_world (ds_world s)" and r: "r \<in> set (sms_logs (ds_world s))"
  shows "quiet (ds_world s) (ds_world (handle_matched cfg it r s))"
  using handle_matched_world [of cfg it r s]
proof
  let ?r = "if log_status r = it_new_status it then r else smpp_update it (ds_now s) r"
  assume "ds_world (handle_matched cfg it r s) = set_log (log_id r) (\<lambda>_. ?r) (ds_world s)
     \<and> \<not> (is_terminal (log_status r) \<and> is_terminal (it_new_status it) \<and> log_status r \<noteq> it_new_status it)"
  moreover have "log_view (set_log (log_id r) (\<lambda>_. ?r) (ds_world s)) = log_view (ds_world s)"
  proof -
    let ?v = "\<lambda>x. (log_id x, log_account_id x, refunded_at x, refunded_amount x)"
    have "?v (if log_id x = log_id r then ?r else x) = ?v x" if "x \<in> set (sms_logs (ds_world s))" for x
    proof (cases "log_id x = log_id r")
      case True
      then have "x = r" using wf r that by (auto simp: wf_world_def distinct_map dest: inj_onD)
      then show ?thesis by simp
    qed simp
    from log_view_rows [OF this] show ?thesis by (simp add: set_log_def upd_where_def)
  qed
  ultimately show ?thesis by (simp add: quiet_def) (simp add: set_log_def)
qed simp

lemma smpp_quiet:
  assumes wf: "wf_world (ds_world s)"
  shows "quiet (ds_world s) (ds_world (snd (process_smpp_dlr cfg ff it s)))"
  using handle_matched_quiet [OF wf match_report_in]
  by (auto simp: process_smpp_dlr_def split: option.split)

lemma quiet_wf: "quiet w w' \<Longrightarrow> wf_world w' = wf_world w"
  using log_view_maps(1) [of w' w] by (simp add: quiet_def wf_world_def)

lemma flush_items_quiet:
  "wf_world (ds_world s) \<Longrightarrow> quiet (ds_world s) (ds_world (fold (flush_item cfg) items s))"
proof (induction items arbitrary: s)
  case (Cons ki items)
  have "ds_world (flush_item cfg ki s) = ds_world (snd (process_smpp_dlr cfg True (snd ki) s))"
    by (simp add: flush_item_def case_prod_beta)
  then have q: "quiet (ds_world s) (ds_world (flush_item cfg ki s))" using smpp_quiet [OF Cons.prems] by simp
  then show ?case using Cons.IH quiet_wf [OF q] Cons.prems quiet_trans by auto
qed simp

lemma flush_quiet:
  assumes "wf_world (ds_world s)"
  shows "quiet (ds_world s) (ds_world (flush_dlr_retry_buffer cfg n s))"
  using flush_items_quiet [of "s\<lparr>flush_lock := l, ds_redis := b\<rparr>" for l b] assms
  by (simp add: flush_dlr_retry_buffer_def Let_def case_prod_beta)

end
