(* ===== verification/Gateway.thy ===== *)
theory Gateway
  imports World CountryCode "HOL-Library.List_Lexorder" "HOL-Library.Product_Lexorder"
begin

text \<open>
  What the submission of a message uses besides the billing tables: the lists of banned words with
  their cache (\<open>backend/app/utils/banned_words.py\<close>), the approved sender ids of a channel and country
  (\<open>backend/app/utils/sender_id_resolver.py\<close>), the queue of the send workers
  (\<open>backend/app/utils/queue.py\<close>) and the log of blocked messages. The cache is reachable, and its
  entries may go at any time.
\<close>

datatype sid_type = SidNumeric | SidAlpha | SidShortcode

record country_sid =
  cs_id :: int
  cs_channel_id :: int
  cs_country_code :: pystr
  cs_sender_id :: pystr
  cs_type :: "sid_type option"
  cs_status :: sender_status
  cs_is_default :: "bool option"

datatype bw_key = BwGlobal | BwChannel int | BwRouting int pystr

text \<open>A task of the queue \<open>sms_send\<close>: the message and the HTTP credentials passed along.\<close>

record queued_sms =
  q_message_id :: pystr
  q_credentials :: "(pystr option \<times> pystr option) option"

datatype block_stage = GlobalStage | ChannelStage int

record blocked =
  bk_account_id :: int
  bk_phone_number :: pystr
  bk_hit :: pystr
  bk_stage :: block_stage

record gateway =
  gw_world :: world
  system_configs :: "(pystr \<times> pystr option) list"
  country_sids :: "country_sid list"
  bw_cache :: "bw_key \<rightharpoonup> pystr"
  sms_queue :: "queued_sms list"
  blocked_log :: "blocked list"
  next_log_id :: int

section \<open>Banned words\<close>

text \<open>The separators of \<open>_SPLIT_RE\<close>: comma, line ends, the Chinese comma marks, semicolons and the bar.\<close>

definition word_separator :: "int \<Rightarrow> bool" where
  "word_separator c \<longleftrightarrow> c \<in> {44, 10, 13, 12289, 65292, 65307, 59, 124}"

fun split_at :: "(int \<Rightarrow> bool) \<Rightarrow> pystr \<Rightarrow> pystr list" where
  "split_at p [] = [[]]"
| "split_at p (c # cs) =
     (if p c then [] # split_at p cs
      else case split_at p cs of [] \<Rightarrow> [[c]] | w # ws \<Rightarrow> (c # w) # ws)"

definition split_words :: "pystr \<Rightarrow> pystr list" where
  "split_words raw = dedup (filter (\<lambda>w. w \<noteq> []) (map py_strip (split_at word_separator raw)))"

text \<open>\<open>_redis_get_str\<close>: an empty value reads like a missing one.\<close>

definition bw_peek :: "gateway \<Rightarrow> bw_key \<Rightarrow> pystr option" where
  "bw_peek g k = (case bw_cache g k of Some v \<Rightarrow> if v = [] then None else Some v | None \<Rightarrow> None)"

text \<open>\<open>scalar_one_or_none() or ""\<close> on a query of one column.\<close>

definition one_text :: "pystr option list \<Rightarrow> pystr outcome" where
  "one_text rows =
     (case one_or_none rows of
        ManyRows \<Rightarrow> Inl MultipleResultsFound
      | OneRow (Some v) \<Rightarrow> Inr v
      | _ \<Rightarrow> Inr [])"

fun bw_db :: "gateway \<Rightarrow> bw_key \<Rightarrow> pystr outcome" where
  "bw_db g BwGlobal =
     one_text (map snd (filter (\<lambda>r. fst r = asc ''global_banned_words'') (system_configs g)))"
| "bw_db g (BwChannel chan) =
     one_text (map ch_banned_words (filter (\<lambda>c. ch_id c = chan) (channels (gw_world g))))"
| "bw_db g (BwRouting chan cc) =
     one_text (map rr_banned_words
       (filter (\<lambda>r. rr_channel_id r = chan \<and> rr_country_code r = cc) (routing_rules (gw_world g))))"

definition load_raw :: "gateway \<Rightarrow> bw_key \<Rightarrow> pystr outcome \<times> gateway" where
  "load_raw g k =
     (case bw_peek g k of
        Some v \<Rightarrow> (Inr v, g)
      | None \<Rightarrow>
          (case bw_db g k of
             Inl e \<Rightarrow> (Inl e, g)
           | Inr raw \<Rightarrow> (Inr raw, g\<lparr>bw_cache := (bw_cache g)(k \<mapsto> raw)\<rparr>)))"

definition load_words :: "gateway \<Rightarrow> bw_key \<Rightarrow> pystr list outcome \<times> gateway" where
  "load_words g k = map_prod (map_sum id split_words) id (load_raw g k)"

text \<open>The lists a check reads, in order; the routing list only under a country that is not blank.\<close>

definition bw_keys :: "int option \<Rightarrow> pystr option \<Rightarrow> bw_key list" where
  "bw_keys chan country_code =
     BwGlobal # (case chan of
        None \<Rightarrow> []
      | Some c \<Rightarrow> BwChannel c #
          (case country_code of
             None \<Rightarrow> []
           | Some cc \<Rightarrow> (if cc = [] \<or> py_upper (py_strip cc) = [] then []
                         else [BwRouting c (py_upper (py_strip cc))])))"

fun load_all_words :: "gateway \<Rightarrow> bw_key list \<Rightarrow> pystr list outcome \<times> gateway" where
  "load_all_words g [] = (Inr [], g)"
| "load_all_words g (k # ks) =
     (case load_words g k of
        (Inl e, g1) \<Rightarrow> (Inl e, g1)
      | (Inr ws, g1) \<Rightarrow>
          (case load_all_words g1 ks of
             (Inl e, g2) \<Rightarrow> (Inl e, g2)
           | (Inr vs, g2) \<Rightarrow> (Inr (ws @ vs), g2)))"

definition first_hit :: "pystr \<Rightarrow> pystr list \<Rightarrow> pystr option" where
  "first_hit content ws = find (\<lambda>w. w \<noteq> [] \<and> contains (py_lower w) (py_lower content)) ws"

definition check_banned_words ::
    "gateway \<Rightarrow> pystr \<Rightarrow> int option \<Rightarrow> pystr option \<Rightarrow> pystr option outcome \<times> gateway" where
  "check_banned_words g content chan country_code =
     (if content = [] then (Inr None, g)
      else case load_all_words g (bw_keys chan country_code) of
             (Inl e, g1) \<Rightarrow> (Inl e, g1)
           | (Inr ws, g1) \<Rightarrow> (Inr (first_hit content ws), g1))"

definition invalidate_banned_words_cache ::
    "bool \<Rightarrow> int list \<Rightarrow> (int \<times> pystr option) list \<Rightarrow> gateway \<Rightarrow> gateway" where
  "invalidate_banned_words_cache global_words channel_ids routing_keys g =
     (let ks = (if global_words then [BwGlobal] else []) @ map BwChannel channel_ids
               @ map (\<lambda>(c, cc). BwRouting c (py_upper (case cc of None \<Rightarrow> [] | Some t \<Rightarrow> t))) routing_keys
      in g\<lparr>bw_cache := (\<lambda>k. if k \<in> set ks then None else bw_cache g k)\<rparr>)"

section \<open>Sender ids\<close>

record sid_option =
  so_sender_id :: pystr
  so_type :: "sid_type option"
  so_is_default :: bool

text \<open>\<open>ORDER BY is_default DESC, sender_id ASC\<close>; NULL is the least value.\<close>

definition sid_key :: "country_sid \<Rightarrow> nat \<times> pystr" where
  "sid_key r = (case cs_is_default r of Some True \<Rightarrow> 0 | Some False \<Rightarrow> 1 | None \<Rightarrow> 2, cs_sender_id r)"

definition list_active_sender_ids ::
    "(pystr list \<Rightarrow> pystr list) \<Rightarrow> gateway \<Rightarrow> int \<Rightarrow> pystr \<Rightarrow> sid_option list" where
  "list_active_sender_ids enum g chan country_code =
     (if chan = 0 \<or> country_code = [] then []
      else let vs = get_country_variants enum (Some country_code);
               variants = (if vs = [] then [country_code] else vs)
           in map (\<lambda>r. \<lparr>so_sender_id = cs_sender_id r, so_type = cs_type r,
                         so_is_default = (cs_is_default r = Some True)\<rparr>)
                (sort_key sid_key
                   (filter (\<lambda>r. cs_channel_id r = chan \<and> cs_country_code r \<in> set variants
                                \<and> cs_status r = SidActive) (country_sids g))))"

text \<open>\<open>Inl\<close> is the refusal of a requested id that is not approved.\<close>

definition resolve_sender_id ::
    "(pystr list \<Rightarrow> pystr list) \<Rightarrow> gateway \<Rightarrow> int \<Rightarrow> pystr \<Rightarrow> pystr option \<Rightarrow> pystr + pystr option" where
  "resolve_sender_id enum g chan country_code requested =
     (let req = py_strip (case requested of None \<Rightarrow> [] | Some t \<Rightarrow> t);
          active = list_active_sender_ids enum g chan country_code
      in if req \<noteq> [] then
           (if list_ex (\<lambda>a. so_sender_id a = req) active then Inr (Some req) else Inl req)
         else Inr (map_option so_sender_id (find so_is_default active)))"

section \<open>The queue\<close>

definition SMS_QUEUE_RETRIES :: nat where
  "SMS_QUEUE_RETRIES = 3"

text \<open>\<open>broker n\<close> says whether the n-th call of \<open>apply_async\<close> succeeds.\<close>

fun queue_attempts :: "(nat \<Rightarrow> bool) \<Rightarrow> nat \<Rightarrow> nat \<Rightarrow> bool" where
  "queue_attempts broker k 0 = False"
| "queue_attempts broker k (Suc n) = (broker k \<or> queue_attempts broker (Suc k) n)"

definition queue_sms ::
    "(nat \<Rightarrow> bool) \<Rightarrow> pystr \<Rightarrow> (pystr option \<times> pystr option) option \<Rightarrow> gateway \<Rightarrow> bool \<times> gateway" where
  "queue_sms broker mid creds g =
     (if queue_attempts broker 0 SMS_QUEUE_RETRIES
      then (True, g\<lparr>sms_queue := sms_queue g @ [\<lparr>q_message_id = mid, q_credentials = creds\<rparr>]\<rparr>)
      else (False, g))"

section \<open>Lemmas\<close>

lemma queue_attempts_iff: "queue_attempts broker k n \<longleftrightarrow> (\<exists>i. k \<le> i \<and> i < k + n \<and> broker i)"
proof (induction n arbitrary: k)
  case (Suc n)
  have "(\<exists>i. k \<le> i \<and> i < k + Suc n \<and> broker i) \<longleftrightarrow> broker k \<or> (\<exists>i. Suc k \<le> i \<and> i < Suc k + n \<and> broker i)"
    by (metis Suc_le_eq add_Suc_right add_Suc_shift le_eq_less_or_eq less_add_Suc1)
  then show ?case using Suc by simp
qed simp

text \<open>A word list as a memoised read: an empty list is never served from the cache.\<close>

fun bw_answer :: "pystr outcome \<Rightarrow> exn option + pystr" where
  "bw_answer (Inl e) = Inl (Some e)"
| "bw_answer (Inr []) = Inl None"
| "bw_answer (Inr (c # cs)) = Inr (c # cs)"

definition bw_fetch :: "gateway \<Rightarrow> bw_key \<Rightarrow> (exn option + pystr) \<times> gateway" where
  "bw_fetch g k = map_prod bw_answer id (load_raw g k)"

definition bw_direct :: "gateway \<Rightarrow> bw_key \<Rightarrow> exn option + pystr" where
  "bw_direct g k = bw_answer (bw_db g k)"

lemma bw_db_cache [simp]: "bw_db (g\<lparr>bw_cache := bc\<rparr>) k = bw_db g k"
  by (cases k) simp_all

lemma bw_answer_Inr: "bw_answer x = Inr v \<longleftrightarrow> x = Inr v \<and> v \<noteq> []"
  by (cases x rule: bw_answer.cases) auto

lemma bw_peek_nonempty: "bw_peek g k = Some v \<Longrightarrow> v \<noteq> []"
  by (auto simp: bw_peek_def split: option.splits if_splits)

lemma load_raw_world: "load_raw g k = (r, g') \<Longrightarrow> \<exists>bc. g' = g\<lparr>bw_cache := bc\<rparr>"
proof -
  have "\<exists>bc. x = x\<lparr>bw_cache := bc\<rparr>" for x by (rule exI [of _ "bw_cache x"]) simp
  then show "load_raw g k = (r, g') \<Longrightarrow> ?thesis"
    unfolding load_raw_def by (auto split: option.splits sum.splits)
qed

interpretation bw: read_through bw_fetch "\<lambda>k. k" bw_peek bw_direct
proof
  fix g k v assume "bw_peek g k = Some v"
  then show "bw_fetch g k = (Inr v, g)"
    using bw_peek_nonempty [of g k v] by (cases v) (simp_all add: bw_fetch_def load_raw_def)
next
  fix g k assume "bw_peek g k = None"
  then show "fst (bw_fetch g k) = bw_direct g k"
    by (simp add: bw_fetch_def load_raw_def bw_direct_def split: sum.split)
next
  fix g k v j assume "bw_peek g k = None" "bw_direct g k = Inr v"
  then show "bw_peek (snd (bw_fetch g k)) j = (if j = k then Some v else bw_peek g j)"
    by (simp add: bw_fetch_def load_raw_def bw_direct_def bw_answer_Inr) (simp add: bw_peek_def)
next
  fix g k e assume "bw_peek g k = None" "bw_direct g k = Inl e"
  then show "bw_peek (snd (bw_fetch g k)) = bw_peek g"
    by (cases "bw_db g k" rule: bw_answer.cases)
      (auto simp: bw_fetch_def load_raw_def bw_direct_def bw_peek_def split: option.splits)
next
  fix g k j show "bw_direct (snd (bw_fetch g k)) j = bw_direct g j"
    by (auto simp: bw_fetch_def load_raw_def bw_direct_def split: option.split sum.split)
qed simp

text \<open>What a check reads when the cache agrees with the tables: the lists as the tables hold them.\<close>

fun listed_words :: "gateway \<Rightarrow> bw_key list \<Rightarrow> pystr list outcome" where
  "listed_words g [] = Inr []"
| "listed_words g (k # ks) =
     (case bw_db g k of
        Inl e \<Rightarrow> Inl e
      | Inr raw \<Rightarrow> (case listed_words g ks of Inl e \<Rightarrow> Inl e | Inr vs \<Rightarrow> Inr (split_words raw @ vs)))"

lemma load_raw_coherent:
  assumes "bw.coherent g" and "load_raw g k = (r, g')"
  shows "r = bw_db g k \<and> bw.coherent g'"
proof
  have "bw.coherent (snd (bw_fetch g k))" by (rule bw.fetch_coherent [OF assms(1)])
  then show "bw.coherent g'" by (simp add: bw_fetch_def assms(2))
  have "bw_answer r = bw_answer (bw_db g k)"
    using bw.fetch_eq_direct [OF assms(1), of k] by (simp add: bw_fetch_def bw_direct_def assms(2))
  then show "r = bw_db g k"
    by (cases r rule: bw_answer.cases; cases "bw_db g k" rule: bw_answer.cases) simp_all
qed

lemma listed_words_cache [simp]: "listed_words (g\<lparr>bw_cache := bc\<rparr>) ks = listed_words g ks"
  by (induction ks) (simp_all cong: sum.case_cong)

lemma load_all_words_listed:
  "bw.coherent g \<Longrightarrow> load_all_words g ks = (r, g') \<Longrightarrow> r = listed_words g ks \<and> bw.coherent g'"
proof (induction ks arbitrary: g r g')
  case (Cons k ks)
  obtain a g1 where l: "load_raw g k = (a, g1)" by fastforce
  from load_raw_coherent [OF Cons.prems(1) l] have a: "a = bw_db g k" and c: "bw.coherent g1" by blast+
  obtain b g2 where t: "load_all_words g1 ks = (b, g2)" by fastforce
  from Cons.IH [OF c t] have b: "b = listed_words g1 ks" "bw.coherent g2" by blast+
  obtain bc where "g1 = g\<lparr>bw_cache := bc\<rparr>" using load_raw_world [OF l] by blast
  then have L: "listed_words g (k # ks) = (case a of Inl e \<Rightarrow> Inl e
      | Inr raw \<Rightarrow> (case b of Inl e \<Rightarrow> Inl e | Inr vs \<Rightarrow> Inr (split_words raw @ vs)))"
    using a b(1) by (simp cong: sum.case_cong)
  from Cons.prems(2) l t b(2) c show ?case
    unfolding L by (cases a; cases b) (auto simp: load_words_def)
qed simp

lemma load_all_words_world: "load_all_words g ks = (r, g') \<Longrightarrow> \<exists>bc. g' = g\<lparr>bw_cache := bc\<rparr>"
proof (induction ks arbitrary: g r g')
  case Nil
  then have "g' = g\<lparr>bw_cache := bw_cache g\<rparr>" by simp
  then show ?case by blast
next
  case (Cons k ks)
  obtain a g1 where l: "load_raw g k = (a, g1)" by fastforce
  then obtain bc where g1: "g1 = g\<lparr>bw_cache := bc\<rparr>" using load_raw_world by blast
  obtain b g2 where t: "load_all_words g1 ks = (b, g2)" by fastforce
  then obtain bc' where "g2 = g1\<lparr>bw_cache := bc'\<rparr>" using Cons.IH by blast
  with Cons.prems l t g1 show ?case
    by (cases a; cases b) (auto simp: load_words_def intro: exI [of _ bc] exI [of _ bc'])
qed

lemma check_banned_words_world:
  "check_banned_words g content chan cc = (r, g') \<Longrightarrow> \<exists>bc. g' = g\<lparr>bw_cache := bc\<rparr>"
proof (cases "content = []")
  case True
  assume "check_banned_words g content chan cc = (r, g')"
  with True have "g' = g\<lparr>bw_cache := bw_cache g\<rparr>" by (simp add: check_banned_words_def)
  then show ?thesis by blast
next
  case False
  obtain a g1 where l: "load_all_words g (bw_keys chan cc) = (a, g1)" by fastforce
  assume "check_banned_words g content chan cc = (r, g')"
  with False l have "g' = g1" by (cases a) (auto simp: check_banned_words_def)
  with load_all_words_world [OF l] show ?thesis by simp
qed

end
