(* ===== verification/Validator.thy ===== *)
theory Validator
  imports CountryCode SmsSegment Db
begin

text \<open>
  What a message has to pass before it is routed: the phone number and the content
  (\<open>backend/app/utils/validator.py\<close>), the country an account is restricted to
  (\<open>backend/app/utils/account_country_restrict.py\<close>) and the rules for RCS content
  (\<open>backend/app/utils/rcs_content.py\<close>). The package \<open>phonenumbers\<close> is the record \<open>phone_lib\<close> of the
  functions the code calls, over a type of parsed numbers; \<open>pl_parse\<close> is \<open>None\<close> where
  \<open>phonenumbers.parse\<close> raises \<open>NumberParseException\<close>.
\<close>

section \<open>Phone numbers\<close>

record 'n phone_lib =
  pl_parse :: "pystr \<Rightarrow> 'n option"
  pl_is_valid :: "'n \<Rightarrow> bool"
  pl_is_possible :: "'n \<Rightarrow> bool"
  pl_region :: "'n \<Rightarrow> pystr option"
  pl_region_of_code :: "int \<Rightarrow> pystr option"
  pl_country_code :: "'n \<Rightarrow> int"
  pl_e164 :: "'n \<Rightarrow> pystr"

record phone_info =
  e164_format :: pystr
  region :: "pystr option"
  dial_code :: pystr
  ph_country_code :: pystr

datatype phone_error = NoLeadingPlus | InvalidNumber | UnparsableNumber

text \<open>\<open>a or b\<close> on optional texts.\<close>

definition or_text :: "pystr option \<Rightarrow> pystr option \<Rightarrow> pystr option" where
  "or_text a b = (case a of Some t \<Rightarrow> if t = [] then b else Some t | None \<Rightarrow> b)"

definition plus_form :: "pystr \<Rightarrow> pystr option" where
  "plus_form phone =
     (if starts_with [43] phone then Some phone
      else if py_isdigit phone then Some (43 # phone) else None)"

definition iso_of_number :: "pystr option \<Rightarrow> pystr \<Rightarrow> pystr" where
  "iso_of_number rgn dial =
     (case or_text (normalize_country_code rgn) (or_text (normalize_country_code (Some dial)) rgn) of
        Some c \<Rightarrow> c | None \<Rightarrow> dial)"

definition validate_phone_number :: "'n phone_lib \<Rightarrow> pystr \<Rightarrow> phone_error + phone_info" where
  "validate_phone_number lib phone =
     (case plus_form phone of
        None \<Rightarrow> Inl NoLeadingPlus
      | Some p \<Rightarrow>
          (case pl_parse lib p of
             None \<Rightarrow> Inl UnparsableNumber
           | Some n \<Rightarrow>
               (if \<not> pl_is_valid lib n \<and> \<not> pl_is_possible lib n then Inl InvalidNumber
                else let rgn = or_text (pl_region lib n) (pl_region_of_code lib (pl_country_code lib n));
                         dial = text_of_int (pl_country_code lib n)
                     in Inr \<lparr>e164_format = pl_e164 lib n, region = rgn, dial_code = dial,
                              ph_country_code = iso_of_number rgn dial\<rparr>)))"

section \<open>Content\<close>

datatype content_error = EmptyContent | ContentTooLong nat

record content_info =
  ci_length :: nat
  ci_parts :: nat
  ci_gsm7 :: bool

text \<open>The black list of keywords is empty, so its loop never runs.\<close>

definition validate_content :: "pystr \<Rightarrow> content_error + content_info" where
  "validate_content content =
     (if content = [] then Inl EmptyContent
      else if length content > 1000 then Inl (ContentTooLong (length content))
      else Inr \<lparr>ci_length = length content, ci_parts = count_sms_parts content,
                ci_gsm7 = is_gsm7_message content\<rparr>)"

section \<open>Countries an account may send to\<close>

definition account_country_iso :: "account \<Rightarrow> pystr option" where
  "account_country_iso a =
     (case acc_country_code a of
        None \<Rightarrow> None
      | Some raw \<Rightarrow> (if py_strip raw = [] then None else normalize_country_code (Some (py_strip raw))))"

text \<open>\<open>assert_sms_destination_allowed\<close> returns where this is true and raises otherwise.\<close>

definition sms_destination_allowed :: "account \<Rightarrow> pystr \<Rightarrow> bool" where
  "sms_destination_allowed a destination =
     (case account_country_iso a of
        None \<Rightarrow> True
      | Some acc \<Rightarrow> acc = [] \<or> normalize_country_code (Some destination) = Some acc)"

section \<open>RCS content\<close>

definition RCS_MAX_CONTENT_CHARS :: nat where
  "RCS_MAX_CONTENT_CHARS = 160"

text \<open>The ranges of \<open>_EMOJI_PATTERN\<close>, as first and last code point.\<close>

definition EMOJI_RANGES :: "(int \<times> int) list" where
  "EMOJI_RANGES =
     [(126976, 129791), (9728, 9983), (9984, 10175), (11008, 11263),
      (8596, 8601), (8617, 8617), (8618, 8618),
      (8986, 8986), (8987, 8987), (9000, 9000), (9167, 9167),
      (9193, 9203), (9208, 9210),
      (9410, 9410), (9642, 9642), (9643, 9643), (9654, 9654), (9664, 9664), (9723, 9726),
      (10548, 10548), (10549, 10549), (11013, 11015),
      (12336, 12336), (12349, 12349), (12951, 12951), (12953, 12953),
      (8252, 8252), (8265, 8265), (65039, 65039), (8205, 8205), (8419, 8419)]"

definition is_emoji :: "int \<Rightarrow> bool" where
  "is_emoji c = list_ex (\<lambda>(lo, hi). lo \<le> c \<and> c \<le> hi) EMOJI_RANGES"

definition find_emoji :: "pystr option \<Rightarrow> int option" where
  "find_emoji t = (case t of None \<Rightarrow> None | Some s \<Rightarrow> find is_emoji s)"

definition count_rcs_chars :: "pystr option \<Rightarrow> nat" where
  "count_rcs_chars t = (case t of None \<Rightarrow> 0 | Some s \<Rightarrow> length s)"

datatype rcs_content_error = RcsContentEmpty | RcsEmojiForbidden int | RcsContentTooLong nat

definition validate_rcs_content :: "pystr option \<Rightarrow> rcs_content_error option" where
  "validate_rcs_content t =
     (let body = (case t of None \<Rightarrow> [] | Some s \<Rightarrow> s)
      in if py_strip body = [] then Some RcsContentEmpty
         else case find_emoji (Some body) of
                Some e \<Rightarrow> Some (RcsEmojiForbidden e)
              | None \<Rightarrow>
                  (if count_rcs_chars (Some body) > RCS_MAX_CONTENT_CHARS
                   then Some (RcsContentTooLong (count_rcs_chars (Some body))) else None))"

definition rcs_phone_e164 :: "pystr option \<Rightarrow> pystr" where
  "rcs_phone_e164 phone =
     (let s = filter (\<lambda>c. c \<noteq> 32 \<and> c \<noteq> 45) (py_strip (case phone of None \<Rightarrow> [] | Some p \<Rightarrow> p))
      in if s = [] then []
         else if starts_with [43] s then s else 43 # py_lstrip_chars [43] s)"

section \<open>Lemmas\<close>

lemma find_emoji_None: "find_emoji (Some s) = None \<longleftrightarrow> (\<forall>c \<in> set s. \<not> is_emoji c)"
  by (auto simp: find_emoji_def find_None_iff)

lemma validate_phone_number_plus:
  "py_isdigit p \<Longrightarrow> validate_phone_number lib (43 # p) = validate_phone_number lib p"
  by (cases p) (auto simp: validate_phone_number_def plus_form_def py_isdigit_def py_isdigit_char.simps)

text \<open>C: An RCS message passes exactly when it has a character that is no white space, no emoji, and at
  most 160 characters.\<close>

theorem rcs_content_accepted_iff:
  "validate_rcs_content (Some s) = None \<longleftrightarrow>
     (\<exists>c \<in> set s. \<not> py_isspace_char c) \<and> (\<forall>c \<in> set s. \<not> is_emoji c) \<and> length s \<le> 160"
  using find_emoji_None [of s] py_strip_eq_Nil [of s]
  by (auto simp: validate_rcs_content_def Let_def count_rcs_chars_def RCS_MAX_CONTENT_CHARS_def
      split: option.splits if_splits)

text \<open>An account restricted to a country, in whatever registered spelling (ISO code, dialling code, name)
  the restriction was entered, may send to a destination in any registered spelling exactly when both
  belong to the same row of the country table.\<close>

theorem restriction_follows_country:
  assumes "acc_country_code a = Some k" and "r \<in> set COUNTRY_DATA" and "k \<in> set (row_keys r)"
    and "r' \<in> set COUNTRY_DATA" and "k' \<in> set (row_keys r')"
  shows "sms_destination_allowed a k' \<longleftrightarrow> r = r'"
proof -
  have n: "normalize_country_code (Some k) = Some (fst r)" "normalize_country_code (Some k') = Some (fst r')"
    using assms normalize_registered by blast+
  have s: "py_strip k = k" "k \<noteq> []" "fst r \<noteq> []"
    using assms(2,3) row_key_chars key_chars_strip own_code_key by blast+
  have "account_country_iso a = Some (fst r)"
    using assms(1) n s by (simp add: account_country_iso_def)
  then have "sms_destination_allowed a k' \<longleftrightarrow> fst r' = fst r"
    using n s by (simp add: sms_destination_allowed_def)
  moreover have "fst r' = fst r \<longleftrightarrow> r = r'"
    using codes_distinct assms by (auto dest: inj_onD simp: distinct_map)
  ultimately show ?thesis by simp
qed

theorem restriction_follows_country_witness:
  "sms_destination_allowed ((new_account 1 [])\<lparr>acc_country_code := Some (asc ''66'')\<rparr>) (asc ''TH'')"
proof -
  have "(asc ''TH'', asc ''66'', [[27888, 22269]]) \<in> set COUNTRY_DATA"
    by (simp add: COUNTRY_DATA_def asc_def)
  from restriction_follows_country [OF _ this _ this, of "(new_account 1 [])\<lparr>acc_country_code := Some (asc ''66'')\<rparr>"
      "asc ''66''" "asc ''TH''"]
  show ?thesis by simp
qed

end
