(* ===== verification/Template.thy ===== *)
theory Template
  imports DlrParse
begin

text \<open>
  Built-in variables of a message, \<open>backend/app/utils/sms_template.py\<close>. The random numbers are a
  sequence of draws \<open>rnd\<close>, consumed in the order of the calls: the functions take the number of draws
  made so far and return it updated. \<open>random.randint(lo, hi)\<close> maps a draw into its range, a letter of
  \<open>random.choices\<close> takes one draw. The texts of the current date and time are arguments.
\<close>

section \<open>Text substitution\<close>

text \<open>\<open>s.replace(old, new)\<close> for a text \<open>old\<close> that is not empty: \<open>k\<close> characters of an occurrence are
  still to be skipped.\<close>

fun replace_from :: "pystr \<Rightarrow> pystr \<Rightarrow> nat \<Rightarrow> pystr \<Rightarrow> pystr" where
  "replace_from old new k [] = []"
| "replace_from old new (Suc k) (c # cs) = replace_from old new k cs"
| "replace_from old new 0 (c # cs) =
     (if starts_with old (c # cs) then new @ replace_from old new (length old - 1) cs
      else c # replace_from old new 0 cs)"

definition py_replace :: "pystr \<Rightarrow> pystr \<Rightarrow> pystr \<Rightarrow> pystr" where
  "py_replace old new s = replace_from old new 0 s"

text \<open>The pattern \<open>prefix(\d{1,2})\}\<close> at the start of a text: the number and the length of the match.
  The closing brace is no digit, so the greedy \<open>\d{1,2}\<close> has one way to match.\<close>

definition var_match :: "pystr \<Rightarrow> pystr \<Rightarrow> (nat \<times> nat) option" where
  "var_match pre s =
     (if \<not> starts_with pre s then None
      else let rest = drop (length pre) s; ds = take 2 (takeWhile re_digit_char rest)
           in if ds \<noteq> [] \<and> starts_with [125] (drop (length ds) rest)
              then map_option (\<lambda>n. (n, length pre + length ds + 1)) (int_of_digits 0 ds)
              else None)"

fun var_search :: "pystr \<Rightarrow> pystr \<Rightarrow> bool" where
  "var_search pre [] = (var_match pre [] \<noteq> None)"
| "var_search pre (c # cs) = (var_match pre (c # cs) \<noteq> None \<or> var_search pre cs)"

text \<open>\<open>pattern.sub(gen, s)\<close>, where \<open>gen\<close> may draw random numbers.\<close>

fun var_sub_from :: "pystr \<Rightarrow> (nat \<Rightarrow> nat \<Rightarrow> pystr \<times> nat) \<Rightarrow> nat \<Rightarrow> nat \<Rightarrow> pystr \<Rightarrow> pystr \<times> nat" where
  "var_sub_from pre gen d k [] = ([], d)"
| "var_sub_from pre gen d (Suc k) (c # cs) = var_sub_from pre gen d k cs"
| "var_sub_from pre gen d 0 (c # cs) =
     (case var_match pre (c # cs) of
        None \<Rightarrow> (case var_sub_from pre gen d 0 cs of (t, d') \<Rightarrow> (c # t, d'))
      | Some (n, len) \<Rightarrow>
          (case gen n d of (g, d1) \<Rightarrow>
             case var_sub_from pre gen d1 (len - 1) cs of (t, d') \<Rightarrow> (g @ t, d')))"

section \<open>The variables\<close>

text \<open>A tag is a name between braces, which have the code points 123 and 125.\<close>

definition tag :: "pystr \<Rightarrow> pystr" where
  "tag name = [123] @ name @ [125]"

definition SMS_TEMPLATE_VAR_TAGS :: "pystr list" where
  "SMS_TEMPLATE_VAR_TAGS =
     map tag [[24207, 21495], [22269, 23478], [26085, 26399], [26102, 38388], [38543, 26426, 30721],
              [21495, 30721], [21495, 30721, 21518, 22235, 20301], [37329, 39069],
              [38543, 26426, 23383, 27597],
              asc ''index'', asc ''country'', asc ''date'', asc ''time'', asc ''code'', asc ''phone'',
              asc ''last4'', asc ''amount'', asc ''letters'']"

definition VAR_CODE_ZH :: pystr where "VAR_CODE_ZH = [123, 38543, 26426, 30721]"
definition VAR_CODE_EN :: pystr where "VAR_CODE_EN = 123 # asc ''code''"
definition VAR_LETTERS_ZH :: pystr where "VAR_LETTERS_ZH = [123, 38543, 26426, 23383, 27597]"
definition VAR_LETTERS_EN :: pystr where "VAR_LETTERS_EN = 123 # asc ''letters''"

definition sms_template_has_variables :: "pystr \<Rightarrow> bool" where
  "sms_template_has_variables t =
     (if t = [] then False
      else contains_any SMS_TEMPLATE_VAR_TAGS t
           \<or> var_search VAR_CODE_ZH t \<or> var_search VAR_CODE_EN t
           \<or> var_search VAR_LETTERS_ZH t \<or> var_search VAR_LETTERS_EN t)"

definition randint :: "nat \<Rightarrow> nat \<Rightarrow> nat \<Rightarrow> nat" where
  "randint lo hi draw = lo + draw mod (hi - lo + 1)"

definition clamp20 :: "nat \<Rightarrow> nat" where
  "clamp20 n = max 1 (min n 20)"

definition rand_digits :: "(nat \<Rightarrow> nat) \<Rightarrow> nat \<Rightarrow> nat \<Rightarrow> pystr \<times> nat" where
  "rand_digits rnd n d =
     (let m = clamp20 n
      in if m = 1 then (text_of_nat (randint 0 9 (rnd d)), d + 1)
         else (text_of_nat (randint (10 ^ (m - 1)) (10 ^ m - 1) (rnd d)), d + 1))"

definition rand_letters :: "(nat \<Rightarrow> nat) \<Rightarrow> nat \<Rightarrow> nat \<Rightarrow> pystr \<times> nat" where
  "rand_letters rnd n d =
     (map (\<lambda>i. 65 + int (rnd (d + i) mod 26)) [0..<clamp20 n], d + clamp20 n)"

record render_env =
  rv_date :: pystr
  rv_time :: pystr
  rv_rnd :: "nat \<Rightarrow> nat"

text \<open>The eighteen replacements of fixed tags, in the order of the code.\<close>

definition fixed_values ::
    "render_env \<Rightarrow> int \<Rightarrow> pystr \<Rightarrow> pystr option \<Rightarrow> pystr option \<Rightarrow> pystr list" where
  "fixed_values env index phone_e164 country_code amount =
     (let rand_code = fst (rand_digits (rv_rnd env) 6 0);
          rand_letter = fst (rand_letters (rv_rnd env) 6 1);
          phone_digits = py_lstrip_chars [43] phone_e164;
          phone_last4 = drop (length phone_digits - 4) phone_digits;
          cc = py_strip (case country_code of None \<Rightarrow> [] | Some c \<Rightarrow> c);
          amt = py_strip (case amount of None \<Rightarrow> [] | Some a \<Rightarrow> a);
          values = [text_of_int index, cc, rv_date env, rv_time env, rand_code, phone_digits,
                    phone_last4, amt, rand_letter]
      in values @ values)"

definition render_sms_variables ::
    "render_env \<Rightarrow> pystr \<Rightarrow> int \<Rightarrow> pystr \<Rightarrow> pystr option \<Rightarrow> pystr option \<Rightarrow> pystr" where
  "render_sms_variables env template index phone_e164 country_code amount =
     (let digits = rand_digits (rv_rnd env); letters = rand_letters (rv_rnd env);
          m0 = fold (\<lambda>(t, v). py_replace t v)
                 (zip SMS_TEMPLATE_VAR_TAGS (fixed_values env index phone_e164 country_code amount)) template;
          (m1, d1) = var_sub_from VAR_CODE_ZH digits 7 0 m0;
          (m2, d2) = var_sub_from VAR_CODE_EN digits d1 0 m1;
          (m3, d3) = var_sub_from VAR_LETTERS_ZH letters d2 0 m2;
          (m4, d4) = var_sub_from VAR_LETTERS_EN letters d3 0 m3
      in m4)"

section \<open>Lemmas\<close>

lemma contains_Cons_iff: "contains p (c # cs) \<longleftrightarrow> starts_with p (c # cs) \<or> contains p cs"
  by simp

lemma py_replace_absent: "\<not> contains old s \<Longrightarrow> old \<noteq> [] \<Longrightarrow> py_replace old new s = s"
  unfolding py_replace_def by (induction s) auto

lemma var_sub_absent: "\<not> var_search pre s \<Longrightarrow> var_sub_from pre gen d 0 s = (s, d)"
  by (induction s) (auto split: option.split)

text \<open>A random code has as many digits as asked for, between 1 and 20.\<close>

lemma length_text_of_nat: "10 ^ m \<le> x \<Longrightarrow> x < 10 ^ Suc m \<Longrightarrow> length (text_of_nat x) = Suc m"
proof (induction m arbitrary: x)
  case 0
  then show ?case by (simp add: text_of_nat.simps [of x])
next
  case (Suc m)
  have "10 ^ m \<le> x div 10" "x div 10 < 10 ^ Suc m" "\<not> x < 10"
    using Suc.prems by (auto simp: less_mult_imp_div_less mult.commute less_eq_div_iff_mult_less_eq)
      (smt (verit) one_le_numeral one_le_power mult_le_mono2 mult.right_neutral not_le order_trans)
  then show ?case using Suc.IH [of "x div 10"] by (simp add: text_of_nat.simps [of x])
qed

lemma length_rand_digits: "length (fst (rand_digits rnd n d)) = clamp20 n"
proof (cases "clamp20 n = 1")
  case True
  have "randint 0 9 (rnd d) < 10" by (simp add: randint_def)
  then show ?thesis by (simp add: rand_digits_def True text_of_nat.simps)
next
  case False
  then obtain m where m: "clamp20 n = Suc (Suc m)"
    by (metis One_nat_def clamp20_def max.cobounded1 not0_implies_Suc not_one_le_zero)
  have "0 < (10::nat) ^ Suc m" "(10::nat) ^ Suc m < 10 ^ Suc (Suc m)" by simp_all
  then have "rnd d mod (10 ^ Suc (Suc m) - 1 - 10 ^ Suc m + 1) < 10 ^ Suc (Suc m) - 10 ^ Suc m" by simp
  then have "randint (10 ^ Suc m) (10 ^ Suc (Suc m) - 1) (rnd d) < 10 ^ Suc (Suc m)"
    unfolding randint_def by linarith
  moreover have "10 ^ Suc m \<le> randint (10 ^ Suc m) (10 ^ Suc (Suc m) - 1) (rnd d)"
    by (simp add: randint_def)
  ultimately show ?thesis using m by (simp add: rand_digits_def Let_def length_text_of_nat del: power_Suc)
qed

lemma length_rand_letters: "length (fst (rand_letters rnd n d)) = clamp20 n"
  by (simp add: rand_letters_def)

lemma tags_nonempty: "t \<in> set SMS_TEMPLATE_VAR_TAGS \<Longrightarrow> t \<noteq> []"
  by (auto simp: SMS_TEMPLATE_VAR_TAGS_def tag_def)

lemma fold_replace_absent:
  "\<forall>(t, v) \<in> set rs. t \<noteq> [] \<and> \<not> contains t s \<Longrightarrow> fold (\<lambda>(t, v). py_replace t v) rs s = s"
  by (induction rs) (auto simp: py_replace_absent)

text \<open>Skipping the rendering of a text without variables is no more than an optimisation: rendering it
  gives the text itself, whatever the number, the country, the clock and the random draws.\<close>

theorem render_without_variables:
  assumes "\<not> sms_template_has_variables t"
  shows "render_sms_variables env t index phone cc amount = t"
proof (cases "t = []")
  case True
  have "fold (\<lambda>(t, v). py_replace t v) rs [] = []" for rs
    by (induction rs) (auto simp: py_replace_def)
  then show ?thesis by (simp add: True render_sms_variables_def)
next
  case False
  have "fold (\<lambda>(t, v). py_replace t v) (zip SMS_TEMPLATE_VAR_TAGS vs) t = t" for vs
    using assms False tags_nonempty
    by (intro fold_replace_absent)
       (auto simp: sms_template_has_variables_def contains_any_def list_ex_iff dest!: set_zip_leftD)
  then show ?thesis
    using assms False by (simp add: render_sms_variables_def sms_template_has_variables_def var_sub_absent)
qed

theorem render_without_variables_witness:
  "render_sms_variables \<lparr>rv_date = [], rv_time = [], rv_rnd = \<lambda>_. 0\<rparr> [72, 105] 1 [43, 54, 54] None None = [72, 105]"
proof -
  have "\<not> sms_template_has_variables [72, 105]" by code_simp
  then show ?thesis by (rule render_without_variables)
qed

end
