(* ===== verification/Submit.thy ===== *)
theory Submit
  imports Gateway Validator Template ChannelConfig Pricing Router Refund
begin

text \<open>
  The submission of one message, \<open>submit_sms_core\<close> of \<open>backend/app/api/v1/sms.py\<close>, which the HTTP
  endpoint and the inbound SMPP gateway (\<open>api/v1/_internal_smpp.py\<close>) share: number, country
  restriction, variables, content, banned words, routing, RCS rules, sender id, charge, message row,
  deferred balance log, queue, and the refund of a message that could not be queued. The route
  returns an answer in every case, so the request's transaction commits at its end; only a failed
  insert (the message id is taken) leaves it rolled back. The stages of the function are definitions
  of their own, composed in its order.
\<close>

record 'n submit_env =
  se_lib :: "'n phone_lib"
  se_render :: render_env
  se_draw :: rat
  se_enum :: "pystr list \<Rightarrow> pystr list"
  se_show :: "json \<Rightarrow> pystr"
  se_uuid :: pystr
  se_broker :: "nat \<Rightarrow> bool"

record submit_request =
  rq_phone :: pystr
  rq_message :: pystr
  rq_channel_id :: "int option"
  rq_credentials :: "(pystr option \<times> pystr option) option"
  rq_message_id :: "pystr option"
  rq_defer :: bool
  rq_sender_id :: "pystr option"

datatype submit_error =
    InvalidPhone phone_error
  | CountryNotAllowed
  | InvalidContent content_error
  | ContentBlocked pystr
  | ChannelBatchOnly
  | RcsContent rcs_content_error
  | InvalidSenderId pystr
  | BillingError
  | Raised exn

datatype submit_answer =
    Accepted pystr money pystr nat \<comment> \<open>message_id, cost, currency, message_count\<close>
  | QueueFailed pystr
  | Rejected submit_error

text \<open>The code of the answer; the handlers at the end name four exceptions and hide the others.\<close>

fun submit_error_code :: "submit_error \<Rightarrow> string" where
  "submit_error_code (InvalidPhone _) = ''INVALID_PHONE''"
| "submit_error_code CountryNotAllowed = ''COUNTRY_NOT_ALLOWED''"
| "submit_error_code (InvalidContent _) = ''INVALID_CONTENT''"
| "submit_error_code (ContentBlocked _) = ''CONTENT_BLOCKED''"
| "submit_error_code ChannelBatchOnly = ''CHANNEL_BATCH_ONLY''"
| "submit_error_code (RcsContent RcsContentEmpty) = ''CONTENT_EMPTY''"
| "submit_error_code (RcsContent (RcsEmojiForbidden _)) = ''CONTENT_EMOJI_FORBIDDEN''"
| "submit_error_code (RcsContent (RcsContentTooLong _)) = ''CONTENT_TOO_LONG''"
| "submit_error_code (InvalidSenderId _) = ''INVALID_SENDER_ID''"
| "submit_error_code BillingError = ''BILLING_ERROR''"
| "submit_error_code (Raised e) =
     (case e of
        ValidationError _ \<Rightarrow> ''VALIDATION_ERROR''
      | InvalidPhoneNumberError _ \<Rightarrow> ''VALIDATION_ERROR''
      | InsufficientBalanceError _ _ \<Rightarrow> ''INSUFFICIENT_BALANCE''
      | PricingNotFoundError _ _ \<Rightarrow> ''PRICING_NOT_FOUND''
      | ChannelNotAvailableError \<Rightarrow> ''CHANNEL_NOT_AVAILABLE''
      | _ \<Rightarrow> ''INTERNAL_ERROR'')"

fun answer_code :: "submit_answer \<Rightarrow> string option" where
  "answer_code (Accepted _ _ _ _) = None"
| "answer_code (QueueFailed _) = Some ''QUEUE_FAILED''"
| "answer_code (Rejected e) = Some (submit_error_code e)"

section \<open>The stages\<close>

text \<open>Steps 1 and 2: what needs no database.\<close>

definition final_text :: "'n submit_env \<Rightarrow> pystr \<Rightarrow> phone_info \<Rightarrow> pystr" where
  "final_text env msg info =
     (if sms_template_has_variables msg
      then render_sms_variables (se_render env) msg 1 (e164_format info) (Some (ph_country_code info)) None
      else msg)"

definition admit :: "'n submit_env \<Rightarrow> account \<Rightarrow> pystr \<Rightarrow> pystr \<Rightarrow> submit_error + (phone_info \<times> pystr)" where
  "admit env acc phone msg =
     (case validate_phone_number (se_lib env) phone of
        Inl e \<Rightarrow> Inl (InvalidPhone e)
      | Inr info \<Rightarrow>
          (if \<not> sms_destination_allowed acc (ph_country_code info) then Inl CountryNotAllowed
           else case validate_content (final_text env msg info) of
                  Inl e \<Rightarrow> Inl (InvalidContent e)
                | Inr _ \<Rightarrow> Inr (info, final_text env msg info)))"

definition block :: "account \<Rightarrow> pystr \<Rightarrow> pystr \<Rightarrow> block_stage \<Rightarrow> gateway \<Rightarrow> gateway" where
  "block acc phone hit stage g =
     g\<lparr>blocked_log := blocked_log g @ [\<lparr>bk_account_id = acc_id acc, bk_phone_number = phone,
                                          bk_hit = hit, bk_stage = stage\<rparr>]\<rparr>"

text \<open>The two checks of banned words, around the choice of the channel (2.1 to 3.1).\<close>

definition screen ::
    "account \<Rightarrow> pystr \<Rightarrow> pystr \<Rightarrow> channel option \<Rightarrow> pystr option \<Rightarrow> gateway \<Rightarrow> submit_error option \<times> gateway" where
  "screen acc phone msg ch cc g =
     (case check_banned_words g msg (map_option ch_id ch) cc of
        (Inl e, g1) \<Rightarrow> (Some (Raised e), g1)
      | (Inr None, g1) \<Rightarrow> (None, g1)
      | (Inr (Some hit), g1) \<Rightarrow>
          (Some (ContentBlocked hit),
           block acc phone hit (case ch of None \<Rightarrow> GlobalStage | Some c \<Rightarrow> ChannelStage (ch_id c)) g1))"

definition choose_channel ::
    "rat \<Rightarrow> account \<Rightarrow> pystr \<Rightarrow> pystr \<Rightarrow> pystr \<Rightarrow> int option \<Rightarrow> gateway \<Rightarrow> (submit_error + channel) \<times> gateway" where
  "choose_channel draw acc phone msg cc preferred g =
     (case screen acc phone msg None None g of
        (Some e, g1) \<Rightarrow> (Inl e, g1)
      | (None, g1) \<Rightarrow>
          (case select_channel draw (gw_world g1) cc preferred ByPriority (Some (acc_id acc)) of
             (Inl e, w2) \<Rightarrow> (Inl (Raised e), g1\<lparr>gw_world := w2\<rparr>)
           | (Inr ch, w2) \<Rightarrow>
               (case screen acc phone msg (Some ch) (Some cc) (g1\<lparr>gw_world := w2\<rparr>) of
                  (Some e, g3) \<Rightarrow> (Inl e, g3)
                | (None, g3) \<Rightarrow> (Inr ch, g3))))"

text \<open>Step 3.2: an RCS channel of the vendor \<open>node\<close> sends batches only, the others restrict the text.\<close>

definition rcs_check :: "(json \<Rightarrow> pystr) \<Rightarrow> channel \<Rightarrow> pystr \<Rightarrow> submit_error option" where
  "rcs_check show ch msg =
     (case is_rcs ch of
        Inl e \<Rightarrow> Some (Raised e)
      | Inr False \<Rightarrow> None
      | Inr True \<Rightarrow>
          (case rcs_vendor show ch of
             Inl e \<Rightarrow> Some (Raised e)
           | Inr v \<Rightarrow> (if v = asc ''node'' then Some ChannelBatchOnly
                      else map_option RcsContent (validate_rcs_content (Some msg)))))"

text \<open>Step 7: the row of the message.\<close>

definition message_row ::
    "gateway \<Rightarrow> pystr \<Rightarrow> account \<Rightarrow> channel \<Rightarrow> phone_info \<Rightarrow> pystr option \<Rightarrow> pystr \<Rightarrow> charge_result \<Rightarrow> sms_log" where
  "message_row g mid acc ch info sid_opt msg r =
     (new_sms_log (next_log_id g) mid (acc_id acc) (e164_format info))
       \<lparr>log_channel_id := Some (ch_id ch), log_country_code := Some (ph_country_code info),
        log_sender_id := sid_opt, message := Some msg, message_count := Some (int (cr_message_count r)),
        log_status := Queued, cost_price := Some (total_base_cost r), selling_price := Some (total_cost r),
        log_currency := Some (cr_currency r), submit_time := now (gw_world g)\<rparr>"

definition insert_row :: "sms_log \<Rightarrow> gateway \<Rightarrow> gateway" where
  "insert_row row g =
     g\<lparr>gw_world := (gw_world g)\<lparr>sms_logs := sms_logs (gw_world g) @ [row]\<rparr>, next_log_id := next_log_id g + 1\<rparr>"

text \<open>The balance log of the deferred mode, written after the commit.\<close>

definition deferred_log :: "account \<Rightarrow> charge_result \<Rightarrow> world \<Rightarrow> world" where
  "deferred_log acc r w =
     (case balance_of w (acc_id acc) of
        None \<Rightarrow> w
      | Some b \<Rightarrow> log_balance (acc_id acc) Charge (- total_cost r) b w)"

text \<open>\<open>_refund_line_charge\<close>, and the status of the message after it.\<close>

definition refund_line_charge :: "pystr \<Rightarrow> pystr \<Rightarrow> world \<Rightarrow> world" where
  "refund_line_charge mid source w =
     (case first_row (filter (\<lambda>r. message_id r = mid) (sms_logs w)) of
        None \<Rightarrow> w
      | Some row \<Rightarrow> snd (execute_auto_refund w (log_id row) source))"

definition mark_unqueued :: "pystr \<Rightarrow> pystr \<Rightarrow> world \<Rightarrow> world" where
  "mark_unqueued mid err w =
     w\<lparr>sms_logs := upd_where (\<lambda>r. message_id r = mid)
                     (\<lambda>r. r\<lparr>log_status := Failed, log_error_message := Some err\<rparr>) (sms_logs w)\<rparr>"

definition give_back :: "pystr \<Rightarrow> pystr \<Rightarrow> pystr \<Rightarrow> gateway \<Rightarrow> gateway" where
  "give_back mid source err g =
     g\<lparr>gw_world := mark_unqueued mid err (refund_line_charge mid source (gw_world g))\<rparr>"

text \<open>The Chinese sentence "joining the send queue failed, please check whether RabbitMQ and Celery
  worker-sms are running".\<close>

definition queue_error_text :: pystr where
  "queue_error_text =
     [21152, 20837, 21457, 36865, 38431, 21015, 22833, 36133, 65292, 35831, 26816, 26597]
     @ asc '' RabbitMQ '' @ [19982] @ asc '' Celery worker-sms '' @ [26159, 21542, 36816, 34892]"

text \<open>A message id that is taken fails the insert: the transaction with its charge is rolled back, the
  caches keep what they read.\<close>

definition roll_back :: "world \<Rightarrow> world \<Rightarrow> world" where
  "roll_back w0 w = w\<lparr>accounts := accounts w0, balance_logs := balance_logs w0\<rparr>"

text \<open>Steps 6 to 8, on a message that has been charged; \<open>w0\<close> is the world at the start of the transaction.\<close>

definition store_and_queue ::
    "'n submit_env \<Rightarrow> account \<Rightarrow> submit_request \<Rightarrow> channel \<Rightarrow> phone_info \<Rightarrow> pystr option \<Rightarrow> pystr
       \<Rightarrow> charge_result \<Rightarrow> world \<Rightarrow> gateway \<Rightarrow> submit_answer \<times> gateway" where
  "store_and_queue env acc rq ch info sid_opt msg r w0 g =
     (let mid = (case or_text (rq_message_id rq) None of Some m \<Rightarrow> m | None \<Rightarrow> asc ''msg_'' @ se_uuid env);
          row = message_row g mid acc ch info sid_opt msg r
      in if mid \<in> set (map message_id (sms_logs (gw_world g)))
         then (Rejected (Raised PyException),
               g\<lparr>gw_world := roll_back w0 (gw_world g), next_log_id := next_log_id g + 1\<rparr>)
         else let g1 = insert_row row g;
                  g2 = (if rq_defer rq then g1\<lparr>gw_world := deferred_log acc r (gw_world g1)\<rparr> else g1);
                  (ok, g3) = queue_sms (se_broker env) mid (rq_credentials rq) g2
              in if ok then (Accepted mid (total_cost r) (cr_currency r) (cr_message_count r), g3)
                 else (QueueFailed mid, give_back mid (asc ''queue_failed'') queue_error_text g3))"

text \<open>Steps 4 and 5.\<close>

definition charge_message ::
    "'n submit_env \<Rightarrow> account \<Rightarrow> submit_request \<Rightarrow> channel \<Rightarrow> phone_info \<Rightarrow> pystr
       \<Rightarrow> gateway \<Rightarrow> submit_answer \<times> gateway" where
  "charge_message env acc rq ch info msg g =
     (case resolve_sender_id (se_enum env) g (ch_id ch) (ph_country_code info) (rq_sender_id rq) of
        Inl e \<Rightarrow> (Rejected (InvalidSenderId e), g)
      | Inr sid_opt \<Rightarrow>
          (case calculate_and_charge (se_enum env) (gw_world g) (acc_id acc) (ch_id ch)
                  (ph_country_code info) msg None (Some ch) (rq_defer rq) of
             (Inl e, w1) \<Rightarrow> (Rejected (Raised e), g\<lparr>gw_world := w1\<rparr>)
           | (Inr AccountNotFound, w1) \<Rightarrow> (Rejected BillingError, g\<lparr>gw_world := w1\<rparr>)
           | (Inr (Charged r), w1) \<Rightarrow>
               store_and_queue env acc rq ch info sid_opt msg r (gw_world g) (g\<lparr>gw_world := w1\<rparr>)))"

definition submit_sms_core ::
    "'n submit_env \<Rightarrow> account \<Rightarrow> submit_request \<Rightarrow> gateway \<Rightarrow> submit_answer \<times> gateway" where
  "submit_sms_core env acc rq g =
     (case admit env acc (rq_phone rq) (rq_message rq) of
        Inl e \<Rightarrow> (Rejected e, g)
      | Inr (info, msg) \<Rightarrow>
          (case choose_channel (se_draw env) acc (rq_phone rq) msg (ph_country_code info) (rq_channel_id rq) g of
             (Inl e, g1) \<Rightarrow> (Rejected e, g1)
           | (Inr ch, g1) \<Rightarrow>
               (case rcs_check (se_show env) ch msg of
                  Some e \<Rightarrow> (Rejected e, g1)
                | None \<Rightarrow> charge_message env acc rq ch info msg g1)))"

text \<open>\<open>smpp_submit\<close>: the account is looked up, and its status and protocol are checked.\<close>

datatype smpp_answer = SmppAccountMissing | AccountInactive | ProtocolMismatch | Submitted submit_answer

definition smpp_submit ::
    "'n submit_env \<Rightarrow> int \<Rightarrow> pystr \<Rightarrow> pystr \<Rightarrow> pystr \<Rightarrow> gateway \<Rightarrow> smpp_answer \<times> gateway" where
  "smpp_submit env account_id mid dest msg g =
     (case account_by_id (gw_world g) account_id of
        None \<Rightarrow> (SmppAccountMissing, g)
      | Some a \<Rightarrow>
          (if acc_status a \<noteq> AccActive then (AccountInactive, g)
           else if acc_protocol a \<noteq> AccSMPP then (ProtocolMismatch, g)
           else map_prod Submitted id
                  (submit_sms_core env a
                     \<lparr>rq_phone = dest, rq_message = msg, rq_channel_id = None, rq_credentials = None,
                      rq_message_id = Some mid, rq_defer = True, rq_sender_id = None\<rparr> g)))"

text \<open>The endpoints \<open>/send\<close>, \<open>/status/{message_id}\<close> and \<open>/channels/{channel_id}/sender-ids\<close>.\<close>

definition http_credentials :: "pystr option \<Rightarrow> pystr option \<Rightarrow> (pystr option \<times> pystr option) option" where
  "http_credentials user pwd =
     (if or_text user None \<noteq> None \<or> or_text pwd None \<noteq> None then Some (user, pwd) else None)"

definition send_sms ::
    "'n submit_env \<Rightarrow> account \<Rightarrow> pystr \<Rightarrow> pystr \<Rightarrow> int option \<Rightarrow> pystr option \<Rightarrow> pystr option \<Rightarrow> pystr option
       \<Rightarrow> gateway \<Rightarrow> submit_answer \<times> gateway" where
  "send_sms env acc phone msg chan user pwd sid_opt g =
     submit_sms_core env acc
       \<lparr>rq_phone = phone, rq_message = msg, rq_channel_id = chan, rq_credentials = http_credentials user pwd,
        rq_message_id = None, rq_defer = False, rq_sender_id = sid_opt\<rparr> g"

record status_response =
  sr_message_id :: pystr
  sr_status :: sms_status
  sr_phone_number :: pystr
  sr_submit_time :: int
  sr_sent_time :: "int option"
  sr_delivery_time :: "int option"
  sr_error_message :: "pystr option"
  sr_cost :: "money option"
  sr_currency :: "pystr option"

definition get_sms_status :: "world \<Rightarrow> account \<Rightarrow> pystr \<Rightarrow> status_response outcome" where
  "get_sms_status w acc mid =
     (case one_or_none (filter (\<lambda>r. message_id r = mid \<and> log_account_id r = acc_id acc) (sms_logs w)) of
        ManyRows \<Rightarrow> Inl MultipleResultsFound
      | NoRow \<Rightarrow> Inl (ResourceNotFoundError mid)
      | OneRow r \<Rightarrow>
          Inr \<lparr>sr_message_id = message_id r, sr_status = log_status r, sr_phone_number = phone_number r,
               sr_submit_time = submit_time r, sr_sent_time = sent_time r, sr_delivery_time = delivery_time r,
               sr_error_message = log_error_message r,
               sr_cost = (case selling_price r of Some p \<Rightarrow> if p = 0 then None else Some p | None \<Rightarrow> None),
               sr_currency = log_currency r\<rparr>)"

definition list_available_sender_ids ::
    "(pystr list \<Rightarrow> pystr list) \<Rightarrow> gateway \<Rightarrow> int \<Rightarrow> pystr \<Rightarrow> pystr \<times> sid_option list" where
  "list_available_sender_ids enum g chan country_code =
     (let cc = py_upper (py_strip country_code) in (cc, list_active_sender_ids enum g chan cc))"

section \<open>What the checks leave alone\<close>

definition same_gateway :: "gateway \<Rightarrow> gateway \<Rightarrow> bool" where
  "same_gateway g g' \<longleftrightarrow> same_tables (gw_world g) (gw_world g') \<and> system_configs g' = system_configs g
     \<and> country_sids g' = country_sids g \<and> sms_queue g' = sms_queue g \<and> next_log_id g' = next_log_id g"

lemma same_gateway_refl [simp]: "same_gateway g g"
  by (simp add: same_gateway_def)

lemma same_gateway_trans: "same_gateway g g1 \<Longrightarrow> same_gateway g1 g2 \<Longrightarrow> same_gateway g g2"
  by (auto simp: same_gateway_def intro: same_tables_trans)

lemma screen_same: "screen acc phone msg ch cc g = (r, g') \<Longrightarrow> same_gateway g g'"
  unfolding screen_def block_def
  by (auto split: prod.splits sum.splits option.splits dest!: check_banned_words_world
      simp: same_gateway_def)

lemma choose_channel_cases:
  assumes "choose_channel draw acc phone msg cc pref g = (r, g')"
  shows "same_gateway g g' \<and> (case r of Inl _ \<Rightarrow> True
     | Inr ch \<Rightarrow> ch \<in> set (channels (gw_world g)) \<and> live ch
                \<and> within_binding (gw_world g) (Some (acc_id acc)) cc ch)"
proof -
  obtain e g1 where s1: "screen acc phone msg None None g = (e, g1)" by fastforce
  obtain c w2 where sel: "select_channel draw (gw_world g1) cc pref ByPriority (Some (acc_id acc)) = (c, w2)"
    by fastforce
  note st = same_gateway_def same_tables_def
  have g1: "same_gateway g g1" by (rule screen_same [OF s1])
  have "same_tables (gw_world g1) w2" by (rule select_channel_same [OF sel])
  with g1 have g2: "same_gateway g (g1\<lparr>gw_world := w2\<rparr>)"
    by (auto simp: same_gateway_def intro: same_tables_trans)
  show ?thesis
  proof (cases e)
    case (Some x)
    with assms s1 g1 show ?thesis by (auto simp: choose_channel_def)
  next
    case None
    show ?thesis
    proof (cases c)
      case (Inl x)
      with assms s1 None sel g2 show ?thesis by (auto simp: choose_channel_def)
    next
      case (Inr ch)
      obtain f g3 where s3: "screen acc phone msg (Some ch) (Some cc) (g1\<lparr>gw_world := w2\<rparr>) = (f, g3)"
        by fastforce
      have "same_gateway g g3" using same_gateway_trans [OF g2 screen_same [OF s3]] .
      moreover have "ch \<in> set (channels (gw_world g)) \<and> live ch
          \<and> within_binding (gw_world g) (Some (acc_id acc)) cc ch"
        using select_channel_sound [OF sel [unfolded Inr]] g1 bound_ids_cong [of "gw_world g1" "gw_world g"]
        by (simp add: st within_binding_def cong: option.case_cong)
      ultimately show ?thesis using assms s1 None sel Inr s3
        by (cases f) (auto simp: choose_channel_def)
    qed
  qed
qed

section \<open>The deferred balance log\<close>

text \<open>A charge in deferred mode and its log entry together are the charge that logs itself.\<close>

lemma charge_deferred:
  assumes wf: "wf_world w"
  shows "calculate_and_charge enum w i chan cc msg mnc ch False =
    (case calculate_and_charge enum w i chan cc msg mnc ch True of
       (Inr (Charged r), w') \<Rightarrow>
         (Inr (Charged (r\<lparr>balance_after := balance_of w' i\<rparr>)),
          log_balance i Charge (- total_cost r) (the (balance_of w' i)) w')
     | other \<Rightarrow> other)"
proof -
  obtain q w1 where q: "quote_message enum w i chan cc msg mnc ch = (q, w1)" by fastforce
  then have wf1: "distinct (map acc_id (accounts w1))"
    using wf quote_tables [OF q] by (simp add: same_tables_def wf_world_def)
  have hit: "balance_of (snd (add_balance_where p i d w1)) i = Some (balance a + d)"
    if "account_by_id w1 i = Some a" "fst (add_balance_where p i d w1) \<noteq> 0" for p d a
    using add_balance_own_row(1,2) [OF wf1 that(1)] that(2) by (simp split: if_splits)
  show ?thesis
    unfolding calculate_and_charge_def q
    by (auto split: sum.split option.split prod.split simp: Let_def hit split_def)
qed

lemma deferred_log_commutes:
  "deferred_log acc r (w\<lparr>sms_logs := ls\<rparr>) = (deferred_log acc r w)\<lparr>sms_logs := ls\<rparr>"
  by (simp add: deferred_log_def log_balance_def split: option.split)

lemma store_and_queue_deferred:
  assumes "balance_of (gw_world g) (acc_id acc) = Some b"
  shows "store_and_queue env acc (rq\<lparr>rq_defer := True\<rparr>) ch info sid_opt msg r w0 g =
    store_and_queue env acc (rq\<lparr>rq_defer := False\<rparr>) ch info sid_opt msg (r\<lparr>balance_after := Some b\<rparr>) w0
      (g\<lparr>gw_world := log_balance (acc_id acc) Charge (- total_cost r) b (gw_world g)\<rparr>)"
proof -
  let ?w = "log_balance (acc_id acc) Charge (- total_cost r) b (gw_world g)"
  have rb: "roll_back w0 ?w = roll_back w0 (gw_world g)"
    by (simp add: roll_back_def log_balance_def)
  have row: "message_row (g\<lparr>gw_world := ?w\<rparr>) mid acc ch info sid_opt msg (r\<lparr>balance_after := Some b\<rparr>) =
      message_row g mid acc ch info sid_opt msg r" for mid
    by (simp add: message_row_def)
  have log: "(insert_row x g)\<lparr>gw_world := deferred_log acc r (gw_world (insert_row x g))\<rparr> =
      insert_row x (g\<lparr>gw_world := ?w\<rparr>)" for x
    by (simp add: insert_row_def deferred_log_commutes)
      (simp add: deferred_log_def assms log_balance_def)
  show ?thesis by (simp add: store_and_queue_def Let_def rb row log split: prod.split)
qed

lemma charge_message_deferred:
  assumes wf: "wf_world (gw_world g)"
  shows "charge_message env acc (rq\<lparr>rq_defer := True\<rparr>) ch info msg g =
         charge_message env acc (rq\<lparr>rq_defer := False\<rparr>) ch info msg g"
proof -
  obtain c w1 where c: "calculate_and_charge (se_enum env) (gw_world g) (acc_id acc) (ch_id ch)
      (ph_country_code info) msg None (Some ch) True = (c, w1)" by fastforce
  show ?thesis
  proof (cases "\<exists>r. c = Inr (Charged r)")
    case True
    then obtain r where r: "c = Inr (Charged r)" by blast
    obtain b where b: "balance_of w1 (acc_id acc) = Some b"
      using charge_moves [OF wf c [unfolded r]] by blast
    have "store_and_queue env acc (rq\<lparr>rq_defer := True\<rparr>) ch info s msg r (gw_world g) (g\<lparr>gw_world := w1\<rparr>) =
      store_and_queue env acc (rq\<lparr>rq_defer := False\<rparr>) ch info s msg (r\<lparr>balance_after := Some b\<rparr>) (gw_world g)
        (g\<lparr>gw_world := log_balance (acc_id acc) Charge (- total_cost r) b w1\<rparr>)" for s
      using store_and_queue_deferred [of "g\<lparr>gw_world := w1\<rparr>" acc b] b by simp
    then show ?thesis
      by (auto simp: charge_message_def charge_deferred [OF wf] c r b split: sum.split)
  next
    case False
    then show ?thesis
      by (cases c) (auto simp: charge_message_def charge_deferred [OF wf] c
          split: sum.split charge_answer.split)
  qed
qed

lemma deferred_submission:
  assumes "wf_world (gw_world g)"
  shows "submit_sms_core env acc (rq\<lparr>rq_defer := True\<rparr>) g =
         submit_sms_core env acc (rq\<lparr>rq_defer := False\<rparr>) g"
proof -
  have "charge_message env acc (rq\<lparr>rq_defer := True\<rparr>) ch info msg g1 =
        charge_message env acc (rq\<lparr>rq_defer := False\<rparr>) ch info msg g1"
    if "choose_channel (se_draw env) acc (rq_phone rq) msg cc (rq_channel_id rq) g = (Inr ch, g1)"
    for msg cc info ch g1
  proof (rule charge_message_deferred)
    have "same_tables (gw_world g) (gw_world g1)"
      using choose_channel_cases [OF that] by (simp add: same_gateway_def)
    then show "wf_world (gw_world g1)" using assms same_tables_queries(5) by simp
  qed
  then show ?thesis
    by (auto simp: submit_sms_core_def split: sum.split option.split prod.split)
qed


section \<open>What a submission leaves behind\<close>

text \<open>Ids come from a counter the table has not reached.\<close>

definition gateway_ok :: "gateway \<Rightarrow> bool" where
  "gateway_ok g \<longleftrightarrow> wf_world (gw_world g)
     \<and> list_all (\<lambda>r. log_id r < next_log_id g) (sms_logs (gw_world g))"

text \<open>A refused submission leaves every table and the queue as they were.\<close>

definition refused_effect :: "gateway \<Rightarrow> gateway \<Rightarrow> bool" where
  "refused_effect g g' \<longleftrightarrow> same_tables (gw_world g) (gw_world g') \<and> sms_queue g' = sms_queue g"

text \<open>A new message of the account at a price, on a live channel the account may use.\<close>

definition new_message_of :: "account \<Rightarrow> pystr \<Rightarrow> money \<Rightarrow> gateway \<Rightarrow> sms_log \<Rightarrow> bool" where
  "new_message_of acc mid cost g row \<longleftrightarrow>
     mid \<notin> set (map message_id (sms_logs (gw_world g))) \<and> message_id row = mid
     \<and> log_account_id row = acc_id acc \<and> selling_price row = Some cost
     \<and> (\<exists>ch cc. ch \<in> set (channels (gw_world g)) \<and> live ch \<and> log_channel_id row = Some (ch_id ch)
          \<and> log_country_code row = Some cc \<and> within_binding (gw_world g) (Some (acc_id acc)) cc ch)"

definition accepted_effect ::
    "account \<Rightarrow> (pystr option \<times> pystr option) option \<Rightarrow> pystr \<Rightarrow> money \<Rightarrow> gateway \<Rightarrow> gateway \<Rightarrow> bool" where
  "accepted_effect acc creds mid cost g g' \<longleftrightarrow>
     (\<exists>row b. new_message_of acc mid cost g row \<and> log_status row = Queued \<and> refunded_at row = None
        \<and> sms_logs (gw_world g') = sms_logs (gw_world g) @ [row]
        \<and> sms_queue g' = sms_queue g @ [\<lparr>q_message_id = mid, q_credentials = creds\<rparr>]
        \<and> balance_of (gw_world g) (acc_id acc) = Some b
        \<and> balance_of (gw_world g') (acc_id acc) = Some (b - cost)
        \<and> (\<forall>j. j \<noteq> acc_id acc \<longrightarrow> balance_of (gw_world g') j = balance_of (gw_world g) j)
        \<and> logged_total (acc_id acc) (balance_logs (gw_world g')) =
            logged_total (acc_id acc) (balance_logs (gw_world g)) - cost)"

text \<open>A message that could not be queued is marked as failed, and what it cost has been paid back.\<close>

definition unqueued_effect :: "account \<Rightarrow> pystr \<Rightarrow> gateway \<Rightarrow> gateway \<Rightarrow> bool" where
  "unqueued_effect acc mid g g' \<longleftrightarrow>
     (\<exists>row cost. new_message_of acc mid cost g row \<and> log_status row = Failed
        \<and> sms_logs (gw_world g') = sms_logs (gw_world g) @ [row] \<and> sms_queue g' = sms_queue g
        \<and> refunded_amount row = (if 0 < cost then Some cost else None)
        \<and> (0 \<le> cost \<longrightarrow> (\<forall>j. balance_of (gw_world g') j = balance_of (gw_world g) j)
             \<and> logged_total (acc_id acc) (balance_logs (gw_world g')) =
                 logged_total (acc_id acc) (balance_logs (gw_world g))))"

section \<open>The steps of a submission\<close>

lemma charge_tables:
  assumes "wf_world w" and "calculate_and_charge enum w i chan cc msg mnc ch skip = (Inr (Charged r), w')"
  shows "same_tables w (roll_back w w')"
  using assms
proof (cases rule: charge_cases)
  case (charged r' a w1 p)
  then show ?thesis
    by (simp add: roll_back_def Let_def same_tables_def add_balance_where_def log_balance_def)
qed simp

lemma charge_refused_tables:
  assumes "wf_world w" and "calculate_and_charge enum w i chan cc msg mnc ch skip = (c, w')"
    and "\<forall>r. c \<noteq> Inr (Charged r)"
  shows "same_tables w w'"
  using assms(1,2) by (cases rule: charge_cases) (use assms(3) in auto)

text \<open>The world after the charge and the insert, and after the refund of a message that was not queued.\<close>

definition stored :: "sms_log \<Rightarrow> world \<Rightarrow> world" where
  "stored row w = w\<lparr>sms_logs := sms_logs w @ [row]\<rparr>"

lemma insert_row_world [simp]: "gw_world (insert_row row g) = stored row (gw_world g)"
  "sms_queue (insert_row row g) = sms_queue g" "next_log_id (insert_row row g) = next_log_id g + 1"
  by (simp_all add: insert_row_def stored_def)

lemma refund_line_charge_new:
  assumes "message_id row \<notin> set (map message_id (sms_logs w))" and "log_id row \<notin> set (map log_id (sms_logs w))"
  shows "refund_line_charge (message_id row) source (stored row w) =
           snd (refund_run (Automatic (log_id row) source) (stored row w))"
    and "log_by_id (stored row w) (log_id row) = Some row"
proof -
  have "\<forall>r \<in> set (sms_logs w). message_id r \<noteq> message_id row"
    using assms(1) by (metis image_eqI set_map)
  then have "filter (\<lambda>r. message_id r = message_id row) (sms_logs (stored row w)) = [row]"
    by (simp add: stored_def filter_empty_conv)
  then show "refund_line_charge (message_id row) source (stored row w) =
           snd (refund_run (Automatic (log_id row) source) (stored row w))"
    by (simp add: refund_line_charge_def first_row_def)
  have "find (\<lambda>r. log_id r = log_id row) (ls @ [row]) = Some row"
    if "log_id row \<notin> set (map log_id ls)" for ls
    using that by (induction ls) auto
  then show "log_by_id (stored row w) (log_id row) = Some row"
    using assms(2) by (simp add: log_by_id_def stored_def)
qed

lemma stored_refund:
  assumes wf: "wf_world (stored row w)" and mid: "message_id row \<notin> set (map message_id (sms_logs w))"
    and i: "log_id row \<notin> set (map log_id (sms_logs w))"
    and un: "refunded_at row = None" "refunded_amount row = None" and cost: "selling_price row = Some cost"
    and w'_def: "w' = mark_unqueued (message_id row) err (refund_line_charge (message_id row) source (stored row w))"
  shows "\<exists>row'. sms_logs w' = sms_logs w @ [row'] \<and> log_status row' = Failed \<and> message_id row' = message_id row
           \<and> log_account_id row' = log_account_id row \<and> selling_price row' = Some cost
           \<and> log_channel_id row' = log_channel_id row \<and> log_country_code row' = log_country_code row
           \<and> refunded_amount row' = (if 0 < cost then Some cost else None)
           \<and> balance_of w' j = (if 0 < cost \<and> j = log_account_id row
                then map_option (\<lambda>b. b + cost) (balance_of w j) else balance_of w j)
           \<and> logged_total j (balance_logs w') = logged_total j (balance_logs w)
               + (if 0 < cost \<and> j = log_account_id row then cost else 0)"
proof -
  let ?w = "stored row w"
  note new = refund_line_charge_new(1) [OF mid i, of source] refund_line_charge_new(2) [OF mid i]
  have run: "refund_run (Automatic (log_id row) source) ?w =
      do_refund ?w row cost (asc ''system:'' @ source) (AutoSource source)"
    using new(2) un cost by (simp add: execute_auto_refund_def selling_amount_def)
  have claim: "fst (claim_refund (log_id row) cost by_whom ?w) = 1" for by_whom
    using claim_refund_row [OF wf new(2)] un by simp
  let ?f = "\<lambda>r. r\<lparr>log_status := Failed, log_error_message := Some err\<rparr>"
  have mark: "sms_logs (mark_unqueued (message_id row) err u) = sms_logs w @ [?f row']"
    if "sms_logs u = sms_logs w @ [row']" "message_id row' = message_id row" for u row'
  proof -
    have "message_id r \<noteq> message_id row" if "r \<in> set (sms_logs w)" for r
      using mid that by (metis image_eqI set_map)
    then have "upd_where (\<lambda>r. message_id r = message_id row) ?f (sms_logs w) = sms_logs w"
      by (intro upd_where_absent) simp
    then show ?thesis using that by (simp add: mark_unqueued_def)
  qed
  have frame: "balance_of (mark_unqueued m e u) k = balance_of u k"
    "balance_logs (mark_unqueued m e u) = balance_logs u" for m e u k
    by (simp_all add: mark_unqueued_def)
  show ?thesis
  proof (cases rule: do_refund_cases [of ?w row cost "asc ''system:'' @ source" "AutoSource source"])
    case (refused e)
    then have "cost \<le> 0" "refund_line_charge (message_id row) source ?w = ?w"
      using claim new(1) run by auto
    moreover have "sms_logs ?w = sms_logs w @ [row]" by (simp add: stored_def)
    ultimately show ?thesis unfolding w'_def using un cost
      by (intro exI [of _ "?f row"]) (simp add: mark frame, simp add: stored_def)
  next
    case (paid rc b)
    let ?u = "refund_line_charge (message_id row) source ?w"
    let ?r = "row\<lparr>refunded_at := Some (now w), refunded_by := Some (take 100 (asc ''system:'' @ source)),
                  refunded_amount := Some cost\<rparr>"
    have "\<not> (log_id r = log_id row \<and> refunded_at r = None)" if "r \<in> set (sms_logs w)" for r
      using i that by (metis image_eqI set_map)
    then have "upd_where (\<lambda>r. log_id r = log_id row \<and> refunded_at r = None) f (sms_logs w) = sms_logs w" for f
      by (intro upd_where_absent) simp
    then have "sms_logs ?u = sms_logs w @ [?r]"
      using new(1) run paid(1) un by (simp add: claim_refund_def Let_def stored_def)
    moreover have "balance_of ?u j = (if j = log_account_id row
                then map_option (\<lambda>b. b + cost) (balance_of w j) else balance_of w j)"
      using new(1) run paid(1) by (simp add: balance_of_add) (simp add: balance_of_def stored_def)
    moreover have "logged_total j (balance_logs ?u) = logged_total j (balance_logs w)
        + (if j = log_account_id row then cost else 0)"
      using new(1) run paid(1) by (simp add: log_balance_def) (simp add: stored_def)
    ultimately show ?thesis unfolding w'_def using paid(2) cost
      by (intro exI [of _ "?f ?r"]) (simp add: mark frame)
  qed
qed

lemma message_row_fields [simp]:
  "log_id (message_row g mid acc ch info so msg r) = next_log_id g"
  "message_id (message_row g mid acc ch info so msg r) = mid"
  "log_account_id (message_row g mid acc ch info so msg r) = acc_id acc"
  "log_status (message_row g mid acc ch info so msg r) = Queued"
  "selling_price (message_row g mid acc ch info so msg r) = Some (total_cost r)"
  "log_channel_id (message_row g mid acc ch info so msg r) = Some (ch_id ch)"
  "log_country_code (message_row g mid acc ch info so msg r) = Some (ph_country_code info)"
  "refunded_at (message_row g mid acc ch info so msg r) = None"
  "refunded_amount (message_row g mid acc ch info so msg r) = None"
  by (simp_all add: message_row_def new_sms_log_def)

text \<open>A charged message is refused because its id is taken, or is stored and queued, or is stored and
  given back.\<close>

lemma store_and_queue_cases:
  assumes "store_and_queue env acc rq ch info so msg r w0 g = (ans, g')" and "\<not> rq_defer rq"
  obtains (taken) "ans = Rejected (Raised PyException)" "gw_world g' = roll_back w0 (gw_world g)"
      "sms_queue g' = sms_queue g" "next_log_id g' = next_log_id g + 1"
  | (queued) mid row where "mid \<notin> set (map message_id (sms_logs (gw_world g)))"
      "row = message_row g mid acc ch info so msg r"
      "ans = Accepted mid (total_cost r) (cr_currency r) (cr_message_count r)"
      "gw_world g' = stored row (gw_world g)" "next_log_id g' = next_log_id g + 1"
      "sms_queue g' = sms_queue g @ [\<lparr>q_message_id = mid, q_credentials = rq_credentials rq\<rparr>]"
  | (unqueued) mid row where "mid \<notin> set (map message_id (sms_logs (gw_world g)))"
      "row = message_row g mid acc ch info so msg r" "ans = QueueFailed mid"
      "gw_world g' = mark_unqueued mid queue_error_text
         (refund_line_charge mid (asc ''queue_failed'') (stored row (gw_world g)))"
      "next_log_id g' = next_log_id g + 1" "sms_queue g' = sms_queue g"
proof -
  let ?mid = "case or_text (rq_message_id rq) None of Some m \<Rightarrow> m | None \<Rightarrow> asc ''msg_'' @ se_uuid env"
  show ?thesis
  proof (cases "?mid \<in> set (map message_id (sms_logs (gw_world g)))")
    case True
    with assms show ?thesis by (intro taken) (auto simp: store_and_queue_def Let_def)
  next
    case False
    then show ?thesis
    proof (cases "queue_attempts (se_broker env) 0 SMS_QUEUE_RETRIES")
      case True
      with assms False show ?thesis
        by (intro queued [OF False refl]) (auto simp: store_and_queue_def Let_def queue_sms_def)
    next
      case no: False
      with assms False show ?thesis
        by (intro unqueued [OF False refl])
          (auto simp: store_and_queue_def Let_def queue_sms_def give_back_def)
    qed
  qed
qed

lemma charge_message_cases:
  assumes run: "charge_message env acc rq ch info msg g = (ans, g')" and "\<not> rq_defer rq"
    and wf: "wf_world (gw_world g)"
  obtains (refused) e where "ans = Rejected e" "same_gateway g g'"
  | (charged) so r w2 where "calculate_and_charge (se_enum env) (gw_world g) (acc_id acc) (ch_id ch)
         (ph_country_code info) msg None (Some ch) False = (Inr (Charged r), w2)"
      "store_and_queue env acc rq ch info so msg r (gw_world g) (g\<lparr>gw_world := w2\<rparr>) = (ans, g')"
proof -
  obtain c w2 where c: "calculate_and_charge (se_enum env) (gw_world g) (acc_id acc) (ch_id ch)
      (ph_country_code info) msg None (Some ch) False = (c, w2)" by fastforce
  obtain q where q: "resolve_sender_id (se_enum env) g (ch_id ch) (ph_country_code info) (rq_sender_id rq) = q"
    by blast
  show ?thesis
  proof (cases "\<exists>r so. c = Inr (Charged r) \<and> q = Inr so")
    case True
    with run c q assms(2) show ?thesis by (auto simp: charge_message_def intro: charged)
  next
    case False
    have "same_tables (gw_world g) w2" if "\<forall>r. c \<noteq> Inr (Charged r)"
      using charge_refused_tables [OF wf c that] .
    then show ?thesis using run c q assms(2) False refused
      by (cases q; cases c) (auto simp: charge_message_def same_gateway_def split: charge_answer.splits)
  qed
qed

text \<open>The submission in the mode that logs at once, as the composition of a refusal or of a charge on
  unchanged tables with one of these.\<close>

lemma submit_cases:
  assumes ok: "gateway_ok g" and run: "submit_sms_core env acc rq g = (ans, g')"
  obtains (refused) e where "ans = Rejected e" "refused_effect g g'" "next_log_id g \<le> next_log_id g'"
  | (charged) ch info so msg r w2 g1 where "same_gateway g g1"
      "ch \<in> set (channels (gw_world g))" "live ch"
      "within_binding (gw_world g) (Some (acc_id acc)) (ph_country_code info) ch"
      "calculate_and_charge (se_enum env) (gw_world g1) (acc_id acc) (ch_id ch) (ph_country_code info)
         msg None (Some ch) False = (Inr (Charged r), w2)"
      "store_and_queue env acc (rq\<lparr>rq_defer := False\<rparr>) ch info so msg r (gw_world g1)
         (g1\<lparr>gw_world := w2\<rparr>) = (ans, g')"
proof -
  let ?rq = "rq\<lparr>rq_defer := False\<rparr>"
  have wf: "wf_world (gw_world g)" using ok by (simp add: gateway_ok_def)
  have "submit_sms_core env acc rq g = submit_sms_core env acc ?rq g"
    using deferred_submission [OF wf, of env acc rq] by (cases rq; cases "rq_defer rq") simp_all
  with run have run: "submit_sms_core env acc ?rq g = (ans, g')" by simp
  show ?thesis
  proof (cases "admit env acc (rq_phone rq) (rq_message rq)")
    case (Inl e)
    with run show ?thesis by (intro refused) (auto simp: submit_sms_core_def refused_effect_def)
  next
    case (Inr v)
    obtain info msg where v: "v = (info, msg)" by (cases v)
    obtain c g1 where c: "choose_channel (se_draw env) acc (rq_phone rq) msg (ph_country_code info) (rq_channel_id rq) g = (c, g1)"
      by fastforce
    note cc = choose_channel_cases [OF c]
    then have same: "same_gateway g g1" by blast
    have quit: thesis if "ans = Rejected e" "same_gateway g g'" for e
      using that by (intro refused) (auto simp: refused_effect_def same_gateway_def)
    show ?thesis
    proof (cases c)
      case (Inl e)
      with run Inr v c same show ?thesis by (intro quit [of e]) (auto simp: submit_sms_core_def)
    next
      case ch: (Inr ch)
      show ?thesis
      proof (cases "rcs_check (se_show env) ch msg")
        case (Some e)
        with run Inr v c ch same show ?thesis by (intro quit [of e]) (auto simp: submit_sms_core_def)
      next
        case None
        with run Inr v c ch have cm: "charge_message env acc ?rq ch info msg g1 = (ans, g')"
          by (simp add: submit_sms_core_def)
        have wf1: "wf_world (gw_world g1)"
          using same wf same_tables_queries(5) by (auto simp: same_gateway_def)
        have "\<not> rq_defer ?rq" by simp
        from cm this wf1 show ?thesis
        proof (cases rule: charge_message_cases)
          case (refused e)
          then show ?thesis using same_gateway_trans [OF same] by (intro quit)
        next
          case step: (charged so r w2)
          then show ?thesis using cc ch by (intro charged [OF same]) simp_all
        qed
      qed
    qed
  qed
qed

lemma log_ids_fresh:
  assumes "gateway_ok g" and "same_gateway g g1"
  shows "next_log_id g1 \<notin> set (map log_id (sms_logs (gw_world g1)))" and "gateway_ok g1"
  using assms same_tables_queries(5) [of "gw_world g" "gw_world g1"]
  by (auto simp: gateway_ok_def same_gateway_def same_tables_def list_all_iff)

text \<open>What a charge on unchanged tables and the row of its message say about the world before.\<close>

lemma charged_facts:
  assumes ok: "gateway_ok g" and same: "same_gateway g g1"
    and ch: "ch \<in> set (channels (gw_world g))" "live ch"
      "within_binding (gw_world g) (Some (acc_id acc)) (ph_country_code info) ch"
    and c: "calculate_and_charge enum (gw_world g1) (acc_id acc) chan cc msg mnc chn False = (Inr (Charged r), w2)"
  shows "sms_logs w2 = sms_logs (gw_world g)"
    and "\<exists>b. balance_of (gw_world g) (acc_id acc) = Some b \<and> balance_of w2 (acc_id acc) = Some (b - total_cost r)"
    and "j \<noteq> acc_id acc \<Longrightarrow> balance_of w2 j = balance_of (gw_world g) j"
    and "logged_total (acc_id acc) (balance_logs w2) =
           logged_total (acc_id acc) (balance_logs (gw_world g)) - total_cost r"
    and "wf_world w2"
    and "mid \<notin> set (map message_id (sms_logs w2)) \<Longrightarrow> message_id row = mid \<Longrightarrow>
         log_account_id row = acc_id acc \<Longrightarrow> selling_price row = Some (total_cost r) \<Longrightarrow>
         log_channel_id row = Some (ch_id ch) \<Longrightarrow> log_country_code row = Some (ph_country_code info) \<Longrightarrow>
         new_message_of acc mid (total_cost r) g row"
proof -
  have st: "same_tables (gw_world g) (gw_world g1)" using same by (simp add: same_gateway_def)
  have wf: "wf_world (gw_world g1)" using log_ids_fresh(2) [OF ok same] by (simp add: gateway_ok_def)
  show logs: "sms_logs w2 = sms_logs (gw_world g)"
    using charge_tables [OF wf c] st by (simp add: same_tables_def roll_back_def)
  have b: "balance_of (gw_world g1) k = balance_of (gw_world g) k" for k
    using st by (simp add: balance_of_def same_tables_queries(1))
  from charge_moves [OF wf c] obtain a where a: "account_by_id (gw_world g1) (acc_id acc) = Some a"
      "balance_of w2 (acc_id acc) = Some (balance a - total_cost r)"
      "\<And>j. j \<noteq> acc_id acc \<Longrightarrow> account_by_id w2 j = account_by_id (gw_world g1) j"
      "balance_logs w2 = balance_logs (gw_world g1)
         @ [\<lparr>bl_account_id = acc_id acc, bl_change_type = Charge, bl_amount = - total_cost r,
             bl_balance_after = balance a - total_cost r, related_order_id = None, bl_created_at = now (gw_world g1)\<rparr>]"
    by auto
  then show "\<exists>b. balance_of (gw_world g) (acc_id acc) = Some b \<and> balance_of w2 (acc_id acc) = Some (b - total_cost r)"
    using b [of "acc_id acc"] by (intro exI [of _ "balance a"]) (simp add: balance_of_def)
  show "balance_of w2 j = balance_of (gw_world g) j" if "j \<noteq> acc_id acc"
    using a(3) [OF that] b [of j] by (simp add: balance_of_def)
  show "logged_total (acc_id acc) (balance_logs w2) =
           logged_total (acc_id acc) (balance_logs (gw_world g)) - total_cost r"
    using a(4) st by (simp add: same_tables_def)
  show "wf_world w2" by (rule charge_logged(1) [OF wf c])
  show "new_message_of acc mid (total_cost r) g row"
    if "mid \<notin> set (map message_id (sms_logs w2))" "message_id row = mid"
       "log_account_id row = acc_id acc" "selling_price row = Some (total_cost r)"
       "log_channel_id row = Some (ch_id ch)" "log_country_code row = Some (ph_country_code info)"
    using that ch logs by (auto simp: new_message_of_def)
qed

lemma unqueued_settles:
  assumes ok: "gateway_ok g" and same: "same_gateway g g1"
    and ch: "ch \<in> set (channels (gw_world g))" "live ch"
      "within_binding (gw_world g) (Some (acc_id acc)) (ph_country_code info) ch"
    and c: "calculate_and_charge enum (gw_world g1) (acc_id acc) chan cc msg' mnc chn False = (Inr (Charged r), w2)"
    and mid: "mid \<notin> set (map message_id (sms_logs w2))"
    and row: "row = message_row (g1\<lparr>gw_world := w2\<rparr>) mid acc ch info so msg r"
    and world: "gw_world g' = mark_unqueued mid queue_error_text
         (refund_line_charge mid (asc ''queue_failed'') (stored row w2))"
    and queue: "sms_queue g' = sms_queue g"
  shows "unqueued_effect acc mid g g'"
proof -
  note facts = charged_facts [OF ok same ch c]
  let ?i = "acc_id acc"
  obtain b where b: "balance_of (gw_world g) ?i = Some b" "balance_of w2 ?i = Some (b - total_cost r)"
    using facts(2) by blast
  have new: "new_message_of acc mid (total_cost r) g row" using mid row by (intro facts(6)) simp_all
  have i: "log_id row \<notin> set (map log_id (sms_logs w2))"
    using log_ids_fresh(1) [OF ok same] facts(1) row same
    by (simp add: same_gateway_def same_tables_def)
  have wfs: "wf_world (stored row w2)" using facts(5) i by (simp add: wf_world_def stored_def)
  have "\<exists>row'. sms_logs (gw_world g') = sms_logs w2 @ [row'] \<and> log_status row' = Failed \<and> message_id row' = mid
         \<and> log_account_id row' = ?i \<and> selling_price row' = Some (total_cost r)
         \<and> log_channel_id row' = log_channel_id row \<and> log_country_code row' = log_country_code row
         \<and> refunded_amount row' = (if 0 < total_cost r then Some (total_cost r) else None)
         \<and> balance_of (gw_world g') j = (if 0 < total_cost r \<and> j = ?i
              then map_option (\<lambda>b. b + total_cost r) (balance_of w2 j) else balance_of w2 j)
         \<and> logged_total j (balance_logs (gw_world g')) = logged_total j (balance_logs w2)
             + (if 0 < total_cost r \<and> j = ?i then total_cost r else 0)" for j
    using stored_refund [OF wfs _ i, where cost = "total_cost r" and err = queue_error_text
        and source = "asc ''queue_failed''" and j = j and w' = "gw_world g'"] mid row world by simp
  note paid_back = this
  obtain row' where row': "sms_logs (gw_world g') = sms_logs w2 @ [row']" "log_status row' = Failed"
      "message_id row' = mid" "log_account_id row' = ?i" "selling_price row' = Some (total_cost r)"
      "log_channel_id row' = log_channel_id row" "log_country_code row' = log_country_code row"
      "refunded_amount row' = (if 0 < total_cost r then Some (total_cost r) else None)"
    using paid_back [of ?i] by blast
  have "balance_of (gw_world g') j = balance_of (gw_world g) j" if "0 \<le> total_cost r" for j
    using paid_back [of j] that b facts(3) [of j] by (cases "j = ?i"; cases "total_cost r = 0") auto
  moreover have "logged_total ?i (balance_logs (gw_world g')) = logged_total ?i (balance_logs (gw_world g))"
    if "0 \<le> total_cost r"
    using paid_back [of ?i] that facts(4) by (cases "total_cost r = 0") auto
  moreover have "new_message_of acc mid (total_cost r) g row'"
    using new row' row by (simp add: new_message_of_def)
  ultimately show "unqueued_effect acc mid g g'"
    unfolding unqueued_effect_def using row' facts(1) queue
    by (intro exI [of _ row'] exI [of _ "total_cost r"]) simp
qed


section \<open>A submission\<close>

text \<open>A customer with 10.00 on the account sends "hello" to a number of Thailand, over a channel that a
  routing rule opens for the country; the broker takes the task at the third attempt.\<close>

definition demo_lib :: "pystr phone_lib" where
  "demo_lib = \<lparr>pl_parse = (\<lambda>p. if starts_with (43 # asc ''66'') p then Some (drop 1 p) else None),
     pl_is_valid = (\<lambda>n. length n = 11), pl_is_possible = (\<lambda>n. 10 \<le> length n \<and> length n \<le> 12),
     pl_region = (\<lambda>_. Some (asc ''TH'')), pl_region_of_code = (\<lambda>_. Some (asc ''TH'')),
     pl_country_code = (\<lambda>_. 66), pl_e164 = (\<lambda>n. 43 # n)\<rparr>"

definition demo_submit_env :: "pystr submit_env" where
  "demo_submit_env = \<lparr>se_lib = demo_lib, se_render = \<lparr>rv_date = [], rv_time = [], rv_rnd = \<lambda>_. 0\<rparr>,
     se_draw = 0, se_enum = id, se_show = \<lambda>_. [], se_uuid = asc ''a1'', se_broker = \<lambda>n. n = 2\<rparr>"

definition demo_rule :: routing_rule where
  "demo_rule = \<lparr>rr_id = 1, rr_channel_id = 7, rr_country_code = asc ''TH'', rr_priority = 5, is_active = True,
     rr_banned_words = None, rr_created_at = 0, rr_updated_at = 0\<rparr>"

definition demo_gateway :: gateway where
  "demo_gateway = \<lparr>gw_world = demo_world\<lparr>routing_rules := [demo_rule]\<rparr>,
     system_configs = [(asc ''global_banned_words'', Some (asc ''casino''))], country_sids = [],
     bw_cache = Map.empty, sms_queue = [], blocked_log = [], next_log_id = 100\<rparr>"

definition demo_request :: submit_request where
  "demo_request = \<lparr>rq_phone = asc ''66812345678'', rq_message = asc ''hello'', rq_channel_id = None,
     rq_credentials = None, rq_message_id = None, rq_defer = False, rq_sender_id = None\<rparr>"


abbreviation demo_customer :: account where
  "demo_customer \<equiv> hd (accounts demo_world)"

abbreviation demo_channel :: channel where
  "demo_channel \<equiv> hd (channels demo_world)"

definition demo_info :: phone_info where
  "demo_info = \<lparr>e164_format = asc ''+66812345678'', region = Some (asc ''TH''), dial_code = asc ''66'',
     ph_country_code = asc ''TH''\<rparr>"

definition demo_routed :: gateway where
  "demo_routed =
     snd (choose_channel 0 demo_customer (asc ''66812345678'') (asc ''hello'') (asc ''TH'') None demo_gateway)"

lemma demo_number: "validate_phone_number demo_lib (asc ''66812345678'') = Inr demo_info"
proof -
  have th: "normalize_country_code (Some (asc ''TH'')) = Some (asc ''TH'')"
    using normalize_registered [of "(asc ''TH'', asc ''66'', [[27888, 22269]])" "asc ''TH''"] th_row by simp
  have ne: "asc ''TH'' \<noteq> []" by (simp add: asc_def)
  have "plus_form (asc ''66812345678'') = Some (asc ''+66812345678'')"
    "pl_parse demo_lib (asc ''+66812345678'') = Some (asc ''66812345678'')"
    "text_of_int 66 = asc ''66''"
    by code_simp+
  moreover have "length (asc ''66812345678'') = 11" "43 # asc ''66812345678'' = asc ''+66812345678''"
    by (simp_all add: asc_def)
  ultimately show ?thesis
    using th ne
    by (simp add: validate_phone_number_def demo_lib_def Let_def or_text_def iso_of_number_def demo_info_def)
qed

lemma demo_admitted:
  "admit demo_submit_env demo_customer (asc ''66812345678'') (asc ''hello'') = Inr (demo_info, asc ''hello'')"
proof -
  have "\<not> sms_template_has_variables (asc ''hello'')" by code_simp
  moreover have "\<exists>i. validate_content (asc ''hello'') = Inr i" by (simp add: validate_content_def asc_def)
  ultimately show ?thesis
    by (auto simp: admit_def demo_submit_env_def demo_number sms_destination_allowed_def
        account_country_iso_def demo_world_def new_account_def final_text_def)
qed

lemma demo_chosen:
  "choose_channel 0 demo_customer (asc ''66812345678'') (asc ''hello'') (asc ''TH'') None demo_gateway =
     (Inr demo_channel, demo_routed)"
proof -
  have "fst (choose_channel 0 demo_customer (asc ''66812345678'') (asc ''hello'') (asc ''TH'') None demo_gateway)
      = Inr demo_channel"
    by code_simp
  then show ?thesis by (simp add: demo_routed_def prod_eq_iff)
qed

lemma demo_billed:
  "fst (case calculate_and_charge id (gw_world demo_routed) 1 7 (asc ''TH'') (asc ''hello'') None
           (Some demo_channel) False of
      (Inr (Charged r), w1) \<Rightarrow> store_and_queue demo_submit_env demo_customer demo_request demo_channel demo_info
         None (asc ''hello'') r (gw_world demo_routed) (demo_routed\<lparr>gw_world := w1\<rparr>)
    | (_, w1) \<Rightarrow> (Rejected BillingError, demo_routed)) = Accepted (asc ''msg_a1'') (1 / 20) (asc ''USD'') 1"
  by code_simp

lemma demo_accepted:
  "fst (submit_sms_core demo_submit_env demo_customer demo_request demo_gateway) =
     Accepted (asc ''msg_a1'') (1 / 20) (asc ''USD'') 1"
proof -
  have "rcs_check show' demo_channel m = None" for show' m
    by (simp add: rcs_check_def is_rcs_def demo_world_def new_channel_def get_gateway_config_def obj_get_def
        json_get_def)
  moreover have "country_sids demo_routed = []"
    using choose_channel_cases [OF demo_chosen] by (simp add: same_gateway_def demo_gateway_def)
  then have "resolve_sender_id enum demo_routed c cc None = Inr None" for enum c cc
    by (simp add: resolve_sender_id_def list_active_sender_ids_def Let_def)
  moreover have "acc_id demo_customer = 1" "ch_id demo_channel = 7"
    by (simp_all add: demo_world_def new_account_def new_channel_def)
  ultimately show ?thesis
    using demo_billed demo_admitted demo_chosen
    by (auto simp: submit_sms_core_def demo_request_def charge_message_def demo_submit_env_def demo_info_def
        split: sum.splits prod.splits charge_answer.splits)
qed

lemma demo_gateway_ok: "gateway_ok demo_gateway"
  using demo_wf by (simp add: gateway_ok_def demo_gateway_def wf_world_def demo_world_def empty_world_def)



end
