(* ===== verification/Ruanwei.thy ===== *)
theory Ruanwei
  imports Submit
begin

text \<open>
  The Ruanwei compatible endpoint, \<open>send_sms_ruanwei_compat\<close> of \<open>backend/app/api/v1/sms.py\<close>: one request
  submits a list of numbers. It shares the checks of a submission, but it has no handler around them:
  an exception leaves the loop, and the transaction of the request is rolled back to its last commit.
  The state is therefore a pair: what is committed, and what the open transaction sees; \<open>abandon\<close> is
  the rollback, which leaves the caches and the queue alone. MD5 and the draws of each message are
  arguments.
\<close>

record ruanwei_item =
  ri_mobile :: pystr
  ri_mid :: pystr
  ri_result :: int

datatype ruanwei_response =
    WrongAction \<comment> \<open>status 100\<close>
  | MissingField \<comment> \<open>status 21\<close>
  | BadCredentials \<comment> \<open>status 3\<close>
  | Processed "ruanwei_item list" \<comment> \<open>status 0\<close>

definition abandon :: "gateway \<Rightarrow> gateway \<Rightarrow> gateway" where
  "abandon committed g =
     g\<lparr>gw_world := (gw_world g)\<lparr>accounts := accounts (gw_world committed),
                       balance_logs := balance_logs (gw_world committed),
                       sms_logs := sms_logs (gw_world committed)\<rparr>,
       blocked_log := blocked_log committed\<rparr>"

text \<open>One number of the list that passed the checks without database: route, charge, store, commit, queue.\<close>

definition ruanwei_send ::
    "'n submit_env \<Rightarrow> account \<Rightarrow> pystr \<Rightarrow> phone_info \<Rightarrow> pystr \<Rightarrow> gateway \<times> gateway
       \<Rightarrow> ruanwei_item outcome \<times> gateway \<times> gateway" where
  "ruanwei_send env acc phone info msg s =
     (let committed = fst s; g = snd s;
          item = (\<lambda>mid res. Inr \<lparr>ri_mobile = phone, ri_mid = mid, ri_result = res\<rparr>)
      in case choose_channel (se_draw env) acc phone msg (ph_country_code info) None g of
           (Inl (Raised e), g1) \<Rightarrow> (Inl e, committed, g1)
         | (Inl _, g1) \<Rightarrow> (item [] 17, committed, g1)
         | (Inr ch, g1) \<Rightarrow>
             (case calculate_and_charge (se_enum env) (gw_world g1) (acc_id acc) (ch_id ch)
                     (ph_country_code info) msg None None False of
                (Inl e, w2) \<Rightarrow> (Inl e, committed, g1\<lparr>gw_world := w2\<rparr>)
              | (Inr AccountNotFound, w2) \<Rightarrow> (item [] 10, committed, g1\<lparr>gw_world := w2\<rparr>)
              | (Inr (Charged r), w2) \<Rightarrow>
                  (let mid = asc ''msg_'' @ se_uuid env; g2 = g1\<lparr>gw_world := w2\<rparr>
                   in if mid \<in> set (map message_id (sms_logs w2))
                      then (Inl PyException, committed, g2\<lparr>next_log_id := next_log_id g2 + 1\<rparr>)
                      else let g3 = insert_row (message_row g2 mid acc ch info None msg r) g2;
                               (ok, g4) = queue_sms (se_broker env) mid None g3
                           in if ok then (item mid 0, g3, g4)
                              else (item mid 17, g3,
                                    give_back mid (asc ''ruanwei_queue_failed'') (asc ''queue failed'') g4))))"

text \<open>One number, in the transaction \<open>(committed, g)\<close>.\<close>

definition ruanwei_one ::
    "'n submit_env \<Rightarrow> account \<Rightarrow> pystr \<Rightarrow> pystr \<Rightarrow> gateway \<times> gateway
       \<Rightarrow> ruanwei_item outcome \<times> gateway \<times> gateway" where
  "ruanwei_one env acc content phone s =
     (case admit env acc phone content of
        Inl (InvalidPhone _) \<Rightarrow> (Inr \<lparr>ri_mobile = phone, ri_mid = [], ri_result = 15\<rparr>, s)
      | Inl _ \<Rightarrow> (Inr \<lparr>ri_mobile = phone, ri_mid = [], ri_result = 17\<rparr>, s)
      | Inr (info, msg) \<Rightarrow> ruanwei_send env acc phone info msg s)"

text \<open>The loop over the numbers, message \<open>k\<close> with its own draws; it ends with a commit or a rollback.\<close>

fun ruanwei_loop ::
    "(nat \<Rightarrow> 'n submit_env) \<Rightarrow> account \<Rightarrow> pystr \<Rightarrow> nat \<Rightarrow> pystr list \<Rightarrow> gateway \<times> gateway
       \<Rightarrow> ruanwei_item list outcome \<times> gateway" where
  "ruanwei_loop envs acc content k [] s = (Inr [], snd s)"
| "ruanwei_loop envs acc content k (phone # phones) s =
     (case ruanwei_one (envs k) acc content phone s of
        (Inl e, s') \<Rightarrow> (Inl e, abandon (fst s') (snd s'))
      | (Inr i, s') \<Rightarrow>
          (case ruanwei_loop envs acc content (Suc k) phones s' of
             (Inl e, g') \<Rightarrow> (Inl e, g')
           | (Inr is, g') \<Rightarrow> (Inr (i # is), g')))"

definition given :: "pystr option \<Rightarrow> bool" where
  "given t \<longleftrightarrow> t \<noteq> None \<and> t \<noteq> Some []"

definition mobile_list :: "pystr \<Rightarrow> pystr list" where
  "mobile_list t = filter (\<lambda>m. m \<noteq> []) (map py_strip (split_at (\<lambda>c. c = 44) t))"

definition send_sms_ruanwei_compat ::
    "(pystr \<Rightarrow> pystr) \<Rightarrow> (nat \<Rightarrow> 'n submit_env) \<Rightarrow> pystr option \<Rightarrow> pystr option \<Rightarrow> pystr option \<Rightarrow> pystr option
       \<Rightarrow> pystr option \<Rightarrow> pystr option \<Rightarrow> gateway \<Rightarrow> ruanwei_response outcome \<times> gateway" where
  "send_sms_ruanwei_compat md5_hex envs action acc_name mobile content extno pwd g =
     (if action \<noteq> Some (asc ''send'') then (Inr WrongAction, g)
      else if \<not> (given acc_name \<and> given mobile \<and> given content \<and> given pwd) then (Inr MissingField, g)
      else case one_or_none (filter (\<lambda>a. Some (account_name a) = acc_name \<and> acc_status a = AccActive)
                               (accounts (gw_world g))) of
             ManyRows \<Rightarrow> (Inl MultipleResultsFound, g)
           | NoRow \<Rightarrow> (Inr BadCredentials, g)
           | OneRow a \<Rightarrow>
               (case api_secret a of
                  None \<Rightarrow> (Inr BadCredentials, g)
                | Some secret \<Rightarrow>
                    (let ext = (case extno of None \<Rightarrow> [] | Some x \<Rightarrow> x);
                         expected = md5_hex (secret @ ext @ the content @ the mobile)
                     in if secret = [] \<or> py_lower expected \<noteq> py_lower (the pwd) then (Inr BadCredentials, g)
                        else if mobile_list (the mobile) = [] then (Inr MissingField, g)
                        else map_prod (map_sum id Processed) id
                               (ruanwei_loop envs a (the content) 0 (mobile_list (the mobile)) (g, g)))))"

section \<open>The steps of one number\<close>

text \<open>One number leaves the tables of the transaction alone, or it charges on them, stores the message
  and commits, and then perhaps pays back in the transaction that follows.\<close>

lemma ruanwei_one_cases:
  assumes ok: "gateway_ok g" and run: "ruanwei_one env acc content phone (committed, g) = (res, c', g')"
  obtains (kept) "c' = committed" "same_gateway g g'"
  | (charged) "c' = committed" "\<exists>e. res = Inl e"
      "same_tables (gw_world g) (roll_back (gw_world g) (gw_world g'))" "next_log_id g \<le> next_log_id g'"
  | (queued) g1 chan cc msg r w2 row where "same_gateway g g1"
      "calculate_and_charge (se_enum env) (gw_world g1) (acc_id acc) chan cc msg None None False = (Inr (Charged r), w2)"
      "message_id row \<notin> set (map message_id (sms_logs w2))" "log_id row = next_log_id g"
      "refunded_at row = None" "refunded_amount row = None"
      "gw_world c' = stored row w2" "next_log_id c' = next_log_id g + 1" "next_log_id g' = next_log_id g + 1"
      "gw_world g' = stored row w2 \<or>
       gw_world g' = mark_unqueued (message_id row) (asc ''queue failed'')
         (refund_line_charge (message_id row) (asc ''ruanwei_queue_failed'') (stored row w2))"
proof (cases "admit env acc phone content")
  case (Inl e)
  with run show ?thesis by (intro kept) (auto simp: ruanwei_one_def split: submit_error.splits)
next
  case (Inr v)
  obtain info msg where v: "v = (info, msg)" by (cases v)
  obtain c g1 where c: "choose_channel (se_draw env) acc phone msg (ph_country_code info) None g = (c, g1)"
    by fastforce
  then have same: "same_gateway g g1" using choose_channel_cases by blast
  show ?thesis
  proof (cases c)
    case (Inl e)
    with run Inr v c same show ?thesis
      by (intro kept) (auto simp: ruanwei_one_def ruanwei_send_def split: submit_error.splits)
  next
    case ch: (Inr ch)
    obtain q w2 where q: "calculate_and_charge (se_enum env) (gw_world g1) (acc_id acc) (ch_id ch)
        (ph_country_code info) msg None None False = (q, w2)" by fastforce
    have wf: "wf_world (gw_world g1)" using log_ids_fresh(2) [OF ok same] by (simp add: gateway_ok_def)
    show ?thesis
    proof (cases "\<exists>r. q = Inr (Charged r)")
      case False
      then have "same_gateway g (g1\<lparr>gw_world := w2\<rparr>)"
        using charge_refused_tables [OF wf q] same by (auto simp: same_gateway_def intro: same_tables_trans)
      with run Inr v c ch q False show ?thesis
        by (intro kept) (cases q; auto simp: ruanwei_one_def ruanwei_send_def split: charge_answer.splits)+
    next
      case True
      then obtain r where r: "q = Inr (Charged r)" by blast
      let ?mid = "asc ''msg_'' @ se_uuid env"
      let ?row = "message_row (g1\<lparr>gw_world := w2\<rparr>) ?mid acc ch info None msg r"
      let ?g2 = "g1\<lparr>gw_world := w2\<rparr>"
      have step: "(if ?mid \<in> set (map message_id (sms_logs w2))
          then (Inl PyException, committed, ?g2\<lparr>next_log_id := next_log_id ?g2 + 1\<rparr>)
          else let g3 = insert_row ?row ?g2; (ok, g4) = queue_sms (se_broker env) ?mid None g3
               in if ok then (Inr \<lparr>ri_mobile = phone, ri_mid = ?mid, ri_result = 0\<rparr>, g3, g4)
                  else (Inr \<lparr>ri_mobile = phone, ri_mid = ?mid, ri_result = 17\<rparr>, g3,
                        give_back ?mid (asc ''ruanwei_queue_failed'') (asc ''queue failed'') g4)) = (res, c', g')"
        using run by (simp add: ruanwei_one_def ruanwei_send_def Inr [unfolded v] c [unfolded ch] q [unfolded r] Let_def)
      show ?thesis
      proof (cases "?mid \<in> set (map message_id (sms_logs w2))")
        case True
        have "same_tables (gw_world g) (roll_back (gw_world g) w2)"
          using charge_tables [OF wf q [unfolded r]] same
          by (simp add: same_gateway_def same_tables_def roll_back_def)
        with True step show ?thesis
          by (intro charged) (use same in \<open>auto simp: same_gateway_def split: if_splits\<close>)
      next
        case False
        with step show ?thesis
          by (intro queued [OF same q [unfolded r], of ?row])
            (use same in \<open>auto simp: same_gateway_def queue_sms_def give_back_def Let_def split: if_splits\<close>)
      qed
    qed
  qed
qed

section \<open>A lost refund\<close>

text \<open>The customer of \<open>demo_gateway\<close> sends to a number of Thailand, where the queue is down, and to one of
  the United States, which no rule serves.\<close>

definition demo_lib_us :: "pystr phone_lib" where
  "demo_lib_us = demo_lib
     \<lparr>pl_parse := (\<lambda>p. if p = asc ''+12125551234'' then Some (drop 1 p) else pl_parse demo_lib p),
      pl_region := (\<lambda>n. if n = asc ''12125551234'' then Some (asc ''US'') else Some (asc ''TH'')),
      pl_country_code := (\<lambda>n. if n = asc ''12125551234'' then 1 else 66)\<rparr>"

definition demo_envs :: "nat \<Rightarrow> pystr submit_env" where
  "demo_envs k = demo_submit_env\<lparr>se_lib := demo_lib_us, se_uuid := asc ''a'' @ text_of_nat k, se_broker := \<lambda>_. False\<rparr>"

definition demo_info_us :: phone_info where
  "demo_info_us = \<lparr>e164_format = asc ''+12125551234'', region = Some (asc ''US''), dial_code = asc ''1'',
     ph_country_code = asc ''US''\<rparr>"

definition demo_mobiles :: "pystr list" where
  "demo_mobiles = [asc ''66812345678'', asc ''12125551234'']"

definition demo_ruanwei :: "ruanwei_item list outcome \<times> gateway" where
  "demo_ruanwei = ruanwei_loop demo_envs demo_customer (asc ''hello'') 0 demo_mobiles (demo_gateway, demo_gateway)"

lemma demo_us_number: "validate_phone_number demo_lib_us (asc ''12125551234'') = Inr demo_info_us"
proof -
  have "(asc ''US'', asc ''1'', [[32654, 22269]]) \<in> set COUNTRY_DATA"
    by (simp add: COUNTRY_DATA_def asc_def)
  from normalize_registered [OF this, of "asc ''US''"]
  have us: "normalize_country_code (Some (asc ''US'')) = Some (asc ''US'')" by simp
  have ne: "asc ''US'' \<noteq> []" by (simp add: asc_def)
  have "plus_form (asc ''12125551234'') = Some (asc ''+12125551234'')" "text_of_int 1 = asc ''1''"
    "drop 1 (asc ''+12125551234'') = asc ''12125551234''"
    by code_simp+
  moreover have "length (asc ''12125551234'') = 11" "43 # asc ''12125551234'' = asc ''+12125551234''"
    by (simp_all add: asc_def)
  ultimately show ?thesis
    using us ne
    by (simp add: validate_phone_number_def demo_lib_us_def demo_lib_def Let_def or_text_def iso_of_number_def
        demo_info_us_def)
qed

lemma demo_th_number: "validate_phone_number demo_lib_us (asc ''66812345678'') = Inr demo_info"
proof -
  have "plus_form (asc ''66812345678'') = Some (asc ''+66812345678'')" "asc ''+66812345678'' \<noteq> asc ''+12125551234''"
    "pl_parse demo_lib (asc ''+66812345678'') = Some (asc ''66812345678'')"
    "asc ''66812345678'' \<noteq> asc ''12125551234''"
    by code_simp+
  then have "validate_phone_number demo_lib_us (asc ''66812345678'') = validate_phone_number demo_lib (asc ''66812345678'')"
    by (simp add: validate_phone_number_def demo_lib_us_def) (simp add: demo_lib_def)
  then show ?thesis by (simp add: demo_number)
qed

lemma demo_envs_admit:
  assumes "validate_phone_number demo_lib_us phone = Inr info"
  shows "admit (demo_envs k) demo_customer phone (asc ''hello'') = Inr (info, asc ''hello'')"
proof -
  have "\<not> sms_template_has_variables (asc ''hello'')" by code_simp
  moreover have "\<exists>i. validate_content (asc ''hello'') = Inr i" by (simp add: validate_content_def asc_def)
  ultimately show ?thesis
    by (auto simp: admit_def demo_envs_def demo_submit_env_def assms sms_destination_allowed_def
        account_country_iso_def demo_world_def new_account_def final_text_def)
qed

definition demo_sends :: "ruanwei_item list outcome \<times> gateway" where
  "demo_sends =
     (case ruanwei_send (demo_envs 0) demo_customer (asc ''66812345678'') demo_info (asc ''hello'')
             (demo_gateway, demo_gateway) of
        (Inl e, s) \<Rightarrow> (Inl e, abandon (fst s) (snd s))
      | (Inr i, s) \<Rightarrow>
          (case ruanwei_send (demo_envs 1) demo_customer (asc ''12125551234'') demo_info_us (asc ''hello'') s of
             (Inl e, s') \<Rightarrow> (Inl e, abandon (fst s') (snd s'))
           | (Inr j, s') \<Rightarrow> (Inr [i, j], snd s')))"

lemma demo_ruanwei_sends: "demo_ruanwei = demo_sends"
  by (auto simp: demo_ruanwei_def demo_mobiles_def demo_sends_def ruanwei_one_def
      demo_envs_admit [OF demo_us_number] demo_envs_admit [OF demo_th_number] split: sum.splits prod.splits)

lemma demo_sends_result:
  "fst demo_sends = Inl ChannelNotAvailableError \<and> sms_queue (snd demo_sends) = []
   \<and> map (\<lambda>r. (message_id r, log_status r, refunded_at r, selling_price r)) (sms_logs (gw_world (snd demo_sends)))
       = [(asc ''msg_a0'', Queued, None, Some (1 / 20))]
   \<and> balance_of (gw_world (snd demo_sends)) 1 = Some (10 - 1 / 20)"
  by code_simp

text \<open>A list sent over the Ruanwei endpoint can lose a refund: the message to the first number is charged
  and committed, its queue fails, and its refund waits in the open transaction; the second number has
  no route, the exception rolls the transaction back, and the first message is left queued in the
  table, paid for and not refunded, while no task for it is on the queue.\<close>

theorem ruanwei_refund_lost:
  "fst demo_ruanwei = Inl ChannelNotAvailableError \<and> sms_queue (snd demo_ruanwei) = []
   \<and> map (\<lambda>r. (message_id r, log_status r, refunded_at r, selling_price r)) (sms_logs (gw_world (snd demo_ruanwei)))
       = [(asc ''msg_a0'', Queued, None, Some (1 / 20))]
   \<and> balance_of (gw_world (snd demo_ruanwei)) 1 = Some (10 - 1 / 20)"
  unfolding demo_ruanwei_sends by (rule demo_sends_result)

end
