(* ===== verification/MoneyAudit.thy ===== *)
theory MoneyAudit
  imports Quiet Ruanwei
begin

text \<open>
  The steps that move money, whatever component runs them, and the properties they keep. The locale
  \<open>step_inv\<close> is the interface between a property of the database and the operations: it asks for
  the elementary steps only (quiet ones, charges, refunds, channel switches, new rows) and gives the
  property for the compound ones, the submissions of messages. It is interpreted for the ledger,
  for the cover of prepaid accounts, for the finality of a refund and for the keys of the tables.
\<close>

text \<open>A resume is a switch, if one was asked for, followed by a change of the batch row.\<close>

lemma resume_steps:
  "\<exists>u. (u = w \<or> (\<exists>c. u = snd (switch_channel_for_unsent enum w b c)))
       \<and> quiet u (snd (resume_batch enum queue w b new))"
proof (cases "truthy_id new")
  case None
  then show ?thesis
    by (intro exI [of _ w]) (auto simp: resume_batch_def Let_def split: option.splits)
next
  case (Some c)
  show ?thesis
  proof (cases "\<exists>x. batch_by_id w b = Some x \<and> batch_status x = BPaused")
    case False
    then show ?thesis
      by (intro exI [of _ w]) (auto simp: resume_batch_def Let_def split: option.splits)
  next
    case True
    obtain a u where "switch_channel_for_unsent enum w b c = (a, u)" by fastforce
    then show ?thesis using True Some
      by (intro exI [of _ u], intro conjI disjI2 exI [of _ c])
        (auto simp: resume_batch_def Let_def split: sum.splits answer.splits)
  qed
qed

text \<open>Marking one unrefunded row adds its amount to the marks of its account.\<close>

lemma sum_upd_unique:
  fixes f :: "'r \<Rightarrow> money"
  assumes "distinct (map key t)" and "r \<in> set t" and "p r"
    and "\<And>x. x \<in> set t \<Longrightarrow> p x \<Longrightarrow> key x = key r"
  shows "sum_list (map f (upd_where p g t)) = sum_list (map f t) - f r + f (g r)"
  using assms
proof (induction t)
  case (Cons x t)
  show ?case
  proof (cases "x = r")
    case True
    have "\<not> p y" if y: "y \<in> set t" for y
    proof
      assume "p y"
      then have "key y = key x" using Cons.prems(4) [of y] y True by simp
      then show False using Cons.prems(1) imageI [OF y, of key] by simp
    qed
    then have "upd_where p g t = t" by (induction t) auto
    then show ?thesis using True Cons.prems(3) by simp
  next
    case False
    have r: "r \<in> set t" using Cons.prems(2) False by simp
    have "\<not> p x"
    proof
      assume "p x"
      then have "key x = key r" using Cons.prems(4) [of x] by simp
      then show False using Cons.prems(1) imageI [OF r, of key] by simp
    qed
    moreover have "sum_list (map f (upd_where p g t)) = sum_list (map f t) - f r + f (g r)"
    proof (rule Cons.IH)
      show "distinct (map key t)" using Cons.prems(1) by simp
      show "key y = key r" if "y \<in> set t" "p y" for y using Cons.prems(4) [of y] that by simp
    qed (use r Cons.prems(3) in simp_all)
    ultimately show ?thesis by simp
  qed
qed simp

lemma claim_marks:
  assumes wf: "wf_world w" and row: "log_by_id w i = Some r" and un: "refunded_at r = None"
    and ok: "unmarked_ok w"
  shows "refund_marks j (snd (claim_refund i amount by_whom w)) =
           refund_marks j w + (if log_account_id r = j then amount else 0)"
    and "unmarked_ok (snd (claim_refund i amount by_whom w))"
proof -
  have r: "r \<in> set (sms_logs w)" "log_id r = i" using log_by_id_Some [OF row] by simp_all
  have "refunded_amount r = None" using ok un r by (simp add: unmarked_ok_def list_all_iff)
  then have m: "mark_of j r = 0" by (simp add: mark_of_def)
  have "distinct (map log_id (sms_logs w))" using wf by (simp add: wf_world_def)
  from sum_upd_unique [OF this r(1), where f = "mark_of j"
      and p = "\<lambda>x. log_id x = i \<and> refunded_at x = None"
      and g = "\<lambda>r. r\<lparr>refunded_at := Some (now w), refunded_by := Some (take 100 by_whom),
                     refunded_amount := Some amount\<rparr>"]
  show "refund_marks j (snd (claim_refund i amount by_whom w)) =
           refund_marks j w + (if log_account_id r = j then amount else 0)"
    using r(2) un m by (simp add: refund_marks_def claim_refund_def Let_def) (simp add: mark_of_def)
  show "unmarked_ok (snd (claim_refund i amount by_whom w))"
    using ok by (auto simp: unmarked_ok_def claim_refund_def Let_def list_all_iff upd_where_def)
qed

lemma refund_step_inv:
  assumes "billing_inv fund w" and run: "refund_run op w = (a, w')"
  shows "billing_inv fund w'"
proof (cases a)
  case (NotRefunded e)
  have "w' = w"
  proof (cases rule: refund_run_cases [of op w])
    case (core row by_whom category)
    then show ?thesis using run NotRefunded
      by (cases rule: do_refund_cases [of w row "selling_amount row" by_whom category]) auto
  qed (use run in auto)
  then show ?thesis using assms(1) by simp
next
  case (Refunded rc)
  with run have "refund_run op w = (Refunded rc, w')" by simp
  then obtain row by_whom where row: "log_by_id w (refund_target op) = Some row" "refunded_at row = None"
    and w': "w' = log_balance (log_account_id row) Refund (rf_amount rc) (rf_balance_after rc)
            (snd (add_balance_where (\<lambda>_. True) (log_account_id row) (rf_amount rc)
               (snd (claim_refund (refund_target op) (rf_amount rc) by_whom w))))"
    by (rule refund_run_amount)
  have inv: "wf_world w" "ledger_ok fund w" "unmarked_ok w" "\<And>i. refund_entries i w = refund_marks i w"
    using assms(1) by (simp_all add: billing_inv_def refunds_audited_def)
  note cm = claim_marks [OF inv(1) row inv(3), where amount = "rf_amount rc" and by_whom = by_whom]
  have "refund_entries i w' = refund_entries i w + (if log_account_id row = i then rf_amount rc else 0)" for i
    unfolding w' by (simp add: refund_entries_def log_balance_def)
  moreover have "refund_marks i w' = refund_marks i w + (if log_account_id row = i then rf_amount rc else 0)" for i
    unfolding w' using cm(1) by (simp add: refund_marks_def)
  moreover have "unmarked_ok w'" unfolding w' using cm(2) by (simp add: unmarked_ok_def)
  moreover have "wf_world w'" "ledger_ok fund w'"
    using refund.wf [of w op] refund.ledger [of w fund op] inv run by simp_all
  ultimately show ?thesis using inv by (simp add: billing_inv_def refunds_audited_def)
qed

lemma refund_entries_other [simp]:
  "ct \<noteq> Refund \<Longrightarrow> refund_entries i (log_balance a ct x y w) = refund_entries i w"
  by (simp add: refund_entries_def log_balance_def)

lemma charge_views:
  assumes "wf_world w" and "calculate_and_charge enum w i chan cc msg mnc ch skip = (ans, w')"
  shows "log_view w' = log_view w \<and> refund_entries j w' = refund_entries j w"
  using assms
proof (cases rule: charge_cases)
  case untouched
  then show ?thesis by (simp add: same_tables_def log_view_def refund_entries_def)
next
  case (charged r a w1 p)
  have "log_view w1 = log_view w" "refund_entries j w1 = refund_entries j w"
    using charged(2) by (simp_all add: same_tables_def log_view_def refund_entries_def)
  moreover have "refund_entries j (snd (add_balance_where p i d w1)) = refund_entries j w1" for d
    by (simp add: refund_entries_def)
  ultimately show ?thesis unfolding charged(6) by (auto simp: Let_def log_view_def)
qed

lemma fold_reprice_view [simp]: "log_view (fold (reprice_log k) rows w) = log_view w"
proof (induction rows arbitrary: w)
  case (Cons p rows)
  have "log_view (reprice_log k p w) = log_view w"
    unfolding reprice_log_def by (rule log_view_upd) simp
  then show ?case using Cons.IH by simp
qed simp

lemma switch_views:
  assumes "switch_channel_for_unsent enum w b c = (ans, w')"
  shows "log_view w' = log_view w \<and> refund_entries j w' = refund_entries j w"
  using assms
proof (cases rule: switch_cases)
  case stopped
  then show ?thesis by (simp add: same_tables_def log_view_def refund_entries_def)
next
  case (switched batch ch rows d w1 r)
  let ?w2 = "snd (settle_diff (batch_account_id batch) d w1)"
  let ?w3 = "fold (reprice_log (ch_id ch)) rows ?w2"
  have "log_view ?w2 = log_view w1" by (simp add: log_view_def)
  moreover have "refund_entries j ?w3 = refund_entries j w1" by (simp add: refund_entries_def)
  moreover have "log_view (log_balance x ct y z v) = log_view v" for x ct y z v
    by (simp add: log_view_def)
  moreover have "log_view w1 = log_view w" "refund_entries j w1 = refund_entries j w"
    using switched(3) by (simp_all add: same_tables_def log_view_def refund_entries_def)
  ultimately show ?thesis unfolding switched(5) Let_def by (cases "d = 0") simp_all
qed

lemma audited_views:
  assumes "log_view w' = log_view w" and "\<And>j. refund_entries j w' = refund_entries j w"
  shows "refunds_audited w' = refunds_audited w"
  using assms(2) log_view_maps(2,3) [OF assms(1)] by (simp add: refunds_audited_def refund_marks_def)

lemma charge_step_inv:
  assumes inv: "billing_inv fund w"
    and run: "calculate_and_charge enum w i chan cc msg mnc ch False = (ans, w')"
  shows "billing_inv fund w'"
proof -
  have wf: "wf_world w" using inv by (simp add: billing_inv_def)
  have "refunds_audited w' = refunds_audited w"
    using charge_views [OF wf run] by (intro audited_views) simp_all
  then show ?thesis using inv charge_logged [OF wf run] by (simp add: billing_inv_def)
qed

lemma switch_step_inv:
  assumes inv: "billing_inv fund w" and run: "switch_channel_for_unsent enum w b c = (ans, w')"
  shows "billing_inv fund w'"
proof -
  have wf: "wf_world w" using inv by (simp add: billing_inv_def)
  have "refunds_audited w' = refunds_audited w"
    using switch_views [OF run] by (intro audited_views) simp_all
  then show ?thesis using inv switch_money [OF wf run] by (simp add: billing_inv_def)
qed

lemma insert_step_inv:
  assumes "billing_inv fund w" and "fresh_log w r"
  shows "billing_inv fund (w\<lparr>sms_logs := sms_logs w @ [r]\<rparr>)"
  using assms
  by (auto simp: billing_inv_def fresh_log_def wf_world_def refunds_audited_def refund_marks_def
      refund_entries_def unmarked_ok_def mark_of_def)

lemma resume_switch:
  assumes "resume_batch enum queue w b c = (ans, w')"
  obtains u where "u = w \<or> (\<exists>c a. switch_channel_for_unsent enum w b c = (a, u))" "quiet u w'"
  using resume_steps [of w enum b queue c] assms by (metis prod.collapse snd_conv)

section \<open>A refund mark stays\<close>

definition marked :: "int \<Rightarrow> int \<Rightarrow> money option \<Rightarrow> world \<Rightarrow> bool" where
  "marked i t amount w \<longleftrightarrow>
     (\<exists>r. log_by_id w i = Some r \<and> refunded_at r = Some t \<and> refunded_amount r = amount)"

lemma marked_view:
  assumes "log_view w' = log_view w"
  shows "marked i t amount w' = marked i t amount w"
proof -
  have "marked i t amount u \<longleftrightarrow> (\<exists>a. find (\<lambda>v. fst v = i) (log_view u) = Some (i, a, Some t, amount))" for u
  proof -
    have "find (\<lambda>v. fst v = i) (map (\<lambda>r. (log_id r, log_account_id r, refunded_at r, refunded_amount r)) ls)
        = map_option (\<lambda>r. (log_id r, log_account_id r, refunded_at r, refunded_amount r))
            (find (\<lambda>r. log_id r = i) ls)" for ls
      by (induction ls) auto
    then have "find (\<lambda>v. fst v = i) (log_view u) = map_option
        (\<lambda>r. (log_id r, log_account_id r, refunded_at r, refunded_amount r)) (log_by_id u i)"
      by (simp add: log_view_def log_by_id_def)
    then show ?thesis using log_by_id_Some [of u i] by (cases "log_by_id u i") (auto simp: marked_def)
  qed
  then show ?thesis using assms by simp
qed

section \<open>Properties that every step keeps\<close>

locale step_inv =
  fixes P :: "world \<Rightarrow> bool"
  assumes wf: "P w \<Longrightarrow> wf_world w"
    and quiet: "P w \<Longrightarrow> quiet w w' \<Longrightarrow> P w'"
    and charge: "P w \<Longrightarrow> calculate_and_charge enum w i chan cc msg mnc ch False = (ans, w') \<Longrightarrow> P w'"
    and refund: "P w \<Longrightarrow> refund_run op w = (res, w') \<Longrightarrow> P w'"
    and switch: "P w \<Longrightarrow> switch_channel_for_unsent enum w b c = (out, w') \<Longrightarrow> P w'"
    and insert: "P w \<Longrightarrow> fresh_log w r \<Longrightarrow> P (w\<lparr>sms_logs := sms_logs w @ [r]\<rparr>)"
begin

lemma resume:
  assumes "P w" and "resume_batch enum queue w b c = (ans, w')"
  shows "P w'"
  using assms(2)
proof (rule resume_switch)
  fix u assume u: "u = w \<or> (\<exists>c a. switch_channel_for_unsent enum w b c = (a, u))" "quiet u w'"
  from u(1) have "P u" using assms(1) switch by blast
  then show "P w'" using u(2) by (rule quiet)
qed

end

lemma mark_unqueued_quiet: "quiet w (mark_unqueued mid err w)"
  using log_view_upd [of "\<lambda>r. r\<lparr>log_status := Failed, log_error_message := Some err\<rparr>"]
  by (simp add: quiet_def mark_unqueued_def)

context step_inv
begin

lemma stored:
  assumes "P w" and "log_id row \<notin> set (map log_id (sms_logs w))"
    and "refunded_at row = None" and "refunded_amount row = None"
  shows "P (stored row w)"
  using insert [OF assms(1), of row] assms(2-) by (simp add: stored_def fresh_log_def)

lemma given_back:
  assumes "P (stored row w)" and "message_id row \<notin> set (map message_id (sms_logs w))"
    and "log_id row \<notin> set (map log_id (sms_logs w))"
  shows "P (mark_unqueued mid err (refund_line_charge (message_id row) source (stored row w)))"
proof -
  have "P (refund_line_charge (message_id row) source (stored row w))"
    unfolding refund_line_charge_new(1) [OF assms(2,3)] by (rule refund [OF assms(1)]) (rule surjective_pairing)
  then show ?thesis using mark_unqueued_quiet by (rule quiet)
qed

lemma submit:
  assumes P: "P (gw_world g)" and ok: "gateway_ok g" and run: "submit_sms_core env acc rq g = (ans, g')"
  shows "P (gw_world g')"
  using ok run
proof (cases rule: submit_cases)
  case (refused e)
  then show ?thesis using quiet [OF P] same_tables_quiet by (simp add: refused_effect_def)
next
  case (charged ch info so msg r w2 g1)
  have st: "same_tables (gw_world g) (gw_world g1)" using charged(1) by (simp add: same_gateway_def)
  have "P (gw_world g1)" using quiet [OF P] same_tables_quiet [OF st] by blast
  then have P2: "P w2" using charged(5) by (rule charge)
  have logs: "map log_id (sms_logs w2) = map log_id (sms_logs (gw_world g))"
    using charged_facts(1) [OF ok charged(1-5)] by simp
  have fresh: "next_log_id g \<notin> set (map log_id (sms_logs w2))"
    using log_ids_fresh(1) [OF ok same_gateway_refl] unfolding logs .
  have nodefer: "\<not> rq_defer (rq\<lparr>rq_defer := False\<rparr>)" by simp
  have id: "next_log_id (g1\<lparr>gw_world := w2\<rparr>) = next_log_id g" using charged(1) by (simp add: same_gateway_def)
  from charged(6) nodefer show ?thesis
  proof (cases rule: store_and_queue_cases)
    case taken
    have "same_tables (gw_world g1) (roll_back (gw_world g1) w2)"
      using charge_tables [OF wf charged(5)] \<open>P (gw_world g1)\<close> by blast
    then have "same_tables (gw_world g) (gw_world g')"
      using same_tables_trans [OF st] taken(2) by simp
    then show ?thesis using quiet [OF P] same_tables_quiet by blast
  next
    case (queued mid row)
    then show ?thesis using stored [OF P2, of row] fresh id by simp
  next
    case (unqueued mid row)
    have "P (stored row w2)" using stored [OF P2, of row] fresh id unqueued(2) by simp
    from given_back [OF this] show ?thesis using unqueued fresh id by simp
  qed
qed

end

lemma refund_run_frame:
  "map log_id (sms_logs (snd (refund_run op w))) = map log_id (sms_logs w)"
  "sms_batches (snd (refund_run op w)) = sms_batches w"
proof -
  have "map log_id (sms_logs (snd (do_refund w row amount b c))) = map log_id (sms_logs w)
      \<and> sms_batches (snd (do_refund w row amount b c)) = sms_batches w" for row amount b c
    by (cases rule: do_refund_cases [of w row amount b c])
      (simp_all add: claim_refund_def Let_def map_upd_where)
  then show "map log_id (sms_logs (snd (refund_run op w))) = map log_id (sms_logs w)"
    "sms_batches (snd (refund_run op w)) = sms_batches w"
    by (cases rule: refund_run_cases [of op w]; simp)+
qed

lemma given_back_frame:
  assumes "message_id row \<notin> set (map message_id (sms_logs w))" and "log_id row \<notin> set (map log_id (sms_logs w))"
    and u_def: "u = mark_unqueued (message_id row) err (refund_line_charge (message_id row) source (stored row w))"
  shows "map log_id (sms_logs u) = map log_id (sms_logs w) @ [log_id row]" and "sms_batches u = sms_batches w"
  unfolding u_def refund_line_charge_new(1) [OF assms(1,2)]
  by (simp_all add: mark_unqueued_def map_upd_where refund_run_frame del: refund_run.simps)
    (simp_all add: stored_def)

text \<open>The ids of a table are below the counter of a gateway.\<close>

definition ids_below :: "world \<Rightarrow> gateway \<Rightarrow> bool" where
  "ids_below w g \<longleftrightarrow> list_all (\<lambda>i. i < next_log_id g) (map log_id (sms_logs w))"

lemma gateway_ok_ids: "gateway_ok g \<longleftrightarrow> wf_world (gw_world g) \<and> ids_below (gw_world g) g"
  by (simp add: gateway_ok_def ids_below_def list.pred_map comp_def)

lemma ids_below_mono: "ids_below w g \<Longrightarrow> next_log_id g \<le> next_log_id g' \<Longrightarrow> ids_below w g'"
  by (auto simp: ids_below_def list_all_iff)

lemma ids_below_snoc:
  assumes "ids_below w g" and "next_log_id g' = next_log_id g + 1"
    and "map log_id (sms_logs w') = map log_id (sms_logs w) @ [next_log_id g]"
  shows "ids_below w' g'"
proof -
  have "ids_below w g'" using ids_below_mono [OF assms(1)] assms(2) by simp
  then show ?thesis unfolding ids_below_def assms(3) using assms(2) by simp
qed

lemma ids_below_same: "same_tables w w' \<Longrightarrow> ids_below w' g = ids_below w g"
  by (simp add: ids_below_def same_tables_def)

text \<open>A transaction: what is committed, and what it sees.\<close>

definition tx_ok :: "(world \<Rightarrow> bool) \<Rightarrow> gateway \<times> gateway \<Rightarrow> bool" where
  "tx_ok P s \<longleftrightarrow> P (gw_world (fst s)) \<and> P (gw_world (snd s)) \<and> gateway_ok (snd s)
     \<and> ids_below (gw_world (fst s)) (snd s)
     \<and> sms_batches (gw_world (snd s)) = sms_batches (gw_world (fst s))"

context step_inv
begin

lemma ruanwei_queued:
  assumes P: "P (gw_world g)" and ok: "gateway_ok g" and same: "same_gateway g g1"
    and ch: "calculate_and_charge enum (gw_world g1) i chan cc msg None None False = (Inr (Charged r), w2)"
    and mid: "message_id row \<notin> set (map message_id (sms_logs w2))" and id: "log_id row = next_log_id g"
    and un: "refunded_at row = None" "refunded_amount row = None"
    and world: "gw_world c' = stored row w2" "next_log_id g' = next_log_id g + 1"
    and result: "gw_world g' = stored row w2 \<or>
       gw_world g' = mark_unqueued (message_id row) (asc ''queue failed'')
         (refund_line_charge (message_id row) (asc ''ruanwei_queue_failed'') (stored row w2))"
  shows "P (gw_world g')" "ids_below (gw_world g') g'" "ids_below (gw_world c') g'"
    "sms_batches (gw_world g') = sms_batches (gw_world g)" "P (stored row w2)" "sms_batches w2 = sms_batches (gw_world g)"
proof -
  have st: "same_tables (gw_world g) (gw_world g1)" using same by (simp add: same_gateway_def)
  have P1: "P (gw_world g1)" using quiet [OF P] same_tables_quiet [OF st] by blast
  then have P2: "P w2" using ch by (rule charge)
  have "same_tables (gw_world g) (roll_back (gw_world g1) w2)"
    by (rule same_tables_trans [OF st charge_tables [OF wf [OF P1] ch]])
  then have t: "sms_logs w2 = sms_logs (gw_world g)" "sms_batches w2 = sms_batches (gw_world g)"
    by (simp_all add: same_tables_def roll_back_def)
  have fresh: "log_id row \<notin> set (map log_id (sms_logs w2))"
    using log_ids_fresh(1) [OF ok same_gateway_refl] id t by simp
  have PS: "P (stored row w2)" by (rule stored [OF P2 fresh un])
  note gb = given_back_frame [OF mid fresh refl, of "asc ''queue failed''" "asc ''ruanwei_queue_failed''"]
  have "P (gw_world g') \<and> map log_id (sms_logs (gw_world g')) = map log_id (sms_logs w2) @ [log_id row]
      \<and> sms_batches (gw_world g') = sms_batches w2"
    using result
  proof
    assume "gw_world g' = stored row w2"
    then show ?thesis using PS by (simp add: stored_def)
  next
    assume "gw_world g' = mark_unqueued (message_id row) (asc ''queue failed'')
      (refund_line_charge (message_id row) (asc ''ruanwei_queue_failed'') (stored row w2))"
    then show ?thesis using gb given_back [OF PS mid fresh] by simp
  qed
  moreover have ids: "map log_id (sms_logs (stored row w2)) = map log_id (sms_logs (gw_world g)) @ [next_log_id g]"
    using id t by (simp add: stored_def)
  moreover have "ids_below (gw_world g) g" using ok by (simp add: gateway_ok_ids)
  ultimately show "P (gw_world g')" "ids_below (gw_world g') g'" "ids_below (gw_world c') g'"
      "sms_batches (gw_world g') = sms_batches (gw_world g)"
    using ids_below_snoc [of "gw_world g" g g'] id world t by simp_all
  show "P (stored row w2)" "sms_batches w2 = sms_batches (gw_world g)" by (fact PS t(2))+
qed

lemma ruanwei_one_tx:
  assumes tx: "tx_ok P s" and run: "ruanwei_one env acc content phone s = (res, s')"
  shows "P (gw_world (fst s')) \<and> sms_batches (gw_world (fst s')) = sms_batches (gw_world (fst s))
    \<and> ids_below (gw_world (fst s')) (snd s')
    \<and> (case res of Inl _ \<Rightarrow> sms_batches (gw_world (snd s')) = sms_batches (gw_world (snd s)) | Inr _ \<Rightarrow> tx_ok P s')"
proof -
  obtain c g c' g' where s: "s = (c, g)" "s' = (c', g')" by fastforce
  have P: "P (gw_world c)" "P (gw_world g)" and ok: "gateway_ok g"
    and b: "sms_batches (gw_world g) = sms_batches (gw_world c)" and below: "ids_below (gw_world c) g"
    using tx s by (simp_all add: tx_ok_def)
  from ok run [unfolded s] show ?thesis
  proof (cases rule: ruanwei_one_cases)
    case kept
    have st: "same_tables (gw_world g) (gw_world g')" using kept(2) by (simp add: same_gateway_def)
    have "P (gw_world g')" using quiet [OF P(2)] same_tables_quiet [OF st] by blast
    moreover have "gateway_ok g'" using log_ids_fresh(2) [OF ok kept(2)] .
    moreover have "ids_below (gw_world c) g'"
      using ids_below_mono [OF below] kept(2) by (simp add: same_gateway_def)
    moreover have "sms_batches (gw_world g') = sms_batches (gw_world g)" using st by (simp add: same_tables_def)
    ultimately show ?thesis using kept(1) P b s by (simp add: tx_ok_def split: sum.split)
  next
    case charged
    then have "sms_batches (gw_world g') = sms_batches (gw_world g)"
      by (simp add: same_tables_def roll_back_def)
    moreover have "ids_below (gw_world c) g'" using ids_below_mono [OF below charged(4)] .
    ultimately show ?thesis using charged(1,2) P s by auto
  next
    case (queued g1 chan cc msg r w2 row)
    note q = ruanwei_queued [OF P(2) ok queued(1-6,7,9,10)]
    then show ?thesis using queued(7) b s wf [of "gw_world g'"]
      by (simp add: tx_ok_def gateway_ok_ids stored_def split: sum.split)
  qed
qed

lemma abandon_kept:
  assumes "P (gw_world c)" and "sms_batches (gw_world g) = sms_batches (gw_world c)"
  shows "P (gw_world (abandon c g))"
  using assms by (intro quiet [OF assms(1)]) (simp add: quiet_def abandon_def log_view_def)

lemma ruanwei_loop:
  "tx_ok P s \<Longrightarrow> ruanwei_loop envs acc content k phones s = (res, g') \<Longrightarrow> P (gw_world g') \<and> gateway_ok g'"
proof (induction phones arbitrary: k s res g')
  case Nil
  then show ?case by (simp add: tx_ok_def)
next
  case (Cons phone phones)
  obtain r s' where one: "ruanwei_one (envs k) acc content phone s = (r, s')" by (rule prod.exhaust)
  note tx = ruanwei_one_tx [OF Cons.prems(1) one]
  show ?case
  proof (cases r)
    case (Inl e)
    have P: "P (gw_world (abandon (fst s') (snd s')))"
      using tx Inl Cons.prems(1) by (intro abandon_kept) (simp_all add: tx_ok_def)
    moreover have "ids_below (gw_world (abandon (fst s') (snd s'))) (abandon (fst s') (snd s'))"
      using tx by (simp add: ids_below_def abandon_def)
    ultimately show ?thesis using Cons.prems(2) one Inl wf [OF P] by (simp add: gateway_ok_ids)
  next
    case (Inr i)
    obtain l g'' where l: "ruanwei_loop envs acc content (Suc k) phones s' = (l, g'')" by fastforce
    have "P (gw_world g'') \<and> gateway_ok g''" using Cons.IH [OF _ l] tx Inr by simp
    then show ?thesis using Cons.prems(2) one Inr l by (cases l) auto
  qed
qed

lemma ruanwei:
  assumes "P (gw_world g)" and "gateway_ok g"
    and run: "send_sms_ruanwei_compat md5_hex envs action name mobile content extno pwd g = (res, g')"
  shows "P (gw_world g') \<and> gateway_ok g'"
proof -
  have tx: "tx_ok P (g, g)" using assms by (simp add: tx_ok_def gateway_ok_ids)
  have "P (gw_world (snd (ruanwei_loop envs a c 0 ms (g, g))))
      \<and> gateway_ok (snd (ruanwei_loop envs a c 0 ms (g, g)))" for a c ms
    by (rule ruanwei_loop [OF tx]) (rule surjective_pairing)
  moreover have "map_prod f id x = (a, b) \<longleftrightarrow> f (fst x) = a \<and> snd x = b"
    for f :: "ruanwei_item list outcome \<Rightarrow> ruanwei_response outcome" and x and a and b :: gateway
    by (cases x) auto
  ultimately show ?thesis using assms(1,2) run
    by (auto simp: send_sms_ruanwei_compat_def Let_def split: if_splits fetched.splits option.splits)
qed

end

section \<open>The properties kept\<close>

interpretation ledger: step_inv "billing_inv fund" for fund
proof
  show "billing_inv fund w \<Longrightarrow> wf_world w" for w by (simp add: billing_inv_def)
  show "billing_inv fund w \<Longrightarrow> quiet w w' \<Longrightarrow> billing_inv fund w'" for w w' by (rule quiet_inv)
qed (blast intro: charge_step_inv refund_step_inv switch_step_inv insert_step_inv)+

interpretation cover: step_inv "\<lambda>w. wf_world w \<and> prepaid_covered w"
proof
  show "wf_world w \<and> prepaid_covered w \<Longrightarrow> quiet w w' \<Longrightarrow> wf_world w' \<and> prepaid_covered w'" for w w'
    using quiet_covered [of w w'] quiet_wf [of w w'] by simp
  show "wf_world w \<and> prepaid_covered w \<Longrightarrow>
      calculate_and_charge enum w i chan cc msg mnc ch False = (ans, w') \<Longrightarrow> wf_world w' \<and> prepaid_covered w'"
    for enum w i chan cc msg mnc ch ans w'
    using charge_covered [of w enum i chan cc msg mnc ch False] charge_logged(1) [of w] by simp
  show "wf_world w \<and> prepaid_covered w \<Longrightarrow> refund_run op w = (res, w') \<Longrightarrow> wf_world w' \<and> prepaid_covered w'"
    for op w res w'
    using refund.covered [of w op] refund.wf [of w op] by simp
  show "wf_world w \<and> prepaid_covered w \<Longrightarrow> switch_channel_for_unsent enum w b c = (out, w') \<Longrightarrow>
      wf_world w' \<and> prepaid_covered w'" for enum w b c out w'
    using switch_money by blast
  show "wf_world w \<and> prepaid_covered w \<Longrightarrow> fresh_log w r \<Longrightarrow>
      wf_world (w\<lparr>sms_logs := sms_logs w @ [r]\<rparr>) \<and> prepaid_covered (w\<lparr>sms_logs := sms_logs w @ [r]\<rparr>)" for w r
    by (simp add: fresh_log_def wf_world_def)
qed simp

interpretation mark: step_inv "\<lambda>w. wf_world w \<and> marked i t amount w" for i t amount
proof
  show "wf_world w \<and> marked i t amount w \<Longrightarrow> quiet w w' \<Longrightarrow> wf_world w' \<and> marked i t amount w'" for w w'
    using quiet_wf [of w w'] marked_view [of w' w] by (simp add: quiet_def)
  show "wf_world w' \<and> marked i t amount w'"
    if m: "wf_world w \<and> marked i t amount w" and
      c: "calculate_and_charge enum w j chan cc msg mnc ch False = (ans, w')" for enum w j chan cc msg mnc ch ans w'
  proof -
    from m have w: "wf_world w" by simp
    show ?thesis
      using charge_logged(1) [OF w c] marked_view [OF conjunct1 [OF charge_views [OF w c]]] m by simp
  qed
  show "wf_world w \<and> marked i t amount w \<Longrightarrow> refund_run op w = (res, w') \<Longrightarrow> wf_world w' \<and> marked i t amount w'"
    for op w res w'
    using refund.wf [of w op] refund_run_keeps_mark [of w i _ op] by (auto simp: marked_def)
  show "wf_world w' \<and> marked i t amount w'"
    if m: "wf_world w \<and> marked i t amount w" and c: "switch_channel_for_unsent enum w b c = (out, w')"
    for enum w b c out w'
  proof -
    from m have w: "wf_world w" by simp
    show ?thesis
      using switch_money(1) [OF w c] marked_view [OF conjunct1 [OF switch_views [OF c]]] m by simp
  qed
  show "wf_world w \<and> marked i t amount w \<Longrightarrow> fresh_log w r \<Longrightarrow>
      wf_world (w\<lparr>sms_logs := sms_logs w @ [r]\<rparr>) \<and> marked i t amount (w\<lparr>sms_logs := sms_logs w @ [r]\<rparr>)" for w r
    by (auto simp: fresh_log_def wf_world_def marked_def log_by_id_def find_Some_iff nth_append)
qed simp

interpretation keys: step_inv wf_world
proof
  show "wf_world w \<Longrightarrow> quiet w w' \<Longrightarrow> wf_world w'" for w w' by (simp add: quiet_wf)
  show "wf_world w \<Longrightarrow> fresh_log w r \<Longrightarrow> wf_world (w\<lparr>sms_logs := sms_logs w @ [r]\<rparr>)" for w r
    by (simp add: fresh_log_def wf_world_def)
  show "wf_world w \<Longrightarrow> refund_run op w = (res, w') \<Longrightarrow> wf_world w'" for op w res w'
    using refund.wf [of w op] by simp
qed (fact charge_logged(1) switch_money(1) | assumption)+

lemma submit_keeps_gateway:
  assumes ok: "gateway_ok g" and run: "submit_sms_core env acc rq g = (ans, g')"
  shows "gateway_ok g'"
proof -
  have wf: "wf_world (gw_world g')" using keys.submit [OF _ ok run] ok by (simp add: gateway_ok_def)
  have below: "ids_below (gw_world g) g" using ok by (simp add: gateway_ok_ids)
  from ok run have "ids_below (gw_world g') g'"
  proof (cases rule: submit_cases)
    case (refused e)
    then show ?thesis
      using ids_below_mono [OF below] ids_below_same by (auto simp: refused_effect_def)
  next
    case (charged ch info so msg r w2 g1)
    have logs: "sms_logs w2 = sms_logs (gw_world g)" by (rule charged_facts(1) [OF ok charged(1-5)])
    have id: "next_log_id (g1\<lparr>gw_world := w2\<rparr>) = next_log_id g" using charged(1) by (simp add: same_gateway_def)
    have nodefer: "\<not> rq_defer (rq\<lparr>rq_defer := False\<rparr>)" by simp
    have fresh: "next_log_id g \<notin> set (map log_id (sms_logs w2))"
      using log_ids_fresh(1) [OF ok same_gateway_refl] unfolding logs .
    from charged(6) nodefer show ?thesis
    proof (cases rule: store_and_queue_cases)
      case taken
      have "ids_below (gw_world g) g'" using ids_below_mono [OF below] taken(4) id by simp
      then show ?thesis using taken(2) logs by (simp add: ids_below_def roll_back_def)
    next
      case (queued mid row)
      then show ?thesis using id logs by (intro ids_below_snoc [OF below]) (simp_all add: stored_def)
    next
      case (unqueued mid row)
      have "map log_id (sms_logs (gw_world g')) = map log_id (sms_logs w2) @ [log_id row]"
        using given_back_frame(1) [OF _ _ refl, of row w2] unqueued fresh id by simp
      then show ?thesis using unqueued id logs by (intro ids_below_snoc [OF below]) simp_all
    qed
  qed
  with wf show ?thesis by (simp add: gateway_ok_ids)
qed



end
