(* ===== verification/SendAdapters.thy ===== *)
theory SendAdapters
  imports ChannelConfig DlrParse Validator
begin

text \<open>
  Handing one message to an upstream: \<open>_send_via_http\<close> and \<open>_send_via_rcs\<close> of
  \<open>backend/app/workers/sms_worker.py\<close> and the adapter of the RCS supplier BoltTel,
  \<open>workers/adapters/rcs_adapter.py\<close>, from the payload to the reading of the answer. The upstream is
  a function from the payload to an answer; \<open>json.loads\<close> and \<open>str\<close> of a decoded value are parameters,
  and so are the texts of the errors. The signature of a request does not change what is sent and
  is left out. \<open>\w\<close> stands for the ASCII letters, digits and the underscore.
\<close>

datatype rcs_error =
    RcsTextRefused rcs_content_error | RcsNoCountry | RcsNotConfigured | RcsNoSender | RcsNetwork
  | RcsException | RcsTooFast | RcsAuth pystr | RcsUnavailable | RcsBadAnswer | RcsBusiness pystr
  | RcsUnknownAnswer

datatype send_error =
    HttpTemporary int | HttpTimeout | HttpConnect | HttpException
  | HttpResult json | HttpApi json | HttpXml pystr | HttpUnreadable | HttpStatus int
  | RcsError rcs_error

text \<open>What an adapter returns: \<open>True\<close> with what it writes to \<open>upstream_message_id\<close>, if anything;
  \<open>False\<close>; \<open>"_retry"\<close>.\<close>

datatype via_result = ViaAccepted "pystr option option" | ViaFailed send_error | ViaRetry send_error

section \<open>HTTP\<close>

record http_payload =
  hp_account :: json
  hp_password :: json
  hp_mobile :: pystr
  hp_content :: "pystr option"
  hp_extno :: pystr

datatype http_answer =
    AnsTimeout | AnsConnectError | AnsException
  | Answer int "json option" pystr \<comment> \<open>status, \<open>response.json()\<close> unless it fails, text\<close>

record send_lib =
  sb_loads :: "pystr \<Rightarrow> json option"
  sb_show :: "json \<Rightarrow> pystr"
  sb_post :: "pystr \<Rightarrow> http_payload \<Rightarrow> http_answer" \<comment> \<open>URL, payload\<close>

definition HTTP_RETRIABLE_STATUS :: "int set" where
  "HTTP_RETRIABLE_STATUS = {429, 502, 503, 504}"

definition or_json :: "json \<Rightarrow> json \<Rightarrow> json" where
  "or_json a b = (if json_truthy a then a else b)"

definition opt_json :: "pystr option \<Rightarrow> json" where
  "opt_json x = (case x of None \<Rightarrow> JNull | Some s \<Rightarrow> JStr s)"

text \<open>The credentials of the request, then those of the channel, then the JSON in its API key.\<close>

definition http_login ::
    "send_lib \<Rightarrow> channel \<Rightarrow> (pystr option \<times> pystr option) option \<Rightarrow> (json \<times> json) outcome" where
  "http_login lib c creds =
     (let (a0, p0) = (case creds of None \<Rightarrow> (JNull, JNull) | Some (u, p) \<Rightarrow> (opt_json u, opt_json p));
          (a1, p1) = (if \<not> json_truthy a0 \<and> json_truthy (opt_json (username c))
                      then (opt_json (username c), opt_json (password c)) else (a0, p0))
      in if \<not> json_truthy a1 \<and> json_truthy (opt_json (ch_api_key c))
         then (case sb_loads lib (the (ch_api_key c)) of
                 None \<Rightarrow> Inr (a1, p1)
               | Some (JObj kvs) \<Rightarrow> Inr (json_get (asc ''account'') kvs, json_get (asc ''password'') kvs)
               | Some _ \<Rightarrow> Inl PyException)
         else Inr (a1, p1))"

definition extno_of :: "sms_log \<Rightarrow> channel \<Rightarrow> pystr" where
  "extno_of r c = (case log_sender_id r of Some s \<Rightarrow> if s = [] then default_sender_id c else s
                                         | None \<Rightarrow> default_sender_id c)"

definition http_payload_of ::
    "send_lib \<Rightarrow> sms_log \<Rightarrow> channel \<Rightarrow> (pystr option \<times> pystr option) option \<Rightarrow> http_payload outcome" where
  "http_payload_of lib r c creds =
     (case http_login lib c creds of
        Inl e \<Rightarrow> Inl e
      | Inr (acc, pwd) \<Rightarrow>
          (case strip_leading_plus_for_submit c of
             Inl e \<Rightarrow> Inl e
           | Inr strip \<Rightarrow>
               Inr \<lparr>hp_account = or_json acc (JStr []), hp_password = or_json pwd (JStr []),
                    hp_mobile = format_sms_dest_phone strip (Some (phone_number r)),
                    hp_content = message r, hp_extno = extno_of r c\<rparr>))"

text \<open>\<open>x == q\<close> on a decoded value, where \<open>True\<close> and \<open>False\<close> are 1 and 0.\<close>

definition json_is :: "json \<Rightarrow> rat \<Rightarrow> bool" where
  "json_is j q = (case j of JNum x \<Rightarrow> x = q | JBool b \<Rightarrow> (if b then 1 else 0) = q | _ \<Rightarrow> False)"

definition json_get_or :: "pystr \<Rightarrow> json \<Rightarrow> (pystr \<times> json) list \<Rightarrow> json" where
  "json_get_or k d kvs = (if k \<in> set (map fst kvs) then json_get k kvs else d)"

fun first_of :: "pystr list \<Rightarrow> (pystr \<times> json) list \<Rightarrow> json" where
  "first_of [] kvs = JStr []"
| "first_of (k # ks) kvs = (if json_truthy (json_get k kvs) then json_get k kvs else first_of ks kvs)"

definition answer_id :: "send_lib \<Rightarrow> (pystr \<times> json) list \<Rightarrow> pystr option" where
  "answer_id lib kvs =
     (let mid = first_of [asc ''mid'', asc ''msgid'', asc ''taskid'', asc ''message_id'', asc ''id''] kvs
      in if json_truthy mid then Some (py_str (sb_show lib) mid) else None)"

text \<open>The code of the first item; a string of digits is read as a number, and \<open>int\<close> may raise.\<close>

definition item_code :: "(pystr \<times> json) list \<Rightarrow> json option" where
  "item_code kvs =
     (let j = json_get_or (asc ''result'') (json_get_or (asc ''status'') (JNum (-1)) kvs) kvs
      in case j of
           JStr s \<Rightarrow> if py_isdigit s then map_option (\<lambda>n. JNum (of_nat n)) (py_int s) else Some j
         | _ \<Rightarrow> Some j)"

text \<open>A list or an object is no key of the tables of error texts.\<close>

definition hashable :: "json \<Rightarrow> bool" where
  "hashable j = (case j of JArr _ \<Rightarrow> False | JObj _ \<Rightarrow> False | _ \<Rightarrow> True)"

text \<open>\<open>None\<close> is an exception while reading the JSON answer.\<close>

definition read_json_answer :: "send_lib \<Rightarrow> json \<Rightarrow> via_result option" where
  "read_json_answer lib resp =
     (case resp of
        JObj kvs \<Rightarrow>
          (let st = json_get (asc ''status'') kvs; items = json_get_or (asc ''list'') (JArr []) kvs
           in if \<not> json_is st 0 then (if hashable st then Some (ViaFailed (HttpApi st)) else None)
              else if \<not> json_truthy items then Some (ViaAccepted (map_option Some (answer_id lib kvs)))
              else case items of
                     JArr (JObj item # _) \<Rightarrow>
                       (case item_code item of
                          None \<Rightarrow> None
                        | Some code \<Rightarrow>
                            (if json_is code 0 then Some (ViaAccepted (Some (answer_id lib item)))
                             else if hashable code then Some (ViaFailed (HttpResult code)) else None))
                   | _ \<Rightarrow> None)
      | _ \<Rightarrow> None)"

definition word_char :: "int \<Rightarrow> bool" where
  "word_char c \<longleftrightarrow> (48 \<le> c \<and> c \<le> 57) \<or> (65 \<le> c \<and> c \<le> 90) \<or> (97 \<le> c \<and> c \<le> 122) \<or> c = 95"

text \<open>\<open>re.search("<returnstatus>(\w+)</returnstatus>")\<close>\<close>

fun return_status :: "pystr \<Rightarrow> pystr option" where
  "return_status [] = None"
| "return_status (c # cs) =
     (let r = drop (length (asc ''<returnstatus>'')) (c # cs); v = takeWhile word_char r
      in if starts_with (asc ''<returnstatus>'') (c # cs) \<and> v \<noteq> []
            \<and> starts_with (asc ''</returnstatus>'') (dropWhile word_char r)
         then Some v else return_status cs)"

definition read_text_answer :: "pystr \<Rightarrow> via_result" where
  "read_text_answer text_body =
     (if contains (asc ''<returnsms>'') text_body
      then (let st = (case return_status text_body of Some v \<Rightarrow> v | None \<Rightarrow> asc ''Unknown'')
            in if py_lower st = asc ''success'' then ViaAccepted None else ViaFailed (HttpXml st))
      else ViaFailed HttpUnreadable)"

definition read_http_answer :: "send_lib \<Rightarrow> http_answer \<Rightarrow> via_result" where
  "read_http_answer lib ans =
     (case ans of
        AnsTimeout \<Rightarrow> ViaRetry HttpTimeout
      | AnsConnectError \<Rightarrow> ViaRetry HttpConnect
      | AnsException \<Rightarrow> ViaFailed HttpException
      | Answer status data text_body \<Rightarrow>
          (if status \<in> HTTP_RETRIABLE_STATUS then ViaRetry (HttpTemporary status)
           else if status \<in> {200, 201}
           then (case (case data of None \<Rightarrow> None | Some j \<Rightarrow> read_json_answer lib j) of
                   Some r \<Rightarrow> r
                 | None \<Rightarrow> read_text_answer text_body)
           else ViaFailed (HttpStatus status)))"

text \<open>The payload that went out, if any, and the result. A channel without URL simulates success.\<close>

definition send_via_http ::
    "send_lib \<Rightarrow> sms_log \<Rightarrow> channel \<Rightarrow> (pystr option \<times> pystr option) option \<Rightarrow> http_payload option \<times> via_result" where
  "send_via_http lib r c creds =
     (case api_url c of
        None \<Rightarrow> (None, ViaAccepted None)
      | Some url \<Rightarrow>
          (if url = [] then (None, ViaAccepted None)
           else case http_payload_of lib r c creds of
                  Inl _ \<Rightarrow> (None, ViaFailed HttpException)
                | Inr p \<Rightarrow> (Some p, read_http_answer lib (sb_post lib url p))))"

section \<open>RCS, the supplier BoltTel\<close>

record rcs_payload =
  rp_send_code :: pystr
  rp_iso_code :: pystr
  rp_content :: pystr
  rp_phone :: pystr
  rp_client_ref :: pystr

datatype rcs_answer =
    RcsNetworkError \<comment> \<open>a timeout or a transport error\<close>
  | RcsOtherError
  | RcsAnswer int "json option"

record rcs_result =
  rs_success :: bool
  rs_upstream_id :: "pystr option"
  rs_error :: "rcs_error option"
  rs_retryable :: bool

definition rcs_fail :: "bool \<Rightarrow> rcs_error \<Rightarrow> rcs_result" where
  "rcs_fail retryable e =
     \<lparr>rs_success = False, rs_upstream_id = None, rs_error = Some e, rs_retryable = retryable\<rparr>"

definition json_text :: "json \<Rightarrow> pystr" where
  "json_text j = (case j of JStr s \<Rightarrow> s | _ \<Rightarrow> [])"

text \<open>\<open>str(v or "")\<close>\<close>

definition text_or_empty :: "(json \<Rightarrow> pystr) \<Rightarrow> json \<Rightarrow> pystr" where
  "text_or_empty show_json v = (if json_truthy v then py_str show_json v else [])"

definition build_send_body :: "(pystr \<times> json) list \<Rightarrow> sms_log \<Rightarrow> rcs_payload" where
  "build_send_body cfg r =
     \<lparr>rp_send_code = py_strip (case log_sender_id r of
                                Some s \<Rightarrow> if s = [] then json_text (json_get (asc ''send_code'') cfg) else s
                              | None \<Rightarrow> json_text (json_get (asc ''send_code'') cfg)),
      rp_iso_code = py_upper (py_strip (case log_country_code r of None \<Rightarrow> [] | Some c \<Rightarrow> c)),
      rp_content = (case message r of None \<Rightarrow> [] | Some m \<Rightarrow> m),
      rp_phone = rcs_phone_e164 (Some (phone_number r)), rp_client_ref = message_id r\<rparr>"

text \<open>The identifier of the message: the explicit mapping unless it names another number, the old list,
  and otherwise the one composed from the batch.\<close>

definition mapped_id :: "(json \<Rightarrow> pystr) \<Rightarrow> pystr \<Rightarrow> (pystr \<times> json) list \<Rightarrow> pystr option" where
  "mapped_id show_json wire_phone msg =
     (case json_get (asc ''messages'') msg of
        JArr (e # _) \<Rightarrow>
          (let entry = (case e of JObj kvs \<Rightarrow> kvs | _ \<Rightarrow> []);
               mid = json_get (asc ''messageId'') entry;
               phone = py_strip (text_or_empty show_json (json_get (asc ''phone'') entry))
           in if phone \<noteq> [] \<and> wire_phone \<noteq> [] \<and> phone \<noteq> wire_phone then None
              else if json_truthy mid then Some (py_str show_json mid) else None)
      | _ \<Rightarrow> None)"

definition listed_id :: "(json \<Rightarrow> pystr) \<Rightarrow> (pystr \<times> json) list \<Rightarrow> pystr option" where
  "listed_id show_json msg =
     (case json_get (asc ''messageIds'') msg of
        JArr (x # _) \<Rightarrow> (if json_truthy x then Some (py_str show_json x) else None)
      | _ \<Rightarrow> None)"

definition pick_message_id ::
    "(json \<Rightarrow> pystr) \<Rightarrow> sms_log \<Rightarrow> (pystr \<times> json) list \<Rightarrow> pystr option \<Rightarrow> pystr option" where
  "pick_message_id show_json r msg batch =
     (case mapped_id show_json (rcs_phone_e164 (Some (phone_number r))) msg of
        Some i \<Rightarrow> Some i
      | None \<Rightarrow>
          (case listed_id show_json msg of
             Some i \<Rightarrow> Some i
           | None \<Rightarrow>
               (case batch of
                  Some b \<Rightarrow> (if b = [] then None else Some (asc ''msg:'' @ b @ asc ''-0''))
                | None \<Rightarrow> None)))"

definition RETRYABLE_BIZ_CODES :: "pystr list" where
  "RETRYABLE_BIZ_CODES = [asc ''SYSTEM_BUSY'', asc ''INTERNAL_ERROR'']"

definition dict_of :: "json option \<Rightarrow> (pystr \<times> json) list option" where
  "dict_of data = (case data of Some (JObj kvs) \<Rightarrow> Some kvs | _ \<Rightarrow> None)"

definition error_code_in :: "(json \<Rightarrow> pystr) \<Rightarrow> (pystr \<times> json) list option \<Rightarrow> pystr" where
  "error_code_in show_json d =
     (case d of None \<Rightarrow> [] | Some kvs \<Rightarrow> text_or_empty show_json (json_get (asc ''errorCode'') kvs))"

definition parse_send_response ::
    "(json \<Rightarrow> pystr) \<Rightarrow> sms_log \<Rightarrow> int \<Rightarrow> json option \<Rightarrow> rcs_result" where
  "parse_send_response show_json r status data =
     (let d = dict_of data
      in if status \<in> {401, 403, 429}
         then (let err = error_code_in show_json d
               in if status = 429 \<or> err = asc ''AUTH_QPS_EXCEEDED'' then rcs_fail True RcsTooFast
                  else rcs_fail False (RcsAuth err))
         else if status \<noteq> 200 then rcs_fail True RcsUnavailable
         else case d of
                None \<Rightarrow> rcs_fail True RcsBadAnswer
              | Some kvs \<Rightarrow>
                  (let code = json_get (asc ''code'') kvs; msg = json_get (asc ''message'') kvs
                   in if json_is code 0
                      then (case msg of
                              JObj m \<Rightarrow>
                                (let b = json_get (asc ''batchId'') m;
                                     batch = (if b = JNull then None else Some (py_str show_json b))
                                 in \<lparr>rs_success = True, rs_upstream_id = pick_message_id show_json r m batch,
                                     rs_error = None, rs_retryable = False\<rparr>)
                            | _ \<Rightarrow> rcs_fail True RcsBadAnswer)
                      else if json_is code 10030
                      then (let err = error_code_in show_json (dict_of (Some msg))
                            in rcs_fail (err \<in> set RETRYABLE_BIZ_CODES) (RcsBusiness err))
                      else if json_is code 10000 \<or> json_is code 10140
                      then (let err = error_code_in show_json d
                            in if json_is code 10140 \<or> err = asc ''AUTH_QPS_EXCEEDED'' then rcs_fail True RcsTooFast
                               else rcs_fail False (RcsAuth err))
                      else rcs_fail False RcsUnknownAnswer))"

definition has_credentials :: "(pystr \<times> json) list \<Rightarrow> bool" where
  "has_credentials cfg \<longleftrightarrow>
     list_all (\<lambda>k. json_text (json_get k cfg) \<noteq> []) [asc ''base_url'', asc ''app_key'', asc ''app_secret'']"

text \<open>\<open>send_one\<close>, with the payload if it went out.\<close>

definition send_one ::
    "(json \<Rightarrow> pystr) \<Rightarrow> (rcs_payload \<Rightarrow> rcs_answer) \<Rightarrow> (pystr \<times> json) list \<Rightarrow> sms_log
       \<Rightarrow> rcs_payload option \<times> rcs_result" where
  "send_one show_json post cfg r =
     (case validate_rcs_content (message r) of
        Some e \<Rightarrow> (None, rcs_fail False (RcsTextRefused e))
      | None \<Rightarrow>
          (let p = build_send_body cfg r
           in if rp_iso_code p = [] then (None, rcs_fail False RcsNoCountry)
              else if rp_send_code p = [] then (None, rcs_fail False RcsNoSender)
              else if \<not> has_credentials cfg then (None, rcs_fail False RcsNotConfigured)
              else (Some p, case post p of
                              RcsNetworkError \<Rightarrow> rcs_fail True RcsNetwork
                            | RcsOtherError \<Rightarrow> rcs_fail True RcsException
                            | RcsAnswer status data \<Rightarrow> parse_send_response show_json r status data)))"

text \<open>\<open>get_rcs_adapter\<close> and \<open>_send_via_rcs\<close>: the supplier \<open>node\<close> has no \<open>send_one\<close> and raises.\<close>

datatype rcs_adapter = BoltTel | NodeRcs

definition get_rcs_adapter :: "(json \<Rightarrow> pystr) \<Rightarrow> channel \<Rightarrow> rcs_adapter option outcome" where
  "get_rcs_adapter show_json c =
     (case rcs_vendor show_json c of
        Inl e \<Rightarrow> Inl e
      | Inr v \<Rightarrow>
          (let vendor = (if v = [] then asc ''bolttel'' else v)
           in Inr (if vendor = asc ''bolttel'' then Some BoltTel
                   else if vendor = asc ''node'' then Some NodeRcs else None)))"

definition send_via_rcs ::
    "(json \<Rightarrow> pystr) \<Rightarrow> (rcs_payload \<Rightarrow> rcs_answer) \<Rightarrow> sms_log \<Rightarrow> channel
       \<Rightarrow> rcs_payload option \<times> via_result outcome" where
  "send_via_rcs show_json post r c =
     (case get_rcs_adapter show_json c of
        Inl e \<Rightarrow> (None, Inl e)
      | Inr None \<Rightarrow> (None, Inr (ViaFailed (RcsError RcsNotConfigured)))
      | Inr (Some NodeRcs) \<Rightarrow> (None, Inl PyException)
      | Inr (Some BoltTel) \<Rightarrow>
          (case get_rcs_config c of
             Inl e \<Rightarrow> (None, Inl e)
           | Inr cfg \<Rightarrow>
               (case send_one show_json post cfg r of
                  (p, res) \<Rightarrow>
                    (p, Inr (if rs_success res then ViaAccepted (map_option Some (rs_upstream_id res))
                             else let e = (case rs_error res of Some e \<Rightarrow> RcsError e | None \<Rightarrow> RcsError RcsUnknownAnswer)
                                  in if rs_retryable res then ViaRetry e else ViaFailed e)))))"

text \<open>An accepted RCS message has gone out under its own message id, so that a repeated request is
  recognised upstream, and a retry is asked for only where nothing was charged or the same
  request may be repeated.\<close>

lemma send_via_rcs_cases:
  "send_via_rcs show_json post r c = (p, Inr (ViaAccepted i)) \<Longrightarrow>
     \<exists>q. p = Some q \<and> rp_client_ref q = message_id r \<and> validate_rcs_content (message r) = None"
  by (auto simp: send_via_rcs_def send_one_def rcs_fail_def build_send_body_def Let_def
      split: sum.splits option.splits rcs_adapter.splits prod.splits if_splits)

lemma send_via_http_accepted:
  "send_via_http lib r c creds = (Some p, ViaAccepted i) \<Longrightarrow>
     \<exists>data text_body. sb_post lib (the (api_url c)) p = Answer 200 data text_body
                    \<or> sb_post lib (the (api_url c)) p = Answer 201 data text_body"
  by (auto simp: send_via_http_def read_http_answer_def HTTP_RETRIABLE_STATUS_def
      split: option.splits sum.splits http_answer.splits if_splits)

end
