(* ===== verification/License.thy ===== *)
theory License
  imports ChannelConfig DlrParse
begin

text \<open>
  The software licence, \<open>backend/app/core/license.py\<close>. Decoding a licence (base64, JSON, the Ed25519
  signature), reading an ISO date and the fingerprint of the machine are the fields of \<open>license_env\<close>,
  beside the two settings and the licence file; days are numbered. The status is cached in the
  process for 60 seconds.
\<close>

datatype opened = SignatureBad | Damaged | Payload json

datatype license_state = StValid | StGrace | StMissing | StInvalid | StExpired | StWrongMachine

record license_env =
  li_open :: "pystr \<Rightarrow> opened"
  li_day :: "json \<Rightarrow> int option"
  li_fingerprint :: pystr
  li_today :: int
  li_file :: "pystr option"
  li_required :: bool

record license_status =
  ls_state :: license_state
  valid_for_send :: bool
  days_left :: "int option"

text \<open>\<open>int(payload.get("grace_days") or 0)\<close>\<close>

definition json_int :: "json \<Rightarrow> int outcome" where
  "json_int j =
     (if \<not> json_truthy j then Inr 0
      else case j of
             JBool _ \<Rightarrow> Inr 1
           | JNum q \<Rightarrow> Inr (if 0 \<le> q then \<lfloor>q\<rfloor> else \<lceil>q\<rceil>)
           | JStr s \<Rightarrow>
               (let t = py_strip s; neg = starts_with [45] t; d = (if neg \<or> starts_with [43] t then drop 1 t else t)
                in case (if d = [] then None else py_int d) of
                     None \<Rightarrow> Inl ValueError
                   | Some n \<Rightarrow> Inr (if neg then - int n else int n))
           | _ \<Rightarrow> Inl PyException)"

text \<open>\<open>(payload.get(key) or "").strip()\<close>\<close>

definition json_stripped :: "json \<Rightarrow> pystr outcome" where
  "json_stripped j =
     (if \<not> json_truthy j then Inr [] else case j of JStr s \<Rightarrow> Inr (py_strip s) | _ \<Rightarrow> Inl PyException)"

definition check_expiry :: "license_env \<Rightarrow> json \<Rightarrow> int \<Rightarrow> license_status" where
  "check_expiry env expires_at grace_days =
     (case (if json_truthy expires_at then li_day env expires_at else None) of
        None \<Rightarrow> \<lparr>ls_state = StValid, valid_for_send = True, days_left = None\<rparr>
      | Some day \<Rightarrow>
          (let left = day - li_today env
           in if left < 0
              then (if - left \<le> grace_days
                    then \<lparr>ls_state = StGrace, valid_for_send = True, days_left = Some left\<rparr>
                    else \<lparr>ls_state = StExpired, valid_for_send = False, days_left = Some left\<rparr>)
              else \<lparr>ls_state = StValid, valid_for_send = True, days_left = Some left\<rparr>))"

definition refused :: "license_state \<Rightarrow> license_status" where
  "refused st = \<lparr>ls_state = st, valid_for_send = False, days_left = None\<rparr>"

definition verify_blob :: "license_env \<Rightarrow> pystr option \<Rightarrow> license_status outcome" where
  "verify_blob env blob =
     (case blob of
        None \<Rightarrow> Inr (refused StMissing)
      | Some b \<Rightarrow>
          (if py_strip b = [] then Inr (refused StMissing)
           else case li_open env (py_strip b) of
                  SignatureBad \<Rightarrow> Inr (refused StInvalid)
                | Damaged \<Rightarrow> Inr (refused StInvalid)
                | Payload (JObj kvs) \<Rightarrow>
                    (case json_int (json_get (asc ''grace_days'') kvs) of
                       Inl e \<Rightarrow> Inl e
                     | Inr grace \<Rightarrow>
                         (case json_stripped (json_get (asc ''machine_fingerprint'') kvs) of
                            Inl e \<Rightarrow> Inl e
                          | Inr bound \<Rightarrow>
                              (if bound \<noteq> [] \<and> li_fingerprint env \<noteq> bound then Inr (refused StWrongMachine)
                               else Inr (check_expiry env (json_get (asc ''expires_at'') kvs) grace))))
                | Payload _ \<Rightarrow> Inl PyException))"

record license_cache =
  lc_installed :: "pystr option" \<comment> \<open>the text under \<open>license.blob\<close> of the configuration\<close>
  lc_status :: "license_status option"
  lc_at :: int

definition CACHE_TTL :: int where "CACHE_TTL = 60"

text \<open>A falsy configured text falls back to the licence file; without a licence everything is allowed
  unless the deployment requires one.\<close>

definition licence_text :: "license_env \<Rightarrow> license_cache \<Rightarrow> pystr option" where
  "licence_text env c =
     (case lc_installed c of
        Some b \<Rightarrow> if b = [] then map_option py_strip (li_file env) else Some b
      | None \<Rightarrow> map_option py_strip (li_file env))"

definition get_license_status :: "license_env \<Rightarrow> int \<Rightarrow> license_cache \<Rightarrow> license_status outcome \<times> license_cache" where
  "get_license_status env time c =
     (case (if time - lc_at c < CACHE_TTL then lc_status c else None) of
        Some st \<Rightarrow> (Inr st, c)
      | None \<Rightarrow>
          (case verify_blob env (licence_text env c) of
             Inl e \<Rightarrow> (Inl e, c)
           | Inr st \<Rightarrow>
               (let st' = (if ls_state st = StMissing \<and> \<not> li_required env then st\<lparr>valid_for_send := True\<rparr> else st)
                in (Inr st', c\<lparr>lc_status := Some st', lc_at := time\<rparr>))))"

definition invalidate_cache :: "license_cache \<Rightarrow> license_cache" where
  "invalidate_cache c = c\<lparr>lc_status := None, lc_at := 0\<rparr>"

text \<open>\<open>require_valid_license\<close>: the dependency of the sending endpoints; \<open>Inl\<close> is the answer 403.\<close>

definition require_valid_license :: "license_env \<Rightarrow> int \<Rightarrow> license_cache \<Rightarrow> (exn + license_status) \<times> license_cache" where
  "require_valid_license env time c =
     (case get_license_status env time c of
        (Inl e, c') \<Rightarrow> (Inl e, c')
      | (Inr st, c') \<Rightarrow> (if valid_for_send st then (Inr st, c') else (Inl (AuthorizationError []), c')))"

text \<open>What a licence that lets messages out looks like.\<close>

lemma check_expiry_valid:
  "valid_for_send (check_expiry env expires_at grace) \<longleftrightarrow>
     (\<forall>day. json_truthy expires_at \<longrightarrow> li_day env expires_at = Some day \<longrightarrow> li_today env \<le> day + max 0 grace)"
  by (auto simp: check_expiry_def Let_def split: option.split)


text \<open>A licence of 30 days of grace that ran out two days ago.\<close>

definition demo_licence :: license_env where
  "demo_licence =
     \<lparr>li_open = \<lambda>_. Payload (JObj [(asc ''expires_at'', JStr (asc ''d'')), (asc ''grace_days'', JNum 30)]),
      li_day = \<lambda>_. Some 10, li_fingerprint = asc ''f'', li_today = 12, li_file = None, li_required = True\<rparr>"

definition demo_licence_cache :: license_cache where
  "demo_licence_cache = \<lparr>lc_installed = Some (asc ''blob''), lc_status = None, lc_at = 0\<rparr>"

lemma demo_licence_read:
  "case fst (get_license_status demo_licence 100 demo_licence_cache) of Inr st \<Rightarrow> valid_for_send st | Inl _ \<Rightarrow> False"
  by code_simp


end
