(* ===== verification/UrlSafety.thy ===== *)
theory UrlSafety
  imports Prelude
begin

text \<open>
  The check of a URL before the system calls it or redirects to it, \<open>backend/app/utils/url_safety.py\<close>.
  What \<open>urlparse\<close> computes of it (scheme, authority, host name) is written out after
  \<open>urllib.parse.urlsplit\<close>; the normalisation check of an authority outside ASCII and the form
  \<open>[v1.\<dots>]\<close> of a bracketed host are left out. The resolver and the classification of addresses by the
  module \<open>ipaddress\<close> are the parameters of \<open>net_lib\<close>.
\<close>

record net_lib =
  nl_resolve :: "pystr \<Rightarrow> pystr list option" \<comment> \<open>None: the name does not resolve\<close>
  nl_private :: "pystr \<Rightarrow> bool option" \<comment> \<open>None: not an address\<close>

section \<open>The parts of a URL\<close>

definition url_clean :: "pystr \<Rightarrow> pystr" where
  "url_clean s = filter (\<lambda>c. c \<notin> {9, 10, 13}) (dropWhile (\<lambda>c. 0 \<le> c \<and> c \<le> 32) s)"

definition ascii_letter :: "int \<Rightarrow> bool" where
  "ascii_letter c \<longleftrightarrow> (65 \<le> c \<and> c \<le> 90) \<or> (97 \<le> c \<and> c \<le> 122)"

definition scheme_char :: "int \<Rightarrow> bool" where
  "scheme_char c \<longleftrightarrow> ascii_letter c \<or> (48 \<le> c \<and> c \<le> 57) \<or> c \<in> {43, 45, 46}"

definition url_scheme :: "pystr \<Rightarrow> pystr \<times> pystr" where
  "url_scheme s =
     (case split_once 58 s of
        (a, Some r) \<Rightarrow> if a \<noteq> [] \<and> ascii_letter (hd a) \<and> list_all scheme_char a then (py_lower a, r) else ([], s)
      | (_, None) \<Rightarrow> ([], s))"

definition url_netloc :: "pystr \<Rightarrow> pystr" where
  "url_netloc r =
     (if starts_with [47, 47] r then takeWhile (\<lambda>c. c \<notin> {47, 63, 35}) (drop 2 r) else [])"

text \<open>\<open>s.rpartition(d)[2]\<close>\<close>

definition after_last :: "int \<Rightarrow> pystr \<Rightarrow> pystr" where
  "after_last d s = rev (takeWhile (\<lambda>c. c \<noteq> d) (rev s))"

definition url_hostname :: "pystr \<Rightarrow> pystr" where
  "url_hostname netloc =
     (let hostinfo = after_last 64 netloc
      in py_lower (case split_once 91 hostinfo of
                     (_, Some bracketed) \<Rightarrow> fst (split_once 93 bracketed)
                   | (_, None) \<Rightarrow> fst (split_once 58 hostinfo)))"

text \<open>\<open>urlsplit\<close> raises on unbalanced brackets and on brackets around something that is no address.\<close>

definition url_brackets_ok :: "net_lib \<Rightarrow> pystr \<Rightarrow> bool" where
  "url_brackets_ok lib netloc \<longleftrightarrow>
     (91 \<in> set netloc \<longleftrightarrow> 93 \<in> set netloc)
     \<and> (91 \<in> set netloc \<longrightarrow>
          nl_private lib (fst (split_once 93 (case split_once 91 netloc of (_, Some b) \<Rightarrow> b | (a, None) \<Rightarrow> a))) \<noteq> None)"

definition url_parse :: "net_lib \<Rightarrow> pystr \<Rightarrow> (pystr \<times> pystr) option" where
  "url_parse lib url =
     (let (scheme, r) = url_scheme (url_clean url); netloc = url_netloc r
      in if url_brackets_ok lib netloc then Some (scheme, netloc) else None)"

section \<open>The checks\<close>

datatype url_refusal =
    UrlEmpty | UrlUnparsable | SchemeNotAllowed pystr | HostMissing | NotResolved | ResolvedEmpty
  | RestrictedAddress pystr

definition ALLOWED_SCHEMES :: "pystr list" where
  "ALLOWED_SCHEMES = [asc ''http'', asc ''https'']"

definition check_scheme_and_host :: "net_lib \<Rightarrow> pystr \<Rightarrow> url_refusal + pystr" where
  "check_scheme_and_host lib url =
     (if url = [] then Inl UrlEmpty
      else case url_parse lib (py_strip url) of
             None \<Rightarrow> Inl UrlUnparsable
           | Some (scheme, netloc) \<Rightarrow>
               (if scheme \<notin> set ALLOWED_SCHEMES then Inl (SchemeNotAllowed scheme)
                else let host = py_lower (py_strip (url_hostname netloc))
                     in if host = [] then Inl HostMissing else Inr host))"

definition resolve_addresses :: "net_lib \<Rightarrow> pystr \<Rightarrow> url_refusal + pystr list" where
  "resolve_addresses lib host =
     (case nl_resolve lib host of
        None \<Rightarrow> Inl NotResolved
      | Some infos \<Rightarrow> (if dedup infos = [] then Inl ResolvedEmpty else Inr (dedup infos)))"

definition addr_is_private :: "net_lib \<Rightarrow> pystr \<Rightarrow> bool" where
  "addr_is_private lib addr = (nl_private lib addr = Some True)"

definition check_addresses :: "net_lib \<Rightarrow> pystr \<Rightarrow> url_refusal option" where
  "check_addresses lib host =
     (case resolve_addresses lib host of
        Inl e \<Rightarrow> Some e
      | Inr addrs \<Rightarrow> map_option RestrictedAddress (find (addr_is_private lib) addrs))"

text \<open>\<open>None\<close> is acceptance.\<close>

definition validate_external_callback_url :: "net_lib \<Rightarrow> pystr \<Rightarrow> url_refusal option" where
  "validate_external_callback_url lib url =
     (case check_scheme_and_host lib url of
        Inl e \<Rightarrow> Some e
      | Inr host \<Rightarrow> check_addresses lib host)"

definition validate_redirect_target_url :: "net_lib \<Rightarrow> pystr \<Rightarrow> url_refusal option" where
  "validate_redirect_target_url lib url =
     (case check_scheme_and_host lib url of
        Inl e \<Rightarrow> Some e
      | Inr host \<Rightarrow>
          (case nl_private lib host of
             Some p \<Rightarrow> (if addr_is_private lib host then Some (RestrictedAddress host) else None)
           | None \<Rightarrow> check_addresses lib host))"

lemma check_addresses_None:
  "check_addresses lib host = None \<longleftrightarrow>
     (\<exists>addrs. nl_resolve lib host = Some addrs \<and> addrs \<noteq> [] \<and> (\<forall>a \<in> set addrs. \<not> addr_is_private lib a))"
proof -
  have "dedup xs = [] \<longleftrightarrow> xs = []" for xs :: "pystr list"
    by (metis set_dedup set_empty)
  then show ?thesis
    by (auto simp: check_addresses_def resolve_addresses_def find_None_iff split: option.split)
qed

text \<open>A redirect target is accepted only over HTTP or HTTPS, to a host that is a public address or
  resolves to public addresses only.\<close>

theorem redirect_target_public:
  assumes "validate_redirect_target_url lib url = None"
  obtains scheme netloc where "url_parse lib (py_strip url) = Some (scheme, netloc)"
    and "scheme \<in> {asc ''http'', asc ''https''}"
    and "nl_private lib (py_lower (py_strip (url_hostname netloc))) = Some False
         \<or> (\<exists>addrs. nl_resolve lib (py_lower (py_strip (url_hostname netloc))) = Some addrs \<and> addrs \<noteq> []
              \<and> (\<forall>a \<in> set addrs. \<not> addr_is_private lib a))"
proof -
  from assms obtain host where h: "check_scheme_and_host lib url = Inr host"
    "nl_private lib host = Some False \<or> check_addresses lib host = None"
    by (auto simp: validate_redirect_target_url_def addr_is_private_def split: sum.splits option.splits if_splits)
  then show ?thesis
    by (auto simp: check_scheme_and_host_def check_addresses_None ALLOWED_SCHEMES_def Let_def intro!: that
        split: if_splits option.splits)
qed

end
