(* ===== verification/ShortLink.thy ===== *)
theory ShortLink
  imports SmsSegment World UrlSafety "HOL-Library.Product_Lexorder"
begin

text \<open>
  Short links, \<open>backend/app/utils/short_link.py\<close> with the two tables it keeps
  (\<open>modules/sms/short_link_log.py\<close>, \<open>short_link_domain.py\<close>): the placeholder in a message, the
  fail-over from a disabled domain, the minting of tokens, one link per message or per group, and the
  replacement just before a message is sent. The placeholder is the one that billing recognises, so
  its parser is that of \<open>SmsSegment\<close>. Redis is reachable, its entries may vanish; \<open>secrets.choice\<close> is
  a stream of numbers, one per character drawn, and the state counts the draws.
\<close>

datatype domain_status = SdActive | SdDisabled

record short_link_domain =
  sd_id :: int
  sd_domain :: pystr
  base_path :: pystr
  scheme :: pystr
  omit_scheme :: bool
  sd_status :: domain_status
  sort_order :: int

record short_link_log =
  token :: pystr
  sl_sms_log_id :: int
  sl_domain_id :: "int option"
  original_url :: pystr

record domain_map =
  dm_active :: "pystr list"
  dm_disabled :: "pystr list"
  dm_best_base :: "pystr option"

record link_state =
  short_link_domains :: "short_link_domain list"
  short_link_logs :: "short_link_log list"
  token_cache :: "pystr \<rightharpoonup> pystr"
  log_cache :: "int \<rightharpoonup> pystr"
  share_cache :: "pystr \<rightharpoonup> pystr"
  domid_cache :: "pystr \<rightharpoonup> int"
  map_cache :: "domain_map option"
  drawn :: nat

record link_env =
  le_net :: net_lib
  le_rnd :: "nat \<Rightarrow> nat"
  le_base :: pystr   \<comment> \<open>SHORT_LINK_BASE_URL\<close>
  le_target :: pystr \<comment> \<open>SHORT_LINK_DEFAULT_TARGET_URL\<close>

section \<open>The placeholder\<close>

text \<open>The first match of \<open>_PLACEHOLDER_RE\<close>; the inner option is the group.\<close>

fun find_placeholder :: "pystr \<Rightarrow> pystr option option" where
  "find_placeholder [] = None"
| "find_placeholder (c # cs) =
     (if starts_with TRACK_OPEN (c # cs)
      then (case match_track (drop (length TRACK_OPEN) (c # cs)) of
              Some (g, _) \<Rightarrow> Some g
            | None \<Rightarrow> find_placeholder cs)
      else find_placeholder cs)"

definition has_track_url_placeholder :: "pystr option \<Rightarrow> bool" where
  "has_track_url_placeholder msg =
     (case msg of None \<Rightarrow> False | Some s \<Rightarrow> s \<noteq> [] \<and> find_placeholder s \<noteq> None)"

fun split_bars :: "pystr \<Rightarrow> pystr list" where
  "split_bars [] = [[]]"
| "split_bars (c # cs) =
     (if c = 124 then [] # split_bars cs
      else case split_bars cs of [] \<Rightarrow> [[c]] | p # ps \<Rightarrow> (c # p) # ps)"

definition plain_parts :: "pystr \<Rightarrow> pystr list" where
  "plain_parts embedded =
     map py_strip (filter (\<lambda>s. \<not> starts_with (asc ''g='') (py_strip s)) (split_bars embedded))"

text \<open>The target and the base: a blank part falls back to the default.\<close>

definition nth_or :: "pystr list \<Rightarrow> nat \<Rightarrow> pystr \<Rightarrow> pystr" where
  "nth_or ps k d = (if k < length ps \<and> ps ! k \<noteq> [] then ps ! k else d)"

definition extract_placeholder_parts :: "pystr \<Rightarrow> pystr \<Rightarrow> pystr \<Rightarrow> (pystr \<times> pystr) option" where
  "extract_placeholder_parts msg default_url default_base =
     (case find_placeholder msg of
        None \<Rightarrow> None
      | Some g \<Rightarrow>
          (let embedded = py_strip (case g of None \<Rightarrow> [] | Some s \<Rightarrow> s);
               plain = (if embedded = [] then [] else plain_parts embedded);
               target = nth_or plain 0 default_url;
               base = nth_or plain 1 default_base
           in if target = [] then None else Some (target, if base = [] then default_base else base)))"

text \<open>\<open>_GROUP_RE.search\<close>: \<open>|g=\<close> and at least one character before a bar or a closing brace.\<close>

fun find_group :: "pystr \<Rightarrow> pystr option" where
  "find_group [] = None"
| "find_group (c # cs) =
     (let inner = takeWhile (\<lambda>x. x \<noteq> 124 \<and> x \<noteq> 125) (drop 2 cs)
      in if c = 124 \<and> starts_with (asc ''g='') cs \<and> inner \<noteq> [] then Some inner else find_group cs)"

definition extract_track_group :: "pystr \<Rightarrow> pystr option" where
  "extract_track_group msg =
     (case find_placeholder msg of
        Some (Some g) \<Rightarrow> map_option py_strip (find_group g)
      | _ \<Rightarrow> None)"

text \<open>\<open>_PLACEHOLDER_RE.sub(url, message)\<close>; a backslash in the replacement would be read as an escape,
  and a short URL of the configured bases has none.\<close>

function sub_placeholders :: "pystr \<Rightarrow> pystr \<Rightarrow> pystr" where
  "sub_placeholders url [] = []"
| "sub_placeholders url (c # cs) =
     (if starts_with TRACK_OPEN (c # cs)
      then (case match_track (drop (length TRACK_OPEN) (c # cs)) of
              Some (g, t) \<Rightarrow> url @ sub_placeholders url t
            | None \<Rightarrow> c # sub_placeholders url cs)
      else c # sub_placeholders url cs)"
  by pat_completeness auto
termination
proof (relation "measure (length \<circ> snd)", goal_cases)
  case (3 url c cs x g t)
  then have "length t \<le> length (drop (length TRACK_OPEN) (c # cs))"
    by (auto dest: match_track_shorter)
  then show ?case by (simp add: TRACK_OPEN_def asc_def)
qed auto

section \<open>Domains\<close>

text \<open>\<open>ShortLinkDomain.base_url()\<close>\<close>

definition py_strip_chars :: "int list \<Rightarrow> pystr \<Rightarrow> pystr" where
  "py_strip_chars cs s = py_rstrip_chars cs (py_lstrip_chars cs s)"

definition base_url :: "short_link_domain \<Rightarrow> pystr" where
  "base_url d =
     (let sch = py_rstrip_chars [58, 47] (if scheme d = [] then asc ''https'' else scheme d);
          path = py_strip_chars [47] (py_strip (base_path d));
          netpath = (if path \<noteq> [] then py_rstrip_chars [47] (sd_domain d @ 47 # path) else sd_domain d)
      in if omit_scheme d then netpath else sch @ asc ''://'' @ netpath)"

text \<open>\<open>ORDER BY sort_order DESC, id DESC\<close>\<close>

definition host_of :: "short_link_domain \<Rightarrow> pystr" where
  "host_of d = py_lower (py_strip (sd_domain d))"

definition build_domain_map :: "short_link_domain list \<Rightarrow> domain_map" where
  "build_domain_map ds =
     (let rows = filter (\<lambda>d. host_of d \<noteq> []) (sort_desc (\<lambda>d. (sort_order d, sd_id d)) ds);
          act = filter (\<lambda>d. sd_status d = SdActive) rows
      in \<lparr>dm_active = map host_of act, dm_disabled = map host_of (filter (\<lambda>d. sd_status d \<noteq> SdActive) rows),
          dm_best_base = (case act of [] \<Rightarrow> None | d # _ \<Rightarrow> Some (base_url d))\<rparr>)"

definition rebuild_active_domain_map :: "link_state \<Rightarrow> domain_map \<times> link_state" where
  "rebuild_active_domain_map s =
     (let m = build_domain_map (short_link_domains s) in (m, s\<lparr>map_cache := Some m\<rparr>))"

definition get_active_domain_map :: "link_state \<Rightarrow> domain_map \<times> link_state" where
  "get_active_domain_map s =
     (case map_cache s of Some m \<Rightarrow> (m, s) | None \<Rightarrow> rebuild_active_domain_map s)"

text \<open>\<open>base.split("://", 1)[-1].split("/", 1)[0].lower()\<close>\<close>

fun after_scheme :: "pystr \<Rightarrow> pystr" where
  "after_scheme [] = []"
| "after_scheme (c # cs) =
     (if starts_with (asc ''://'') (c # cs) then drop 2 cs
      else if contains (asc ''://'') cs then after_scheme cs else c # cs)"

definition raw_host :: "pystr \<Rightarrow> pystr" where
  "raw_host base = py_lower (fst (split_once 47 (after_scheme base)))"

definition resolve_effective_base :: "pystr \<Rightarrow> link_state \<Rightarrow> pystr \<times> link_state" where
  "resolve_effective_base base s =
     (if base = [] then (base, s)
      else case get_active_domain_map s of
             (m, s1) \<Rightarrow>
               (case dm_best_base m of
                  Some best \<Rightarrow>
                    (if raw_host base \<in> set (dm_disabled m) \<and> best \<noteq> [] \<and> raw_host best \<noteq> raw_host base
                     then (best, s1) else (base, s1))
                | None \<Rightarrow> (base, s1)))"

definition resolve_domain_id :: "net_lib \<Rightarrow> pystr \<Rightarrow> link_state \<Rightarrow> int option \<times> link_state" where
  "resolve_domain_id lib base s =
     (if base = [] then (None, s)
      else case domid_cache s base of
             Some i \<Rightarrow> (Some i, s)
           | None \<Rightarrow>
               (case url_parse lib (if contains (asc ''://'') base then base else asc ''//'' @ base) of
                  None \<Rightarrow> (None, s)
                | Some (_, netloc) \<Rightarrow>
                    (let host = py_lower netloc
                     in if host = [] then (None, s)
                        else case find (\<lambda>d. sd_domain d = host) (short_link_domains s) of
                               None \<Rightarrow> (None, s)
                             | Some d \<Rightarrow>
                                 (Some (sd_id d), s\<lparr>domid_cache := (domid_cache s)(base \<mapsto> sd_id d)\<rparr>))))"

section \<open>Tokens\<close>

definition BASE62 :: pystr where
  "BASE62 = map int ([48..<58] @ [65..<91] @ [97..<123])"

definition gen_token :: "(nat \<Rightarrow> nat) \<Rightarrow> nat \<Rightarrow> pystr" where
  "gen_token rnd n = map (\<lambda>k. BASE62 ! (rnd (n + k) mod length BASE62)) [0..<8]"

text \<open>One attempt claims the token in Redis (\<open>SET NX\<close>) and then in the table (\<open>INSERT IGNORE\<close>).\<close>

fun mint_token ::
    "nat \<Rightarrow> (nat \<Rightarrow> nat) \<Rightarrow> int \<Rightarrow> pystr \<Rightarrow> int option \<Rightarrow> link_state \<Rightarrow> pystr outcome \<times> link_state" where
  "mint_token 0 rnd i url did s = (Inl PyException, s)"
| "mint_token (Suc k) rnd i url did s =
     (let t = gen_token rnd (drawn s); s1 = s\<lparr>drawn := drawn s + 8\<rparr>
      in if token_cache s1 t \<noteq> None then mint_token k rnd i url did s1
         else if t \<in> set (map token (short_link_logs s1))
         then mint_token k rnd i url did (s1\<lparr>token_cache := (token_cache s1)(t := None)\<rparr>)
         else (Inr t, s1\<lparr>token_cache := (token_cache s1)(t \<mapsto> url),
                short_link_logs := short_link_logs s1 @
                  [\<lparr>token = t, sl_sms_log_id = i, sl_domain_id = did, original_url = url\<rparr>]\<rparr>))"

definition MINT_RETRIES :: nat where "MINT_RETRIES = 5"

text \<open>An empty cached text counts as a miss.\<close>

definition hit :: "pystr option \<Rightarrow> pystr option" where
  "hit x = (case x of Some v \<Rightarrow> if v = [] then None else Some v | None \<Rightarrow> None)"

definition mint :: "link_env \<Rightarrow> int \<Rightarrow> pystr \<Rightarrow> pystr \<Rightarrow> link_state \<Rightarrow> pystr outcome \<times> link_state" where
  "mint env i url base s =
     (case resolve_domain_id (le_net env) base s of
        (did, s1) \<Rightarrow> mint_token MINT_RETRIES (le_rnd env) i url did s1)"

text \<open>One link for all messages of a group: the first token claims the slot of the group.\<close>

definition shared_token ::
    "link_env \<Rightarrow> int \<Rightarrow> pystr \<Rightarrow> pystr \<Rightarrow> pystr \<Rightarrow> link_state \<Rightarrow> pystr outcome \<times> link_state" where
  "shared_token env i url base grp s =
     (case hit (share_cache s grp) of
        Some t \<Rightarrow> (Inr t, s)
      | None \<Rightarrow>
          (case mint env i url base s of
             (Inl e, s1) \<Rightarrow> (Inl e, s1)
           | (Inr t, s1) \<Rightarrow>
               (case share_cache s1 grp of
                  None \<Rightarrow> (Inr t, s1\<lparr>share_cache := (share_cache s1)(grp \<mapsto> t)\<rparr>)
                | Some w \<Rightarrow> (Inr (if w = [] then t else w), s1))))"

text \<open>One link per message, found again in Redis or in the table.\<close>

definition message_token ::
    "link_env \<Rightarrow> int \<Rightarrow> pystr \<Rightarrow> pystr \<Rightarrow> link_state \<Rightarrow> pystr outcome \<times> link_state" where
  "message_token env i url base s =
     (case hit (log_cache s i) of
        Some t \<Rightarrow> (Inr t, s)
      | None \<Rightarrow>
          (case one_or_none (filter (\<lambda>r. sl_sms_log_id r = i) (short_link_logs s)) of
             ManyRows \<Rightarrow> (Inl MultipleResultsFound, s)
           | row \<Rightarrow>
               (case hit (case row of OneRow r \<Rightarrow> Some (token r) | _ \<Rightarrow> None) of
                  Some t \<Rightarrow>
                    (Inr t, s\<lparr>log_cache := (log_cache s)(i \<mapsto> t), token_cache := (token_cache s)(t \<mapsto> url)\<rparr>)
                | None \<Rightarrow>
                    (case mint env i url base s of
                       (Inl e, s1) \<Rightarrow> (Inl e, s1)
                     | (Inr t, s1) \<Rightarrow> (Inr t, s1\<lparr>log_cache := (log_cache s1)(i \<mapsto> t)\<rparr>)))))"

definition generate_short_link ::
    "link_env \<Rightarrow> int \<Rightarrow> pystr \<Rightarrow> pystr \<Rightarrow> pystr option \<Rightarrow> link_state \<Rightarrow> (pystr \<times> pystr) outcome \<times> link_state" where
  "generate_short_link env i url base share s =
     (case (case hit share of
              Some grp \<Rightarrow> shared_token env i url base grp s
            | None \<Rightarrow> message_token env i url base s) of
        (Inl e, s1) \<Rightarrow> (Inl e, s1)
      | (Inr t, s1) \<Rightarrow> (Inr (t, py_rstrip_chars [47] base @ 47 # t), s1))"

definition get_original_url_by_token :: "pystr \<Rightarrow> link_state \<Rightarrow> pystr option \<times> link_state" where
  "get_original_url_by_token t s =
     (case hit (token_cache s t) of
        Some u \<Rightarrow> (Some u, s)
      | None \<Rightarrow>
          (case map_option original_url (find (\<lambda>r. token r = t) (short_link_logs s)) of
             None \<Rightarrow> (None, s)
           | Some u \<Rightarrow> (Some u, if u = [] then s else s\<lparr>token_cache := (token_cache s)(t \<mapsto> u)\<rparr>)))"

section \<open>Replacing the placeholder\<close>

definition normalize_target_url :: "net_lib \<Rightarrow> pystr \<Rightarrow> pystr" where
  "normalize_target_url lib url =
     (let u = py_strip url
      in if u = [] then []
         else let v = (if starts_with (asc ''http://'') (py_lower u) \<or> starts_with (asc ''https://'') (py_lower u)
                       then u else asc ''https://'' @ py_lstrip_chars [47] u)
              in if validate_redirect_target_url lib v = None then v else [])"

definition replace_track_url_in_message ::
    "link_env \<Rightarrow> int \<Rightarrow> pystr \<Rightarrow> link_state \<Rightarrow> pystr outcome \<times> link_state" where
  "replace_track_url_in_message env i msg s =
     (case extract_placeholder_parts msg (le_target env) (le_base env) of
        None \<Rightarrow> (Inr msg, s)
      | Some (target, base) \<Rightarrow>
          (case resolve_effective_base base s of
             (base', s1) \<Rightarrow>
               (let url = normalize_target_url (le_net env) target
                in if url = [] then (Inr msg, s1)
                   else case generate_short_link env i url base' (extract_track_group msg) s1 of
                          (Inl e, s2) \<Rightarrow> (Inl e, s2)
                        | (Inr (_, short_url), s2) \<Rightarrow> (Inr (sub_placeholders short_url msg), s2))))"

text \<open>\<open>replace_track_urls_bulk\<close>: a failure skips its message.\<close>

fun replace_track_urls_bulk ::
    "link_env \<Rightarrow> (int \<times> pystr option) list \<Rightarrow> link_state \<Rightarrow> (int \<times> pystr) list \<times> link_state" where
  "replace_track_urls_bulk env [] s = ([], s)"
| "replace_track_urls_bulk env ((i, msg) # items) s =
     (if \<not> has_track_url_placeholder msg then replace_track_urls_bulk env items s
      else case replace_track_url_in_message env i (the msg) s of
             (Inl _, s1) \<Rightarrow> replace_track_urls_bulk env items s1
           | (Inr new, s1) \<Rightarrow> map_prod (Cons (i, new)) id (replace_track_urls_bulk env items s1))"

section \<open>The tables and the caches agree\<close>

definition tokens_of :: "link_state \<Rightarrow> pystr set" where
  "tokens_of s = token ` set (short_link_logs s)"

definition own_rows :: "link_state \<Rightarrow> int \<Rightarrow> short_link_log list" where
  "own_rows s i = filter (\<lambda>r. sl_sms_log_id r = i) (short_link_logs s)"

definition links_ok :: "link_state \<Rightarrow> bool" where
  "links_ok s \<longleftrightarrow> distinct (map token (short_link_logs s)) \<and> [] \<notin> tokens_of s
     \<and> (\<forall>t u. token_cache s t = Some u \<longrightarrow> t \<in> tokens_of s)
     \<and> (\<forall>grp t. share_cache s grp = Some t \<longrightarrow> t \<in> tokens_of s)
     \<and> (\<forall>i t. log_cache s i = Some t \<longrightarrow> t \<in> token ` set (own_rows s i))"

text \<open>What a step leaves: no row is lost, and rows of other messages are not added.\<close>

definition links_grow :: "(int \<Rightarrow> bool) \<Rightarrow> link_state \<Rightarrow> link_state \<Rightarrow> bool" where
  "links_grow p s s' \<longleftrightarrow> links_ok s' \<and> (\<exists>rs. short_link_logs s' = short_link_logs s @ rs \<and> (\<forall>r \<in> set rs. p (sl_sms_log_id r)))"

lemma links_grow_refl: "links_ok s \<Longrightarrow> links_grow p s s"
  by (simp add: links_grow_def)

lemma links_grow_trans: "links_grow p s s1 \<Longrightarrow> links_grow p s1 s2 \<Longrightarrow> links_grow p s s2"
  by (auto simp: links_grow_def)

lemma length_gen_token [simp]: "length (gen_token rnd n) = 8"
  by (simp add: gen_token_def)

lemma hit_Some: "hit x = Some v \<longleftrightarrow> x = Some v \<and> v \<noteq> []"
  by (auto simp: hit_def split: option.splits if_splits)

lemma resolve_domain_id_frame:
  "resolve_domain_id lib base s = (d, s') \<Longrightarrow> \<exists>c. s' = s\<lparr>domid_cache := c\<rparr>"
  by (auto simp: resolve_domain_id_def Let_def intro: exI [of _ "domid_cache s"]
      split: if_splits option.splits prod.splits)

lemma domid_frame [simp]:
  "tokens_of (s\<lparr>domid_cache := c\<rparr>) = tokens_of s" "own_rows (s\<lparr>domid_cache := c\<rparr>) i = own_rows s i"
  "links_ok (s\<lparr>domid_cache := c\<rparr>) = links_ok s"
  by (simp_all add: tokens_of_def own_rows_def links_ok_def)

text \<open>A minted token is new, and its row is the only one added.\<close>

lemma mint_token_new:
  assumes "mint_token k rnd i url did s = (r, s')" and "links_ok s"
  shows "case r of
      Inl _ \<Rightarrow> links_grow (\<lambda>_. False) s s'
    | Inr t \<Rightarrow> t \<notin> tokens_of s \<and> links_ok s' \<and> token_cache s' t = Some url
        \<and> short_link_logs s' = short_link_logs s @ [\<lparr>token = t, sl_sms_log_id = i, sl_domain_id = did, original_url = url\<rparr>]
        \<and> (\<forall>x. x \<noteq> t \<longrightarrow> x \<in> tokens_of s \<longrightarrow> token_cache s' x = token_cache s x)
        \<and> log_cache s' = log_cache s \<and> share_cache s' = share_cache s"
  using assms
proof (induction k arbitrary: s)
  case 0
  then show ?case by (auto simp: links_grow_refl)
next
  case (Suc k)
  let ?t = "gen_token rnd (drawn s)" and ?s = "s\<lparr>drawn := drawn s + 8\<rparr>"
  have ok: "links_ok ?s" using Suc.prems(2) by (simp add: links_ok_def tokens_of_def own_rows_def)
  consider (cached) "token_cache s ?t \<noteq> None"
    | (taken) "token_cache s ?t = None" "?t \<in> tokens_of s"
    | (fresh) "token_cache s ?t = None" "?t \<notin> tokens_of s" by blast
  then show ?case
  proof cases
    case cached
    with Suc.prems(1) have "mint_token k rnd i url did ?s = (r, s')" by (simp add: Let_def)
    from Suc.IH [OF this ok] show ?thesis
      by (simp add: links_grow_def tokens_of_def split: sum.splits)
  next
    case taken
    let ?c = "?s\<lparr>token_cache := (token_cache ?s)(?t := None)\<rparr>"
    have same: "?c = ?s" using taken(1) by (simp add: fun_upd_idem)
    with Suc.prems(1) taken have "mint_token k rnd i url did ?s = (r, s')"
      by (simp add: Let_def tokens_of_def)
    from Suc.IH [OF this ok] show ?thesis
      by (simp add: links_grow_def tokens_of_def split: sum.splits)
  next
    case fresh
    have "?t \<noteq> []" using length_gen_token [of rnd "drawn s"] by fastforce
    with Suc.prems fresh show ?thesis
      by (auto simp: Let_def tokens_of_def links_ok_def own_rows_def)
  qed
qed

lemma mint_new:
  assumes "mint env i url base s = (r, s')" and "links_ok s"
  shows "case r of
      Inl _ \<Rightarrow> links_grow (\<lambda>_. False) s s'
    | Inr t \<Rightarrow> t \<notin> tokens_of s \<and> links_ok s' \<and> token_cache s' t = Some url \<and> t \<in> tokens_of s'
        \<and> (\<exists>did. short_link_logs s' = short_link_logs s @ [\<lparr>token = t, sl_sms_log_id = i, sl_domain_id = did, original_url = url\<rparr>])
        \<and> log_cache s' = log_cache s \<and> share_cache s' = share_cache s"
proof -
  obtain did s1 where d: "resolve_domain_id (le_net env) base s = (did, s1)" by fastforce
  obtain c where c: "s1 = s\<lparr>domid_cache := c\<rparr>" using resolve_domain_id_frame [OF d] by blast
  have "mint_token MINT_RETRIES (le_rnd env) i url did s1 = (r, s')"
    using assms(1) d by (simp add: mint_def)
  from mint_token_new [OF this] assms(2) c show ?thesis
    by (auto simp: links_grow_def tokens_of_def split: sum.splits)
qed

text \<open>A token kept for a group or a message adds no row; a minted one adds the row of its message.\<close>

lemma shared_token_grow:
  assumes "shared_token env i url base grp s = (r, s')" and "links_ok s"
  shows "links_grow (\<lambda>j. j = i) s s'"
proof (cases "hit (share_cache s grp)")
  case None
  obtain q s1 where m: "mint env i url base s = (q, s1)" by fastforce
  show ?thesis
  proof (cases q)
    case (Inl e)
    with mint_new [OF m assms(2)] assms(1) None m show ?thesis
      by (auto simp: shared_token_def links_grow_def)
  next
    case (Inr t)
    with mint_new [OF m assms(2)] assms(1) None m show ?thesis
      by (auto simp: shared_token_def links_grow_def links_ok_def tokens_of_def own_rows_def
          split: option.splits if_splits)
  qed
qed (use assms in \<open>auto simp: shared_token_def links_grow_refl\<close>)

text \<open>The token of a message is the one of its row, if it has just one.\<close>

definition linked :: "int \<Rightarrow> short_link_log \<Rightarrow> link_state \<Rightarrow> bool" where
  "linked i row s \<longleftrightarrow> links_ok s \<and> own_rows s i = [row]"

lemma message_token_linked:
  assumes "linked i row s" and "message_token env i url base s = (r, s')"
  shows "r = Inr (token row)" "linked i row s'" "short_link_logs s' = short_link_logs s"
proof -
  have row: "row \<in> set (short_link_logs s)" "sl_sms_log_id row = i"
    using assms(1) by (auto simp: linked_def own_rows_def filter_eq_Cons_iff)
  then have "token row \<in> tokens_of s" by (simp add: tokens_of_def)
  moreover from this have "token row \<noteq> []" using assms(1) by (metis linked_def links_ok_def)
  ultimately have t: "token row \<in> tokens_of s" "token row \<noteq> []" by simp_all
  have one: "one_or_none (filter (\<lambda>r. sl_sms_log_id r = i) (short_link_logs s)) = OneRow row"
    using assms(1) by (simp add: linked_def own_rows_def one_or_none_simps)
  have "r = Inr (token row) \<and> (s' = s \<or> s' = s\<lparr>log_cache := (log_cache s)(i \<mapsto> token row),
        token_cache := (token_cache s)(token row \<mapsto> url)\<rparr>)"
  proof (cases "hit (log_cache s i)")
    case None
    with assms(2) one t show ?thesis by (auto simp: message_token_def hit_def)
  next
    case (Some u)
    then have "u = token row" using assms(1) by (fastforce simp: hit_Some linked_def links_ok_def)
    with Some assms(2) show ?thesis by (simp add: message_token_def)
  qed
  moreover have "links_ok (s\<lparr>log_cache := (log_cache s)(i \<mapsto> token row),
        token_cache := (token_cache s)(token row \<mapsto> url)\<rparr>)"
    using assms(1) t row by (auto simp: linked_def links_ok_def tokens_of_def own_rows_def)
  ultimately show "r = Inr (token row)" "linked i row s'" "short_link_logs s' = short_link_logs s"
    using assms(1) by (auto simp: linked_def own_rows_def)
qed

lemma links_ok_note:
  assumes "links_ok s" and "t \<in> token ` set (own_rows s i)"
  shows "links_ok (s\<lparr>log_cache := (log_cache s)(i \<mapsto> t)\<rparr>)"
  using assms by (simp add: links_ok_def tokens_of_def own_rows_def)

lemma message_token_fresh:
  assumes "links_ok s" and "own_rows s i = []" and "message_token env i url base s = (Inr t, s')"
  obtains row where "linked i row s'" "token row = t" "original_url row = url" "t \<notin> tokens_of s"
    "token_cache s' t = Some url"
proof -
  have none: "log_cache s i = None"
    using assms(1,2) by (cases "log_cache s i") (fastforce simp: links_ok_def)+
  have no: "one_or_none (filter (\<lambda>r. sl_sms_log_id r = i) (short_link_logs s)) = NoRow"
    using assms(2) by (simp add: own_rows_def one_or_none_simps)
  obtain q s1 where m: "mint env i url base s = (q, s1)" by fastforce
  with assms(3) none no have q: "q = Inr t" "s' = s1\<lparr>log_cache := (log_cache s1)(i \<mapsto> t)\<rparr>"
    by (auto simp: message_token_def hit_def split: sum.splits)
  from mint_new [OF m assms(1)] obtain did where
    n: "t \<notin> tokens_of s" "links_ok s1" "token_cache s1 t = Some url"
      "short_link_logs s1 = short_link_logs s @ [\<lparr>token = t, sl_sms_log_id = i, sl_domain_id = did, original_url = url\<rparr>]"
    using q(1) by auto
  then have own: "own_rows s1 i = [\<lparr>token = t, sl_sms_log_id = i, sl_domain_id = did, original_url = url\<rparr>]"
    using assms(2) by (simp add: own_rows_def)
  then have "linked i \<lparr>token = t, sl_sms_log_id = i, sl_domain_id = did, original_url = url\<rparr> s'"
    unfolding q(2) linked_def using links_ok_note [OF n(2), of t i] by (simp add: own_rows_def)
  then show ?thesis by (rule that) (use n q(2) in simp_all)
qed

section \<open>Histories\<close>

text \<open>The events tell for which message a link was asked, and whether it was the link of a group.\<close>

inductive link_step :: "link_state \<Rightarrow> (int \<times> bool) option \<Rightarrow> link_state \<Rightarrow> bool" where
  make: "generate_short_link env i url base share s = (r, s') \<Longrightarrow>
           link_step s (Some (i, hit share \<noteq> None)) s'"
| look: "get_original_url_by_token t s = (r, s') \<Longrightarrow> link_step s None s'"
| fail_over: "resolve_effective_base base s = (r, s') \<Longrightarrow> link_step s None s'"
| probe: "rebuild_active_domain_map (s\<lparr>short_link_domains := ds\<rparr>) = (r, s') \<Longrightarrow> link_step s None s'"
| forget: "tc \<subseteq>\<^sub>m token_cache s \<Longrightarrow> lc \<subseteq>\<^sub>m log_cache s \<Longrightarrow> sc \<subseteq>\<^sub>m share_cache s \<Longrightarrow> dc \<subseteq>\<^sub>m domid_cache s \<Longrightarrow>
             link_step s None (s\<lparr>token_cache := tc, log_cache := lc, share_cache := sc, domid_cache := dc,
               map_cache := None\<rparr>)"

inductive link_run :: "link_state \<Rightarrow> (int \<times> bool) option list \<Rightarrow> link_state \<Rightarrow> bool" where
  link_nil: "link_run s [] s"
| link_snoc: "link_run s es s1 \<Longrightarrow> link_step s1 e s2 \<Longrightarrow> link_run s (es @ [e]) s2"

lemma map_le_SomeD: "m \<subseteq>\<^sub>m m' \<Longrightarrow> m x = Some y \<Longrightarrow> m' x = Some y"
  by (metis domI map_le_def)

lemma caches_links_ok:
  assumes "links_ok s" and "tc \<subseteq>\<^sub>m token_cache s" and "lc \<subseteq>\<^sub>m log_cache s" and "sc \<subseteq>\<^sub>m share_cache s"
  shows "links_ok (s\<lparr>token_cache := tc, log_cache := lc, share_cache := sc, domid_cache := dc, map_cache := mc\<rparr>)"
proof -
  note le = assms(2-4) [THEN map_le_SomeD]
  from assms(1) show ?thesis
    by (auto simp: links_ok_def tokens_of_def own_rows_def dest!: le)
qed

lemma quiet_link_frame:
  assumes "link_step s None s'" and "links_ok s"
  shows "links_ok s' \<and> short_link_logs s' = short_link_logs s"
  using assms
proof (cases rule: link_step.cases)
  case (look t r)
  show ?thesis
  proof (cases "hit (token_cache s t) = None \<and> (\<exists>u. find (\<lambda>r. token r = t) (short_link_logs s) = Some u)")
    case True
    then obtain u where u: "find (\<lambda>r. token r = t) (short_link_logs s) = Some u" "hit (token_cache s t) = None"
      by blast
    then have "t \<in> tokens_of s" by (auto simp: find_Some_iff tokens_of_def)
    with look u assms(2) show ?thesis
      by (auto simp: get_original_url_by_token_def links_ok_def tokens_of_def own_rows_def split: if_splits)
  next
    case False
    with look assms(2) show ?thesis
      by (auto simp: get_original_url_by_token_def split: option.splits)
  qed
next
  case (forget tc lc sc dc)
  then show ?thesis using caches_links_ok [OF assms(2)] by simp
qed (auto simp: resolve_effective_base_def get_active_domain_map_def rebuild_active_domain_map_def Let_def
    links_ok_def tokens_of_def own_rows_def split: if_splits option.splits)

lemma message_token_keeps:
  assumes "links_ok s" and "message_token env j url base s = (r, s')"
  shows "links_grow (\<lambda>k. k = j) s s'"
proof (cases "own_rows s j")
  case Nil
  have none: "log_cache s j = None"
    using assms(1) Nil by (cases "log_cache s j") (fastforce simp: links_ok_def)+
  have no: "one_or_none (filter (\<lambda>r. sl_sms_log_id r = j) (short_link_logs s)) = NoRow"
    using Nil by (simp add: own_rows_def)
  obtain q s1 where m: "mint env j url base s = (q, s1)" by fastforce
  show ?thesis
  proof (cases q)
    case (Inl e)
    with mint_new [OF m assms(1)] assms(2) m none no show ?thesis
      by (auto simp: message_token_def hit_def links_grow_def)
  next
    case (Inr t)
    then have s': "s' = s1\<lparr>log_cache := (log_cache s1)(j \<mapsto> t)\<rparr>"
      using assms(2) m none no by (auto simp: message_token_def hit_def)
    from mint_new [OF m assms(1)] Inr obtain did where n: "links_ok s1"
      "short_link_logs s1 = short_link_logs s @ [\<lparr>token = t, sl_sms_log_id = j, sl_domain_id = did, original_url = url\<rparr>]"
      by auto
    then have "t \<in> token ` set (own_rows s1 j)" by (simp add: own_rows_def)
    from links_ok_note [OF n(1) this] n(2) show ?thesis unfolding s' by (simp add: links_grow_def)
  qed
next
  case (Cons row rows)
  show ?thesis
  proof (cases rows)
    case Nil
    with Cons assms(1) have "linked j row s" by (simp add: linked_def)
    from message_token_linked [OF this assms(2)] show ?thesis
      by (simp add: links_grow_def linked_def)
  next
    case inner: (Cons row' rows')
    then have "one_or_none (filter (\<lambda>r. sl_sms_log_id r = j) (short_link_logs s)) = ManyRows"
      using Cons by (simp add: own_rows_def)
    then show ?thesis using assms
      by (auto simp: message_token_def links_grow_refl split: option.splits)
  qed
qed

lemma generate_grow:
  assumes "links_ok s" and "generate_short_link env j url base share s = (r, s')"
  shows "links_grow (\<lambda>k. k = j) s s'"
  using assms message_token_keeps shared_token_grow
  by (fastforce simp: generate_short_link_def split: option.splits prod.splits sum.splits)

lemma linked_grow: "linked i row s \<Longrightarrow> links_grow (\<lambda>k. k = j) s s' \<Longrightarrow> i \<noteq> j \<Longrightarrow> linked i row s'"
  by (auto simp: linked_def links_grow_def own_rows_def filter_empty_conv)

lemma link_step_linked:
  assumes "link_step s e s'" and "linked i row s" and "e \<noteq> Some (i, True)"
  shows "linked i row s'"
  using assms(1)
proof (cases rule: link_step.cases)
  case (make env j url base share r)
  show ?thesis
  proof (cases "j = i")
    case False
    then show ?thesis using linked_grow [OF assms(2) generate_grow [OF _ make(2)]] assms(2)
      by (simp add: linked_def)
  next
    case True
    then have "hit share = None" using make(1) assms(3) by auto
    with make(2) True show ?thesis
      using message_token_linked(2) [OF assms(2)]
      by (auto simp: generate_short_link_def split: prod.splits sum.splits)
  qed
qed (use quiet_link_frame assms in \<open>auto simp: linked_def own_rows_def\<close>)

lemma link_run_linked:
  "link_run s es s' \<Longrightarrow> linked i row s \<Longrightarrow> Some (i, True) \<notin> set es \<Longrightarrow> linked i row s'"
  by (induction rule: link_run.induct) (auto intro: link_step_linked)

text \<open>C29: The link of a message is its own and is stable: a new token is none of those in use and resolves
  to the target; whatever happens later - links of other messages and groups, domains disabled, every
  cache lost - a retry of the message gets the same token, and the token still belongs to its target
  in the table.\<close>

theorem short_link_stable:
  assumes "links_ok s" and "own_rows s i = []"
    and "generate_short_link env i url base None s = (Inr (t, short_url), s1)" and "url \<noteq> []"
    and "link_run s1 es s2" and "Some (i, True) \<notin> set es"
  shows "t \<notin> tokens_of s \<and> fst (get_original_url_by_token t s1) = Some url
    \<and> fst (generate_short_link env' i url' base' None s2) = Inr (t, py_rstrip_chars [47] base' @ 47 # t)
    \<and> map_option original_url (find (\<lambda>r. token r = t) (short_link_logs s2)) = Some url"
proof -
  have "message_token env i url base s = (Inr t, s1)"
    using assms(3) by (auto simp: generate_short_link_def hit_def split: prod.splits sum.splits)
  from message_token_fresh [OF assms(1,2) this] obtain row where
    row: "linked i row s1" "token row = t" "original_url row = url" "t \<notin> tokens_of s" "token_cache s1 t = Some url" .
  from link_run_linked [OF assms(5) row(1) assms(6)] have l: "linked i row s2" .
  then have "row \<in> set (short_link_logs s2)" "distinct (map token (short_link_logs s2))"
    by (auto simp: linked_def own_rows_def links_ok_def filter_eq_Cons_iff)
  then have "find (\<lambda>r. token r = t) (short_link_logs s2) = Some row"
    using find_distinct_key [of token "short_link_logs s2" row] row(2) by simp
  moreover obtain r' s3 where m: "message_token env' i url' base' s2 = (r', s3)" by fastforce
  ultimately show ?thesis
    using row assms(4) message_token_linked(1) [OF l m]
    by (simp add: generate_short_link_def get_original_url_by_token_def hit_def)
qed

section \<open>A link\<close>

text \<open>The target \<open>a.co\<close> resolves to a public address; every draw gives the character 0.\<close>

definition demo_link_env :: link_env where
  "demo_link_env = \<lparr>le_net = \<lparr>nl_resolve = \<lambda>h. Some [asc ''203.0.113.9''],
       nl_private = \<lambda>a. if a = asc ''203.0.113.9'' then Some False else None\<rparr>,
     le_rnd = \<lambda>_. 0, le_base = asc ''https://www.kaolach.com/s'', le_target = []\<rparr>"

definition demo_links :: link_state where
  "demo_links = \<lparr>short_link_domains = [], short_link_logs = [], token_cache = Map.empty, log_cache = Map.empty,
     share_cache = Map.empty, domid_cache = Map.empty, map_cache = None, drawn = 0\<rparr>"

lemma demo_link_made:
  "fst (generate_short_link demo_link_env 7 (asc ''https://a.co'') (asc ''klsms.com'') None demo_links) =
     Inr (replicate 8 48, asc ''klsms.com/00000000'')"
  by code_simp

theorem short_link_stable_witness:
  "\<exists>s2. fst (generate_short_link demo_link_env 7 (asc ''https://a.co'') (asc ''k.co/s/'') None s2) =
            Inr (replicate 8 48, py_rstrip_chars [47] (asc ''k.co/s/'') @ 47 # replicate 8 48)
        \<and> log_cache s2 = Map.empty"
proof -
  obtain s1 where made: "generate_short_link demo_link_env 7 (asc ''https://a.co'') (asc ''klsms.com'') None demo_links
      = (Inr (replicate 8 48, asc ''klsms.com/00000000''), s1)"
    using demo_link_made by (metis prod.collapse)
  let ?s2 = "s1\<lparr>token_cache := Map.empty, log_cache := Map.empty, share_cache := Map.empty,
      domid_cache := Map.empty, map_cache := None\<rparr>"
  have "link_step s1 None ?s2" by (rule link_step.forget) simp_all
  then have "link_run s1 ([] @ [None]) ?s2" by (blast intro: link_run.intros)
  moreover have "links_ok demo_links" "own_rows demo_links 7 = []" "asc ''https://a.co'' \<noteq> []"
    by (simp_all add: demo_links_def links_ok_def tokens_of_def own_rows_def asc_def)
  ultimately have "fst (generate_short_link demo_link_env 7 (asc ''https://a.co'') (asc ''k.co/s/'') None ?s2) =
      Inr (replicate 8 48, py_rstrip_chars [47] (asc ''k.co/s/'') @ 47 # replicate 8 48)"
    using short_link_stable [OF _ _ made] by fastforce
  then show ?thesis by (intro exI [of _ ?s2]) simp
qed

definition demo_link_message :: "pystr \<Rightarrow> pystr" where
  "demo_link_message placeholder = replicate 53 20013 @ placeholder"

definition underbilled :: "pystr \<Rightarrow> bool" where
  "underbilled placeholder =
     (case replace_track_url_in_message demo_link_env 7 (demo_link_message placeholder) demo_links of
        (Inr sent, _) \<Rightarrow> count_sms_parts (demo_link_message placeholder) = 1 \<and> count_sms_parts sent = 2
      | _ \<Rightarrow> False)"

text \<open>A message with a short link is billed for less than is sent: billing counts a token of seven
  characters, a token has eight, and without a base in the placeholder billing counts the host
  \<open>klsms.com\<close> where the configured base is sent. Here one segment is billed and two are sent.\<close>

theorem short_link_underbilled:
  "underbilled (asc ''{{TRACK_URL=a.co|klsms.com}}'') \<and> underbilled (asc ''{{TRACK_URL=a.co}}'')"
  by code_simp

end
