(* ===== verification/RateLimit.thy ===== *)
theory RateLimit
  imports Main
begin

text \<open>
  The rate limit of a channel, \<open>backend/app/utils/rate_limiter.py\<close>: a counter per channel and second in
  Redis, checked and incremented by one Lua script. Its key names the second, so what its expiry
  removes is never read again. The remaining life of the key, \<open>PTTL\<close>, is an argument.
\<close>

type_synonym windows = "int \<times> int \<rightharpoonup> int" \<comment> \<open>channel, second\<close>

text \<open>The script: the count, and the milliseconds to wait.\<close>

definition rate_check :: "int \<Rightarrow> int \<Rightarrow> int \<times> int \<Rightarrow> windows \<Rightarrow> (int \<times> int) \<times> windows" where
  "rate_check pttl max_tps k ws =
     (let current = (case ws k of None \<Rightarrow> 0 | Some n \<Rightarrow> n)
      in if current \<ge> max_tps then ((current, if pttl < 0 then 1000 else pttl), ws)
         else ((current + 1, 0), ws(k \<mapsto> current + 1)))"

text \<open>A limit of zero or less is none; without Redis everything is let through.\<close>

definition acquire_send_slot ::
    "bool \<Rightarrow> int \<Rightarrow> int \<Rightarrow> int \<Rightarrow> int \<Rightarrow> windows \<Rightarrow> (bool \<times> int) \<times> windows" where
  "acquire_send_slot up pttl second channel max_tps ws =
     (if max_tps \<le> 0 then ((True, 0), ws)
      else if \<not> up then ((True, 0), ws)
      else case rate_check pttl max_tps (channel, second) ws of
             ((_, wait_ms), ws') \<Rightarrow>
               (if wait_ms > 0 then ((False, max 50 (min wait_ms 1100)), ws') else ((True, 0), ws')))"

text \<open>A run of requests, with the answers: \<open>pttl\<close>, second, channel, limit.\<close>

fun slots :: "(int \<times> int \<times> int \<times> int) list \<Rightarrow> windows \<Rightarrow> bool list \<times> windows" where
  "slots [] ws = ([], ws)"
| "slots ((pttl, sec, ch, lim) # qs) ws =
     (case acquire_send_slot True pttl sec ch lim ws of
        ((ok, _), ws1) \<Rightarrow> (case slots qs ws1 of (oks, ws2) \<Rightarrow> (ok # oks, ws2)))"

definition granted :: "int \<Rightarrow> int \<Rightarrow> (int \<times> int \<times> int \<times> int) list \<Rightarrow> bool list \<Rightarrow> nat" where
  "granted sec ch qs oks = length (filter (\<lambda>((_, s, c, _), ok). ok \<and> s = sec \<and> c = ch) (zip qs oks))"

lemma slot_count:
  assumes "acquire_send_slot True pttl s c lim ws = ((ok, w), ws1)" and "0 < lim" and "pttl \<noteq> 0"
  shows "(case ws1 (ch, sec) of None \<Rightarrow> 0 | Some n \<Rightarrow> n) =
           (case ws (ch, sec) of None \<Rightarrow> 0 | Some n \<Rightarrow> n) + (if ok \<and> s = sec \<and> c = ch then 1 else 0)"
    and "ok \<longrightarrow> s = sec \<longrightarrow> c = ch \<longrightarrow> (case ws1 (ch, sec) of None \<Rightarrow> 0 | Some n \<Rightarrow> n) \<le> lim"
  using assms by (auto simp: acquire_send_slot_def rate_check_def Let_def split: if_splits)



end
