(* ===== verification/Sender.thy ===== *)
theory Sender
  imports SendAdapters License ShortLink RateLimit Quiet
begin

text \<open>
  The task that sends a message, \<open>send_sms_task\<close> and \<open>_send_sms_async\<close> of
  \<open>backend/app/workers/sms_worker.py\<close>, with the payload for the SMPP gateway
  (\<open>utils/smpp_payload.py\<close>) and the hand-over to the webhook queue (\<open>workers/webhook_worker.py\<close>). The
  task commits the status \<open>sent\<close> before it calls the upstream, so it is split there: \<open>prepare\<close>
  is everything up to that commit, \<open>transmit\<close> the rest; a worker that dies in between leaves what
  \<open>prepare\<close> left. A change of the loaded row that is not committed yet is a function applied with the
  next commit. Numbers on the blacklist are those of \<open>data_numbers\<close> with that status. Queued tasks
  and calls to upstreams are recorded in order.
\<close>

section \<open>State\<close>

record smpp_payload =
  sp_log_id :: int
  sp_message_id :: pystr
  sp_phone_number :: pystr
  sp_message :: pystr
  sp_channel_id :: int
  sp_batch_status :: "batch_status option"
  sp_record_status :: sms_status
  sp_batch_id :: int
  sp_sender_id :: pystr

datatype call_body = HttpBody pystr http_payload | RcsBody rcs_payload

record upstream_call =
  uc_message_id :: pystr
  uc_body :: call_body
  uc_accepted :: bool

type_synonym credentials = "(pystr option \<times> pystr option) option"

datatype send_task =
    SmppGatewayTask smpp_payload credentials
  | VirtualDlrTask pystr int rat \<comment> \<open>message, channel, countdown\<close>
  | SendWebhook int pystr sms_status

record send_sys =
  sd_world :: world
  sd_blacklist :: "pystr list"
  sd_links :: link_state
  sd_license :: license_cache
  sd_windows :: windows
  sd_hook_cache :: "int list \<times> int"
  sd_calls :: "upstream_call list"
  sd_tasks :: "send_task list"

datatype fail_reason =
    LicenseRefused license_state | BatchCancelled | Blacklisted | NoChannel | SendRefused send_error
  | VirtualFailed | PayloadMissing | RepublishFailed | TaskFailed exn | RetriesExceeded

record send_env =
  sv_license :: license_env
  sv_mono :: int
  sv_links :: link_env
  sv_draw :: rat
  sv_progress :: nat
  sv_lib :: send_lib
  sv_rcs_post :: "rcs_payload \<Rightarrow> rcs_answer"
  sv_redis :: bool
  sv_pttl :: int
  sv_uuid :: pystr
  sv_unit :: rat
  sv_broker :: bool
  sv_terminal_only :: bool
  sv_say :: "fail_reason \<Rightarrow> pystr"

datatype send_result =
    MessageNotFound | LicenseBlocked | SkippedCancelled | SkippedPaused | SkippedDone sms_status
  | BlacklistHit | NoAvailableChannel | RerouteSmpp "smpp_payload option" | RateLimited rat
  | SendDone bool

definition upd_row :: "int \<Rightarrow> (sms_log \<Rightarrow> sms_log) \<Rightarrow> send_sys \<Rightarrow> send_sys" where
  "upd_row i f s = s\<lparr>sd_world := set_log i f (sd_world s)\<rparr>"

definition fail_row :: "pystr \<Rightarrow> sms_log \<Rightarrow> sms_log" where
  "fail_row err r = r\<lparr>log_status := Failed, log_error_message := Some err\<rparr>"

definition refresh :: "send_env \<Rightarrow> int option \<Rightarrow> send_sys \<Rightarrow> bool \<times> send_sys" where
  "refresh env b s =
     (case truthy_id b of
        None \<Rightarrow> (False, s)
      | Some i \<Rightarrow> (case update_batch_progress (sv_progress env) (sd_world s) i of
                     (changed, w) \<Rightarrow> (changed, s\<lparr>sd_world := w\<rparr>)))"

section \<open>Queued tasks\<close>

text \<open>\<open>smpp_payload_public_dict\<close>\<close>

definition smpp_payload_of :: "sms_log \<Rightarrow> batch_status option \<Rightarrow> smpp_payload" where
  "smpp_payload_of r bs =
     \<lparr>sp_log_id = log_id r, sp_message_id = message_id r, sp_phone_number = phone_number r,
      sp_message = sanitize_sms_text_for_wire (or_empty (message r)),
      sp_channel_id = (case log_channel_id r of None \<Rightarrow> 0 | Some c \<Rightarrow> c), sp_batch_status = bs,
      sp_record_status = log_status r, sp_batch_id = (case log_batch_id r of None \<Rightarrow> 0 | Some b \<Rightarrow> b),
      sp_sender_id = or_empty (log_sender_id r)\<rparr>"

text \<open>\<open>trigger_webhook\<close> with the account at hand: final statuses only unless configured otherwise, and
  only for accounts with a webhook, by a list kept for a minute.\<close>

definition worth_sending :: "bool \<Rightarrow> sms_status \<Rightarrow> bool" where
  "worth_sending terminal_only st \<longleftrightarrow> \<not> terminal_only \<or> st \<notin> {Sent, Queued, Pending}"

definition has_webhook :: "send_env \<Rightarrow> int \<Rightarrow> send_sys \<Rightarrow> bool \<times> send_sys" where
  "has_webhook env i s =
     (let s1 = (if sv_mono env \<ge> snd (sd_hook_cache s)
                then s\<lparr>sd_hook_cache := (webhook_ids (sd_world s), sv_mono env + 60)\<rparr> else s)
      in (i \<in> set (fst (sd_hook_cache s1)), s1))"

definition trigger_webhook :: "send_env \<Rightarrow> sms_log \<Rightarrow> sms_status \<Rightarrow> send_sys \<Rightarrow> send_sys" where
  "trigger_webhook env r st s =
     (if \<not> worth_sending (sv_terminal_only env) st \<or> log_account_id r = 0 then s
      else case has_webhook env (log_account_id r) s of
             (has, s1) \<Rightarrow>
               (if has \<and> sv_broker env
                then s1\<lparr>sd_tasks := sd_tasks s1 @ [SendWebhook (log_account_id r) (message_id r) st]\<rparr> else s1))"

section \<open>Up to the commit of \<open>sent\<close>\<close>

text \<open>The licence; an exception in the check lets the message through.\<close>

definition licence_refuses :: "send_env \<Rightarrow> send_sys \<Rightarrow> license_state option \<times> send_sys" where
  "licence_refuses env s =
     (case get_license_status (sv_license env) (sv_mono env) (sd_license s) of
        (Inl _, c) \<Rightarrow> (None, s\<lparr>sd_license := c\<rparr>)
      | (Inr st, c) \<Rightarrow> (if valid_for_send st then None else Some (ls_state st), s\<lparr>sd_license := c\<rparr>))"

definition batch_status_of :: "send_sys \<Rightarrow> sms_log \<Rightarrow> batch_status option" where
  "batch_status_of s r =
     (case truthy_id (log_batch_id r) of
        None \<Rightarrow> None
      | Some b \<Rightarrow> map_option batch_status (batch_by_id (sd_world s) b))"

definition waiting :: "sms_log \<Rightarrow> bool" where
  "waiting r \<longleftrightarrow> log_status r \<in> {Pending, Queued}"

text \<open>What keeps a message from being sent, before a channel is looked for.\<close>

definition hold_back :: "send_env \<Rightarrow> sms_log \<Rightarrow> send_sys \<Rightarrow> send_result option \<times> send_sys" where
  "hold_back env r s =
     (case licence_refuses env s of
        (Some st, s1) \<Rightarrow>
          (Some LicenseBlocked,
           snd (refresh env (log_batch_id r)
                  (upd_row (log_id r) (fail_row (sv_say env (LicenseRefused st))) s1)))
      | (None, s1) \<Rightarrow>
          (if batch_status_of s1 r = Some BCancelled \<and> waiting r
           then (Some SkippedCancelled,
                 snd (refresh env (log_batch_id r) (upd_row (log_id r) (fail_row (sv_say env BatchCancelled)) s1)))
           else if batch_status_of s1 r = Some BPaused \<and> waiting r then (Some SkippedPaused, s1)
           else if \<not> waiting r then (Some (SkippedDone (log_status r)), s1)
           else if phone_number r \<in> set (sd_blacklist s1)
           then (Some BlacklistHit,
                 snd (refresh env (log_batch_id r) (upd_row (log_id r) (fail_row (sv_say env Blacklisted)) s1)))
           else (None, s1)))"

text \<open>The channel of the message, or one chosen for its country; the choice is written with the next
  commit. An exception of the router counts as no channel.\<close>

definition find_channel :: "send_env \<Rightarrow> sms_log \<Rightarrow> send_sys \<Rightarrow> channel option \<times> (sms_log \<Rightarrow> sms_log) \<times> send_sys" where
  "find_channel env r s =
     (case (case truthy_id (log_channel_id r) of None \<Rightarrow> None | Some c \<Rightarrow> channel_by_id (sd_world s) c) of
        Some ch \<Rightarrow> (Some ch, id, s)
      | None \<Rightarrow>
          (let country = (if or_empty (log_country_code r) = [] then asc ''PH'' else or_empty (log_country_code r))
           in case select_channel (sv_draw env) (sd_world s) country None ByPriority None of
                (Inl _, w) \<Rightarrow> (None, id, s\<lparr>sd_world := w\<rparr>)
              | (Inr ch, w) \<Rightarrow> (Some ch, (\<lambda>x. x\<lparr>log_channel_id := Some (ch_id ch)\<rparr>), s\<lparr>sd_world := w\<rparr>)))"

text \<open>The short link is put in and committed; where that fails the text goes out as it is.\<close>

definition put_link ::
    "send_env \<Rightarrow> sms_log \<Rightarrow> (sms_log \<Rightarrow> sms_log) \<Rightarrow> send_sys \<Rightarrow> (sms_log \<Rightarrow> sms_log) \<times> send_sys" where
  "put_link env r asg s =
     (if \<not> has_track_url_placeholder (message r) then (asg, s)
      else case replace_track_url_in_message (sv_links env) (log_id r) (or_empty (message r)) (sd_links s) of
             (Inl _, l) \<Rightarrow> (asg, s\<lparr>sd_links := l\<rparr>)
           | (Inr new, l) \<Rightarrow>
               (let f = (\<lambda>x. (asg x)\<lparr>message := Some new\<rparr>) in (f, upd_row (log_id r) f (s\<lparr>sd_links := l\<rparr>))))"

definition reroute :: "send_env \<Rightarrow> sms_log \<Rightarrow> (sms_log \<Rightarrow> sms_log) \<Rightarrow> send_sys \<Rightarrow> send_result \<times> send_sys" where
  "reroute env r asg s =
     (let f = (if log_status r = Pending then (\<lambda>x. (asg x)\<lparr>log_status := Queued\<rparr>) else asg);
          s1 = (if log_status r = Pending then upd_row (log_id r) f s else s);
          (changed, s2) = refresh env (log_batch_id r) s1;
          s3 = (if changed then upd_row (log_id r) asg s2 else s2)
      in (RerouteSmpp (Some (smpp_payload_of (f r) (batch_status_of s3 r))), s3))"

definition take_slot :: "send_env \<Rightarrow> channel \<Rightarrow> send_sys \<Rightarrow> (bool \<times> int) \<times> send_sys" where
  "take_slot env ch s =
     (if ch_protocol ch = VIRTUAL then ((True, 0), s)
      else let limit = (case truthy_id (max_tps ch) of None \<Rightarrow> 100 | Some n \<Rightarrow> n)
           in case acquire_send_slot (sv_redis env) (sv_pttl env) (now (sd_world s)) (ch_id ch) limit (sd_windows s) of
                (ans, ws) \<Rightarrow> (ans, s\<lparr>sd_windows := ws\<rparr>))"

text \<open>\<open>Inr\<close> is a message that is now marked as sent and has to be handed to its channel.\<close>

definition dispatch_message ::
    "send_env \<Rightarrow> bool \<Rightarrow> sms_log \<Rightarrow> channel \<Rightarrow> (sms_log \<Rightarrow> sms_log) \<Rightarrow> send_sys
     \<Rightarrow> (send_result outcome + sms_log \<times> channel) \<times> send_sys" where
  "dispatch_message env smpp_queue r ch asg s =
     (if ch_protocol ch = SMPP \<and> \<not> smpp_queue then map_prod (Inl \<circ> Inr) id (reroute env r asg s)
      else case take_slot env ch s of
             ((ok, wait_ms), s1) \<Rightarrow>
               (if \<not> ok then (Inl (Inr (RateLimited (of_int wait_ms / 1000))), s1)
                else let f = (\<lambda>x. (asg x)\<lparr>log_status := Sent, sent_time := Some (now (sd_world s1))\<rparr>)
                     in (Inr (f r, ch), upd_row (log_id r) f s1)))"

definition prepare ::
    "send_env \<Rightarrow> bool \<Rightarrow> pystr \<Rightarrow> send_sys \<Rightarrow> (send_result outcome + sms_log \<times> channel) \<times> send_sys" where
  "prepare env smpp_queue mid s =
     (case one_or_none (filter (\<lambda>r. message_id r = mid) (sms_logs (sd_world s))) of
        ManyRows \<Rightarrow> (Inl (Inl MultipleResultsFound), s)
      | NoRow \<Rightarrow> (Inl (Inr MessageNotFound), s)
      | OneRow r \<Rightarrow>
          (case hold_back env r s of
             (Some res, s1) \<Rightarrow> (Inl (Inr res), s1)
           | (None, s1) \<Rightarrow>
               (case find_channel env r s1 of
                  (None, _, s2) \<Rightarrow>
                    (Inl (Inr NoAvailableChannel), upd_row (log_id r) (fail_row (sv_say env NoChannel)) s2)
                | (Some ch, asg, s2) \<Rightarrow>
                    (case put_link env r asg s2 of (asg', s3) \<Rightarrow> dispatch_message env smpp_queue r ch asg' s3))))"

section \<open>Handing the message to the channel\<close>

text \<open>\<open>_send_via_virtual\<close>: the delays have to be numbers, and the task has to be queued.\<close>

definition num_of :: "json \<Rightarrow> rat option" where
  "num_of j = (case j of JNum q \<Rightarrow> Some q | JBool b \<Rightarrow> Some (if b then 1 else 0) | _ \<Rightarrow> None)"

definition virtual_delay :: "rat \<Rightarrow> (pystr \<times> json) list \<Rightarrow> rat option" where
  "virtual_delay unit_draw cfg =
     (case (num_of (json_get (asc ''dlr_delay_min'') cfg), num_of (json_get (asc ''dlr_delay_max'') cfg)) of
        (Some lo, Some hi) \<Rightarrow>
          (let a = max 1 lo; b = max a hi in Some (a + (b - a) * unit_draw))
      | _ \<Rightarrow> None)"

definition send_via_virtual :: "send_env \<Rightarrow> sms_log \<Rightarrow> channel \<Rightarrow> send_sys \<Rightarrow> bool \<times> send_sys" where
  "send_via_virtual env r ch s =
     (case (case get_virtual_config ch of Inl _ \<Rightarrow> None | Inr cfg \<Rightarrow> virtual_delay (sv_unit env) cfg) of
        None \<Rightarrow> (False, s)
      | Some delay \<Rightarrow>
          (if sv_broker env
           then (True, s\<lparr>sd_tasks := sd_tasks s @ [VirtualDlrTask (message_id r) (ch_id ch) delay]\<rparr>)
           else (False, s)))"

definition virtual_id :: "pystr \<Rightarrow> pystr" where
  "virtual_id uuid = asc ''VIRT-'' @ take 12 uuid"

definition record_call :: "sms_log \<Rightarrow> call_body option \<Rightarrow> via_result \<Rightarrow> send_sys \<Rightarrow> send_sys" where
  "record_call r body res s =
     (case body of
        None \<Rightarrow> s
      | Some b \<Rightarrow>
          s\<lparr>sd_calls := sd_calls s @
              [\<lparr>uc_message_id = message_id r, uc_body = b,
                uc_accepted = (case res of ViaAccepted _ \<Rightarrow> True | _ \<Rightarrow> False)\<rparr>]\<rparr>)"

definition set_upstream :: "pystr option option \<Rightarrow> sms_log \<Rightarrow> sms_log" where
  "set_upstream i r = (case i of None \<Rightarrow> r | Some u \<Rightarrow> r\<lparr>upstream_message_id := u\<rparr>)"

text \<open>The end of the task for the three results: committed and reported, given back to the queue, failed.\<close>

definition conclude :: "send_env \<Rightarrow> sms_log \<Rightarrow> via_result \<Rightarrow> send_sys \<Rightarrow> send_result \<times> send_sys" where
  "conclude env r res s =
     (case res of
        ViaAccepted i \<Rightarrow>
          (SendDone True,
           snd (refresh env (log_batch_id r) (trigger_webhook env r Sent (upd_row (log_id r) (set_upstream i) s))))
      | ViaRetry e \<Rightarrow>
          (RateLimited 10,
           upd_row (log_id r)
             (\<lambda>x. x\<lparr>log_status := Queued, log_error_message := Some (sv_say env (SendRefused e))\<rparr>) s)
      | ViaFailed e \<Rightarrow>
          (SendDone False,
           snd (refresh env (log_batch_id r)
             (upd_row (log_id r) (fail_row (sv_say env (SendRefused e))) (trigger_webhook env r Failed s)))))"

definition transmit :: "send_env \<Rightarrow> credentials \<Rightarrow> sms_log \<Rightarrow> channel \<Rightarrow> send_sys \<Rightarrow> send_result outcome \<times> send_sys" where
  "transmit env creds r ch s =
     (case ch_protocol ch of
        SMPP \<Rightarrow> (Inr (RerouteSmpp None), s)
      | VIRTUAL \<Rightarrow>
          (case send_via_virtual env r ch s of
             (True, s1) \<Rightarrow>
               map_prod Inr id (conclude env r (ViaAccepted (Some (Some (virtual_id (sv_uuid env))))) s1)
           | (False, s1) \<Rightarrow>
               (Inr (SendDone False),
                snd (refresh env (log_batch_id r)
                  (upd_row (log_id r)
                    (\<lambda>x. fail_row (case log_error_message r of
                                      Some m \<Rightarrow> if m = [] then sv_say env VirtualFailed else m
                                    | None \<Rightarrow> sv_say env VirtualFailed)
                           (x\<lparr>upstream_message_id := Some (virtual_id (sv_uuid env))\<rparr>))
                    (trigger_webhook env r Failed s1)))))
      | HTTP \<Rightarrow>
          (case is_rcs ch of
             Inl e \<Rightarrow> (Inl e, s)
           | Inr True \<Rightarrow>
               (case send_via_rcs (sb_show (sv_lib env)) (sv_rcs_post env) r ch of
                  (p, Inl e) \<Rightarrow> (Inl e, s)
                | (p, Inr res) \<Rightarrow> map_prod Inr id (conclude env r res (record_call r (map_option RcsBody p) res s)))
           | Inr False \<Rightarrow>
               (case send_via_http (sv_lib env) r ch creds of
                  (p, res) \<Rightarrow>
                    map_prod Inr id
                      (conclude env r res
                        (record_call r (map_option (HttpBody (or_empty (api_url ch))) p) res s)))))"

definition send_sms_async ::
    "send_env \<Rightarrow> bool \<Rightarrow> pystr \<Rightarrow> credentials \<Rightarrow> send_sys \<Rightarrow> send_result outcome \<times> send_sys" where
  "send_sms_async env smpp_queue mid creds s =
     (case prepare env smpp_queue mid s of
        (Inl res, s1) \<Rightarrow> (res, s1)
      | (Inr (r, ch), s1) \<Rightarrow> transmit env creds r ch s1)"

section \<open>The task\<close>

definition mark_task_failed :: "pystr \<Rightarrow> pystr \<Rightarrow> send_sys \<Rightarrow> send_sys" where
  "mark_task_failed mid err s =
     (case one_or_none (filter (\<lambda>r. message_id r = mid) (sms_logs (sd_world s))) of
        OneRow r \<Rightarrow> upd_row (log_id r) (fail_row err) s
      | _ \<Rightarrow> s)"

datatype task_argument = MessageId pystr | GatewayPayload

datatype task_outcome = TaskDone send_result | TaskIgnored | TaskRerouted | TaskError | TaskRetry rat

definition MAX_TASK_RETRIES :: nat where "MAX_TASK_RETRIES = 3"
definition MAX_RATE_RETRIES :: nat where "MAX_RATE_RETRIES = 200"

text \<open>\<open>self.retry\<close> raises \<open>Retry\<close> while the limit allows one more execution, and otherwise an exception
  that the handler at the end takes like any other.\<close>

definition send_sms_task ::
    "send_env \<Rightarrow> bool \<Rightarrow> nat \<Rightarrow> task_argument \<Rightarrow> credentials \<Rightarrow> send_sys \<Rightarrow> task_outcome \<times> send_sys" where
  "send_sms_task env smpp_queue retries arg creds s =
     (case arg of
        GatewayPayload \<Rightarrow> (TaskIgnored, s)
      | MessageId mid \<Rightarrow>
          (case send_sms_async env smpp_queue mid creds s of
             (Inl e, s1) \<Rightarrow>
               (if retries < MAX_TASK_RETRIES then (TaskRetry 60, s1)
                else (TaskError, mark_task_failed mid (sv_say env (TaskFailed e)) s1))
           | (Inr (RerouteSmpp None), s1) \<Rightarrow> (TaskError, mark_task_failed mid (sv_say env PayloadMissing) s1)
           | (Inr (RerouteSmpp (Some p)), s1) \<Rightarrow>
               (if sv_broker env
                then (TaskRerouted, s1\<lparr>sd_tasks := sd_tasks s1 @ [SmppGatewayTask p creds]\<rparr>)
                else (TaskError, mark_task_failed mid (sv_say env RepublishFailed) s1))
           | (Inr (RateLimited wait), s1) \<Rightarrow>
               (if retries < MAX_RATE_RETRIES then (TaskRetry wait, s1)
                else (TaskError, mark_task_failed mid (sv_say env RetriesExceeded) s1))
           | (Inr MessageNotFound, s1) \<Rightarrow>
               (if retries < MAX_TASK_RETRIES then (TaskRetry (of_nat (2 + 3 * retries)), s1)
                else (TaskDone MessageNotFound, s1))
           | (Inr res, s1) \<Rightarrow> (TaskDone res, s1)))"

section \<open>What sending leaves alone\<close>

lemma upd_row_world [simp]: "sd_world (upd_row i f s) = set_log i f (sd_world s)"
  by (simp add: upd_row_def)

lemma upd_row_frame [simp]:
  "sd_calls (upd_row i f s) = sd_calls s" "sd_blacklist (upd_row i f s) = sd_blacklist s"
  by (simp_all add: upd_row_def)

lemma trigger_webhook_frame [simp]:
  "sd_world (trigger_webhook env r st s) = sd_world s" "sd_calls (trigger_webhook env r st s) = sd_calls s"
  by (simp_all add: trigger_webhook_def has_webhook_def Let_def)

text \<open>The messages that still wait to be sent; \<open>quiet\<close> steps that add none of them.\<close>

definition waits :: "world \<Rightarrow> pystr set" where
  "waits w = message_id ` {r \<in> set (sms_logs w). waiting r}"

definition names :: "world \<Rightarrow> (int \<times> pystr) list" where
  "names w = map (\<lambda>r. (log_id r, message_id r)) (sms_logs w)"

definition settles :: "pystr set \<Rightarrow> send_sys \<Rightarrow> send_sys \<Rightarrow> bool" where
  "settles ms s s' \<longleftrightarrow> quiet (sd_world s) (sd_world s') \<and> names (sd_world s') = names (sd_world s)
     \<and> waits (sd_world s') \<subseteq> ms \<union> waits (sd_world s)"

lemma settles_refl [simp]: "settles ms s s"
  by (simp add: settles_def)

lemma settles_trans: "settles ms s s1 \<Longrightarrow> settles ms s1 s2 \<Longrightarrow> settles ms s s2"
  using quiet_trans by (auto simp: settles_def)

lemma settles_mono: "settles ms s s' \<Longrightarrow> ms \<subseteq> ms' \<Longrightarrow> settles ms' s s'"
  by (auto simp: settles_def)

lemma settles_world: "sd_world s' = sd_world s \<Longrightarrow> settles ms s s'"
  by (simp add: settles_def)

definition keeps_view :: "(sms_log \<Rightarrow> sms_log) \<Rightarrow> bool" where
  "keeps_view f \<longleftrightarrow> (\<forall>x. log_id (f x) = log_id x \<and> message_id (f x) = message_id x
     \<and> log_account_id (f x) = log_account_id x \<and> refunded_at (f x) = refunded_at x
     \<and> refunded_amount (f x) = refunded_amount x)"

lemma upd_row_settles:
  assumes "keeps_view f" and "\<And>x. x \<in> set (sms_logs (sd_world s)) \<Longrightarrow> log_id x = i \<Longrightarrow> waiting (f x) \<Longrightarrow>
      waiting x \<or> message_id x \<in> ms"
  shows "settles ms s (upd_row i f s)"
proof -
  have "quiet (sd_world s) (set_log i f (sd_world s))"
    using assms(1) by (intro set_log_quiet) (simp add: keeps_view_def)
  moreover have "waits (set_log i f (sd_world s)) \<subseteq> ms \<union> waits (sd_world s)"
    using assms by (force simp: waits_def set_log_def upd_where_def keeps_view_def split: if_splits)
  moreover have "names (set_log i f (sd_world s)) = names (sd_world s)"
    using assms(1) by (simp add: names_def set_log_def upd_where_def keeps_view_def)
  ultimately show ?thesis by (simp add: settles_def)
qed

lemma refresh_settles: "settles ms s (snd (refresh env b s))"
proof (cases "truthy_id b")
  case (Some i)
  have "waits (save_batch i f w) = waits w" "names (save_batch i f w) = names w" for f w
    by (simp_all add: waits_def names_def save_batch_def)
  moreover have "waits (expire_pending n i w) \<subseteq> waits w" "names (expire_pending n i w) = names w" for n w
    by (auto simp: waits_def names_def expire_pending_def Let_def upd_where_def waiting_def)
  ultimately have "waits (snd (update_batch_progress n w i)) \<subseteq> waits w
      \<and> names (snd (update_batch_progress n w i)) = names w" for n w
    by (cases "i = 0"; cases "batch_by_id w i") (simp_all add: refresh_cases update_batch_progress_def Let_def)
  then have "settles ms s (s\<lparr>sd_world := snd (update_batch_progress (sv_progress env) (sd_world s) i)\<rparr>)"
    using refresh_quiet by (auto simp: settles_def)
  then show ?thesis using Some by (simp add: refresh_def split: prod.split) (metis snd_conv)
qed (simp add: refresh_def)

lemma refresh_calls [simp]: "sd_calls (snd (refresh env b s)) = sd_calls s"
  by (simp add: refresh_def split: option.split prod.split)

lemma keeps_view_rows [simp]:
  "keeps_view id" "keeps_view (fail_row err)" "keeps_view (set_upstream u)"
  by (simp_all add: keeps_view_def fail_row_def set_upstream_def split: option.split)

lemma fail_row_not_waiting [simp]: "\<not> waiting (fail_row err r)"
  by (simp add: waiting_def fail_row_def)

text \<open>Everything before the commit of \<open>sent\<close> calls no upstream; a message that is handed over was the only
  one of its id, waited, and does not any more.\<close>

lemma licence_frame [simp]:
  "sd_world (snd (licence_refuses env s)) = sd_world s" "sd_calls (snd (licence_refuses env s)) = sd_calls s"
  by (simp_all add: licence_refuses_def split: prod.split sum.split)

lemma hold_back_settles:
  assumes "hold_back env r s = (res, s')"
  shows "settles ms s s' \<and> sd_calls s' = sd_calls s
    \<and> (res = None \<longrightarrow> waiting r \<and> sd_world s' = sd_world s)"
proof -
  obtain l s1 where l: "licence_refuses env s = (l, s1)" by fastforce
  then have s1: "sd_world s1 = sd_world s" "sd_calls s1 = sd_calls s"
    using licence_frame [of env s] by simp_all
  have fail: "settles ms s (snd (refresh env b (upd_row i (fail_row err) s1)))" for b i err
    using settles_trans [OF settles_world settles_trans [OF upd_row_settles refresh_settles], of s1 s "fail_row err"] s1
    by simp
  show ?thesis
    using assms l s1 fail settles_world [of s1 s]
    by (auto simp: hold_back_def split: option.splits if_splits)
qed

lemma find_channel_settles:
  assumes "find_channel env r s = (ch, asg, s')"
  shows "settles ms s s' \<and> sd_calls s' = sd_calls s \<and> sms_logs (sd_world s') = sms_logs (sd_world s)
    \<and> keeps_view asg \<and> (\<forall>x. log_status (asg x) = log_status x)"
proof -
  have "quiet (sd_world s) w \<and> waits w = waits (sd_world s) \<and> names w = names (sd_world s)
      \<and> sms_logs w = sms_logs (sd_world s)"
    if "select_channel d (sd_world s) cc p st a = (c, w)" for d cc p st a c w
    using select_channel_same [OF that] same_tables_quiet [of "sd_world s" w]
    by (simp add: same_tables_def waits_def names_def)
  then show ?thesis using assms
    by (auto simp: find_channel_def settles_def Let_def keeps_view_def split: option.splits sum.splits prod.splits)
qed

lemma put_link_settles:
  assumes "put_link env r asg s = (f, s')" and "keeps_view asg" and "\<forall>x. log_status (asg x) = log_status x"
  shows "settles ms s s' \<and> sd_calls s' = sd_calls s \<and> keeps_view f \<and> (\<forall>x. log_status (f x) = log_status x)"
proof -
  have "settles ms s (upd_row (log_id r) (\<lambda>x. (asg x)\<lparr>message := Some new\<rparr>) (s\<lparr>sd_links := l\<rparr>))" for new l
    by (rule settles_trans [OF settles_world upd_row_settles])
      (use assms(2,3) in \<open>simp_all add: keeps_view_def waiting_def\<close>)
  moreover have "settles ms s (s\<lparr>sd_links := l\<rparr>)" for l by (simp add: settles_world)
  ultimately show ?thesis using assms
    by (auto simp: put_link_def Let_def keeps_view_def split: if_splits sum.splits prod.splits)
qed

text \<open>\<open>r\<close> is the one row of its id and of its message id.\<close>

definition owns :: "world \<Rightarrow> sms_log \<Rightarrow> bool" where
  "owns w r \<longleftrightarrow> (\<forall>(i, m) \<in> set (names w). i = log_id r \<longleftrightarrow> m = message_id r)"

lemma owns_settles: "settles ms s s' \<Longrightarrow> owns (sd_world s') r = owns (sd_world s) r"
  by (simp add: owns_def settles_def)

lemma owns_row: "owns w r \<Longrightarrow> x \<in> set (sms_logs w) \<Longrightarrow> log_id x = log_id r \<longleftrightarrow> message_id x = message_id r"
  by (auto simp: owns_def names_def)

lemma owns_only:
  assumes "wf_world w" and "filter (\<lambda>x. message_id x = message_id r) (sms_logs w) = [r]"
  shows "owns w r"
proof -
  have "distinct (map log_id (sms_logs w))" using assms(1) by (simp add: wf_world_def)
  moreover have "x = r" if "x \<in> set (sms_logs w)" "message_id x = message_id r" for x
    using arg_cong [OF assms(2), of set] that by auto
  moreover have "r \<in> set (sms_logs w)" using arg_cong [OF assms(2), of set] by auto
  ultimately show ?thesis by (auto simp: owns_def names_def dest: inj_onD simp: distinct_map)
qed

text \<open>The message may become waiting again by this.\<close>

lemma upd_row_reopens:
  assumes "keeps_view f" and "owns (sd_world s) r"
  shows "settles {message_id r} s (upd_row (log_id r) f s)"
  by (rule upd_row_settles [OF assms(1)]) (use owns_row [OF assms(2)] in simp)

lemma upd_row_closes:
  assumes "keeps_view f" and "owns (sd_world s) r" and "\<And>x. \<not> waiting (f x)"
  shows "message_id r \<notin> waits (sd_world (upd_row (log_id r) f s))"
  using assms owns_row [OF assms(2)]
  by (auto simp: waits_def set_log_def upd_where_def keeps_view_def split: if_splits)

lemma settles_known: "settles {m} s s' \<Longrightarrow> m \<in> waits (sd_world s) \<Longrightarrow> settles {} s s'"
  by (auto simp: settles_def)

lemma reroute_settles:
  assumes "keeps_view asg" and "\<forall>x. log_status (asg x) = log_status x" and "owns (sd_world s) r"
    and "reroute env r asg s = (res, s')"
  shows "settles {message_id r} s s' \<and> sd_calls s' = sd_calls s"
proof -
  let ?f = "\<lambda>x. (asg x)\<lparr>log_status := Queued\<rparr>"
  have kf: "keeps_view ?f" using assms(1) by (simp add: keeps_view_def)
  define s1 where "s1 = (if log_status r = Pending then upd_row (log_id r) ?f s else s)"
  have s1: "settles {message_id r} s s1" "sd_calls s1 = sd_calls s"
    using upd_row_reopens [OF kf assms(3)] by (simp_all add: s1_def)
  obtain ch s2 where r: "refresh env (log_batch_id r) s1 = (ch, s2)" by fastforce
  then have s2: "settles {message_id r} s s2" "sd_calls s2 = sd_calls s"
    using settles_trans [OF s1(1) refresh_settles, of env "log_batch_id r"] s1(2)
      refresh_calls [of env "log_batch_id r" s1] by simp_all
  have "settles {message_id r} s2 (upd_row (log_id r) asg s2)"
    by (rule upd_row_settles [OF assms(1)]) (use assms(2) in \<open>simp add: waiting_def\<close>)
  with s2 have "settles {message_id r} s (upd_row (log_id r) asg s2)" using settles_trans by blast
  moreover have "s' = (if ch then upd_row (log_id r) asg s2 else s2)"
    using assms(4) r unfolding s1_def
    by (cases "log_status r = Pending") (auto simp: reroute_def Let_def)
  ultimately show ?thesis using s2 by simp
qed

lemma take_slot_frame [simp]:
  "sd_world (snd (take_slot env ch s)) = sd_world s" "sd_calls (snd (take_slot env ch s)) = sd_calls s"
  by (simp_all add: take_slot_def Let_def split: prod.split)

lemma settles_wf: "settles ms s s' \<Longrightarrow> wf_world (sd_world s') = wf_world (sd_world s)"
  using quiet_wf by (simp add: settles_def)

lemma dispatch_message_settles:
  assumes "dispatch_message env q r ch asg s = (res, s')"
    and asg: "keeps_view asg" "\<forall>x. log_status (asg x) = log_status x" and own: "owns (sd_world s) r"
  shows "settles {message_id r} s s' \<and> sd_calls s' = sd_calls s
    \<and> (case res of Inl _ \<Rightarrow> True
       | Inr (x, c) \<Rightarrow> message_id x = message_id r \<and> owns (sd_world s') x \<and> message_id r \<notin> waits (sd_world s'))"
proof (cases "ch_protocol ch = SMPP \<and> \<not> q")
  case True
  obtain rr s4 where rr: "reroute env r asg s = (rr, s4)" by fastforce
  from reroute_settles [OF asg own rr] True rr assms(1) show ?thesis by (auto simp: dispatch_message_def)
next
  case False
  obtain ok ms s1 where ts: "take_slot env ch s = ((ok, ms), s1)" by (metis prod.exhaust)
  then have s1: "sd_world s1 = sd_world s" "sd_calls s1 = sd_calls s"
    using take_slot_frame [of env ch s] by simp_all
  let ?f = "\<lambda>x. (asg x)\<lparr>log_status := Sent, sent_time := Some (now (sd_world s1))\<rparr>"
  have kf: "keeps_view ?f" using asg(1) by (simp add: keeps_view_def)
  have own1: "owns (sd_world s1) r" using own s1(1) by simp
  have u: "settles {message_id r} s (upd_row (log_id r) ?f s1)" "settles {message_id r} s s1"
    using settles_trans [OF settles_world upd_row_reopens [OF kf own1], OF s1(1)] settles_world [OF s1(1)]
    by simp_all
  moreover have "message_id r \<notin> waits (sd_world (upd_row (log_id r) ?f s1))"
    using upd_row_closes [OF kf own1] by (simp add: waiting_def)
  moreover have "owns (sd_world (upd_row (log_id r) ?f s1)) (?f r)"
    using owns_settles [OF u(1), of "?f r"] own kf by (simp add: owns_def keeps_view_def)
  moreover have "message_id (?f r) = message_id r" using kf by (simp add: keeps_view_def)
  ultimately show ?thesis
    using False ts s1 assms(1) by (auto simp: dispatch_message_def split: if_splits)
qed

lemma prepare_settles:
  assumes "prepare env q mid s = (res, s')" and wf: "wf_world (sd_world s)"
  shows "settles {} s s' \<and> sd_calls s' = sd_calls s
    \<and> (case res of Inl _ \<Rightarrow> True
       | Inr (r, ch) \<Rightarrow> message_id r = mid \<and> owns (sd_world s') r \<and> mid \<in> waits (sd_world s)
                      \<and> mid \<notin> waits (sd_world s'))"
proof (cases "one_or_none (filter (\<lambda>r. message_id r = mid) (sms_logs (sd_world s)))")
  case NoRow
  then show ?thesis using assms(1) by (auto simp: prepare_def)
next
  case ManyRows
  then show ?thesis using assms(1) by (auto simp: prepare_def)
next
  case (OneRow r)
  then have only: "filter (\<lambda>x. message_id x = mid) (sms_logs (sd_world s)) = [r]" by (simp add: table_simps)
  then have r: "r \<in> set (sms_logs (sd_world s))" "message_id r = mid" by (auto simp: filter_eq_Cons_iff)
  have own: "owns (sd_world s) r" using owns_only [OF wf] only r(2) by simp
  obtain h s1 where h: "hold_back env r s = (h, s1)" by fastforce
  note hs = hold_back_settles [OF h]
  show ?thesis
  proof (cases h)
    case (Some x)
    then show ?thesis using assms(1) OneRow h hs by (auto simp: prepare_def)
  next
    case None
    then have w: "waiting r" "sd_world s1 = sd_world s" using hs by simp_all
    then have mw: "mid \<in> waits (sd_world s)" using r by (auto simp: waits_def)
    obtain ch asg s2 where f: "find_channel env r s1 = (ch, asg, s2)" by (metis prod.exhaust)
    note fs = find_channel_settles [OF f]
    have s2: "settles {} s s2" "sd_calls s2 = sd_calls s"
      using settles_trans [OF conjunct1 conjunct1, OF hs fs] hs fs by simp_all
    show ?thesis
    proof (cases ch)
      case no: None
      have "settles {} s2 (upd_row (log_id r) (fail_row (sv_say env NoChannel)) s2)"
        by (rule upd_row_settles) simp_all
      with no s2 None OneRow h f assms(1) settles_trans show ?thesis by (auto simp: prepare_def)
    next
      case (Some c)
      obtain g s3 where l: "put_link env r asg s2 = (g, s3)" by fastforce
      have ls: "settles {} s2 s3" "sd_calls s3 = sd_calls s2" "keeps_view g" "\<forall>x. log_status (g x) = log_status x"
        using put_link_settles [OF l] fs by auto
      have s3: "settles {} s s3" "sd_calls s3 = sd_calls s" using settles_trans [OF s2(1) ls(1)] ls(2) s2(2) by simp_all
      then have own3: "owns (sd_world s3) r" using own owns_settles by blast
      obtain d s4 where d: "dispatch_message env q r c g s3 = (d, s4)" by fastforce
      note ds = dispatch_message_settles [OF d ls(3,4) own3]
      have "settles {} s s4"
        using settles_known [OF settles_trans [OF settles_mono [OF s3(1)]]] ds mw r(2) by blast
      with ds s3 mw d r(2) Some None OneRow h f l assms(1) show ?thesis
        by (auto simp: prepare_def split: sum.splits)
    qed
  qed
qed

section \<open>A message goes upstream at most once\<close>

lemma fail_settles: "settles {} s (upd_row i (fail_row err) s)"
  by (rule upd_row_settles) simp_all

lemma conclude_settles:
  assumes "conclude env r res s = (x, s')" and own: "owns (sd_world s) r"
  shows "sd_calls s' = sd_calls s
    \<and> settles (case res of ViaRetry _ \<Rightarrow> {message_id r} | _ \<Rightarrow> {}) s s'"
proof (cases res)
  case (ViaAccepted i)
  have "settles {} s (upd_row (log_id r) (set_upstream i) s)"
    by (rule upd_row_settles) (simp_all add: set_upstream_def waiting_def split: option.splits)
  then have "settles {} s (trigger_webhook env r Sent (upd_row (log_id r) (set_upstream i) s))"
    using settles_trans settles_world trigger_webhook_frame(1) by blast
  then have "settles {} s s'" using settles_trans refresh_settles ViaAccepted assms(1)
    by (fastforce simp: conclude_def)
  then show ?thesis using ViaAccepted assms(1) by (auto simp: conclude_def)
next
  case (ViaRetry e)
  have "settles {message_id r} s
      (upd_row (log_id r) (\<lambda>x. x\<lparr>log_status := Queued, log_error_message := Some (sv_say env (SendRefused e))\<rparr>) s)"
    by (rule upd_row_reopens [OF _ own]) (simp add: keeps_view_def)
  then show ?thesis using ViaRetry assms(1) by (auto simp: conclude_def)
next
  case (ViaFailed e)
  have "settles {} s (upd_row (log_id r) (fail_row (sv_say env (SendRefused e))) (trigger_webhook env r Failed s))"
    using settles_trans [OF settles_world fail_settles] by simp
  then have "settles {} s s'" using settles_trans refresh_settles ViaFailed assms(1)
    by (fastforce simp: conclude_def)
  then show ?thesis using ViaFailed assms(1) by (auto simp: conclude_def)
qed

text \<open>One more call, for this message; it waits again only where the call was not accepted.\<close>

definition submits :: "sms_log \<Rightarrow> send_sys \<Rightarrow> send_sys \<Rightarrow> bool" where
  "submits r s s' \<longleftrightarrow>
     sd_calls s' = sd_calls s \<and> settles {message_id r} s s'
     \<or> (\<exists>c. sd_calls s' = sd_calls s @ [c] \<and> uc_message_id c = message_id r
          \<and> settles (if uc_accepted c then {} else {message_id r}) s s')"

lemma concluded_submits:
  assumes "owns (sd_world s) r"
  shows "submits r s (snd (conclude env r res (record_call r b res s)))"
proof -
  have w: "sd_world (record_call r b res s) = sd_world s"
    by (simp add: record_call_def split: option.split)
  with assms have "owns (sd_world (record_call r b res s)) r" by simp
  from conclude_settles [OF surjective_pairing this, of env res]
  have "sd_calls (snd (conclude env r res (record_call r b res s))) = sd_calls (record_call r b res s)"
    and "settles (case res of ViaRetry _ \<Rightarrow> {message_id r} | _ \<Rightarrow> {}) s (snd (conclude env r res (record_call r b res s)))"
    using settles_trans [OF settles_world [OF w]] by blast+
  then show ?thesis
    by (cases b; cases res) (auto simp: submits_def record_call_def intro: settles_mono)
qed

lemma send_via_virtual_frame:
  "send_via_virtual env r ch s = (ok, s1) \<Longrightarrow> sd_world s1 = sd_world s \<and> sd_calls s1 = sd_calls s"
  by (auto simp: send_via_virtual_def split: option.splits sum.splits if_splits)

lemma settled_submits:
  "settles {} s s' \<Longrightarrow> sd_calls s' = sd_calls s \<Longrightarrow> submits r s s'"
  by (auto simp: submits_def intro: settles_mono)

lemma virtual_submits:
  assumes "transmit env creds r ch s = (x, s')" and "ch_protocol ch = VIRTUAL" and "owns (sd_world s) r"
  shows "submits r s s'"
proof -
  obtain ok s1 where v: "send_via_virtual env r ch s = (ok, s1)" by fastforce
  note fr = send_via_virtual_frame [OF v]
  then have own: "owns (sd_world s1) r" using assms(3) by simp
  show ?thesis
  proof (cases ok)
    case True
    obtain y s2 where c: "conclude env r (ViaAccepted (Some (Some (virtual_id (sv_uuid env))))) s1 = (y, s2)"
      by fastforce
    have "settles {} s s2" "sd_calls s2 = sd_calls s"
      using settles_trans [OF settles_world [of s1 s]] conclude_settles [OF c own] fr by simp_all
    then have "submits r s s2" by (rule settled_submits)
    then show ?thesis using assms(1,2) v True c by (simp add: transmit_def)
  next
    case False
    define f where "f x = fail_row (case log_error_message r of
        Some m \<Rightarrow> if m = [] then sv_say env VirtualFailed else m | None \<Rightarrow> sv_say env VirtualFailed)
      (x\<lparr>upstream_message_id := Some (virtual_id (sv_uuid env))\<rparr>)" for x
    have "settles {} (trigger_webhook env r Failed s1) (upd_row (log_id r) f (trigger_webhook env r Failed s1))"
      by (rule upd_row_settles) (simp_all add: f_def keeps_view_def fail_row_def waiting_def)
    from settles_trans [OF settles_trans [OF settles_world this] refresh_settles] fr
    have "settles {} s (snd (refresh env (log_batch_id r) (upd_row (log_id r) f (trigger_webhook env r Failed s1))))"
      by simp
    then show ?thesis using assms(1,2) v False fr
      by (auto simp: transmit_def f_def [abs_def] intro: settled_submits)
  qed
qed

lemma transmit_submits:
  assumes "transmit env creds r ch s = (x, s')" and own: "owns (sd_world s) r"
  shows "submits r s s'"
proof (cases "ch_protocol ch")
  case VIRTUAL
  then show ?thesis using virtual_submits assms by blast
next
  case SMPP
  with assms show ?thesis by (simp add: transmit_def settled_submits)
next
  case HTTP
  have "submits r s (snd (transmit env creds r ch s))"
  proof (cases "is_rcs ch")
    case (Inl e)
    with HTTP show ?thesis by (simp add: transmit_def settled_submits)
  next
    case (Inr rcs)
    obtain p out where rcs_out: "send_via_rcs (sb_show (sv_lib env)) (sv_rcs_post env) r ch = (p, out)" by fastforce
    obtain p' res where http_out: "send_via_http (sv_lib env) r ch creds = (p', res)" by fastforce
    show ?thesis
    proof (cases rcs)
      case True
      with HTTP Inr rcs_out own show ?thesis
        by (cases out) (simp_all add: transmit_def concluded_submits settled_submits)
    next
      case False
      with HTTP Inr http_out own show ?thesis by (simp add: transmit_def concluded_submits)
    qed
  qed
  then show ?thesis by (simp add: assms(1))
qed

lemma mark_task_failed_settles:
  "settles {} s (mark_task_failed mid err s) \<and> sd_calls (mark_task_failed mid err s) = sd_calls s"
  by (simp add: mark_task_failed_def fail_settles split: fetched.split)

text \<open>One run of the sending coroutine, and of the task.\<close>

definition accepted_calls :: "pystr \<Rightarrow> send_sys \<Rightarrow> nat" where
  "accepted_calls m s = length (filter (\<lambda>c. uc_message_id c = m \<and> uc_accepted c) (sd_calls s))"

text \<open>Other parts of the program at work: rows are added with new keys and changed, but none that was
  there starts to wait again, those of \<open>ms\<close> apart.\<close>

definition moves :: "pystr set \<Rightarrow> world \<Rightarrow> world \<Rightarrow> bool" where
  "moves ms w w' \<longleftrightarrow> wf_world w' \<and> set (names w) \<subseteq> set (names w')
     \<and> (\<forall>(i, m) \<in> set (names w') - set (names w). i \<notin> fst ` set (names w) \<and> m \<notin> snd ` set (names w))
     \<and> waits w' \<inter> snd ` set (names w) \<subseteq> ms \<union> waits w"

lemma settles_moves: "wf_world (sd_world s) \<Longrightarrow> settles ms s s' \<Longrightarrow> moves ms (sd_world s) (sd_world s')"
  using settles_wf by (auto simp: moves_def settles_def)

text \<open>Messages between the commit of \<open>sent\<close> and the upstream, and everything else.\<close>

type_synonym send_state = "(sms_log \<times> channel) list \<times> send_sys"

inductive send_step :: "send_state \<Rightarrow> send_state \<Rightarrow> bool" where
  skips: "prepare env q mid s = (Inl res, s1) \<Longrightarrow> send_step (fl, s) (fl, s1)"
| picks: "prepare env q mid s = (Inr (r, ch), s1) \<Longrightarrow> send_step (fl, s) ((r, ch) # fl, s1)"
| hands_over: "transmit env creds r ch s = (res, s1) \<Longrightarrow> send_step (fl @ (r, ch) # fl', s) (fl @ fl', s1)"
| dies: "send_step (fl @ x # fl', s) (fl @ fl', s)"
| fails: "send_step (fl, s) (fl, mark_task_failed mid err s)"
| elsewhere: "moves {} (sd_world s) (sd_world s') \<Longrightarrow> sd_calls s' = sd_calls s \<Longrightarrow> send_step (fl, s) (fl, s')"

definition flying :: "(sms_log \<times> channel) list \<Rightarrow> pystr list" where
  "flying fl = map (message_id \<circ> fst) fl"

definition fresh :: "pystr \<Rightarrow> send_sys \<Rightarrow> bool" where
  "fresh m s \<longleftrightarrow> m \<in> snd ` set (names (sd_world s)) \<and> accepted_calls m s = 0"

definition rows_once :: "send_sys \<Rightarrow> bool" where
  "rows_once s \<longleftrightarrow> wf_world (sd_world s) \<and> (\<forall>m \<in> waits (sd_world s). fresh m s)
     \<and> (\<forall>m. accepted_calls m s \<le> 1) \<and> uc_message_id ` set (sd_calls s) \<subseteq> snd ` set (names (sd_world s))"

definition flight_once :: "(sms_log \<times> channel) list \<Rightarrow> send_sys \<Rightarrow> bool" where
  "flight_once fl s \<longleftrightarrow> distinct (flying fl)
     \<and> (\<forall>(r, ch) \<in> set fl. owns (sd_world s) r \<and> fresh (message_id r) s \<and> message_id r \<notin> waits (sd_world s))"

lemma waits_named: "m \<in> waits w \<Longrightarrow> m \<in> snd ` set (names w)"
  by (force simp: waits_def names_def)

lemma accepted_none: "m \<notin> uc_message_id ` set (sd_calls s) \<Longrightarrow> accepted_calls m s = 0"
  by (auto simp: accepted_calls_def filter_empty_conv)

lemma moves_owns:
  assumes "moves ms w w'" and "owns w r" and "message_id r \<in> snd ` set (names w)"
  shows "owns w' r"
proof -
  have "(log_id r, message_id r) \<in> set (names w)" using assms(2,3) by (force simp: owns_def)
  then have old: "log_id r \<in> fst ` set (names w)" "message_id r \<in> snd ` set (names w)" by force+
  have "i = log_id r \<longleftrightarrow> m = message_id r" if "(i, m) \<in> set (names w')" for i m
  proof (cases "(i, m) \<in> set (names w)")
    case True
    then show ?thesis using assms(2) by (auto simp: owns_def)
  next
    case False
    with that have "(i, m) \<in> set (names w') - set (names w)" by simp
    then have "i \<notin> fst ` set (names w) \<and> m \<notin> snd ` set (names w)" using assms(1) unfolding moves_def by blast
    with old show ?thesis by blast
  qed
  then show ?thesis by (auto simp: owns_def)
qed

lemma moves_once:
  assumes ok: "rows_once s" and mv: "moves ms (sd_world s) (sd_world s')" and calls: "sd_calls s' = sd_calls s"
    and ms: "\<forall>m \<in> ms. fresh m s"
  shows "rows_once s'"
proof -
  have acc: "accepted_calls m s' = accepted_calls m s" for m using calls by (simp add: accepted_calls_def)
  have sub: "snd ` set (names (sd_world s)) \<subseteq> snd ` set (names (sd_world s'))" using mv by (auto simp: moves_def)
  have "fresh m s'" if m: "m \<in> waits (sd_world s')" for m
  proof (cases "m \<in> snd ` set (names (sd_world s))")
    case True
    then have "fresh m s" using m mv ms ok by (auto simp: moves_def rows_once_def)
    then show ?thesis using acc sub by (auto simp: fresh_def)
  next
    case False
    then have "accepted_calls m s = 0" using ok by (intro accepted_none) (auto simp: rows_once_def)
    then show ?thesis using acc waits_named [OF m] by (simp add: fresh_def)
  qed
  then show ?thesis using ok mv acc sub calls by (fastforce simp: rows_once_def moves_def)
qed

lemma moves_flight:
  assumes ok: "flight_once fl s" and mv: "moves ms (sd_world s) (sd_world s')"
    and acc: "\<And>m. m \<in> set (flying fl) \<Longrightarrow> accepted_calls m s' = accepted_calls m s"
    and ms: "ms \<inter> set (flying fl) = {}"
  shows "flight_once fl s'"
proof -
  have "owns (sd_world s') r \<and> fresh (message_id r) s' \<and> message_id r \<notin> waits (sd_world s')"
    if r: "(r, ch) \<in> set fl" for r ch
  proof -
    have f: "message_id r \<in> set (flying fl)" using r by (force simp: flying_def)
    have o: "owns (sd_world s) r" "fresh (message_id r) s" "message_id r \<notin> waits (sd_world s)"
      using ok r by (auto simp: flight_once_def)
    then have "owns (sd_world s') r" using moves_owns [OF mv] by (simp add: fresh_def)
    moreover have "fresh (message_id r) s'" using o(2) acc [OF f] mv by (auto simp: fresh_def moves_def)
    moreover have "message_id r \<notin> waits (sd_world s')" using o f ms mv by (auto simp: fresh_def moves_def)
    ultimately show ?thesis by simp
  qed
  then show ?thesis using ok by (auto simp: flight_once_def)
qed

definition once_ok :: "send_state \<Rightarrow> bool" where
  "once_ok x \<longleftrightarrow> rows_once (snd x) \<and> flight_once (fst x) (snd x)"

lemma once_ok_moves:
  assumes "once_ok (fl, s)" and mv: "moves {} (sd_world s) (sd_world s')" and calls: "sd_calls s' = sd_calls s"
  shows "once_ok (fl, s')"
proof -
  have "rows_once s'" by (rule moves_once [OF _ mv calls]) (use assms(1) in \<open>simp_all add: once_ok_def\<close>)
  moreover have "flight_once fl s'"
    by (rule moves_flight [OF _ mv]) (use assms(1) calls in \<open>simp_all add: once_ok_def accepted_calls_def\<close>)
  ultimately show ?thesis by (simp add: once_ok_def)
qed

lemma once_ok_drop: "once_ok (fl @ x # fl', s) \<Longrightarrow> once_ok (fl @ fl', s)"
  by (auto simp: once_ok_def flight_once_def flying_def)

lemma once_ok_settles:
  assumes "once_ok (fl, s)" and st: "settles {} s s'" and calls: "sd_calls s' = sd_calls s"
  shows "once_ok (fl, s')"
proof -
  have "wf_world (sd_world s)" using assms(1) by (simp add: once_ok_def rows_once_def)
  from once_ok_moves [OF assms(1) settles_moves [OF this st] calls] show ?thesis .
qed

lemma once_ok_picks:
  assumes ok: "once_ok (fl, s)" and p: "prepare env q mid s = (Inr (r, ch), s1)"
  shows "once_ok ((r, ch) # fl, s1)"
proof -
  have p: "settles {} s s1" "sd_calls s1 = sd_calls s" "message_id r = mid" "owns (sd_world s1) r"
    "mid \<in> waits (sd_world s)" "mid \<notin> waits (sd_world s1)"
    using prepare_settles [OF p] ok by (simp_all add: once_ok_def rows_once_def)
  have "once_ok (fl, s1)" using once_ok_settles [OF ok p(1,2)] .
  moreover have "fresh mid s1"
    using ok p(1,2,5) by (auto simp: once_ok_def rows_once_def fresh_def settles_def accepted_calls_def)
  moreover have "mid \<notin> set (flying fl)"
    using ok p(5) by (auto simp: once_ok_def flight_once_def flying_def)
  ultimately show ?thesis using p by (simp add: once_ok_def flight_once_def flying_def)
qed

lemma once_ok_hands_over:
  assumes ok: "once_ok (fl @ (r, ch) # fl', s)" and t: "transmit env creds r ch s = (res, s1)"
  shows "once_ok (fl @ fl', s1)"
proof -
  have r: "owns (sd_world s) r" "fresh (message_id r) s" "message_id r \<notin> waits (sd_world s)"
    "message_id r \<notin> set (flying (fl @ fl'))"
    using ok by (auto simp: once_ok_def flight_once_def flying_def)
  have rest: "once_ok (fl @ fl', s)" by (rule once_ok_drop [OF ok])
  then have wf: "wf_world (sd_world s)" by (simp add: once_ok_def rows_once_def)
  from transmit_submits [OF t r(1)] consider
      (none) "sd_calls s1 = sd_calls s" "settles {message_id r} s s1"
    | (one) c where "sd_calls s1 = sd_calls s @ [c]" "uc_message_id c = message_id r"
        "settles (if uc_accepted c then {} else {message_id r}) s s1"
    by (auto simp: submits_def)
  then show ?thesis
  proof cases
    case none
    have mv: "moves {message_id r} (sd_world s) (sd_world s1)" by (rule settles_moves [OF wf none(2)])
    show ?thesis
      using moves_once [OF _ mv none(1)] moves_flight [OF _ mv] rest r none(1)
      by (simp add: once_ok_def accepted_calls_def)
  next
    case one
    define s0 where "s0 = s1\<lparr>sd_calls := sd_calls s\<rparr>"
    have mv: "moves (if uc_accepted c then {} else {message_id r}) (sd_world s) (sd_world s0)"
      using settles_moves [OF wf one(3)] by (simp add: s0_def)
    have acc: "accepted_calls m s1 = accepted_calls m s + (if m = message_id r \<and> uc_accepted c then 1 else 0)" for m
      using one(1,2) by (auto simp: accepted_calls_def)
    have nm: "names (sd_world s1) = names (sd_world s)" using one(3) by (simp add: settles_def)
    have "rows_once s0" using moves_once [OF _ mv] rest r(2) by (auto simp: once_ok_def s0_def split: if_splits)
    moreover have "message_id r \<notin> waits (sd_world s1) \<or> \<not> uc_accepted c"
      using one(3) r(3) by (auto simp: settles_def split: if_splits)
    ultimately have "rows_once s1"
      using r(2) one(1,2) acc nm
      by (auto simp: rows_once_def s0_def fresh_def accepted_calls_def split: if_splits)
    moreover have "flight_once (fl @ fl') s1"
      by (rule moves_flight [where ms = "{message_id r}", OF _ settles_moves [OF wf settles_mono [OF one(3)]]])
        (use rest r(4) acc in \<open>auto simp: once_ok_def\<close>)
    ultimately show ?thesis by (simp add: once_ok_def)
  qed
qed

lemma send_step_once: "send_step x y \<Longrightarrow> once_ok x \<Longrightarrow> once_ok y"
proof (induction rule: send_step.induct)
  case (skips env q mid s res s1 fl)
  then have "settles {} s s1" "sd_calls s1 = sd_calls s"
    using prepare_settles [OF skips(1)] by (simp_all add: once_ok_def rows_once_def)
  with skips(2) show ?case by (rule once_ok_settles)
next
  case (fails fl s mid err)
  then show ?case using mark_task_failed_settles once_ok_settles by blast
next
  case picks
  then show ?case using once_ok_picks by blast
next
  case hands_over
  then show ?case using once_ok_hands_over by blast
next
  case dies
  then show ?case using once_ok_drop by blast
next
  case elsewhere
  then show ?case using once_ok_moves by blast
qed

lemma steps_once: "send_step\<^sup>*\<^sup>* x y \<Longrightarrow> once_ok x \<Longrightarrow> once_ok y"
  by (induction rule: rtranclp_induct) (auto intro: send_step_once)


text \<open>A run of the task is such a sequence of steps.\<close>

lemma send_sms_async_steps:
  assumes "send_sms_async env q mid creds s = (res, s')"
  shows "send_step\<^sup>*\<^sup>* (fl, s) (fl, s')"
proof (cases "prepare env q mid s")
  case (Pair p s1)
  show ?thesis
  proof (cases p)
    case (Inl x)
    with Pair assms have "send_step (fl, s) (fl, s')" by (auto simp: send_sms_async_def intro: send_step.skips)
    then show ?thesis by blast
  next
    case (Inr y)
    obtain r ch where y: "y = (r, ch)" by fastforce
    then have "send_step (fl, s) ((r, ch) # fl, s1)" using Pair Inr by (auto intro: send_step.picks)
    moreover have "transmit env creds r ch s1 = (res, s')" using assms Pair Inr y by (simp add: send_sms_async_def)
    then have "send_step ((r, ch) # fl, s1) (fl, s')" using send_step.hands_over [of _ _ _ _ _ _ _ "[]"] by simp
    ultimately show ?thesis by (meson converse_rtranclp_into_rtranclp r_into_rtranclp)
  qed
qed

lemma submits_settles: "submits r s s' \<Longrightarrow> settles {message_id r} s s'"
  by (auto simp: submits_def intro: settles_mono split: if_splits)

lemma send_sms_async_settles:
  assumes "send_sms_async env q mid creds s = (res, s')" and wf: "wf_world (sd_world s)"
  shows "settles {} s s'"
proof -
  obtain p s1 where p: "prepare env q mid s = (p, s1)" by fastforce
  note ps = prepare_settles [OF p wf]
  show ?thesis
  proof (cases p)
    case (Inl x)
    with assms(1) p ps show ?thesis by (simp add: send_sms_async_def)
  next
    case (Inr y)
    obtain r ch where y: "y = (r, ch)" by fastforce
    have t: "transmit env creds r ch s1 = (res, s')" using assms(1) p Inr y by (simp add: send_sms_async_def)
    have "settles {message_id r} s1 s'" using submits_settles [OF transmit_submits [OF t]] ps Inr y by simp
    then show ?thesis
      using settles_known [OF settles_trans [OF settles_mono]] ps Inr y by fastforce
  qed
qed

lemma send_sms_task_settles:
  assumes "send_sms_task env q n arg creds s = (out, s')" and "wf_world (sd_world s)"
  shows "settles {} s s'"
proof (cases arg)
  case GatewayPayload
  with assms(1) show ?thesis by (simp add: send_sms_task_def)
next
  case (MessageId mid)
  obtain res s1 where a: "send_sms_async env q mid creds s = (res, s1)" by fastforce
  note st = send_sms_async_settles [OF a assms(2)]
  have fail: "settles {} s (mark_task_failed mid err s1)" for err
    using settles_trans [OF st] mark_task_failed_settles by blast
  have queue: "settles {} s (s1\<lparr>sd_tasks := t\<rparr>)" for t
    using settles_trans [OF st settles_world] by simp
  show ?thesis
    using assms(1) MessageId a st fail queue
    by (auto simp: send_sms_task_def split: sum.splits send_result.splits option.splits if_splits)
qed

lemma send_sms_task_steps:
  assumes "wf_world (sd_world s)" and "send_sms_task env q n arg creds s = (out, s')"
  shows "send_step\<^sup>*\<^sup>* (fl, s) (fl, s')"
proof (cases arg)
  case GatewayPayload
  with assms(2) show ?thesis by (simp add: send_sms_task_def)
next
  case (MessageId mid)
  obtain res s1 where a: "send_sms_async env q mid creds s = (res, s1)" by fastforce
  note st = send_sms_async_steps [OF a, of fl]
  have fail: "send_step\<^sup>*\<^sup>* (fl, s) (fl, mark_task_failed mid err s1)" for err
    using st send_step.fails [of fl s1] by (meson rtranclp.rtrancl_into_rtrancl)
  have "wf_world (sd_world s1)"
    using settles_wf [OF send_sms_async_settles [OF a assms(1)]] assms(1) by simp
  then have "send_step (fl, s1) (fl, s1\<lparr>sd_tasks := t\<rparr>)" for t
    by (intro send_step.elsewhere) (simp_all add: moves_def)
  with st have queue: "send_step\<^sup>*\<^sup>* (fl, s) (fl, s1\<lparr>sd_tasks := t\<rparr>)" for t
    by (meson rtranclp.rtrancl_into_rtrancl)
  show ?thesis
    using assms(2) MessageId a st fail queue
    by (auto simp: send_sms_task_def split: sum.splits send_result.splits option.splits if_splits)
qed

section \<open>An exception after the commit\<close>

lemma prepare_dispatched:
  assumes "prepare env q mid s = (Inr (r, ch), s1)"
  shows "\<exists>i f s0. s1 = upd_row i f s0 \<and> keeps_view f \<and> log_id r = i \<and> (\<forall>x. log_status (f x) = Sent)"
proof -
  obtain r0 where r0: "one_or_none (filter (\<lambda>r. message_id r = mid) (sms_logs (sd_world s))) = OneRow r0"
    using assms by (auto simp: prepare_def split: fetched.splits)
  obtain s2 where h: "hold_back env r0 s = (None, s2)"
    using assms r0 by (auto simp: prepare_def split: option.splits prod.splits)
  obtain c asg s3 where f: "find_channel env r0 s2 = (Some c, asg, s3)"
    using assms r0 h by (auto simp: prepare_def split: option.splits prod.splits)
  obtain g s4 where l: "put_link env r0 asg s3 = (g, s4)" by fastforce
  have g: "keeps_view g"
    using put_link_settles [OF l] find_channel_settles [OF f] by blast
  have d: "dispatch_message env q r0 c g s4 = (Inr (r, ch), s1)" using assms r0 h f l by (simp add: prepare_def)
  then have "\<not> (ch_protocol c = SMPP \<and> \<not> q)"
    by (cases q; cases "reroute env r0 g s4") (auto simp: dispatch_message_def)
  moreover obtain ok ms s5 where "take_slot env c s4 = ((ok, ms), s5)" by (metis prod.exhaust)
  ultimately have "s1 = upd_row (log_id r0) (\<lambda>x. (g x)\<lparr>log_status := Sent, sent_time := Some (now (sd_world s5))\<rparr>) s5"
      and "r = (g r0)\<lparr>log_status := Sent, sent_time := Some (now (sd_world s5))\<rparr>"
    using d by (simp_all add: dispatch_message_def Let_def split: if_splits)
  with g show ?thesis
    by (intro exI [of _ "log_id r0"] exI [of _ s5]
        exI [of _ "\<lambda>x. (g x)\<lparr>log_status := Sent, sent_time := Some (now (sd_world s5))\<rparr>"])
      (simp add: keeps_view_def)
qed

lemma filter_single:
  assumes "distinct xs" and "x \<in> set xs" and "P x" and "\<And>y. y \<in> set xs \<Longrightarrow> P y \<Longrightarrow> y = x"
  shows "filter P xs = [x]"
proof -
  obtain ys zs where xs: "xs = ys @ x # zs" using split_list assms(2) by metis
  with assms(1,4) have "filter P ys = []" "filter P zs = []" by (fastforce simp: filter_empty_conv)+
  with xs assms(3) show ?thesis by simp
qed

lemma prepared_is_sent:
  assumes "prepare env q mid s = (Inr (r, ch), s1)" and wf: "wf_world (sd_world s)"
  shows "\<exists>x. one_or_none (filter (\<lambda>x. message_id x = mid) (sms_logs (sd_world s1))) = OneRow x
    \<and> message_id x = mid \<and> log_status x = Sent"
proof -
  have st: "settles {} s s1" and own: "owns (sd_world s1) r" and mid: "message_id r = mid"
    and wt: "mid \<in> waits (sd_world s)"
    using prepare_settles [OF assms] by simp_all
  have wf1: "wf_world (sd_world s1)" using settles_wf [OF st] wf by simp
  have "mid \<in> snd ` set (names (sd_world s1))"
    using waits_named [OF wt] st by (simp add: settles_def)
  then obtain x where x: "x \<in> set (sms_logs (sd_world s1))" "message_id x = mid"
    by (auto simp: names_def)
  have only: "y = x" if "y \<in> set (sms_logs (sd_world s1))" "message_id y = mid" for y
  proof -
    have "log_id y = log_id r" "log_id x = log_id r" using owns_row [OF own] that x mid by simp_all
    moreover from wf1 have "inj_on log_id (set (sms_logs (sd_world s1)))"
      by (simp add: wf_world_def distinct_map)
    ultimately show ?thesis using that(1) x(1) by (metis inj_onD)
  qed
  have "distinct (sms_logs (sd_world s1))" using wf1 by (simp add: wf_world_def distinct_map)
  then have "filter (\<lambda>x. message_id x = mid) (sms_logs (sd_world s1)) = [x]"
    by (rule filter_single) (fact x | erule (1) only)+
  moreover obtain i f s0 where "s1 = upd_row i f s0" "keeps_view f" "log_id r = i" "\<forall>x. log_status (f x) = Sent"
    using prepare_dispatched [OF assms(1)] by blast
  then have "log_status x = Sent"
    using x owns_row [OF own x(1)] mid
    by (auto simp: set_log_def upd_where_def keeps_view_def split: if_splits)
  ultimately show ?thesis using x(2) by (simp add: table_simps)
qed

text \<open>Where the code between the commit of \<open>sent\<close> and the upstream raises, as the RCS supplier
  \<open>node\<close> does, no call is made, every retry finds the message sent and does nothing, and
  it stays \<open>sent\<close>.\<close>

theorem exception_leaves_sent:
  assumes "prepare env q mid s = (Inr (r, ch), s1)" and "transmit env creds r ch s1 = (Inl e, s2)"
    and "wf_world (sd_world s)" and "fst (licence_refuses env' s2) = None"
  shows "\<exists>s3 x. send_sms_task env' q' n (MessageId mid) creds' s2 = (TaskDone (SkippedDone Sent), s3)
    \<and> sd_calls s3 = sd_calls s \<and> x \<in> set (sms_logs (sd_world s3)) \<and> message_id x = mid \<and> log_status x = Sent"
proof -
  have "map_prod Inr id p \<noteq> (Inl e, s2)" for p :: "send_result \<times> send_sys" by (cases p) simp
  then have same: "s2 = s1"
    using assms(2) by (auto simp: transmit_def split: channel_protocol.splits sum.splits prod.splits bool.splits)
  obtain x where x: "one_or_none (filter (\<lambda>x. message_id x = mid) (sms_logs (sd_world s1))) = OneRow x"
    "message_id x = mid" "log_status x = Sent"
    using prepared_is_sent [OF assms(1,3)] by blast
  obtain s3 where l: "licence_refuses env' s2 = (None, s3)" using assms(4) by (metis prod.collapse)
  then have w: "sd_world s3 = sd_world s2" "sd_calls s3 = sd_calls s2"
    using licence_frame [of env' s2] by simp_all
  have "hold_back env' x s2 = (Some (SkippedDone Sent), s3)"
    using l x(3) by (simp add: hold_back_def waiting_def)
  then have "send_sms_task env' q' n (MessageId mid) creds' s2 = (TaskDone (SkippedDone Sent), s3)"
    using x(1) same by (simp add: send_sms_task_def send_sms_async_def prepare_def)
  moreover have "x \<in> set (sms_logs (sd_world s3))"
    using x(1) w same by (auto simp: table_simps filter_eq_Cons_iff)
  ultimately show ?thesis using x w same prepare_settles [OF assms(1,3)] by auto
qed

section \<open>A message and its channels\<close>

definition demo_send_env :: "(pystr \<Rightarrow> http_payload \<Rightarrow> http_answer) \<Rightarrow> send_env" where
  "demo_send_env post =
     \<lparr>sv_license = \<lparr>li_open = \<lambda>_. Damaged, li_day = \<lambda>_. None, li_fingerprint = [], li_today = 0,
                    li_file = None, li_required = False\<rparr>,
      sv_mono = 100, sv_links = demo_link_env, sv_draw = 0, sv_progress = 0,
      sv_lib = \<lparr>sb_loads = \<lambda>_. None, sb_show = \<lambda>_. [], sb_post = post\<rparr>,
      sv_rcs_post = \<lambda>_. RcsNetworkError, sv_redis = False, sv_pttl = 0, sv_uuid = [], sv_unit = 0,
      sv_broker = True, sv_terminal_only = True, sv_say = \<lambda>_. []\<rparr>"

definition demo_send :: "channel \<Rightarrow> send_sys" where
  "demo_send ch =
     \<lparr>sd_world = empty_world\<lparr>channels := [ch],
        sms_logs := [(new_sms_log 1 (asc ''m'') 1 (asc ''+1''))\<lparr>log_channel_id := Some (ch_id ch)\<rparr>]\<rparr>,
      sd_blacklist = [], sd_links = demo_links,
      sd_license = \<lparr>lc_installed = None, lc_status = None, lc_at = 0\<rparr>,
      sd_windows = Map.empty, sd_hook_cache = ([], 0), sd_calls = [], sd_tasks = []\<rparr>"

definition demo_http :: channel where
  "demo_http = (new_channel 7 (asc ''h'') HTTP)\<lparr>api_url := Some (asc ''u'')\<rparr>"

definition demo_node :: channel where
  "demo_node = (new_channel 7 (asc ''n'') HTTP)
     \<lparr>config_json := Parsed (JObj [(asc ''rcs'', JObj [(asc ''vendor'', JStr (asc ''node''))])])\<rparr>"

lemma demo_send_wf: "wf_world (sd_world (demo_send ch))"
  by (simp add: demo_send_def empty_world_def wf_world_def new_sms_log_def)

definition demo_ok :: send_env where
  "demo_ok = demo_send_env (\<lambda>_ _. Answer 200 None (asc ''<returnsms><returnstatus>Success</returnstatus>''))"

lemma demo_sent_once:
  "accepted_calls (asc ''m'') (snd (send_sms_task demo_ok False 0 (MessageId (asc ''m'')) None (demo_send demo_http))) = 1"
  by code_simp


lemma demo_node_raises:
  "(case prepare demo_ok False (asc ''m'') (demo_send demo_node) of
      (Inr (r, ch), s1) \<Rightarrow>
        (case transmit demo_ok None r ch s1 of (Inl _, s2) \<Rightarrow> fst (licence_refuses demo_ok s2) = None | _ \<Rightarrow> False)
    | _ \<Rightarrow> False)"
  by code_simp

theorem exception_leaves_sent_witness:
  "\<exists>s s3 x. send_sms_task demo_ok False 1 (MessageId (asc ''m'')) None s = (TaskDone (SkippedDone Sent), s3)
     \<and> sd_calls s3 = [] \<and> x \<in> set (sms_logs (sd_world s3)) \<and> message_id x = asc ''m'' \<and> log_status x = Sent"
proof -
  obtain r ch s1 where p: "prepare demo_ok False (asc ''m'') (demo_send demo_node) = (Inr (r, ch), s1)"
    using demo_node_raises by (auto split: prod.split_asm sum.split_asm)
  obtain y s2 where y: "transmit demo_ok None r ch s1 = (y, s2)" by fastforce
  with demo_node_raises p obtain e where t: "transmit demo_ok None r ch s1 = (Inl e, s2)"
    and l: "fst (licence_refuses demo_ok s2) = None"
    by (cases y) simp_all
  have "sd_calls (demo_send demo_node) = []" by (simp add: demo_send_def)
  then show ?thesis using exception_leaves_sent [OF p t demo_send_wf l] by metis
qed

end
