(* ===== verification/SmsResults.thy ===== *)
theory SmsResults
  imports License Quiet
begin

text \<open>
  The results of submissions that the SMPP gateway hands back, \<open>process_sms_result_task\<close> and the
  functions around it at the end of \<open>backend/app/workers/sms_worker.py\<close>: they are buffered in the worker,
  written ahead to a Redis stream, flushed to the database in batches, and replayed when a worker
  starts. What the database and Redis do in an attempt (success, a deadlock, another error) is an
  argument. Rows committed for a result are recorded in order in \<open>rb_written\<close>.
\<close>

section \<open>One result\<close>

record sms_result =
  sm_log_id :: json
  sm_status :: json
  sm_upstream :: json
  sm_error :: json
  sm_wal :: "nat option" \<comment> \<open>\<open>_wal_id\<close>\<close>

text \<open>\<open>int(r.get("log_id") or 0)\<close>\<close>

definition result_log_id :: "sms_result \<Rightarrow> int outcome" where
  "result_log_id r = json_int (sm_log_id r)"

definition status_named :: "pystr \<Rightarrow> sms_status option" where
  "status_named s =
     map_of [(asc ''pending'', Pending), (asc ''queued'', Queued), (asc ''sent'', Sent),
             (asc ''delivered'', Delivered), (asc ''failed'', Failed), (asc ''expired'', Expired)] s"

text \<open>\<open>(r.get("error") or "")[:4000]\<close>: a list has slices too, but is no text for the column.\<close>

definition result_error :: "sms_result \<Rightarrow> pystr option outcome" where
  "result_error r =
     (if \<not> json_truthy (sm_error r) then Inr (Some [])
      else case sm_error r of
             JStr s \<Rightarrow> Inr (Some (take 4000 s))
           | JArr _ \<Rightarrow> Inr None
           | _ \<Rightarrow> Inl PyException)"

definition result_row :: "int \<Rightarrow> sms_status \<Rightarrow> pystr option \<Rightarrow> pystr option \<Rightarrow> sms_log \<Rightarrow> sms_log" where
  "result_row time st up err x =
     (let y = x\<lparr>log_status := st, upstream_message_id := up\<rparr>
      in if st = Failed then y\<lparr>log_error_message := err, sent_time := Some time\<rparr>
         else if st = Sent then y\<lparr>log_error_message := None, sent_time := Some time\<rparr>
         else y)"

text \<open>\<open>_apply_sms_result_row_to_db\<close>: a status that is none of the column's is refused by the database.\<close>

definition apply_result :: "sms_result \<Rightarrow> world \<Rightarrow> world outcome" where
  "apply_result r w =
     (case result_log_id r of
        Inl e \<Rightarrow> Inl e
      | Inr i \<Rightarrow>
          (if i \<le> 0 then Inr w
           else case json_stripped (sm_status r) of
             Inl e \<Rightarrow> Inl e
           | Inr s \<Rightarrow>
               (case json_stripped (sm_upstream r) of
                  Inl e \<Rightarrow> Inl e
                | Inr u \<Rightarrow>
                    (case result_error r of
                       Inl e \<Rightarrow> Inl e
                     | Inr err \<Rightarrow>
                         (case status_named (if s = [] then asc ''failed'' else s) of
                            None \<Rightarrow> Inl PyException
                          | Some st \<Rightarrow>
                              (if st = Failed \<and> err = None then Inl PyException
                               else Inr (set_log i (result_row (now w) st (if u = [] then None else Some u) err) w)))))))"

section \<open>A flush\<close>

datatype attempt = Succeeds | Deadlocks | Errs

record flush_env =
  fe_bulk :: attempt
  fe_again :: attempt
  fe_row :: "nat \<Rightarrow> bool"

fun apply_results :: "sms_result list \<Rightarrow> world \<Rightarrow> world outcome" where
  "apply_results [] w = Inr w"
| "apply_results (r # rs) w = (case apply_result r w of Inl e \<Rightarrow> Inl e | Inr w1 \<Rightarrow> apply_results rs w1)"

text \<open>\<open>_flush_sms_results_bulk_once\<close>: one transaction; \<open>None\<close> where it is rolled back.\<close>

definition flush_bulk_once :: "attempt \<Rightarrow> sms_result list \<Rightarrow> world \<Rightarrow> world option" where
  "flush_bulk_once a rs w =
     (if a \<noteq> Succeeds then None else case apply_results rs w of Inl _ \<Rightarrow> None | Inr w' \<Rightarrow> Some w')"

text \<open>\<open>_flush_sms_results_one_by_one\<close>: what it returns, the rows it has committed, the database. A log
  id that is no number ends it.\<close>

fun flush_one_by_one ::
    "(nat \<Rightarrow> bool) \<Rightarrow> sms_result list \<Rightarrow> world \<Rightarrow> sms_result list outcome \<times> sms_result list \<times> world" where
  "flush_one_by_one ok [] w = (Inr [], [], w)"
| "flush_one_by_one ok (r # rs) w =
     (case result_log_id r of
        Inl e \<Rightarrow> (Inl e, [], w)
      | Inr i \<Rightarrow>
          (if i \<le> 0 then flush_one_by_one (\<lambda>n. ok (Suc n)) rs w
           else case (if ok 0 then apply_result r w else Inl PyException) of
                  Inl _ \<Rightarrow> flush_one_by_one (\<lambda>n. ok (Suc n)) rs w
                | Inr w1 \<Rightarrow>
                    (case flush_one_by_one (\<lambda>n. ok (Suc n)) rs w1 of
                       (res, done_rows, w2) \<Rightarrow> (map_sum id ((#) r) res, r # done_rows, w2))))"

text \<open>\<open>_flush_sms_results_async\<close>\<close>

definition flush_results ::
    "flush_env \<Rightarrow> sms_result list \<Rightarrow> world \<Rightarrow> sms_result list outcome \<times> sms_result list \<times> world" where
  "flush_results env rs w =
     (if rs = [] then (Inr [], [], w)
      else case flush_bulk_once (fe_bulk env) rs w of
             Some w' \<Rightarrow> (Inr rs, rs, w')
           | None \<Rightarrow>
               (case (if fe_bulk env = Deadlocks then flush_bulk_once (fe_again env) rs w else None) of
                  Some w' \<Rightarrow> (Inr rs, rs, w')
                | None \<Rightarrow> flush_one_by_one (fe_row env) rs w))"

section \<open>The buffer and the stream\<close>

record result_sys =
  rb_world :: world
  rb_buffer :: "sms_result list"
  rb_timer :: bool
  rb_wal :: "(nat \<times> sms_result) list"
  rb_next :: nat
  rb_written :: "sms_result list"

definition STREAM_MAXLEN :: nat where "STREAM_MAXLEN = 10000"
definition BUFFER_SIZE :: nat where "BUFFER_SIZE = 200"
definition REPLAY_COUNT :: nat where "REPLAY_COUNT = 2000"

text \<open>\<open>XADD\<close> may drop entries above the limit, the oldest first; it drops whole nodes, so how many is
  its choice.\<close>

definition wal_xadd_result :: "bool \<Rightarrow> nat \<Rightarrow> sms_result \<Rightarrow> result_sys \<Rightarrow> nat option \<times> result_sys" where
  "wal_xadd_result up excess it s =
     (if \<not> up then (None, s)
      else let wal = rb_wal s @ [(rb_next s, it)]
           in (Some (rb_next s),
               s\<lparr>rb_wal := drop (min excess (length wal - STREAM_MAXLEN)) wal, rb_next := rb_next s + 1\<rparr>))"

definition wal_xdel_results :: "bool \<Rightarrow> sms_result list \<Rightarrow> result_sys \<Rightarrow> result_sys" where
  "wal_xdel_results up rs s =
     (if up then s\<lparr>rb_wal := filter (\<lambda>(i, _). Some i \<notin> set (map sm_wal rs)) (rb_wal s)\<rparr> else s)"

fun log_ids :: "sms_result list \<Rightarrow> int list outcome" where
  "log_ids [] = Inr []"
| "log_ids (r # rs) =
     (case result_log_id r of
        Inl e \<Rightarrow> Inl e
      | Inr i \<Rightarrow> (case log_ids rs of Inl e \<Rightarrow> Inl e | Inr is \<Rightarrow> Inr (i # is)))"

text \<open>\<open>_sms_result_remove_flushed_from_buffer\<close>: by log id; results without one stay.\<close>

definition remove_flushed :: "sms_result list \<Rightarrow> sms_result list \<Rightarrow> sms_result list outcome" where
  "remove_flushed flushed buf =
     (case log_ids flushed of
        Inl e \<Rightarrow> Inl e
      | Inr is \<Rightarrow>
          (let ids = filter (\<lambda>i. 0 < i) is
           in if ids = [] then Inr buf
              else case log_ids buf of
                     Inl e \<Rightarrow> Inl e
                   | Inr js \<Rightarrow> Inr (map fst (filter (\<lambda>(r, j). j \<notin> set ids) (zip buf js)))))"

text \<open>What both flushes do with their snapshot; an exception leaves the rest undone.\<close>

record result_env =
  re_redis :: bool
  re_excess :: nat
  re_flush :: flush_env
  re_xdel :: bool

definition flush_snapshot :: "result_env \<Rightarrow> sms_result list \<Rightarrow> result_sys \<Rightarrow> result_sys" where
  "flush_snapshot env snap s =
     (case flush_results (re_flush env) snap (rb_world s) of
        (res, committed, w) \<Rightarrow>
          (let s1 = s\<lparr>rb_world := w, rb_written := rb_written s @ committed\<rparr>
           in case res of
                Inl _ \<Rightarrow> s1
              | Inr ok_rows \<Rightarrow>
                  (if ok_rows = [] then s1
                   else case remove_flushed ok_rows (rb_buffer s1) of
                          Inl _ \<Rightarrow> s1
                        | Inr buf \<Rightarrow> wal_xdel_results (re_xdel env) ok_rows (s1\<lparr>rb_buffer := buf\<rparr>))))"

definition timer_flush :: "result_env \<Rightarrow> result_sys \<Rightarrow> result_sys" where
  "timer_flush env s = flush_snapshot env (rb_buffer s) (s\<lparr>rb_timer := False\<rparr>)"

text \<open>\<open>_enqueue_sms_result_buffer\<close>\<close>

definition write_ahead :: "result_env \<Rightarrow> sms_result \<Rightarrow> result_sys \<Rightarrow> sms_result \<times> result_sys" where
  "write_ahead env it s =
     (if sm_wal it \<noteq> None then (it, s)
      else case wal_xadd_result (re_redis env) (re_excess env) it s of
             (None, s1) \<Rightarrow> (it, s1)
           | (Some i, s1) \<Rightarrow> (it\<lparr>sm_wal := Some i\<rparr>, s1))"

definition enqueue_result :: "result_env \<Rightarrow> sms_result \<Rightarrow> result_sys \<Rightarrow> result_sys" where
  "enqueue_result env it s =
     (case write_ahead env it s of
        (it', s1) \<Rightarrow>
          (let s2 = s1\<lparr>rb_buffer := rb_buffer s1 @ [it']\<rparr>
           in if length (rb_buffer s2) \<ge> BUFFER_SIZE
              then flush_snapshot env (take BUFFER_SIZE (rb_buffer s2)) (s2\<lparr>rb_timer := False\<rparr>)
              else s2\<lparr>rb_timer := True\<rparr>))"

text \<open>The task itself catches what the buffer raises.\<close>

definition process_sms_result :: "result_env \<Rightarrow> sms_result \<Rightarrow> result_sys \<Rightarrow> result_sys" where
  "process_sms_result env it s = enqueue_result env (it\<lparr>sm_wal := None\<rparr>) s"

definition kill_worker :: "result_sys \<Rightarrow> result_sys" where
  "kill_worker s = s\<lparr>rb_buffer := [], rb_timer := False\<rparr>"

text \<open>\<open>_wal_replay_on_startup\<close>, one environment for each entry; the entries are read once.\<close>

fun replay_entries :: "(nat \<Rightarrow> result_env) \<Rightarrow> (nat \<times> sms_result) list \<Rightarrow> result_sys \<Rightarrow> result_sys" where
  "replay_entries envs [] s = s"
| "replay_entries envs ((i, it) # es) s =
     replay_entries (\<lambda>n. envs (Suc n)) es (enqueue_result (envs 0) (it\<lparr>sm_wal := Some i\<rparr>) s)"

definition wal_replay_on_startup :: "(nat \<Rightarrow> result_env) \<Rightarrow> result_sys \<Rightarrow> result_sys" where
  "wal_replay_on_startup envs s = replay_entries envs (take REPLAY_COUNT (rb_wal s)) s"

text \<open>\<open>_flush_result_buffer_on_shutdown\<close>: three attempts; an exception ends them.\<close>

definition flush_attempt :: "result_env \<Rightarrow> sms_result list \<Rightarrow> result_sys \<Rightarrow> sms_result list outcome \<times> result_sys" where
  "flush_attempt env rs s =
     (case flush_results (re_flush env) rs (rb_world s) of
        (res, committed, w) \<Rightarrow>
          (let s1 = s\<lparr>rb_world := w, rb_written := rb_written s @ committed\<rparr>
           in case res of
                Inl e \<Rightarrow> (Inl e, s1)
              | Inr ok_rows \<Rightarrow>
                  (case log_ids ok_rows of
                     Inl e \<Rightarrow> (Inl e, s1)
                   | Inr ids \<Rightarrow>
                       (let s2 = wal_xdel_results (re_xdel env) ok_rows s1
                        in case log_ids rs of
                             Inl e \<Rightarrow> (Inl e, s2)
                           | Inr js \<Rightarrow> (Inr (map fst (filter (\<lambda>(r, j). j \<notin> set ids) (zip rs js))), s2)))))"

fun shutdown_attempts :: "(nat \<Rightarrow> result_env) \<Rightarrow> nat \<Rightarrow> sms_result list \<Rightarrow> result_sys \<Rightarrow> result_sys" where
  "shutdown_attempts envs 0 rs s = s"
| "shutdown_attempts envs (Suc n) rs s =
     (case flush_attempt (envs 0) rs s of
        (Inl _, s1) \<Rightarrow> s1
      | (Inr rest, s1) \<Rightarrow> if rest = [] then s1 else shutdown_attempts (\<lambda>n. envs (Suc n)) n rest s1)"

definition flush_on_shutdown :: "(nat \<Rightarrow> result_env) \<Rightarrow> result_sys \<Rightarrow> result_sys" where
  "flush_on_shutdown envs s =
     (let s1 = s\<lparr>rb_buffer := []\<rparr>
      in if rb_buffer s = [] then s1 else shutdown_attempts envs 3 (rb_buffer s) s1)"

section \<open>No result is lost\<close>

text \<open>A buffered result that carries the id of an entry of the stream is that entry.\<close>

definition tagged :: "result_sys \<Rightarrow> sms_result \<Rightarrow> bool" where
  "tagged s r \<longleftrightarrow> (\<forall>i. sm_wal r = Some i \<longrightarrow>
     i < rb_next s \<and> (\<forall>it. (i, it) \<in> set (rb_wal s) \<longrightarrow> r = it\<lparr>sm_wal := Some i\<rparr>))"

definition wal_ok :: "result_sys \<Rightarrow> bool" where
  "wal_ok s \<longleftrightarrow> (\<forall>(i, it) \<in> set (rb_wal s). i < rb_next s \<and> sm_wal it = None)
     \<and> distinct (map fst (rb_wal s)) \<and> (\<forall>r \<in> set (rb_buffer s) \<union> set (rb_written s). tagged s r)"

text \<open>Entries of the stream stay or have been written; nothing else that matters changes.\<close>

definition evolves :: "result_sys \<Rightarrow> result_sys \<Rightarrow> bool" where
  "evolves s s' \<longleftrightarrow> wal_ok s' \<and> set (rb_written s) \<subseteq> set (rb_written s')
     \<and> (\<forall>r. tagged s r \<longrightarrow> tagged s' r)
     \<and> (\<forall>(i, it) \<in> set (rb_wal s). (i, it) \<in> set (rb_wal s') \<or> it\<lparr>sm_wal := Some i\<rparr> \<in> set (rb_written s'))"

lemma evolves_refl: "wal_ok s \<Longrightarrow> evolves s s"
  by (auto simp: evolves_def)

lemma evolves_trans: "evolves s s1 \<Longrightarrow> evolves s1 s2 \<Longrightarrow> evolves s s2"
  unfolding evolves_def by (fastforce split: prod.splits)

lemma flush_one_by_one_rows:
  "flush_one_by_one ok rs w = (res, committed, w') \<Longrightarrow>
     set committed \<subseteq> set rs \<and> (\<forall>rows. res = Inr rows \<longrightarrow> rows = committed)"
proof (induction ok rs w arbitrary: res committed w' rule: flush_one_by_one.induct)
  case (2 ok r rs w)
  show ?case
  proof (cases "result_log_id r")
    case (Inl e)
    with 2(4) show ?thesis by auto
  next
    case (Inr i)
    show ?thesis
    proof (cases "i \<le> 0")
      case True
      with 2(1) [OF Inr True] 2(4) Inr show ?thesis by (auto simp: comp_def)
    next
      case False
      show ?thesis
      proof (cases "if ok 0 then apply_result r w else Inl PyException")
        case (Inl e)
        with 2(2) [OF \<open>result_log_id r = Inr i\<close> False Inl] 2(4) \<open>result_log_id r = Inr i\<close> False
        show ?thesis by (auto simp: comp_def)
      next
        case w1: (Inr w1)
        obtain res1 c1 w2 where f: "flush_one_by_one (\<lambda>n. ok (Suc n)) rs w1 = (res1, c1, w2)" by (metis prod.exhaust)
        from 2(4) Inr False w1 f have "committed = r # c1" "res = map_sum id ((#) r) res1" by (simp_all add: comp_def)
        with 2(3) [OF Inr False w1 f] show ?thesis by (cases res1) auto
      qed
    qed
  qed
qed simp

lemma flush_results_rows:
  "flush_results env rs w = (res, committed, w') \<Longrightarrow>
     set committed \<subseteq> set rs \<and> (\<forall>rows. res = Inr rows \<longrightarrow> rows = committed)"
  using flush_one_by_one_rows
  by (auto simp: flush_results_def split: option.splits if_splits)

lemma remove_flushed_subset: "remove_flushed rows buf = Inr buf' \<Longrightarrow> set buf' \<subseteq> set buf"
  by (auto simp: remove_flushed_def Let_def split: sum.splits if_splits elim!: in_set_zipE)

text \<open>Deleting the entries of rows that have been written is an evolution.\<close>

lemma xdel_evolves:
  assumes "wal_ok s" and "set rs \<subseteq> set (rb_written s)"
  shows "evolves s (wal_xdel_results up rs s)"
proof (cases up)
  case True
  let ?s' = "wal_xdel_results up rs s"
  have sub: "set (rb_wal ?s') \<subseteq> set (rb_wal s)" using True by (auto simp: wal_xdel_results_def)
  have same: "rb_next ?s' = rb_next s" "rb_buffer ?s' = rb_buffer s" "rb_written ?s' = rb_written s"
    using True by (simp_all add: wal_xdel_results_def)
  have tag: "tagged s r \<longrightarrow> tagged ?s' r" for r using sub same(1) by (auto simp: tagged_def)
  have "distinct (map fst (rb_wal ?s'))"
    using assms(1) True by (auto simp: wal_xdel_results_def wal_ok_def intro: distinct_map_filter)
  then have ok: "wal_ok ?s'" using assms(1) sub same tag by (fastforce simp: wal_ok_def)
  have "(i, it) \<in> set (rb_wal ?s') \<or> it\<lparr>sm_wal := Some i\<rparr> \<in> set (rb_written ?s')"
    if e: "(i, it) \<in> set (rb_wal s)" for i it
  proof (cases "Some i \<in> set (map sm_wal rs)")
    case False
    with e True show ?thesis by (auto simp: wal_xdel_results_def)
  next
    case in_rs: True
    then obtain r where r: "r \<in> set rs" "sm_wal r = Some i" by auto
    then have "tagged s r" using assms by (auto simp: wal_ok_def)
    with r e assms(2) same(3) show ?thesis by (auto simp: tagged_def)
  qed
  with ok tag same(3) show ?thesis by (auto simp: evolves_def)
next
  case False
  with assms(1) show ?thesis by (simp add: wal_xdel_results_def evolves_refl)
qed

lemma world_evolves:
  assumes "wal_ok s" and "\<forall>r \<in> set committed. tagged s r" and "set buf \<subseteq> set (rb_buffer s)"
  shows "evolves s (s\<lparr>rb_world := w, rb_written := rb_written s @ committed, rb_buffer := buf, rb_timer := t\<rparr>)"
  using assms by (auto simp: evolves_def wal_ok_def tagged_def)

lemma flush_snapshot_evolves:
  assumes ok: "wal_ok s" and snap: "\<forall>r \<in> set snap. tagged s r"
  shows "evolves s (flush_snapshot env snap s)"
proof -
  obtain res committed w where f: "flush_results (re_flush env) snap (rb_world s) = (res, committed, w)"
    by (metis prod.exhaust)
  note rows = flush_results_rows [OF f]
  define s1 where "s1 = s\<lparr>rb_world := w, rb_written := rb_written s @ committed\<rparr>"
  have c: "\<forall>r \<in> set committed. tagged s r" using rows snap by auto
  have e1: "evolves s s1"
    using world_evolves [OF ok c, where buf = "rb_buffer s" and w = w and t = "rb_timer s"] by (simp add: s1_def)
  show ?thesis
  proof (cases res)
    case (Inl e)
    with f e1 show ?thesis by (simp add: flush_snapshot_def s1_def)
  next
    case (Inr okr)
    then have okr: "okr = committed" using rows by blast
    show ?thesis
    proof (cases "remove_flushed okr (rb_buffer s1)")
      case (Inl e)
      with f Inr e1 show ?thesis by (simp add: flush_snapshot_def Let_def s1_def)
    next
      case buf: (Inr buf)
      have b: "set buf \<subseteq> set (rb_buffer s1)" by (rule remove_flushed_subset [OF buf])
      have w1: "wal_ok s1" using e1 by (simp add: evolves_def)
      have "evolves s1 (s1\<lparr>rb_buffer := buf\<rparr>)"
        using world_evolves [OF w1 _ b, where committed = "[]" and w = "rb_world s1" and t = "rb_timer s1"] by simp
      moreover from this have "evolves (s1\<lparr>rb_buffer := buf\<rparr>) (wal_xdel_results (re_xdel env) okr (s1\<lparr>rb_buffer := buf\<rparr>))"
        by (intro xdel_evolves) (auto simp: evolves_def s1_def okr)
      ultimately have "evolves s (wal_xdel_results (re_xdel env) okr (s1\<lparr>rb_buffer := buf\<rparr>))"
        using e1 evolves_trans by blast
      moreover have "flush_snapshot env snap s
          = (if okr = [] then s1 else wal_xdel_results (re_xdel env) okr (s1\<lparr>rb_buffer := buf\<rparr>))"
        using f Inr buf by (simp add: flush_snapshot_def Let_def flip: s1_def)
      ultimately show ?thesis using e1 by simp
    qed
  qed
qed

lemma evolves_ok: "evolves s s' \<Longrightarrow> wal_ok s'"
  by (simp add: evolves_def)

lemma evolves_tagged: "evolves s s' \<Longrightarrow> tagged s r \<Longrightarrow> tagged s' r"
  by (simp add: evolves_def)

lemma buffer_tagged: "wal_ok s \<Longrightarrow> r \<in> set (rb_buffer s) \<Longrightarrow> tagged s r"
  by (simp add: wal_ok_def)

lemma timer_flush_evolves:
  assumes "wal_ok s"
  shows "evolves s (timer_flush env s)"
proof -
  have e: "evolves s (s\<lparr>rb_timer := False\<rparr>)"
    using world_evolves [OF assms, where committed = "[]" and buf = "rb_buffer s" and w = "rb_world s" and t = False]
    by simp
  show ?thesis
    unfolding timer_flush_def
    by (rule evolves_trans [OF e flush_snapshot_evolves [OF evolves_ok [OF e]]])
      (use assms e in \<open>auto intro: evolves_tagged buffer_tagged\<close>)
qed

text \<open>A result with a tag is put into the buffer, whatever the stream does.\<close>

lemma enqueue_tagged_evolves:
  assumes ok: "wal_ok s" and tag: "tagged s it"
  shows "evolves s ((let s2 = s\<lparr>rb_buffer := rb_buffer s @ [it]\<rparr>
     in if length (rb_buffer s2) \<ge> BUFFER_SIZE
        then flush_snapshot env (take BUFFER_SIZE (rb_buffer s2)) (s2\<lparr>rb_timer := False\<rparr>)
        else s2\<lparr>rb_timer := True\<rparr>))"
proof -
  have e: "evolves s (s\<lparr>rb_buffer := rb_buffer s @ [it], rb_timer := t\<rparr>)" for t
    using ok tag by (auto simp: evolves_def wal_ok_def tagged_def)
  let ?s2 = "s\<lparr>rb_buffer := rb_buffer s @ [it], rb_timer := False\<rparr>"
  have "evolves ?s2 (flush_snapshot env (take BUFFER_SIZE (rb_buffer ?s2)) ?s2)"
    by (rule flush_snapshot_evolves [OF evolves_ok [OF e]])
      (use evolves_ok [OF e, of False] buffer_tagged in \<open>auto dest: in_set_takeD\<close>)
  from evolves_trans [OF e this] e show ?thesis by (simp add: Let_def)
qed

lemma write_ahead_evolves:
  assumes ok: "wal_ok s" and "write_ahead env it s = (it', s1)" and room: "length (rb_wal s) < STREAM_MAXLEN"
    and it: "sm_wal it = None \<or> tagged s it"
  shows "evolves s s1 \<and> tagged s1 it' \<and> (sm_wal it = None \<and> re_redis env \<longrightarrow> (\<exists>i. (i, it) \<in> set (rb_wal s1)))"
proof (cases "sm_wal it = None \<and> re_redis env")
  case False
  with assms have "s1 = s" "it' = it"
    by (auto simp: write_ahead_def wal_xadd_result_def Let_def split: if_splits)
  with False it ok show ?thesis by (auto simp: evolves_refl tagged_def)
next
  case True
  with assms(2) room have s1: "s1 = s\<lparr>rb_wal := rb_wal s @ [(rb_next s, it)], rb_next := rb_next s + 1\<rparr>"
    and it': "it' = it\<lparr>sm_wal := Some (rb_next s)\<rparr>"
    by (auto simp: write_ahead_def wal_xadd_result_def Let_def)
  have new: "(rb_next s, x) \<notin> set (rb_wal s)" for x using ok by (auto simp: wal_ok_def)
  have tag: "tagged s r \<Longrightarrow> tagged s1 r" for r by (auto simp: tagged_def s1)
  have "tagged s1 it'" using new by (auto simp: tagged_def s1 it')
  moreover have "wal_ok s1"
    using ok True new tag by (fastforce simp: wal_ok_def s1)
  moreover have "evolves s s1" using \<open>wal_ok s1\<close> tag by (auto simp: evolves_def s1)
  ultimately show ?thesis by (auto simp: s1)
qed

lemma enqueue_result_evolves:
  assumes ok: "wal_ok s" and room: "length (rb_wal s) < STREAM_MAXLEN \<or> sm_wal it \<noteq> None"
    and it: "sm_wal it = None \<or> tagged s it"
  shows "evolves s (enqueue_result env it s)"
proof -
  obtain it' s1 where w: "write_ahead env it s = (it', s1)" by fastforce
  have "evolves s s1 \<and> tagged s1 it'"
  proof (cases "sm_wal it = None")
    case True
    then show ?thesis using write_ahead_evolves [OF ok w _ it] room by blast
  next
    case False
    then show ?thesis using w ok it by (auto simp: write_ahead_def evolves_refl)
  qed
  then show ?thesis
    using w enqueue_tagged_evolves [of s1 it' env] evolves_trans evolves_ok
    by (auto simp: enqueue_result_def)
qed

lemma replay_evolves:
  assumes "wal_ok s" and "\<forall>(i, it) \<in> set es. tagged s (it\<lparr>sm_wal := Some i\<rparr>)"
  shows "evolves s (replay_entries envs es s)"
  using assms
proof (induction envs es s rule: replay_entries.induct)
  case (1 envs s)
  then show ?case by (simp add: evolves_refl)
next
  case (2 envs i it es s)
  let ?s1 = "enqueue_result (envs 0) (it\<lparr>sm_wal := Some i\<rparr>) s"
  have e: "evolves s ?s1" by (rule enqueue_result_evolves) (use 2(2,3) in auto)
  then have "evolves ?s1 (replay_entries (\<lambda>n. envs (Suc n)) es ?s1)"
    using 2(3) by (intro 2(1)) (auto intro: evolves_ok evolves_tagged)
  with e evolves_trans show ?case by simp
qed

lemma entry_tagged:
  assumes "wal_ok s" and e: "(i, it) \<in> set (rb_wal s)"
  shows "tagged s (it\<lparr>sm_wal := Some i\<rparr>)"
proof -
  have d: "distinct (map fst (rb_wal s))" and i: "i < rb_next s" using assms by (auto simp: wal_ok_def)
  have "x = it" if "(i, x) \<in> set (rb_wal s)" for x using eq_key_imp_eq_value [OF d that e] .
  with i show ?thesis unfolding tagged_def by auto
qed

lemma startup_evolves: "wal_ok s \<Longrightarrow> evolves s (wal_replay_on_startup envs s)"
  unfolding wal_replay_on_startup_def
  using entry_tagged by (intro replay_evolves) (auto dest: in_set_takeD)

lemma attempt_evolves:
  assumes ok: "wal_ok s" and rs: "\<forall>r \<in> set rs. tagged s r" and f: "flush_attempt env rs s = (out, s')"
  shows "evolves s s' \<and> (\<forall>rest. out = Inr rest \<longrightarrow> set rest \<subseteq> set rs)"
proof -
  obtain res committed w where b: "flush_results (re_flush env) rs (rb_world s) = (res, committed, w)"
    by (metis prod.exhaust)
  note rows = flush_results_rows [OF b]
  define s1 where "s1 = s\<lparr>rb_world := w, rb_written := rb_written s @ committed\<rparr>"
  have e1: "evolves s s1"
    using world_evolves [OF ok, where committed = committed and buf = "rb_buffer s" and w = w and t = "rb_timer s"]
      rows rs by (auto simp: s1_def)
  have "evolves s1 (wal_xdel_results (re_xdel env) committed s1)"
    by (rule xdel_evolves [OF evolves_ok [OF e1]]) (simp add: s1_def)
  then have e2: "evolves s (wal_xdel_results (re_xdel env) committed s1)" using e1 evolves_trans by blast
  show ?thesis
  proof (cases res)
    case (Inl e)
    with f b e1 show ?thesis by (auto simp: flush_attempt_def Let_def s1_def)
  next
    case (Inr okr)
    then have "okr = committed" using rows by blast
    with f b Inr e1 e2 show ?thesis
      by (auto simp: flush_attempt_def Let_def simp flip: s1_def split: sum.splits elim!: in_set_zipE)
  qed
qed

lemma shutdown_evolves:
  "wal_ok s \<Longrightarrow> \<forall>r \<in> set rs. tagged s r \<Longrightarrow> evolves s (shutdown_attempts envs n rs s)"
proof (induction envs n rs s rule: shutdown_attempts.induct)
  case (1 envs rs s)
  then show ?case by (simp add: evolves_refl)
next
  case (2 envs n rs s)
  obtain out s1 where f: "flush_attempt (envs 0) rs s = (out, s1)" by fastforce
  note at = attempt_evolves [OF 2(2,3) f]
  show ?case
  proof (cases out)
    case (Inl e)
    with f at show ?thesis by simp
  next
    case (Inr rest)
    have "evolves s1 (shutdown_attempts (\<lambda>n. envs (Suc n)) n rest s1)" if "rest \<noteq> []"
      using 2(1) [OF f [symmetric] Inr that] at Inr 2(3) by (auto intro: evolves_ok evolves_tagged)
    with f at Inr evolves_trans show ?thesis by auto
  qed
qed

text \<open>A worker takes results and flushes; besides, it is killed, started and stopped. The stream has room.\<close>

inductive busy_step :: "result_sys \<Rightarrow> result_sys \<Rightarrow> bool" where
  takes: "busy_step s (process_sms_result env it s)"
| ticks: "busy_step s (timer_flush env s)"

inductive result_step :: "result_sys \<Rightarrow> result_sys \<Rightarrow> bool" where
  works: "busy_step s s' \<Longrightarrow> length (rb_wal s) < STREAM_MAXLEN \<Longrightarrow> result_step s s'"
| killed: "result_step s (kill_worker s)"
| started: "result_step s (wal_replay_on_startup envs s)"
| stopped: "result_step s (flush_on_shutdown envs s)"

inductive_cases busy_stepE: "busy_step s s'"

lemma result_step_evolves:
  assumes "result_step s s'" and ok: "wal_ok s"
  shows "evolves s s'"
  using assms(1)
proof cases
  case works
  from works(1) show ?thesis
  proof cases
    case (takes env it)
    then show ?thesis unfolding process_sms_result_def
      using works(2) ok by (auto intro: enqueue_result_evolves)
  next
    case (ticks env)
    with ok show ?thesis by (simp add: timer_flush_evolves)
  qed
next
  case killed
  then show ?thesis
    using world_evolves [OF ok, where committed = "[]" and buf = "[]" and w = "rb_world s" and t = False]
    by (simp add: kill_worker_def)
next
  case (started envs)
  with ok show ?thesis by (simp add: startup_evolves)
next
  case (stopped envs)
  have e: "evolves s (s\<lparr>rb_buffer := []\<rparr>)"
    using world_evolves [OF ok, where committed = "[]" and buf = "[]" and w = "rb_world s" and t = "rb_timer s"]
    by simp
  have "evolves (s\<lparr>rb_buffer := []\<rparr>) (shutdown_attempts envs 3 (rb_buffer s) (s\<lparr>rb_buffer := []\<rparr>))"
    using ok by (intro shutdown_evolves evolves_ok [OF e]) (auto intro: evolves_tagged [OF e] buffer_tagged)
  with stopped e evolves_trans show ?thesis by (auto simp: flush_on_shutdown_def Let_def)
qed

lemma result_steps_evolve: "result_step\<^sup>*\<^sup>* s s' \<Longrightarrow> wal_ok s \<Longrightarrow> evolves s s'"
  by (induction rule: rtranclp_induct)
    (auto intro: evolves_refl evolves_trans dest: evolves_ok result_step_evolves)


section \<open>What a replay does\<close>

lemma apply_result_sent:
  assumes "result_log_id it = Inr k" and "0 < k" and "json_stripped (sm_status it) = Inr (asc ''sent'')"
    and "json_stripped (sm_upstream it) = Inr u" and "result_error it = Inr err"
  shows "apply_result it w = Inr (set_log k (result_row (now w) Sent (if u = [] then None else Some u) err) w)"
proof -
  have "status_named (asc ''sent'') = Some Sent" "asc ''sent'' \<noteq> []" by code_simp+
  with assms show ?thesis by (simp add: apply_result_def)
qed

text \<open>Writing a result twice is not harmless: where the entry could not be deleted from the stream, the
  next start of a worker writes it again, and a message whose delivery report came in between is
  \<open>sent\<close> again, whatever its status was.\<close>

theorem replay_overwrites_report:
  assumes "rb_wal s = [(i, it)]" and "log_by_id (rb_world s) k = Some r"
    and "result_log_id it = Inr k" and "0 < k" and "json_stripped (sm_status it) = Inr (asc ''sent'')"
    and "json_stripped (sm_upstream it) = Inr u" and "result_error it = Inr err"
    and "fe_bulk (re_flush env) = Succeeds"
  shows "\<exists>x. log_by_id (rb_world (timer_flush env (wal_replay_on_startup envs (kill_worker s)))) k = Some x
    \<and> log_status x = Sent \<and> sent_time x = Some (now (rb_world s))"
proof -
  let ?it = "it\<lparr>sm_wal := Some i\<rparr>"
  let ?s = "wal_replay_on_startup envs (kill_worker s)"
  have s: "rb_buffer ?s = [?it]" "rb_world ?s = rb_world s"
    by (simp_all add: wal_replay_on_startup_def REPLAY_COUNT_def kill_worker_def assms(1) enqueue_result_def
        write_ahead_def BUFFER_SIZE_def)
  let ?f = "result_row (now (rb_world s)) Sent (if u = [] then None else Some u) err"
  have "result_error ?it = result_error it" by (simp add: result_error_def cong: if_cong)
  then have "apply_results [?it] (rb_world s) = Inr (set_log k ?f (rb_world s))"
    using apply_result_sent [of ?it k u err] assms(3-7) by (simp add: result_log_id_def)
  then have w: "rb_world (timer_flush env ?s) = set_log k ?f (rb_world s)"
    using s assms(8)
    by (auto simp: timer_flush_def flush_snapshot_def flush_results_def flush_bulk_once_def Let_def
        wal_xdel_results_def split: sum.split)
  have "log_id (?f x) = log_id x" for x by (simp add: result_row_def Let_def)
  then have "log_by_id (set_log k ?f (rb_world s)) k = Some (?f r)"
    using assms(2) by (subst log_by_id_set_log) simp_all
  with w show ?thesis by (simp add: result_row_def Let_def)
qed

section \<open>A result without a number\<close>

lemma apply_results_poison:
  assumes "result_log_id p = Inl e"
  shows "\<exists>e'. apply_results (pre @ p # rest) w = Inl e'"
  by (induction pre arbitrary: w) (auto simp: apply_result_def assms split: sum.split)

lemma one_by_one_poison:
  assumes "result_log_id p = Inl e"
  shows "\<exists>e' c w'. flush_one_by_one ok (pre @ p # rest) w = (Inl e', c, w') \<and> set c \<subseteq> set pre"
proof (induction pre arbitrary: ok w)
  case Nil
  then show ?case using assms by simp
next
  case (Cons r pre)
  obtain e1 c1 w1 where skip: "flush_one_by_one (\<lambda>n. ok (Suc n)) (pre @ p # rest) w = (Inl e1, c1, w1)"
    "set c1 \<subseteq> set pre" using Cons by blast
  have put: "\<exists>e2 c2 w2. flush_one_by_one (\<lambda>n. ok (Suc n)) (pre @ p # rest) x = (Inl e2, c2, w2)
      \<and> set c2 \<subseteq> set pre" for x
    using Cons by blast
  show ?case
  proof (cases "\<exists>j x. result_log_id r = Inr j \<and> 0 < j \<and> ok 0 \<and> apply_result r w = Inr x")
    case True
    then obtain j x where j: "result_log_id r = Inr j" "0 < j" "ok 0" "apply_result r w = Inr x" by blast
    obtain e2 c2 w2 where "flush_one_by_one (\<lambda>n. ok (Suc n)) (pre @ p # rest) x = (Inl e2, c2, w2)"
      "set c2 \<subseteq> set pre" using put by blast
    with j show ?thesis by auto
  next
    case False
    then have "flush_one_by_one ok ((r # pre) @ p # rest) w = (Inl e1, c1, w1)
        \<or> (\<exists>e. flush_one_by_one ok ((r # pre) @ p # rest) w = (Inl e, [], w))"
      using skip(1) by (cases "result_log_id r"; cases "apply_result r w") auto
    then show ?thesis using skip(2) by (auto simp del: flush_one_by_one.simps)
  qed
qed

lemma poison_flush:
  assumes "result_log_id p = Inl e"
  shows "\<exists>w c. flush_snapshot env (pre @ p # rest) s = s\<lparr>rb_world := w, rb_written := rb_written s @ c\<rparr>
    \<and> set c \<subseteq> set pre"
proof -
  have "flush_bulk_once a (pre @ p # rest) w = None" for a w
    using apply_results_poison [OF assms] by (metis flush_bulk_once_def sum.simps(5))
  then have "flush_results (re_flush env) (pre @ p # rest) w
      = flush_one_by_one (fe_row (re_flush env)) (pre @ p # rest) w" for w
    by (simp add: flush_results_def)
  moreover obtain e' c w' where "flush_one_by_one (fe_row (re_flush env)) (pre @ p # rest) (rb_world s)
      = (Inl e', c, w')" "set c \<subseteq> set pre"
    using one_by_one_poison [OF assms] by blast
  ultimately show ?thesis by (intro exI [of _ w'] exI [of _ c]) (simp add: flush_snapshot_def)
qed

lemma poison_step:
  assumes "busy_step s s'" and p: "result_log_id p = Inl e" and len: "length pre < BUFFER_SIZE"
    and buf: "rb_buffer s = pre @ p # post"
  shows "(\<exists>more. rb_buffer s' = pre @ p # post @ more) \<and> set (rb_written s') \<subseteq> set (rb_written s) \<union> set pre"
  using assms(1)
proof cases
  case (takes env it)
  obtain it' s1 where w: "write_ahead env (it\<lparr>sm_wal := None\<rparr>) s = (it', s1)" by fastforce
  then have s1: "rb_buffer s1 = rb_buffer s" "rb_written s1 = rb_written s"
    by (auto simp: write_ahead_def wal_xadd_result_def Let_def split: if_splits)
  obtain k where "BUFFER_SIZE - length pre = Suc k" using len by (metis Suc_pred zero_less_diff)
  then have "take BUFFER_SIZE (pre @ p # post @ [it']) = pre @ p # take k (post @ [it'])" by simp
  moreover obtain x c where "flush_snapshot env (pre @ p # take k (post @ [it']))
        (s1\<lparr>rb_buffer := rb_buffer s1 @ [it'], rb_timer := False\<rparr>)
      = (s1\<lparr>rb_buffer := rb_buffer s1 @ [it'], rb_timer := False\<rparr>)
          \<lparr>rb_world := x, rb_written := rb_written s1 @ c\<rparr>" and "set c \<subseteq> set pre"
    using poison_flush [OF p, of env pre "take k (post @ [it'])"
        "s1\<lparr>rb_buffer := rb_buffer s1 @ [it'], rb_timer := False\<rparr>"] by auto
  ultimately show ?thesis using w s1 buf takes
    by (auto simp: process_sms_result_def enqueue_result_def Let_def simp del: take_append)
next
  case (ticks env)
  with buf poison_flush [OF p, of env pre post "s\<lparr>rb_timer := False\<rparr>"] show ?thesis
    by (auto simp: timer_flush_def)
qed

text \<open>One result whose log id is no number, among the first 200 of the buffer, stops every flush of the
  worker: nothing behind it is ever written, the rows before it are written again and again, and
  the buffer only grows.\<close>

theorem poison_blocks_results:
  assumes "busy_step\<^sup>*\<^sup>* s s'" and "rb_buffer s = pre @ p # post" and "result_log_id p = Inl e"
    and "length pre < BUFFER_SIZE"
  shows "(\<exists>more. rb_buffer s' = pre @ p # post @ more) \<and> set (rb_written s') \<subseteq> set (rb_written s) \<union> set pre"
  using assms(1)
proof (induction rule: rtranclp_induct)
  case base
  then show ?case using assms(2) by auto
next
  case (step s1 s2)
  then obtain more where b: "rb_buffer s1 = pre @ p # (post @ more)" by auto
  from poison_step [OF step(2) assms(3,4) b] step(3) show ?case by auto
qed

section \<open>Money\<close>

lemma apply_result_quiet: "apply_result r w = Inr w' \<Longrightarrow> quiet w w'"
  by (auto simp: apply_result_def result_row_def Let_def split: sum.splits option.splits if_splits
      intro!: set_log_quiet)

lemma apply_results_quiet: "apply_results rs w = Inr w' \<Longrightarrow> quiet w w'"
  by (induction rs w rule: apply_results.induct)
    (auto split: sum.splits intro: quiet_trans apply_result_quiet)

lemma one_by_one_quiet: "flush_one_by_one ok rs w = (res, c, w') \<Longrightarrow> quiet w w'"
proof (induction rs arbitrary: ok w res c w')
  case (Cons r rs)
  then show ?case
    by (auto split: sum.splits if_splits prod.splits intro: quiet_trans apply_result_quiet)
qed simp

lemma flush_results_quiet: "flush_results env rs w = (res, c, w') \<Longrightarrow> quiet w w'"
  by (auto simp: flush_results_def flush_bulk_once_def split: option.splits if_splits sum.splits
      intro: apply_results_quiet one_by_one_quiet)

lemma flush_snapshot_quiet: "quiet (rb_world s) (rb_world (flush_snapshot env snap s))"
  using flush_results_quiet [of "re_flush env" snap "rb_world s"]
  by (auto simp: flush_snapshot_def Let_def wal_xdel_results_def split: prod.split sum.split)

lemma busy_step_quiet: "busy_step s s' \<Longrightarrow> quiet (rb_world s) (rb_world s')"
proof (induction rule: busy_step.induct)
  case (takes s env it)
  obtain it' s1 where w: "write_ahead env (it\<lparr>sm_wal := None\<rparr>) s = (it', s1)" by fastforce
  then have "rb_world s1 = rb_world s"
    by (auto simp: write_ahead_def wal_xadd_result_def Let_def split: if_splits)
  then show ?case using w flush_snapshot_quiet [of "s1\<lparr>rb_buffer := b, rb_timer := False\<rparr>" for b]
    by (auto simp: process_sms_result_def enqueue_result_def Let_def)
next
  case (ticks s env)
  show ?case using flush_snapshot_quiet [of "s\<lparr>rb_timer := False\<rparr>"] by (simp add: timer_flush_def)
qed

section \<open>Examples\<close>

definition demo_result :: "json \<Rightarrow> sms_result" where
  "demo_result i = \<lparr>sm_log_id = i, sm_status = JStr (asc ''sent''), sm_upstream = JStr (asc ''u1''),
     sm_error = JNull, sm_wal = None\<rparr>"

definition demo_result_env :: result_env where
  "demo_result_env = \<lparr>re_redis = True, re_excess = 0,
     re_flush = \<lparr>fe_bulk = Succeeds, fe_again = Succeeds, fe_row = \<lambda>_. True\<rparr>, re_xdel = False\<rparr>"

text \<open>Message 5 has been reported as delivered; the entry of its result could not be deleted.\<close>

definition demo_results :: result_sys where
  "demo_results = \<lparr>rb_world = empty_world\<lparr>sms_logs := [(new_sms_log 5 (asc ''m'') 1 [])\<lparr>log_status := Delivered\<rparr>]\<rparr>,
     rb_buffer = [], rb_timer = False, rb_wal = [(0, demo_result (JNum 5))], rb_next = 1, rb_written = []\<rparr>"

lemma demo_results_ok: "wal_ok demo_results"
  by (simp add: wal_ok_def demo_results_def demo_result_def)


lemma demo_result_reads:
  "result_log_id (demo_result (JNum 5)) = Inr 5"
  "json_stripped (sm_status (demo_result (JNum 5))) = Inr (asc ''sent'')"
  "json_stripped (sm_upstream (demo_result (JNum 5))) = Inr (asc ''u1'')"
  "result_error (demo_result (JNum 5)) = Inr (Some [])"
  by code_simp+

theorem replay_overwrites_report_witness:
  "\<exists>x. log_by_id (rb_world (timer_flush demo_result_env
       (wal_replay_on_startup (\<lambda>_. demo_result_env) (kill_worker demo_results)))) 5 = Some x \<and> log_status x = Sent"
proof -
  have w: "rb_wal demo_results = [(0, demo_result (JNum 5))]" by (simp add: demo_results_def)
  have r: "log_by_id (rb_world demo_results) 5 = Some ((new_sms_log 5 (asc ''m'') 1 [])\<lparr>log_status := Delivered\<rparr>)"
    by (simp add: demo_results_def empty_world_def log_by_id_def new_sms_log_def)
  have "fe_bulk (re_flush demo_result_env) = Succeeds" by (simp add: demo_result_env_def)
  from replay_overwrites_report [OF w r demo_result_reads(1) _ demo_result_reads(2,3,4) this] show ?thesis by auto
qed

theorem poison_blocks_results_witness:
  "\<exists>s s'. busy_step s s' \<and> s \<noteq> s' \<and> (\<exists>more. rb_buffer s' = demo_result (JStr (asc ''x'')) # more)"
proof -
  let ?p = "demo_result (JStr (asc ''x''))"
  let ?s = "demo_results\<lparr>rb_buffer := [?p], rb_timer := True\<rparr>"
  have p: "result_log_id ?p = Inl ValueError" by code_simp
  have b: "rb_buffer ?s = [] @ ?p # []" by simp
  let ?s' = "timer_flush demo_result_env ?s"
  have st: "busy_step ?s ?s'" by (rule busy_step.ticks)
  then have "busy_step\<^sup>*\<^sup>* ?s ?s'" by blast
  from poison_blocks_results [OF this b p] have "\<exists>more. rb_buffer ?s' = ?p # more" by (auto simp: BUFFER_SIZE_def)
  moreover have "rb_timer ?s' = False"
    using poison_flush [OF p, of demo_result_env "[]" "[]" "?s\<lparr>rb_timer := False\<rparr>"]
    by (auto simp: timer_flush_def)
  then have "rb_timer ?s \<noteq> rb_timer ?s'" by simp
  then have "?s \<noteq> ?s'" by metis
  ultimately show ?thesis using st by blast
qed

end
