(* ===== verification/Expiry.thy ===== *)
theory Expiry
  imports Quiet
begin

text \<open>
  \<open>dlr_timeout_check_task\<close> of \<open>backend/app/workers/sms_worker.py\<close>, every ten minutes: messages that wait
  too long for a report or for the answer to their submission become \<open>expired\<close>. \<open>_expire_in_chunks\<close>
  takes any list of SQL conditions; its three callers are the constructors of \<open>expiry_rule\<close>. The
  rows are taken in table order, a chunk is a number of rows of at least one, times are seconds.
\<close>

section \<open>Expiring in chunks\<close>

datatype expiry_rule =
    ReportOverdue int int
  | StrayOverdue "int list" int
  | AnswerLost int int

definition before :: "int \<Rightarrow> int option \<Rightarrow> bool" where
  "before cutoff t = (case t of None \<Rightarrow> False | Some x \<Rightarrow> x < cutoff)"

fun overdue :: "expiry_rule \<Rightarrow> sms_log \<Rightarrow> bool" where
  "overdue (ReportOverdue chan cutoff) r \<longleftrightarrow>
     log_channel_id r = Some chan \<and> log_status r = Sent \<and> before cutoff (sent_time r)"
| "overdue (StrayOverdue chans cutoff) r \<longleftrightarrow>
     log_status r = Sent \<and> before cutoff (sent_time r)
     \<and> (chans = [] \<or> (case log_channel_id r of None \<Rightarrow> True | Some c \<Rightarrow> c \<notin> set chans))"
| "overdue (AnswerLost chan cutoff) r \<longleftrightarrow>
     log_channel_id r = Some chan \<and> log_status r \<in> {Queued, Pending} \<and> sent_time r = None
     \<and> submit_time r < cutoff"

definition expire_row :: "pystr \<Rightarrow> sms_log \<Rightarrow> sms_log" where
  "expire_row msg r = r\<lparr>log_status := Expired, log_error_message := Some msg\<rparr>"

definition select_ids :: "nat \<Rightarrow> expiry_rule \<Rightarrow> world \<Rightarrow> int list" where
  "select_ids chunk rule w = map log_id (take chunk (filter (overdue rule) (sms_logs w)))"

text \<open>The update looks at the primary key only.\<close>

definition expire_ids :: "int list \<Rightarrow> pystr \<Rightarrow> world \<Rightarrow> nat \<times> world" where
  "expire_ids ids msg w =
     (rowcount (\<lambda>r. log_id r \<in> set ids) (sms_logs w),
      w\<lparr>sms_logs := upd_where (\<lambda>r. log_id r \<in> set ids) (expire_row msg) (sms_logs w)\<rparr>)"

lemma expired_matches_nothing [simp]: "\<not> overdue rule (expire_row msg r)"
  by (cases rule) (simp_all add: expire_row_def)

lemma expire_row_keys [simp]:
  "log_id (expire_row msg r) = log_id r" "log_status (expire_row msg r) = Expired"
  "log_account_id (expire_row msg r) = log_account_id r" "log_batch_id (expire_row msg r) = log_batch_id r"
  "refunded_at (expire_row msg r) = refunded_at r" "refunded_amount (expire_row msg r) = refunded_amount r"
  by (simp_all add: expire_row_def)

text \<open>What an update leaves to match; it never adds, and it takes away what was selected.\<close>

lemma filter_expired:
  "filter (overdue rule) (upd_where p (expire_row msg) t) = filter (\<lambda>r. overdue rule r \<and> \<not> p r) t"
  by (induction t) auto

lemma length_filter_strict:
  assumes "x \<in> set t" and "P x" and "p x"
  shows "length (filter (\<lambda>r. P r \<and> \<not> p r) t) < length (filter P t)"
proof -
  have "filter (\<lambda>r. P r \<and> \<not> p r) t = filter (\<lambda>r. \<not> p r) (filter P t)" by (simp add: conj_commute)
  moreover have "x \<in> set (filter P t)" using assms by simp
  ultimately show ?thesis using length_filter_less [of x "filter P t" "\<lambda>r. \<not> p r"] assms(3) by simp
qed

function expire_in_chunks :: "nat \<Rightarrow> expiry_rule \<Rightarrow> pystr \<Rightarrow> world \<Rightarrow> nat \<times> world" where
  "expire_in_chunks chunk rule msg w =
     (let ids = select_ids chunk rule w
      in if ids = [] then (0, w)
         else let (n, w1) = expire_ids ids msg w
              in if length ids < chunk then (n, w1)
                 else let (m, w2) = expire_in_chunks chunk rule msg w1 in (n + m, w2))"
  by pat_completeness auto
termination
proof (relation "measure (\<lambda>(chunk, rule, msg, w). rowcount (overdue rule) (sms_logs w))")
  fix chunk rule msg w and ids :: "int list" and x and n :: nat and w1 :: world
  assume ids: "ids = select_ids chunk rule w" "ids \<noteq> []" and x: "x = expire_ids ids msg w" "(n, w1) = x"
  from ids have "take chunk (filter (overdue rule) (sms_logs w)) \<noteq> []" by (simp add: select_ids_def)
  then obtain r where r: "r \<in> set (take chunk (filter (overdue rule) (sms_logs w)))"
    using list.set_sel(1) by blast
  then have "r \<in> set (sms_logs w)" "overdue rule r" "log_id r \<in> set ids"
    using ids(1) by (auto simp: select_ids_def dest: in_set_takeD)
  then have "rowcount (overdue rule) (sms_logs w1) < rowcount (overdue rule) (sms_logs w)"
    using x length_filter_strict [of r "sms_logs w" "overdue rule" "\<lambda>r. log_id r \<in> set ids"]
    by (simp add: expire_ids_def rowcount_def filter_expired)
  then show "((chunk, rule, msg, w1), chunk, rule, msg, w)
      \<in> measure (\<lambda>(chunk, rule, msg, w). rowcount (overdue rule) (sms_logs w))" by simp
qed simp

declare expire_in_chunks.simps [simp del]

section \<open>Chunks make no difference\<close>

definition expire_where :: "(sms_log \<Rightarrow> bool) \<Rightarrow> pystr \<Rightarrow> world \<Rightarrow> world" where
  "expire_where p msg w = w\<lparr>sms_logs := upd_where p (expire_row msg) (sms_logs w)\<rparr>"

lemma expire_where_frame [simp]:
  "channels (expire_where p msg w) = channels w" "now (expire_where p msg w) = now w"
  "sms_batches (expire_where p msg w) = sms_batches w" "accounts (expire_where p msg w) = accounts w"
  "map log_id (sms_logs (expire_where p msg w)) = map log_id (sms_logs w)"
  by (simp_all add: expire_where_def map_upd_where)

text \<open>The rows with the selected keys are the selected rows.\<close>

lemma selected_rows:
  assumes "distinct (map log_id t)" and "r \<in> set t" and "set sel \<subseteq> set t"
  shows "log_id r \<in> log_id ` set sel \<longleftrightarrow> r \<in> set sel"
  using assms(2,3) inj_onD [of log_id "set t"] assms(1) by (auto simp: distinct_map)

lemma upd_where_cong_on: "(\<And>r. r \<in> set t \<Longrightarrow> p r = q r) \<Longrightarrow> upd_where p f t = upd_where q f t"
  by (simp add: upd_where_def)

lemma expire_ids_selected:
  assumes d: "distinct (map log_id (sms_logs w))" and s: "set sel \<subseteq> set (sms_logs w)"
  shows "expire_ids (map log_id sel) msg w = (rowcount (\<lambda>r. r \<in> set sel) (sms_logs w), expire_where (\<lambda>r. r \<in> set sel) msg w)"
proof -
  have "log_id r \<in> set (map log_id sel) \<longleftrightarrow> r \<in> set sel" if "r \<in> set (sms_logs w)" for r
    using selected_rows [OF d that s] by simp
  then have "rowcount (\<lambda>r. log_id r \<in> set (map log_id sel)) (sms_logs w) = rowcount (\<lambda>r. r \<in> set sel) (sms_logs w)"
    "upd_where (\<lambda>r. log_id r \<in> set (map log_id sel)) (expire_row msg) (sms_logs w)
       = upd_where (\<lambda>r. r \<in> set sel) (expire_row msg) (sms_logs w)"
    unfolding rowcount_def by (auto cong: filter_cong intro!: upd_where_cong_on)
  then show ?thesis by (simp add: expire_ids_def expire_where_def)
qed

lemma rowcount_split:
  "set sel \<subseteq> {r. P r} \<Longrightarrow> rowcount (\<lambda>r. r \<in> set sel) t + rowcount (\<lambda>r. P r \<and> r \<notin> set sel) t = rowcount P t"
  by (induction t) (auto simp: rowcount_def)

text \<open>Selecting and updating in chunks is one update of every matching row, with its row count.\<close>

lemma expire_in_chunks_eq:
  assumes "0 < chunk" and "distinct (map log_id (sms_logs w))"
  shows "expire_in_chunks chunk rule msg w =
    (rowcount (overdue rule) (sms_logs w), expire_where (overdue rule) msg w)"
  using assms
proof (induction chunk rule msg w rule: expire_in_chunks.induct)
  case (1 chunk rule msg w)
  let ?P = "overdue rule" and ?t = "sms_logs w"
  let ?sel = "take chunk (filter ?P ?t)"
  have ids: "select_ids chunk rule w = map log_id ?sel" by (simp add: select_ids_def)
  have sub: "set ?sel \<subseteq> set (filter ?P ?t)" by (rule set_take_subset)
  show ?case
  proof (cases "?sel = []")
    case True
    then have "filter ?P ?t = []" using 1(2) by simp
    then have "rowcount ?P ?t = 0" by (simp add: rowcount_def)
    with True show ?thesis
      by (simp add: expire_in_chunks.simps [of chunk rule msg w] ids expire_where_def upd_where_none)
  next
    case False
    let ?q = "\<lambda>r. r \<in> set ?sel" and ?n = "rowcount (\<lambda>r. r \<in> set ?sel) ?t"
    have e: "expire_ids (map log_id ?sel) msg w = (?n, expire_where ?q msg w)"
      using expire_ids_selected [OF 1(3), of ?sel msg] sub by auto
    have sum: "?n + rowcount (\<lambda>r. ?P r \<and> r \<notin> set ?sel) ?t = rowcount ?P ?t"
      using sub by (intro rowcount_split) auto
    show ?thesis
    proof (cases "length ?sel < chunk")
      case True
      then have all: "?sel = filter ?P ?t" and "length (filter ?P ?t) < chunk" by (simp_all add: min_def split: if_splits)
      then have q: "r \<in> set ?t \<Longrightarrow> ?q r = ?P r" for r by auto
      have "expire_where ?q msg w = expire_where ?P msg w" "?n = rowcount ?P ?t"
        using q upd_where_cong_on [of ?t ?q ?P] by (simp_all add: expire_where_def rowcount_def cong: filter_cong)
      with \<open>length (filter ?P ?t) < chunk\<close> False e all show ?thesis
        by (simp add: expire_in_chunks.simps [of chunk rule msg w] ids)
    next
      case full: False
      have d: "distinct (map log_id (sms_logs (expire_where ?q msg w)))" using 1(3) by simp
      have "expire_in_chunks chunk rule msg (expire_where ?q msg w) =
          (rowcount ?P (sms_logs (expire_where ?q msg w)), expire_where ?P msg (expire_where ?q msg w))"
        by (rule 1(1) [OF ids [symmetric] _ e [symmetric] refl _ 1(2) d]) (use False full in auto)
      moreover have "rowcount ?P (sms_logs (expire_where ?q msg w)) = rowcount (\<lambda>r. ?P r \<and> r \<notin> set ?sel) ?t"
        by (simp add: expire_where_def rowcount_def filter_expired)
      moreover have "expire_where ?P msg (expire_where ?q msg w) = expire_where ?P msg w"
      proof -
        have "upd_where ?P (expire_row msg) (upd_where ?q (expire_row msg) ?t) = upd_where ?P (expire_row msg) ?t"
          using sub by (auto simp: upd_where_def)
        then show ?thesis by (simp add: expire_where_def)
      qed
      ultimately show ?thesis using False full e sum
        by (simp add: expire_in_chunks.simps [of chunk rule msg w] ids)
    qed
  qed
qed


section \<open>The task\<close>

text \<open>A setting of 0 counts as none, and so does a channel's value that is not positive.\<close>

definition clamp_hours :: "int \<Rightarrow> int" where
  "clamp_hours h = max 4 (min h 720)"

definition default_hours :: "int \<Rightarrow> int" where
  "default_hours setting = clamp_hours (if setting = 0 then 72 else setting)"

definition channel_hours :: "int \<Rightarrow> int option \<Rightarrow> int" where
  "channel_hours dh custom =
     clamp_hours (case custom of None \<Rightarrow> dh | Some c \<Rightarrow> if 0 < c then c else dh)"

definition cutoff_at :: "int \<Rightarrow> world \<Rightarrow> int" where
  "cutoff_at h w = now w - 3600 * h"

definition overdue_text :: "int \<Rightarrow> pystr" where
  "overdue_text h = asc ''DLR '' @ [36229, 26102] @ asc '': '' @ [36229, 36807] @ text_of_int h
     @ [23567, 26102, 26410, 25910, 21040, 32456, 24577, 22238, 25191]"

definition LOST_TEXT :: pystr where
  "LOST_TEXT = asc ''SMPP SubmitSMResp'' @ [20002, 22833] @ asc '': ''
     @ [20250, 35805, 26029, 36830, 25110, 28040, 36153, 36229, 26102, 65292, 36229, 26102, 26631, 35760]"

definition SMPP_SUBMIT_RESP_TIMEOUT_HOURS :: int where
  "SMPP_SUBMIT_RESP_TIMEOUT_HOURS = 2"

definition listed_channels :: "world \<Rightarrow> (int \<times> int option) list" where
  "listed_channels w = map (\<lambda>c. (ch_id c, dlr_sent_timeout_hours c)) (filter (\<lambda>c. \<not> ch_is_deleted c) (channels w))"

fun expire_channels :: "nat \<Rightarrow> int \<Rightarrow> (int \<times> int option) list \<Rightarrow> world \<Rightarrow> nat \<times> world" where
  "expire_channels chunk dh [] w = (0, w)"
| "expire_channels chunk dh ((c, custom) # cs) w =
     (let h = channel_hours dh custom;
          (n, w1) = expire_in_chunks chunk (ReportOverdue c (cutoff_at h w)) (overdue_text h) w;
          (m, w2) = expire_channels chunk dh cs w1
      in (n + m, w2))"

fun expire_unanswered :: "nat \<Rightarrow> (int \<times> int option) list \<Rightarrow> world \<Rightarrow> nat \<times> world" where
  "expire_unanswered chunk [] w = (0, w)"
| "expire_unanswered chunk ((c, custom) # cs) w =
     (let (n, w1) = expire_in_chunks chunk (AnswerLost c (cutoff_at SMPP_SUBMIT_RESP_TIMEOUT_HOURS w)) LOST_TEXT w;
          (m, w2) = expire_unanswered chunk cs w1
      in (n + m, w2))"

definition dlr_timeout_check :: "int \<Rightarrow> nat \<Rightarrow> world \<Rightarrow> nat \<times> world" where
  "dlr_timeout_check setting chunk w =
     (let dh = default_hours setting; rows = listed_channels w;
          (n, w1) = expire_channels chunk dh rows w;
          (m, w2) = expire_in_chunks chunk (StrayOverdue (map fst rows) (cutoff_at dh w1)) (overdue_text dh) w1;
          (lost, w3) = expire_unanswered chunk rows w2
      in (n + m, w3))"

section \<open>Every row on its own\<close>

text \<open>One rule after the other is the first rule that matches a row.\<close>

definition first_rule :: "(expiry_rule \<times> pystr) list \<Rightarrow> sms_log \<Rightarrow> sms_log" where
  "first_rule rules r = (case find (\<lambda>(rule, msg). overdue rule r) rules of
                           None \<Rightarrow> r | Some (rule, msg) \<Rightarrow> expire_row msg r)"

definition expire_rows :: "(expiry_rule \<times> pystr) list \<Rightarrow> world \<Rightarrow> world" where
  "expire_rows rules w = w\<lparr>sms_logs := map (first_rule rules) (sms_logs w)\<rparr>"

lemma expire_rows_Nil [simp]: "expire_rows [] w = w"
proof -
  have "map (first_rule []) (sms_logs w) = sms_logs w" by (rule map_idI) (simp add: first_rule_def)
  then show ?thesis by (simp add: expire_rows_def)
qed

lemma first_rule_expired [simp]: "first_rule rules (expire_row msg r) = expire_row msg r"
proof -
  have "find (\<lambda>(rule, m). overdue rule (expire_row msg r)) rules = None" by (auto simp: find_None_iff)
  then show ?thesis by (simp add: first_rule_def)
qed

lemma expire_rows_Cons: "expire_rows rules (expire_where (overdue rule) msg w) = expire_rows ((rule, msg) # rules) w"
proof -
  have "first_rule rules (if overdue rule r then expire_row msg r else r) = first_rule ((rule, msg) # rules) r" for r
    by (cases "overdue rule r") (simp_all, simp_all add: first_rule_def)
  then show ?thesis by (simp add: expire_rows_def expire_where_def upd_where_def)
qed

lemma expire_rows_append: "expire_rows bs (expire_rows as w) = expire_rows (as @ bs) w"
proof (induction as arbitrary: w)
  case (Cons a as)
  obtain rule msg where "a = (rule, msg)" by fastforce
  then show ?case using Cons [of "expire_where (overdue rule) msg w"] by (simp add: expire_rows_Cons)
qed simp

lemma first_rule_key [simp]: "log_id (first_rule rules r) = log_id r"
  by (auto simp: first_rule_def split: option.split)

lemma expire_rows_frame [simp]:
  "channels (expire_rows rules w) = channels w" "now (expire_rows rules w) = now w"
  "sms_batches (expire_rows rules w) = sms_batches w" "accounts (expire_rows rules w) = accounts w"
  "map log_id (sms_logs (expire_rows rules w)) = map log_id (sms_logs w)"
  by (simp_all add: expire_rows_def)

definition channel_rules :: "int \<Rightarrow> int \<Rightarrow> (int \<times> int option) list \<Rightarrow> (expiry_rule \<times> pystr) list" where
  "channel_rules t dh cs = map (\<lambda>(c, custom). (ReportOverdue c (t - 3600 * channel_hours dh custom),
                                               overdue_text (channel_hours dh custom))) cs"

definition lost_rules :: "int \<Rightarrow> (int \<times> int option) list \<Rightarrow> (expiry_rule \<times> pystr) list" where
  "lost_rules t cs = map (\<lambda>(c, custom). (AnswerLost c (t - 7200), LOST_TEXT)) cs"

lemma expire_channels_eq:
  assumes "0 < chunk" and "distinct (map log_id (sms_logs w))"
  shows "snd (expire_channels chunk dh cs w) = expire_rows (channel_rules (now w) dh cs) w"
  using assms(2)
proof (induction cs arbitrary: w)
  case (Cons a cs)
  obtain c custom where "a = (c, custom)" by fastforce
  then show ?case
    using Cons.IH [of "expire_where (overdue (ReportOverdue c (cutoff_at (channel_hours dh custom) w)))
        (overdue_text (channel_hours dh custom)) w"] Cons.prems
    by (simp add: Let_def expire_in_chunks_eq [OF assms(1)] channel_rules_def split_beta cutoff_at_def expire_rows_Cons)
qed (simp add: channel_rules_def)

lemma expire_unanswered_eq:
  assumes "0 < chunk" and "distinct (map log_id (sms_logs w))"
  shows "snd (expire_unanswered chunk cs w) = expire_rows (lost_rules (now w) cs) w"
  using assms(2)
proof (induction cs arbitrary: w)
  case (Cons a cs)
  obtain c custom where "a = (c, custom)" by fastforce
  then show ?case
    using Cons.IH [of "expire_where (overdue (AnswerLost c (cutoff_at 2 w))) LOST_TEXT w"] Cons.prems
    by (simp add: Let_def expire_in_chunks_eq [OF assms(1)] lost_rules_def split_beta cutoff_at_def
        SMPP_SUBMIT_RESP_TIMEOUT_HOURS_def expire_rows_Cons)
qed (simp add: lost_rules_def)

lemma timeout_check_rules:
  assumes "0 < chunk" and "distinct (map log_id (sms_logs w))"
  shows "snd (dlr_timeout_check setting chunk w) =
    expire_rows (channel_rules (now w) (default_hours setting) (listed_channels w)
      @ (StrayOverdue (map fst (listed_channels w)) (now w - 3600 * default_hours setting),
         overdue_text (default_hours setting)) # lost_rules (now w) (listed_channels w)) w"
proof -
  let ?dh = "default_hours setting" and ?cs = "listed_channels w"
  let ?A = "channel_rules (now w) ?dh ?cs"
  let ?stray = "StrayOverdue (map fst ?cs) (now w - 3600 * ?dh)"
  let ?w1 = "expire_rows ?A w"
  let ?w2 = "expire_where (overdue ?stray) (overdue_text ?dh) ?w1"
  have d: "distinct (map log_id (sms_logs ?w1))" "distinct (map log_id (sms_logs ?w2))" using assms(2) by simp_all
  have "snd (dlr_timeout_check setting chunk w) = snd (expire_unanswered chunk ?cs ?w2)"
    using expire_channels_eq [OF assms, of ?dh ?cs] expire_in_chunks_eq [OF assms(1) d(1)]
    by (simp add: dlr_timeout_check_def Let_def split_beta cutoff_at_def)
  also have "\<dots> = expire_rows (lost_rules (now w) ?cs) ?w2"
    using expire_unanswered_eq [OF assms(1) d(2)] by simp
  also have "\<dots> = expire_rows ((?stray, overdue_text ?dh) # lost_rules (now w) ?cs) ?w1"
    by (rule expire_rows_Cons)
  finally show ?thesis by (simp add: expire_rows_append)
qed


text \<open>The specification: what becomes of one row, whatever the others are.\<close>

definition wait_hours :: "int \<Rightarrow> world \<Rightarrow> sms_log \<Rightarrow> int" where
  "wait_hours setting w r =
     (case log_channel_id r of
        None \<Rightarrow> default_hours setting
      | Some c \<Rightarrow> (case map_of (listed_channels w) c of
                     None \<Rightarrow> default_hours setting
                   | Some custom \<Rightarrow> channel_hours (default_hours setting) custom))"

definition expiry_text :: "int \<Rightarrow> world \<Rightarrow> sms_log \<Rightarrow> pystr option" where
  "expiry_text setting w r =
     (if log_status r = Sent then
        (if before (now w - 3600 * wait_hours setting w r) (sent_time r)
         then Some (overdue_text (wait_hours setting w r)) else None)
      else if log_status r \<in> {Queued, Pending} \<and> sent_time r = None \<and> submit_time r < now w - 7200
              \<and> (case log_channel_id r of None \<Rightarrow> False | Some c \<Rightarrow> map_of (listed_channels w) c \<noteq> None)
      then Some LOST_TEXT else None)"

definition expire_as :: "(sms_log \<Rightarrow> pystr option) \<Rightarrow> sms_log \<Rightarrow> sms_log" where
  "expire_as f r = (case f r of None \<Rightarrow> r | Some msg \<Rightarrow> expire_row msg r)"

lemma find_append: "find P (xs @ ys) = (case find P xs of None \<Rightarrow> find P ys | Some x \<Rightarrow> Some x)"
  by (induction xs) simp_all

lemma find_channel_rules:
  "distinct (map fst cs) \<Longrightarrow> find (\<lambda>(rule, msg). overdue rule r) (channel_rules t dh cs) =
     (case log_channel_id r of
        None \<Rightarrow> None
      | Some c \<Rightarrow>
          (case map_of cs c of
             None \<Rightarrow> None
           | Some custom \<Rightarrow>
               (let h = channel_hours dh custom
                in if log_status r = Sent \<and> before (t - 3600 * h) (sent_time r)
                   then Some (ReportOverdue c (t - 3600 * h), overdue_text h) else None)))"
  by (induction cs) (auto simp: channel_rules_def Let_def image_iff dest: map_of_SomeD split: option.splits)

lemma find_lost_rules:
  "map_option snd (find (\<lambda>(rule, msg). overdue rule r) (lost_rules t cs)) =
     (if log_status r \<in> {Queued, Pending} \<and> sent_time r = None \<and> submit_time r < t - 7200
         \<and> (case log_channel_id r of None \<Rightarrow> False | Some c \<Rightarrow> map_of cs c \<noteq> None)
      then Some LOST_TEXT else None)"
  by (induction cs) (auto simp: lost_rules_def split: option.splits)

lemma first_rule_as: "first_rule rules = expire_as (\<lambda>r. map_option snd (find (\<lambda>(rule, msg). overdue rule r) rules))"
  by (rule ext) (auto simp: first_rule_def expire_as_def split: option.split)

lemma find_rules_text:
  assumes "distinct (map fst (listed_channels w))"
  shows "map_option snd (find (\<lambda>(rule, msg). overdue rule r)
     (channel_rules (now w) (default_hours setting) (listed_channels w)
      @ (StrayOverdue (map fst (listed_channels w)) (now w - 3600 * default_hours setting),
         overdue_text (default_hours setting)) # lost_rules (now w) (listed_channels w))) = expiry_text setting w r"
proof -
  have out: "chan \<notin> fst ` set (listed_channels w) \<longleftrightarrow> map_of (listed_channels w) chan = None" for chan
    by (simp add: map_of_eq_None_iff)
  show ?thesis
    using find_lost_rules [of r "now w" "listed_channels w"]
    by (auto simp: find_append find_channel_rules [OF assms] expiry_text_def wait_hours_def Let_def out
        split: option.splits)
qed


lemma rowcount_then:
  assumes "\<And>r. \<not> Q (expire_row msg r)"
  shows "rowcount P t + rowcount Q (upd_where P (expire_row msg) t) = rowcount (\<lambda>r. P r \<or> Q r) t"
  using assms by (induction t) (auto simp: rowcount_def)

definition some_rule :: "(expiry_rule \<times> pystr) list \<Rightarrow> sms_log \<Rightarrow> bool" where
  "some_rule rules r \<longleftrightarrow> find (\<lambda>(rule, msg). overdue rule r) rules \<noteq> None"

lemma some_rule_expired [simp]: "\<not> some_rule rules (expire_row msg r)"
  by (auto simp: some_rule_def find_None_iff)

lemma some_rule_Cons: "some_rule ((rule, msg) # rules) r \<longleftrightarrow> overdue rule r \<or> some_rule rules r"
  by (simp add: some_rule_def)

lemma rowcount_rules_then:
  "rowcount (some_rule rules) t + rowcount (overdue rule) (map (first_rule rules) t)
     = rowcount (\<lambda>r. some_rule rules r \<or> overdue rule r) t"
  by (induction t) (auto simp: rowcount_def first_rule_def some_rule_def split: option.splits)

lemma expire_channels_count:
  assumes "0 < chunk" and "distinct (map log_id (sms_logs w))"
  shows "fst (expire_channels chunk dh cs w) = rowcount (some_rule (channel_rules (now w) dh cs)) (sms_logs w)"
  using assms(2)
proof (induction cs arbitrary: w)
  case (Cons a cs)
  obtain c custom where a: "a = (c, custom)" by fastforce
  let ?h = "channel_hours dh custom"
  let ?rule = "ReportOverdue c (now w - 3600 * ?h)"
  have "channel_rules (now w) dh (a # cs) = (?rule, overdue_text ?h) # channel_rules (now w) dh cs"
    by (simp add: channel_rules_def a)
  then have "some_rule (channel_rules (now w) dh (a # cs)) = (\<lambda>r. overdue ?rule r \<or> some_rule (channel_rules (now w) dh cs) r)"
    by (auto simp: some_rule_Cons)
  moreover have "distinct (map log_id (sms_logs (expire_where (overdue ?rule) (overdue_text ?h) w)))"
    using Cons.prems by simp
  note Cons.IH [OF this]
  ultimately show ?case
    using Cons.prems rowcount_then [of "some_rule (channel_rules (now w) dh cs)" "overdue_text ?h" "overdue ?rule" "sms_logs w"]
    by (simp add: a Let_def expire_in_chunks_eq [OF assms(1)] split_beta cutoff_at_def expire_where_def del: overdue.simps)
qed (simp add: channel_rules_def some_rule_def rowcount_def)

lemma listed_distinct: "distinct (map ch_id (channels w)) \<Longrightarrow> distinct (map fst (listed_channels w))"
  by (simp add: listed_channels_def comp_def distinct_map_filter)

text \<open>C9: The check, with its one pass for every channel, one for stray messages and one more for every channel,
  each in chunks of any size, treats every message on its own: a \<open>sent\<close> message expires when it has
  waited longer for its report than its channel allows, a queued or pending one of a live channel two
  hours after its submission, nothing else changes, and the count is that of the expired \<open>sent\<close> ones.\<close>

theorem timeout_check_rowwise:
  assumes "0 < chunk" and "distinct (map log_id (sms_logs w))" and "distinct (map ch_id (channels w))"
  shows "dlr_timeout_check setting chunk w =
    (rowcount (\<lambda>r. log_status r = Sent \<and> expiry_text setting w r \<noteq> None) (sms_logs w),
     w\<lparr>sms_logs := map (expire_as (expiry_text setting w)) (sms_logs w)\<rparr>)"
proof -
  let ?dh = "default_hours setting" and ?cs = "listed_channels w"
  let ?A = "channel_rules (now w) ?dh ?cs" and ?stray = "StrayOverdue (map fst ?cs) (now w - 3600 * ?dh)"
  let ?w1 = "expire_rows ?A w"
  note d = listed_distinct [OF assms(3)]
  have w': "snd (dlr_timeout_check setting chunk w) = w\<lparr>sms_logs := map (expire_as (expiry_text setting w)) (sms_logs w)\<rparr>"
    by (simp add: timeout_check_rules [OF assms(1,2)] expire_rows_def first_rule_as find_rules_text [OF d])
  have "fst (dlr_timeout_check setting chunk w) = rowcount (some_rule ?A) (sms_logs w) + rowcount (overdue ?stray) (sms_logs ?w1)"
    using expire_channels_eq [OF assms(1,2), of ?dh ?cs] expire_channels_count [OF assms(1,2), of ?dh ?cs]
      expire_in_chunks_eq [OF assms(1), of ?w1] assms(2)
    by (simp add: dlr_timeout_check_def Let_def split_beta cutoff_at_def)
  moreover have "rowcount (some_rule ?A) (sms_logs w) + rowcount (overdue ?stray) (sms_logs ?w1)
      = rowcount (\<lambda>r. some_rule ?A r \<or> overdue ?stray r) (sms_logs w)"
    using rowcount_rules_then by (simp add: expire_rows_def)
  moreover have "some_rule ?A r \<or> overdue ?stray r \<longleftrightarrow> log_status r = Sent \<and> expiry_text setting w r \<noteq> None" for r
  proof -
    have out: "chan \<notin> fst ` set ?cs \<longleftrightarrow> map_of ?cs chan = None" for chan by (simp add: map_of_eq_None_iff)
    show ?thesis
      by (auto simp: some_rule_def find_channel_rules [OF d] expiry_text_def wait_hours_def Let_def out
          split: option.splits)
  qed
  then have "(\<lambda>r. some_rule ?A r \<or> overdue ?stray r) = (\<lambda>r. log_status r = Sent \<and> expiry_text setting w r \<noteq> None)"
    by (rule ext)
  ultimately have "fst (dlr_timeout_check setting chunk w)
      = rowcount (\<lambda>r. log_status r = Sent \<and> expiry_text setting w r \<noteq> None) (sms_logs w)" by simp
  then show ?thesis using w' by (simp add: prod_eq_iff)
qed

section \<open>A long pause\<close>

lemma log_by_id_expire_as:
  "log_by_id (w\<lparr>sms_logs := map (expire_as f) (sms_logs w)\<rparr>) i = map_option (expire_as f) (log_by_id w i)"
proof -
  have "find (\<lambda>r. log_id r = i) (map (expire_as f) t) = map_option (expire_as f) (find (\<lambda>r. log_id r = i) t)" for t
    by (induction t) (auto simp: expire_as_def split: option.splits)
  then show ?thesis by (simp add: log_by_id_def)
qed

text \<open>C27: A batch that has been paused for more than two hours is lost: the next check expires its waiting
  messages although nothing was ever handed to an upstream, resuming then queues nothing, and the
  reviewed refund refuses each of them.\<close>

theorem long_pause_loses_batch:
  assumes "0 < chunk" and "distinct (map log_id (sms_logs w))" and "distinct (map ch_id (channels w))"
    and "batch_by_id w b = Some batch" and "batch_status batch = BPaused"
    and "\<forall>r\<in>set (select_unsent_logs w b). sent_time r = None \<and> submit_time r < now w - 7200
           \<and> (\<exists>c\<in>set (channels w). log_channel_id r = Some (ch_id c) \<and> \<not> ch_is_deleted c)"
  shows "(\<exists>w''. resume_batch enum queue (snd (dlr_timeout_check setting chunk w)) b None =
           (Inr (Done \<lparr>rs_unsent = 0, requeued_ok = 0, requeued_fail = 0, rs_switch = None\<rparr>), w''))
    \<and> (\<forall>r\<in>set (select_unsent_logs w b). \<exists>x. log_by_id (snd (dlr_timeout_check setting chunk w)) (log_id r) = Some x
           \<and> log_status x = Expired \<and> \<not> eligible (classify_refund_candidate x))"
proof -
  let ?f = "expire_as (expiry_text setting w)"
  let ?w' = "w\<lparr>sms_logs := map ?f (sms_logs w)\<rparr>"
  have w': "snd (dlr_timeout_check setting chunk w) = ?w'" using timeout_check_rowwise [OF assms(1-3)] by simp
  have texts: "?f r = expire_row LOST_TEXT r" if r: "r \<in> set (select_unsent_logs w b)" for r
  proof -
    from assms(6) r obtain c where c: "c \<in> set (channels w)" "log_channel_id r = Some (ch_id c)" "\<not> ch_is_deleted c"
      and t: "sent_time r = None" "submit_time r < now w - 7200" by blast
    then have "ch_id c \<in> fst ` set (listed_channels w)" by (force simp: listed_channels_def)
    then have "map_of (listed_channels w) (ch_id c) \<noteq> None" by (simp add: map_of_eq_None_iff)
    moreover have "is_unsent r" using r by (simp add: select_unsent_logs_def)
    ultimately show ?thesis using c t by (auto simp: expire_as_def expiry_text_def is_unsent_def)
  qed
  have "\<not> is_unsent (?f r)" if "r \<in> set (sms_logs w)" "log_batch_id (?f r) = Some b" for r
  proof (cases "is_unsent r")
    case True
    then have "r \<in> set (select_unsent_logs w b)" using that
      by (auto simp: select_unsent_logs_def batch_logs_def expire_as_def split: option.splits)
    then show ?thesis using texts by (simp add: is_unsent_def)
  qed (auto simp: expire_as_def is_unsent_def split: option.splits)
  then have none: "select_unsent_logs (save_batch b g ?w') b = []" for g
    by (auto simp: select_unsent_logs_def batch_logs_def filter_empty_conv)
  have "batch_by_id ?w' b = Some batch" using assms(4) by (simp add: batch_by_id_def)
  then have "\<exists>w''. resume_batch enum queue ?w' b None =
      (Inr (Done \<lparr>rs_unsent = 0, requeued_ok = 0, requeued_fail = 0, rs_switch = None\<rparr>), w'')"
    using none assms(5) by (simp add: resume_batch_def truthy_id_def Let_def)
  moreover have "log_by_id ?w' (log_id r) = Some (expire_row LOST_TEXT r)" if r: "r \<in> set (select_unsent_logs w b)" for r
  proof -
    have "r \<in> set (sms_logs w)" using r by (simp add: select_unsent_logs_def batch_logs_def)
    then have "log_by_id w (log_id r) = Some r" using find_distinct_key [OF assms(2)] by (simp add: log_by_id_def)
    then show ?thesis using texts [OF r] by (simp add: log_by_id_expire_as)
  qed
  ultimately show ?thesis unfolding w' by (auto simp: classify_refund_candidate_def)
qed

text \<open>The update of a chunk does not look at the status again: a report that comes between the selection and
  the update is overwritten.\<close>

lemma late_report_overwritten:
  assumes "i \<in> set (select_ids chunk rule w)" and "log_by_id w1 i = Some r"
  shows "\<exists>x. log_by_id (snd (expire_ids (select_ids chunk rule w) msg w1)) i = Some x \<and> log_status x = Expired"
  using assms log_by_id_Some [OF assms(2)]
  by (simp add: log_by_id_def expire_ids_def find_upd_where)

section \<open>Money\<close>

lemma expire_ids_quiet: "quiet w (snd (expire_ids ids msg w))"
proof -
  have "log_view (w\<lparr>sms_logs := upd_where (\<lambda>r. log_id r \<in> set ids) (expire_row msg) (sms_logs w)\<rparr>) = log_view w"
    by (rule log_view_upd) simp
  then show ?thesis by (simp add: quiet_def expire_ids_def)
qed

lemma expire_in_chunks_quiet: "quiet w (snd (expire_in_chunks chunk rule msg w))"
proof (induction chunk rule msg w rule: expire_in_chunks.induct)
  case (1 chunk rule msg w)
  obtain n w1 where e: "expire_ids (select_ids chunk rule w) msg w = (n, w1)" by fastforce
  then have q: "quiet w w1" using expire_ids_quiet [of w "select_ids chunk rule w" msg] by simp
  show ?case
  proof (cases "select_ids chunk rule w = [] \<or> length (select_ids chunk rule w) < chunk")
    case True
    with e q show ?thesis by (auto simp: expire_in_chunks.simps [of chunk rule msg w] Let_def)
  next
    case False
    then have "quiet w1 (snd (expire_in_chunks chunk rule msg w1))"
      using 1 [OF refl _ e [symmetric] refl] by simp
    with False e q show ?thesis
      by (auto simp: expire_in_chunks.simps [of chunk rule msg w] Let_def split_beta intro: quiet_trans)
  qed
qed

lemma expire_channels_quiet: "quiet w (snd (expire_channels chunk dh cs w))"
proof (induction cs arbitrary: w)
  case (Cons a cs)
  then show ?case
    by (cases a) (simp add: Let_def split_beta, rule quiet_trans [OF expire_in_chunks_quiet])
qed simp

lemma expire_unanswered_quiet: "quiet w (snd (expire_unanswered chunk cs w))"
proof (induction cs arbitrary: w)
  case (Cons a cs)
  then show ?case
    by (cases a) (simp add: Let_def split_beta, rule quiet_trans [OF expire_in_chunks_quiet])
qed simp

lemma timeout_check_quiet: "quiet w (snd (dlr_timeout_check setting chunk w))"
  using quiet_trans [OF quiet_trans [OF expire_channels_quiet expire_in_chunks_quiet] expire_unanswered_quiet]
  by (simp add: dlr_timeout_check_def Let_def split_beta)

section \<open>Examples\<close>

text \<open>Message 7 of the paused batch 3 has waited for a day in the queue of an HTTP channel, message 8 was
  sent an hour ago.\<close>

definition demo_expiry :: world where
  "demo_expiry = empty_world\<lparr>now := 86400, channels := [new_channel 1 (asc ''c'') HTTP],
     sms_logs := [(new_sms_log 7 (asc ''m7'') 1 [])\<lparr>log_status := Queued, log_channel_id := Some 1, log_batch_id := Some 3\<rparr>,
                  (new_sms_log 8 (asc ''m8'') 1 [])\<lparr>log_status := Sent, log_channel_id := Some 1, sent_time := Some 82800\<rparr>],
     sms_batches := [(new_sms_batch 3 1 (asc ''b''))\<lparr>batch_status := BPaused\<rparr>]\<rparr>"

lemma demo_expiry_keys:
  "distinct (map log_id (sms_logs demo_expiry))" "distinct (map ch_id (channels demo_expiry))"
  by (simp_all add: demo_expiry_def empty_world_def new_sms_log_def new_channel_def)

theorem timeout_check_rowwise_witness:
  "fst (dlr_timeout_check 72 1 demo_expiry) = 0
   \<and> map log_status (sms_logs (snd (dlr_timeout_check 72 1 demo_expiry))) = [Expired, Sent]"
proof -
  have e: "dlr_timeout_check 72 1 demo_expiry =
    (rowcount (\<lambda>r. log_status r = Sent \<and> expiry_text 72 demo_expiry r \<noteq> None) (sms_logs demo_expiry),
     demo_expiry\<lparr>sms_logs := map (expire_as (expiry_text 72 demo_expiry)) (sms_logs demo_expiry)\<rparr>)"
    by (rule timeout_check_rowwise [OF _ demo_expiry_keys]) simp
  show ?thesis unfolding e by code_simp
qed

theorem long_pause_loses_batch_witness:
  "\<exists>x. log_by_id (snd (dlr_timeout_check 72 500 demo_expiry)) 7 = Some x \<and> log_status x = Expired"
proof -
  let ?r = "(new_sms_log 7 (asc ''m7'') 1 [])\<lparr>log_status := Queued, log_channel_id := Some 1, log_batch_id := Some 3\<rparr>"
  let ?b = "(new_sms_batch 3 1 (asc ''b''))\<lparr>batch_status := BPaused\<rparr>"
  have u: "select_unsent_logs demo_expiry 3 = [?r]"
    by (simp add: select_unsent_logs_def batch_logs_def demo_expiry_def empty_world_def new_sms_log_def is_unsent_def)
  have b: "batch_by_id demo_expiry 3 = Some ?b"
    by (simp add: batch_by_id_def demo_expiry_def empty_world_def new_sms_batch_def)
  have "\<forall>r\<in>set (select_unsent_logs demo_expiry 3). sent_time r = None \<and> submit_time r < now demo_expiry - 7200
      \<and> (\<exists>c\<in>set (channels demo_expiry). log_channel_id r = Some (ch_id c) \<and> \<not> ch_is_deleted c)"
    by (simp add: u) (simp add: demo_expiry_def empty_world_def new_sms_log_def new_channel_def)
  note lost = long_pause_loses_batch [OF _ demo_expiry_keys b _ this, where chunk = 500 and setting = 72
      and enum = id and queue = "\<lambda>_. True", THEN conjunct2]
  have "log_id ?r = 7" by (simp add: new_sms_log_def)
  moreover have "?r \<in> set (select_unsent_logs demo_expiry 3)" by (simp add: u)
  ultimately show ?thesis using lost by force
qed

end
