(* ===== verification/Auth.thy ===== *)
theory Auth
  imports License SmppDlr "HOL-Library.Countable"
begin

text \<open>
  Who is asking: API keys, basic credentials and tokens (\<open>backend/app/core/auth.py\<close>), the three ways in which
  \<open>backend/app/api/v1/sms.py\<close> reads them, and the login of administrators by password, by refresh token and by a code
  sent over Telegram (\<open>backend/app/api/v1/admin.py\<close>). \<open>auth_sys\<close> is what they share: the database with the
  clock, the administrators, and the keys in Redis, each with its time of expiry. The token library,
  the check of a password against its hash, and \<open>str()\<close> of a JSON value are parameters. Redis answers;
  the log of operations is left out.
\<close>

section \<open>State\<close>

datatype admin_role = SuperAdmin | Admin | Finance | Sales | Tech
datatype admin_status = AdmActive | AdmInactive | AdmLocked

record admin_user =
  adm_id :: int
  adm_username :: pystr
  adm_password_hash :: pystr
  adm_role :: admin_role
  adm_status :: admin_status
  adm_tg_id :: "int option"
  adm_last_login_at :: "int option"
  login_failed_count :: int
  locked_until :: "int option"
  token_version :: int

record auth_sys =
  au_world :: world
  au_admins :: "admin_user list"
  au_limits :: "pystr \<rightharpoonup> int \<times> int" \<comment> \<open>\<open>account:limit:{api_key}\<close>\<close>
  au_otp :: "pystr \<rightharpoonup> pystr \<times> int" \<comment> \<open>\<open>tg_otp:{username}\<close>\<close>
  au_cooldown :: "pystr \<rightharpoonup> int" \<comment> \<open>\<open>tg_otp_cd:{username}\<close>\<close>
  au_fails :: "pystr \<rightharpoonup> int \<times> int option" \<comment> \<open>\<open>tg_otp_fail:{username}\<close>, with no expiry until one is set\<close>

definition au_now :: "auth_sys \<Rightarrow> int" where
  "au_now s = now (au_world s)"

definition at_time :: "int \<Rightarrow> auth_sys \<Rightarrow> auth_sys" where
  "at_time t s = s\<lparr>au_world := (au_world s)\<lparr>now := t\<rparr>\<rparr>"

type_synonym claims = "(pystr \<times> json) list"

record auth_env =
  jwt_encode :: "claims \<Rightarrow> pystr"
  jwt_decode :: "int \<Rightarrow> pystr \<Rightarrow> claims option" \<comment> \<open>None: \<open>JWTError\<close>\<close>
  access_minutes :: int
  refresh_hours :: int
  password_ok :: "pystr \<Rightarrow> pystr \<Rightarrow> bool"
  show_json :: "json \<Rightarrow> pystr"
  config_value :: "pystr \<Rightarrow> json option"

section \<open>Tokens\<close>

definition put_claim :: "pystr \<Rightarrow> json \<Rightarrow> claims \<Rightarrow> claims" where
  "put_claim k v c =
     (if map_of c k = None then c @ [(k, v)] else map (\<lambda>(x, y). (x, if x = k then v else y)) c)"

definition text_sub :: "auth_env \<Rightarrow> json \<Rightarrow> json" where
  "text_sub env v = (if v = JNull then JNull else JStr (py_str (show_json env) v))"

definition create_access_token :: "auth_env \<Rightarrow> int \<Rightarrow> claims \<Rightarrow> int option \<Rightarrow> pystr" where
  "create_access_token env t data delta =
     (let c = (case map_of data (asc ''sub'') of
                 None \<Rightarrow> data | Some v \<Rightarrow> put_claim (asc ''sub'') (text_sub env v) data);
          life = (case delta of None \<Rightarrow> 60 * access_minutes env
                              | Some d \<Rightarrow> if d = 0 then 60 * access_minutes env else d)
      in jwt_encode env (put_claim (asc ''token_type'') (JStr (asc ''access''))
           (put_claim (asc ''iat'') (JNum (of_int t)) (put_claim (asc ''exp'') (JNum (of_int (t + life))) c))))"

definition create_refresh_token :: "auth_env \<Rightarrow> int \<Rightarrow> claims \<Rightarrow> int option \<Rightarrow> pystr" where
  "create_refresh_token env t data delta =
     (let sub = (case map_of data (asc ''sub'') of None \<Rightarrow> JNull | Some v \<Rightarrow> text_sub env v);
          life = (case delta of None \<Rightarrow> 3600 * refresh_hours env
                              | Some d \<Rightarrow> if d = 0 then 3600 * refresh_hours env else d)
      in jwt_encode env [(asc ''sub'', sub), (asc ''exp'', JNum (of_int (t + life))), (asc ''iat'', JNum (of_int t)),
                         (asc ''token_type'', JStr (asc ''refresh''))])"

definition verify_token :: "auth_env \<Rightarrow> int \<Rightarrow> pystr \<Rightarrow> pystr option \<Rightarrow> claims outcome" where
  "verify_token env t tok expected =
     (case jwt_decode env t tok of
        None \<Rightarrow> Inl (AuthenticationError (asc ''Invalid token''))
      | Some payload \<Rightarrow>
          (let actual = (case map_of payload (asc ''token_type'') of None \<Rightarrow> JStr (asc ''access'') | Some v \<Rightarrow> v)
           in case expected of
                None \<Rightarrow> Inr payload
              | Some e \<Rightarrow>
                  (if e \<noteq> [] \<and> actual \<noteq> JStr e
                   then Inl (AuthenticationError (asc ''Token type mismatch (need '' @ e @ asc '')''))
                   else Inr payload)))"

text \<open>\<open>int(v)\<close> of a claim; \<open>None\<close> where it raises.\<close>

definition int_claim :: "json \<Rightarrow> int option" where
  "int_claim v =
     (case v of
        JStr s \<Rightarrow> if s = [] then None else (case json_int v of Inl _ \<Rightarrow> None | Inr n \<Rightarrow> Some n)
      | JNum q \<Rightarrow> (case json_int v of Inl _ \<Rightarrow> None | Inr n \<Rightarrow> Some n)
      | JBool b \<Rightarrow> Some (if b then 1 else 0)
      | _ \<Rightarrow> None)"

definition active_admin :: "auth_sys \<Rightarrow> int \<Rightarrow> admin_user option" where
  "active_admin s i = find (\<lambda>a. adm_id a = i \<and> adm_status a = AdmActive) (au_admins s)"

definition get_current_admin :: "auth_env \<Rightarrow> pystr \<Rightarrow> auth_sys \<Rightarrow> admin_user outcome" where
  "get_current_admin env tok s =
     (case verify_token env (au_now s) tok (Some (asc ''access'')) of
        Inl e \<Rightarrow> Inl e
      | Inr payload \<Rightarrow>
          (case (case map_of payload (asc ''sub'') of None \<Rightarrow> None | Some v \<Rightarrow> int_claim v) of
             None \<Rightarrow> Inl (AuthenticationError (asc ''Invalid token payload''))
           | Some i \<Rightarrow>
               (case active_admin s i of
                  None \<Rightarrow> Inl (AuthenticationError (asc ''Admin not found or inactive''))
                | Some a \<Rightarrow> Inr a)))"

section \<open>Accounts\<close>

definition usable :: "account \<Rightarrow> bool" where
  "usable a \<longleftrightarrow> acc_status a = AccActive \<and> \<not> acc_is_deleted a"

text \<open>The limit is kept in Redis for the limiter, per minute.\<close>

definition verify_api_key :: "pystr option \<Rightarrow> auth_sys \<Rightarrow> account outcome \<times> auth_sys" where
  "verify_api_key api_key s =
     (case api_key of
        None \<Rightarrow> (Inl (AuthenticationError (asc ''Missing API Key'')), s)
      | Some k \<Rightarrow>
          (if k = [] then (Inl (AuthenticationError (asc ''Missing API Key'')), s)
           else case one_or_none (filter (\<lambda>a. acc_api_key a = Some k \<and> usable a) (accounts (au_world s))) of
                  NoRow \<Rightarrow> (Inl (AuthenticationError (asc ''Invalid API Key'')), s)
                | ManyRows \<Rightarrow> (Inl MultipleResultsFound, s)
                | OneRow a \<Rightarrow>
                    (Inr a, (case truthy_id (rate_limit a) of
                               None \<Rightarrow> s
                             | Some n \<Rightarrow> s\<lparr>au_limits := (au_limits s)(k \<mapsto> (n * 60, au_now s + 300))\<rparr>))))"

text \<open>\<open>hmac.compare_digest\<close> raises on texts outside ASCII.\<close>

definition compare_digest :: "pystr \<Rightarrow> pystr \<Rightarrow> bool outcome" where
  "compare_digest a b = (if list_all (\<lambda>c. c < 128) (a @ b) then Inr (a = b) else Inl PyException)"

definition verify_basic_credentials :: "auth_env \<Rightarrow> pystr \<times> pystr \<Rightarrow> auth_sys \<Rightarrow> account outcome" where
  "verify_basic_credentials env cred s =
     (case cred of
        (login_id, pwd) \<Rightarrow>
          (case one_or_none (filter (\<lambda>a. (account_name a = login_id \<or> email a = Some login_id) \<and> usable a)
                                    (accounts (au_world s))) of
             NoRow \<Rightarrow> Inl (AuthenticationError (asc ''Invalid credentials''))
           | ManyRows \<Rightarrow> Inl MultipleResultsFound
           | OneRow a \<Rightarrow>
               (let secret = or_empty (api_secret a); hash = or_empty (password_hash a)
                in case (if secret = [] then Inr False else compare_digest pwd secret) of
                     Inl e \<Rightarrow> Inl e
                   | Inr True \<Rightarrow> Inr a
                   | Inr False \<Rightarrow>
                       (if hash \<noteq> [] \<and> password_ok env pwd hash then Inr a
                        else Inl (AuthenticationError (asc ''Invalid credentials''))))))"

text \<open>What the security classes of the framework find in a request.\<close>

record presented =
  pr_api_key :: "pystr option" \<comment> \<open>\<open>X-API-Key\<close>\<close>
  pr_bearer :: "pystr option"
  pr_basic :: "(pystr \<times> pystr) option"
  pr_query :: "pystr option" \<comment> \<open>\<open>?api_key=\<close>\<close>

definition nonempty :: "pystr option \<Rightarrow> pystr option" where
  "nonempty x = (case x of Some s \<Rightarrow> if s = [] then None else Some s | None \<Rightarrow> None)"

definition or_opt :: "pystr option \<Rightarrow> pystr option \<Rightarrow> pystr option" where
  "or_opt a b = (case nonempty a of None \<Rightarrow> b | Some s \<Rightarrow> Some s)"

definition bearer_key :: "pystr option \<Rightarrow> pystr option" where
  "bearer_key b =
     (case nonempty b of
        None \<Rightarrow> None
      | Some raw \<Rightarrow> if starts_with (asc ''ak_'') (py_strip raw) then Some (py_strip raw) else None)"

definition basic_account :: "auth_env \<Rightarrow> presented \<Rightarrow> auth_sys \<Rightarrow> account outcome option" where
  "basic_account env p s =
     (case pr_basic p of
        None \<Rightarrow> None
      | Some cred \<Rightarrow> if fst cred = [] then None else Some (verify_basic_credentials env cred s))"

definition get_current_account :: "auth_env \<Rightarrow> presented \<Rightarrow> auth_sys \<Rightarrow> account outcome \<times> auth_sys" where
  "get_current_account env p s =
     (let effective = or_opt (or_opt (pr_api_key p) (bearer_key (pr_bearer p))) (pr_query p)
      in if nonempty effective \<noteq> None then verify_api_key effective s
         else case basic_account env p s of
                Some r \<Rightarrow> (r, s)
              | None \<Rightarrow> (Inl (AuthenticationError (asc ''Missing API Key or credentials'')), s))"

definition is_auth_error :: "exn \<Rightarrow> bool" where
  "is_auth_error e = (case e of AuthenticationError _ \<Rightarrow> True | _ \<Rightarrow> False)"

text \<open>The account an administrator sends from: the usable one with the lowest id.\<close>

definition first_account :: "world \<Rightarrow> account option" where
  "first_account w = first_row (sort_key acc_id (filter usable (accounts w)))"

definition token_account :: "auth_env \<Rightarrow> presented \<Rightarrow> auth_sys \<Rightarrow> account option" where
  "token_account env p s =
     (case nonempty (pr_bearer p) of
        None \<Rightarrow> None
      | Some tok \<Rightarrow>
          (case verify_token env (au_now s) tok (Some (asc ''access'')) of
             Inl _ \<Rightarrow> None
           | Inr payload \<Rightarrow>
               (case map_of payload (asc ''sub'') of
                  None \<Rightarrow> None
                | Some v \<Rightarrow> if json_truthy v then first_account (au_world s) else None)))"

definition get_current_account_or_admin :: "auth_env \<Rightarrow> presented \<Rightarrow> auth_sys \<Rightarrow> account outcome \<times> auth_sys" where
  "get_current_account_or_admin env p s =
     (let effective = or_opt (pr_api_key p) (pr_query p);
          (by_key, s1) = (if nonempty effective \<noteq> None then verify_api_key effective s
                          else (Inl (AuthenticationError []), s));
          last = (case token_account env p s1 of
                    Some a \<Rightarrow> Inr a
                  | None \<Rightarrow> Inl (AuthenticationError (asc ''Missing API Key, credentials or token'')))
      in case by_key of
           Inr a \<Rightarrow> (Inr a, s1)
         | Inl e \<Rightarrow>
             (if \<not> is_auth_error e then (Inl e, s1)
              else case basic_account env p s1 of
                     None \<Rightarrow> (last, s1)
                   | Some (Inr a) \<Rightarrow> (Inr a, s1)
                   | Some (Inl e') \<Rightarrow> if is_auth_error e' then (last, s1) else (Inl e', s1)))"


record auth_context =
  cx_is_admin :: bool
  cx_admin_id :: "int option"
  cx_account :: "account option"

definition no_context :: auth_context where
  "no_context = \<lparr>cx_is_admin = False, cx_admin_id = None, cx_account = None\<rparr>"

definition get_auth_context :: "auth_env \<Rightarrow> presented \<Rightarrow> auth_sys \<Rightarrow> auth_context outcome \<times> auth_sys" where
  "get_auth_context env p s =
     (let admin = (case nonempty (pr_bearer p) of
                     None \<Rightarrow> None
                   | Some tok \<Rightarrow>
                       (case verify_token env (au_now s) tok (Some (asc ''access'')) of
                          Inl _ \<Rightarrow> None
                        | Inr payload \<Rightarrow>
                            (case map_of payload (asc ''sub'') of
                               None \<Rightarrow> None | Some v \<Rightarrow> if json_truthy v then int_claim v else None)))
      in case admin of
           Some i \<Rightarrow> (Inr (no_context\<lparr>cx_is_admin := True, cx_admin_id := Some i\<rparr>), s)
         | None \<Rightarrow>
             (let (by_key, s1) = (if nonempty (pr_api_key p) \<noteq> None then verify_api_key (pr_api_key p) s
                                  else (Inl (AuthenticationError []), s));
                  last = Inl (AuthenticationError (asc ''Missing API Key, credentials or token''))
              in case by_key of
                   Inr a \<Rightarrow> (Inr (no_context\<lparr>cx_account := Some a\<rparr>), s1)
                 | Inl e \<Rightarrow>
                     (if \<not> is_auth_error e then (Inl e, s1)
                      else case basic_account env p s1 of
                             None \<Rightarrow> (last, s1)
                           | Some (Inr a) \<Rightarrow> (Inr (no_context\<lparr>cx_account := Some a\<rparr>), s1)
                           | Some (Inl e') \<Rightarrow> if is_auth_error e' then (last, s1) else (Inl e', s1))))"

section \<open>The scope of a sales administrator\<close>

text \<open>\<open>core/auth_scope.py\<close>\<close>

definition is_sales_scoped :: "admin_user \<Rightarrow> bool" where
  "is_sales_scoped a \<longleftrightarrow> adm_role a = Sales"

definition apply_account_scope :: "admin_user \<Rightarrow> account list \<Rightarrow> account list" where
  "apply_account_scope a rows = (if adm_role a = Sales then filter (\<lambda>x. sales_id x = Some (adm_id a)) rows else rows)"

definition assert_account_in_scope :: "account option \<Rightarrow> admin_user \<Rightarrow> unit outcome" where
  "assert_account_in_scope acc a =
     (case acc of
        None \<Rightarrow> Inr ()
      | Some x \<Rightarrow> if adm_role a = Sales \<and> sales_id x \<noteq> Some (adm_id a) then Inl (AuthorizationError []) else Inr ())"

definition sales_id_filter :: "admin_user \<Rightarrow> int option" where
  "sales_id_filter a = (if adm_role a = Sales then Some (adm_id a) else None)"

lemma scope_agrees:
  "x \<in> set rows \<Longrightarrow> assert_account_in_scope (Some x) a = Inr () \<longleftrightarrow> x \<in> set (apply_account_scope a rows)"
  by (simp add: assert_account_in_scope_def apply_account_scope_def)

section \<open>Policies\<close>

text \<open>\<open>core/security_policy.py\<close>\<close>

definition SECURITY_DEFAULTS :: "(pystr \<times> int) list" where
  "SECURITY_DEFAULTS =
     [(asc ''max_login_attempts'', 5), (asc ''login_lock_minutes'', 30), (asc ''password_min_length'', 8),
      (asc ''api_rate_limit_per_minute'', 1000), (asc ''jwt_token_expire_hours'', 2)]"

definition get_int_policy :: "(pystr \<Rightarrow> json option) \<Rightarrow> pystr \<Rightarrow> int" where
  "get_int_policy config key =
     (let default = (case map_of SECURITY_DEFAULTS key of None \<Rightarrow> 0 | Some d \<Rightarrow> d);
          raw = (case config key of None \<Rightarrow> JNum (of_int default) | Some v \<Rightarrow> v)
      in case int_claim raw of None \<Rightarrow> default | Some v \<Rightarrow> if 1 \<le> v then v else default)"

definition max_attempts :: "auth_env \<Rightarrow> int" where
  "max_attempts env = get_int_policy (config_value env) (asc ''max_login_attempts'')"

definition lock_minutes :: "auth_env \<Rightarrow> int" where
  "lock_minutes env = get_int_policy (config_value env) (asc ''login_lock_minutes'')"

lemma policies_positive: "1 \<le> max_attempts env" "1 \<le> lock_minutes env"
proof -
  have "1 \<le> get_int_policy config key" if "map_of SECURITY_DEFAULTS key = Some d" "1 \<le> d" for config key d
    using that by (auto simp: get_int_policy_def Let_def split: option.split)
  moreover have "map_of SECURITY_DEFAULTS (asc ''max_login_attempts'') = Some 5"
    "map_of SECURITY_DEFAULTS (asc ''login_lock_minutes'') = Some 30" by code_simp+
  ultimately show "1 \<le> max_attempts env" "1 \<le> lock_minutes env" by (simp_all add: max_attempts_def lock_minutes_def)
qed

section \<open>Login by password\<close>

datatype login_error =
    InvalidCredentials
  | WrongPassword int \<comment> \<open>attempts left\<close>
  | AccountLocked
  | TemporarilyLocked int \<comment> \<open>minutes\<close>
  | AccountDisabled
  | TokenRefused pystr
  | InvalidSubject
  | AdminNotActive
  | RefreshRevoked
  | InvalidUsername
  | AccountNotBound
  | CodeInvalid
  | TooManyAttempts
  | TgNotBound
  | CodeExpired

datatype login_answer = LoginRefused login_error | LoggedIn int pystr pystr \<comment> \<open>administrator, access, refresh\<close>

definition save_admin :: "int \<Rightarrow> (admin_user \<Rightarrow> admin_user) \<Rightarrow> auth_sys \<Rightarrow> auth_sys" where
  "save_admin i f s = s\<lparr>au_admins := upd_where (\<lambda>a. adm_id a = i) f (au_admins s)\<rparr>"

definition admin_named :: "auth_sys \<Rightarrow> pystr \<Rightarrow> admin_user option" where
  "admin_named s u = find (\<lambda>a. adm_username a = u) (au_admins s)"

fun role_text :: "admin_role \<Rightarrow> pystr" where
  "role_text SuperAdmin = asc ''super_admin''"
| "role_text Admin = asc ''admin''"
| "role_text Finance = asc ''finance''"
| "role_text Sales = asc ''sales''"
| "role_text Tech = asc ''tech''"

definition access_claims :: "admin_user \<Rightarrow> claims" where
  "access_claims a =
     [(asc ''sub'', JNum (of_int (adm_id a))), (asc ''role'', JStr (role_text (adm_role a))),
      (asc ''username'', JStr (adm_username a))]"

definition or_one :: "int \<Rightarrow> int" where
  "or_one n = (if n = 0 then 1 else n)"

definition refresh_claims :: "admin_user \<Rightarrow> int \<Rightarrow> claims" where
  "refresh_claims a tv = [(asc ''sub'', JNum (of_int (adm_id a))), (asc ''tv'', JNum (of_int tv))]"

text \<open>The checks before the password; they clear a lock that has run out.\<close>

definition login_gate :: "pystr \<Rightarrow> auth_sys \<Rightarrow> (login_error + admin_user) \<times> auth_sys" where
  "login_gate u s =
     (case admin_named s u of
        None \<Rightarrow> (Inl InvalidCredentials, s)
      | Some a \<Rightarrow>
          (if adm_status a = AdmLocked then (Inl AccountLocked, s)
           else if (case locked_until a of None \<Rightarrow> False | Some l \<Rightarrow> au_now s < l)
             then (Inl (TemporarilyLocked (max 1 ((the (locked_until a) - au_now s) div 60 + 1))), s)
           else
             let unlock = (\<lambda>x. if locked_until a \<noteq> None then x\<lparr>locked_until := None, login_failed_count := 0\<rparr> else x);
                 s1 = save_admin (adm_id a) unlock s
             in if adm_status a \<noteq> AdmActive then (Inl AccountDisabled, s1) else (Inr (unlock a), s1)))"

definition admin_login :: "auth_env \<Rightarrow> pystr \<Rightarrow> pystr \<Rightarrow> auth_sys \<Rightarrow> login_answer \<times> auth_sys" where
  "admin_login env u pwd s =
     (case login_gate u s of
        (Inl e, s1) \<Rightarrow> (LoginRefused e, s1)
      | (Inr a, s1) \<Rightarrow>
          (let t = au_now s; n = login_failed_count a + 1
           in if \<not> password_ok env pwd (adm_password_hash a) then
                (if max_attempts env \<le> n
                 then (LoginRefused (TemporarilyLocked (lock_minutes env)),
                       save_admin (adm_id a) (\<lambda>x. x\<lparr>locked_until := Some (t + 60 * lock_minutes env), login_failed_count := 0\<rparr>) s1)
                 else (LoginRefused (WrongPassword (max_attempts env - n)),
                       save_admin (adm_id a) (\<lambda>x. x\<lparr>login_failed_count := n\<rparr>) s1))
              else
                (LoggedIn (adm_id a) (create_access_token env t (access_claims a) None)
                   (create_refresh_token env t (refresh_claims a (or_one (token_version a))) None),
                 save_admin (adm_id a)
                   (\<lambda>x. x\<lparr>adm_last_login_at := Some t, login_failed_count := 0, locked_until := None\<rparr>) s1)))"

section \<open>Refreshing\<close>

text \<open>The checks of a decoded refresh token; the administrator it stands for, when they pass.\<close>

definition check_refresh :: "claims \<Rightarrow> auth_sys \<Rightarrow> (login_error + admin_user) outcome" where
  "check_refresh payload s =
     (let sub = (case map_of payload (asc ''sub'') of None \<Rightarrow> JNull | Some v \<Rightarrow> v)
      in if \<not> json_truthy sub then Inr (Inl InvalidSubject)
         else case int_claim sub of
                None \<Rightarrow> Inl ValueError
              | Some i \<Rightarrow>
                  (case active_admin s i of
                     None \<Rightarrow> Inr (Inl AdminNotActive)
                   | Some a \<Rightarrow>
                       (let tv = (case map_of payload (asc ''tv'') of None \<Rightarrow> JNull | Some v \<Rightarrow> v)
                        in case (if tv = JNull then Some 1 else int_claim tv) of
                             None \<Rightarrow> Inl ValueError
                           | Some n \<Rightarrow>
                               if n \<noteq> or_one (token_version a) then Inr (Inl RefreshRevoked) else Inr (Inr a))))"

definition refresh_admin_token :: "auth_env \<Rightarrow> pystr \<Rightarrow> auth_sys \<Rightarrow> login_answer outcome \<times> auth_sys" where
  "refresh_admin_token env tok s =
     (case verify_token env (au_now s) tok (Some (asc ''refresh'')) of
        Inl e \<Rightarrow> (case e of
                    AuthenticationError m \<Rightarrow> (Inr (LoginRefused (TokenRefused m)), s)
                  | _ \<Rightarrow> (Inl e, s))
      | Inr payload \<Rightarrow>
          (case check_refresh payload s of
             Inl e \<Rightarrow> (Inl e, s)
           | Inr (Inl e) \<Rightarrow> (Inr (LoginRefused e), s)
           | Inr (Inr a) \<Rightarrow>
               (let next = or_one (token_version a) + 1
                in (Inr (LoggedIn (adm_id a) (create_access_token env (au_now s) (access_claims a) None)
                      (create_refresh_token env (au_now s) (refresh_claims a next) None)),
                    save_admin (adm_id a) (\<lambda>x. x\<lparr>token_version := next\<rparr>) s))))"

section \<open>Login by a code\<close>

definition live_otp :: "auth_sys \<Rightarrow> pystr \<Rightarrow> pystr option" where
  "live_otp s u = (case au_otp s u of None \<Rightarrow> None | Some (c, expiry) \<Rightarrow> if au_now s < expiry then Some c else None)"

definition live_fails :: "auth_sys \<Rightarrow> pystr \<Rightarrow> (int \<times> int option) option" where
  "live_fails s u =
     (case au_fails s u of
        None \<Rightarrow> None
      | Some (n, expiry) \<Rightarrow>
          (case expiry of None \<Rightarrow> Some (n, None) | Some e \<Rightarrow> if au_now s < e then Some (n, Some e) else None))"

definition cooling :: "auth_sys \<Rightarrow> pystr \<Rightarrow> bool" where
  "cooling s u \<longleftrightarrow> (case au_cooldown s u of None \<Rightarrow> False | Some e \<Rightarrow> au_now s < e)"

text \<open>\<open>TTL\<close> is -1 for a key without an expiry.\<close>

definition ttl_of :: "int \<Rightarrow> int option \<Rightarrow> int" where
  "ttl_of t expiry = (case expiry of None \<Rightarrow> - 1 | Some e \<Rightarrow> e - t)"

datatype code_answer = CodeSent | CodeNotSent login_error | Cooldown int | SendFailed

definition telegram_bound :: "auth_sys \<Rightarrow> pystr \<Rightarrow> admin_user option" where
  "telegram_bound s u =
     (case find (\<lambda>a. adm_username a = u \<and> adm_status a = AdmActive) (au_admins s) of
        None \<Rightarrow> None | Some a \<Rightarrow> if truthy_id (adm_tg_id a) = None then None else Some a)"

text \<open>\<open>code\<close> is the draw, \<open>sent\<close> the answer of Telegram.\<close>

definition telegram_login_send_code :: "pystr \<Rightarrow> bool \<Rightarrow> pystr \<Rightarrow> auth_sys \<Rightarrow> code_answer \<times> auth_sys" where
  "telegram_login_send_code code sent raw_name s =
     (let u = py_strip raw_name
      in if u = [] then (CodeNotSent InvalidUsername, s)
         else if telegram_bound s u = None then (CodeNotSent AccountNotBound, s)
         else if cooling s u then (Cooldown (max 1 (ttl_of (au_now s) (au_cooldown s u))), s)
         else if sent
           then (CodeSent, s\<lparr>au_otp := (au_otp s)(u \<mapsto> (code, au_now s + 300)),
                             au_cooldown := (au_cooldown s)(u \<mapsto> au_now s + 60)\<rparr>)
         else (SendFailed, s\<lparr>au_otp := (au_otp s)(u := None), au_cooldown := (au_cooldown s)(u := None)\<rparr>))"

definition count_failure :: "pystr \<Rightarrow> auth_sys \<Rightarrow> auth_sys" where
  "count_failure u s =
     (let (n, expiry) = (case live_fails s u of None \<Rightarrow> (1, None) | Some (n, e) \<Rightarrow> (n + 1, e));
          expiry' = (if ttl_of (au_now s) expiry = 0 then Some (au_now s + 900) else expiry)
      in s\<lparr>au_fails := (au_fails s)(u \<mapsto> (n, expiry'))\<rparr>)"

definition telegram_login_verify :: "auth_env \<Rightarrow> pystr \<Rightarrow> pystr \<Rightarrow> auth_sys \<Rightarrow> login_answer \<times> auth_sys" where
  "telegram_login_verify env raw_name raw s =
     (let u = py_strip raw_name; code = py_strip raw
      in if u = [] \<or> code = [] \<or> length code \<noteq> 6 \<or> \<not> py_isdigit code then (LoginRefused CodeInvalid, s)
         else if (case live_fails s u of None \<Rightarrow> False | Some (n, _) \<Rightarrow> n \<noteq> 0 \<and> 5 \<le> n)
           then (LoginRefused TooManyAttempts, s)
         else case telegram_bound s u of
                None \<Rightarrow> (LoginRefused TgNotBound, s)
              | Some a \<Rightarrow>
                  (case live_otp s u of
                     None \<Rightarrow> (LoginRefused CodeExpired, s)
                   | Some otp \<Rightarrow>
                       (if otp = [] then (LoginRefused CodeExpired, s)
                        else if otp \<noteq> code then (LoginRefused CodeInvalid, count_failure u s)
                        else
                          (LoggedIn (adm_id a) (create_access_token env (au_now s) (access_claims a) None)
                             (create_refresh_token env (au_now s) [(asc ''sub'', JNum (of_int (adm_id a)))] None),
                           save_admin (adm_id a) (\<lambda>x. x\<lparr>adm_last_login_at := Some (au_now s), login_failed_count := 0\<rparr>)
                             (s\<lparr>au_otp := (au_otp s)(u := None), au_fails := (au_fails s)(u := None)\<rparr>)))))"


section \<open>Who gets in\<close>

lemma one_or_none_filter: "one_or_none (filter P xs) = OneRow a \<Longrightarrow> a \<in> set xs \<and> P a"
proof -
  assume "one_or_none (filter P xs) = OneRow a"
  then have "filter P xs = [a]" by (auto simp: one_or_none_def split: list.splits)
  then have "a \<in> set (filter P xs)" by simp
  then show ?thesis by simp
qed

lemma verify_api_key_account:
  assumes "verify_api_key k s = (Inr a, s')"
  shows "a \<in> set (accounts (au_world s)) \<and> usable a \<and> (\<exists>x. k = Some x \<and> x \<noteq> [] \<and> acc_api_key a = Some x)"
  using assms by (auto simp: verify_api_key_def split: option.splits if_splits fetched.splits dest!: one_or_none_filter)

lemma basic_account_account:
  assumes "basic_account env p s = Some (Inr a)"
  shows "a \<in> set (accounts (au_world s)) \<and> usable a
    \<and> (\<exists>l pw. pr_basic p = Some (l, pw) \<and> (account_name a = l \<or> email a = Some l)
         \<and> (api_secret a = Some pw \<or> (\<exists>h. password_hash a = Some h \<and> password_ok env pw h)))"
proof -
  from assms obtain l pw where b: "pr_basic p = Some (l, pw)" and v: "verify_basic_credentials env (l, pw) s = Inr a"
    by (auto simp: basic_account_def split: option.splits if_splits)
  from v show ?thesis
    by (auto simp: verify_basic_credentials_def Let_def compare_digest_def or_empty_def b
        split: fetched.splits sum.splits bool.splits if_splits option.splits dest!: one_or_none_filter)
qed


section \<open>Tokens that the code makes\<close>

definition jwt_ok :: "auth_env \<Rightarrow> bool" where
  "jwt_ok env \<longleftrightarrow>
     (\<forall>c t e i x. map_of c (asc ''exp'') = Some (JNum (of_int e)) \<longrightarrow> map_of c (asc ''iat'') = Some (JNum (of_int i)) \<longrightarrow>
        map_of c (asc ''sub'') = Some (JStr x) \<longrightarrow>
        (i \<le> t \<and> t < e \<longrightarrow> jwt_decode env t (jwt_encode env c) = Some c)
        \<and> (e \<le> t \<longrightarrow> jwt_decode env t (jwt_encode env c) = None))"

lemma jwt_decodes:
  assumes "jwt_ok env" and "map_of c (asc ''exp'') = Some (JNum (of_int e))"
    and "map_of c (asc ''iat'') = Some (JNum (of_int i))" and "map_of c (asc ''sub'') = Some (JStr x)" and "i \<le> t"
  shows "jwt_decode env t (jwt_encode env c) = (if t < e then Some c else None)"
  using assms unfolding jwt_ok_def by (cases "t < e") auto

lemma map_of_put_claim [simp]: "map_of (put_claim k v c) x = (if x = k then Some v else map_of c x)"
proof (cases "map_of c k")
  case None
  then show ?thesis by (auto simp: put_claim_def map_add_def split: option.splits)
next
  case (Some y)
  have "map_of (map (\<lambda>(a, b). (a, if a = k then v else b)) c) x = (if x = k \<and> map_of c k \<noteq> None then Some v else map_of c x)"
    by (induction c) auto
  with Some show ?thesis by (simp add: put_claim_def)
qed

lemma claim_names:
  "asc ''sub'' \<noteq> asc ''exp''" "asc ''sub'' \<noteq> asc ''iat''" "asc ''sub'' \<noteq> asc ''token_type''" "asc ''exp'' \<noteq> asc ''iat''"
  "asc ''exp'' \<noteq> asc ''token_type''" "asc ''iat'' \<noteq> asc ''token_type''" "asc ''tv'' \<noteq> asc ''sub''"
  "asc ''tv'' \<noteq> asc ''exp''" "asc ''tv'' \<noteq> asc ''iat''" "asc ''tv'' \<noteq> asc ''token_type''"
  "asc ''access'' \<noteq> asc ''refresh''" "asc ''access'' \<noteq> []" "asc ''refresh'' \<noteq> []"
  "asc ''role'' \<noteq> asc ''sub''" "asc ''username'' \<noteq> asc ''sub''"
  by code_simp+

lemmas claim_name_simps = claim_names claim_names [symmetric]

text \<open>The claims of the tokens.\<close>

definition access_payload :: "auth_env \<Rightarrow> int \<Rightarrow> claims \<Rightarrow> claims" where
  "access_payload env t data =
     put_claim (asc ''token_type'') (JStr (asc ''access'')) (put_claim (asc ''iat'') (JNum (of_int t))
       (put_claim (asc ''exp'') (JNum (of_int (t + 60 * access_minutes env)))
          (case map_of data (asc ''sub'') of None \<Rightarrow> data | Some v \<Rightarrow> put_claim (asc ''sub'') (text_sub env v) data)))"

lemma access_token_eq: "create_access_token env t data None = jwt_encode env (access_payload env t data)"
  by (simp add: create_access_token_def access_payload_def Let_def)

lemma access_payload_claims:
  assumes "map_of data (asc ''sub'') = Some v" and "v \<noteq> JNull"
  shows "map_of (access_payload env t data) (asc ''sub'') = Some (JStr (py_str (show_json env) v))"
    and "map_of (access_payload env t data) (asc ''exp'') = Some (JNum (of_int (t + 60 * access_minutes env)))"
    and "map_of (access_payload env t data) (asc ''iat'') = Some (JNum (of_int t))"
    and "map_of (access_payload env t data) (asc ''token_type'') = Some (JStr (asc ''access''))"
    and "k \<notin> {asc ''sub'', asc ''exp'', asc ''iat'', asc ''token_type''} \<Longrightarrow>
           map_of (access_payload env t data) k = map_of data k"
  using assms by (simp_all add: access_payload_def text_sub_def claim_name_simps)

lemma access_token_decoded:
  assumes "jwt_ok env" and "map_of data (asc ''sub'') = Some v" and "v \<noteq> JNull" and "t \<le> t'"
  shows "jwt_decode env t' (create_access_token env t data None) =
    (if t' < t + 60 * access_minutes env then Some (access_payload env t data) else None)"
proof -
  note c = access_payload_claims [OF assms(2,3), where env = env and t = t]
  show ?thesis unfolding access_token_eq by (rule jwt_decodes [OF assms(1) c(2,3,1) assms(4)])
qed

lemma verify_access:
  assumes "jwt_ok env" and "map_of data (asc ''sub'') = Some v" and "v \<noteq> JNull" and "t \<le> t'"
  shows "verify_token env t' (create_access_token env t data None) (Some (asc ''access'')) =
    (if t' < t + 60 * access_minutes env then Inr (access_payload env t data)
     else Inl (AuthenticationError (asc ''Invalid token'')))"
  using access_token_decoded [OF assms] access_payload_claims(4) [OF assms(2,3), where env = env and t = t]
  by (simp add: verify_token_def Let_def)

lemma refresh_token_decoded:
  assumes "jwt_ok env" and "map_of data (asc ''sub'') = Some v" and "v \<noteq> JNull" and "t \<le> t'"
  shows "jwt_decode env t' (create_refresh_token env t data None) =
    (if t' < t + 3600 * refresh_hours env
     then Some [(asc ''sub'', JStr (py_str (show_json env) v)), (asc ''exp'', JNum (of_int (t + 3600 * refresh_hours env))),
                (asc ''iat'', JNum (of_int t)), (asc ''token_type'', JStr (asc ''refresh''))] else None)"
proof -
  let ?c = "[(asc ''sub'', JStr (py_str (show_json env) v)), (asc ''exp'', JNum (of_int (t + 3600 * refresh_hours env))),
             (asc ''iat'', JNum (of_int t)), (asc ''token_type'', JStr (asc ''refresh''))]"
  have c: "map_of ?c (asc ''exp'') = Some (JNum (of_int (t + 3600 * refresh_hours env)))"
    "map_of ?c (asc ''iat'') = Some (JNum (of_int t))" "map_of ?c (asc ''sub'') = Some (JStr (py_str (show_json env) v))"
    by (simp_all add: claim_name_simps)
  have "create_refresh_token env t data None = jwt_encode env ?c"
    using assms(2,3) by (simp add: create_refresh_token_def Let_def text_sub_def)
  then show ?thesis by (simp only: jwt_decodes [OF assms(1) c assms(4)])
qed



section \<open>Steps of the login\<close>

inductive auth_step :: "auth_env \<Rightarrow> auth_sys \<Rightarrow> auth_sys \<Rightarrow> bool" for env where
  by_password: "auth_step env s (snd (admin_login env u pwd s))"
| by_refresh: "auth_step env s (snd (refresh_admin_token env tok s))"
| code_asked: "auth_step env s (snd (telegram_login_send_code draw sent u s))"
| by_code: "auth_step env s (snd (telegram_login_verify env u c s))"
| key_used: "auth_step env s (snd (verify_api_key k s))"
| passes: "au_now s \<le> t \<Longrightarrow> auth_step env s (at_time t s)"

text \<open>A version never falls: every row of an administrator keeps at least the version it had.\<close>

definition version_at_least :: "int \<Rightarrow> int \<Rightarrow> auth_sys \<Rightarrow> bool" where
  "version_at_least n i s \<longleftrightarrow> (\<forall>a \<in> set (au_admins s). adm_id a = i \<longrightarrow> n \<le> token_version a)"

lemma version_save:
  assumes "version_at_least n i s" and "\<And>x. adm_id (f x) = adm_id x"
    and "\<And>x. j = i \<Longrightarrow> x \<in> set (au_admins s) \<Longrightarrow> adm_id x = j \<Longrightarrow> n \<le> token_version (f x)"
  shows "version_at_least n i (save_admin j f s)"
  using assms by (auto simp: version_at_least_def save_admin_def upd_where_def)

lemma version_save_other:
  assumes "version_at_least n i s" and "\<And>x. adm_id (f x) = adm_id x" and "\<And>x. token_version (f x) = token_version x"
  shows "version_at_least n i (save_admin j f s)"
  using version_save [OF assms(1,2)] assms(1,3) by (simp add: version_at_least_def)

lemma login_gate_version: "version_at_least n i s \<Longrightarrow> login_gate u s = (r, s') \<Longrightarrow> version_at_least n i s'"
  by (auto simp: login_gate_def Let_def split: option.splits if_splits intro!: version_save_other)

lemma active_admin_Some: "active_admin s i = Some a \<Longrightarrow> a \<in> set (au_admins s) \<and> adm_id a = i \<and> adm_status a = AdmActive"
  by (auto simp: active_admin_def find_Some_iff)

lemma check_refresh_admin:
  "check_refresh payload s = Inr (Inr a) \<Longrightarrow> a \<in> set (au_admins s) \<and> adm_status a = AdmActive"
  by (auto simp: check_refresh_def Let_def split: option.splits if_splits dest: active_admin_Some)

lemma refresh_token_cases:
  assumes "refresh_admin_token env tok s = (res, s')"
  obtains (refused) "s' = s" "\<And>i a t. res \<noteq> Inr (LoggedIn i a t)"
  | (done_with) x where "x \<in> set (au_admins s)"
      "s' = save_admin (adm_id x) (\<lambda>y. y\<lparr>token_version := or_one (token_version x) + 1\<rparr>) s"
      "\<exists>a t. res = Inr (LoggedIn (adm_id x) a t)"
proof -
  have "(s' = s \<and> (\<forall>i a t. res \<noteq> Inr (LoggedIn i a t)))
    \<or> (\<exists>x. x \<in> set (au_admins s) \<and> s' = save_admin (adm_id x) (\<lambda>y. y\<lparr>token_version := or_one (token_version x) + 1\<rparr>) s
          \<and> (\<exists>a t. res = Inr (LoggedIn (adm_id x) a t)))"
  proof (cases "verify_token env (au_now s) tok (Some (asc ''refresh''))")
    case (Inl e)
    then show ?thesis using assms by (cases e) (auto simp: refresh_admin_token_def)
  next
    case v: (Inr payload)
    show ?thesis
    proof (cases "\<exists>x. check_refresh payload s = Inr (Inr x)")
      case True
      then obtain x where c: "check_refresh payload s = Inr (Inr x)" by blast
      then show ?thesis using assms v check_refresh_admin [OF c] by (auto simp: refresh_admin_token_def Let_def)
    next
      case False
      then show ?thesis using assms v by (auto simp: refresh_admin_token_def split: sum.splits)
    qed
  qed
  then show ?thesis using refused done_with by metis
qed

lemma refresh_logged_in:
  assumes "refresh_admin_token env tok s = (Inr (LoggedIn i a r), s')"
  shows "\<exists>x. x \<in> set (au_admins s) \<and> adm_id x = i
    \<and> s' = save_admin i (\<lambda>y. y\<lparr>token_version := or_one (token_version x) + 1\<rparr>) s"
proof (rule refresh_token_cases [OF assms])
  assume "\<And>i' a' t. (Inr (LoggedIn i a r) :: login_answer outcome) \<noteq> Inr (LoggedIn i' a' t)"
  from this [of i a r] show ?thesis by simp
next
  fix x
  assume "x \<in> set (au_admins s)" and "s' = save_admin (adm_id x) (\<lambda>y. y\<lparr>token_version := or_one (token_version x) + 1\<rparr>) s"
    and "\<exists>a' t. (Inr (LoggedIn i a r) :: login_answer outcome) = Inr (LoggedIn (adm_id x) a' t)"
  then show ?thesis by auto
qed

lemma auth_step_version:
  assumes "auth_step env s s'" and v: "version_at_least n i s" and "1 \<le> n"
  shows "version_at_least n i s'"
  using assms(1)
proof cases
  case (by_password u pwd)
  obtain r s1 where g: "login_gate u s = (r, s1)" by fastforce
  from login_gate_version [OF v g] g by_password show ?thesis
    by (auto simp: admin_login_def Let_def split: sum.splits intro!: version_save_other)
next
  case (by_refresh tok)
  have up: "version_at_least n i (save_admin (adm_id a) (\<lambda>x. x\<lparr>token_version := or_one (token_version a) + 1\<rparr>) s)"
    if "a \<in> set (au_admins s)" for a
    using that v by (intro version_save) (auto simp: version_at_least_def or_one_def)
  obtain res s1 where e: "refresh_admin_token env tok s = (res, s1)" by fastforce
  from refresh_token_cases [OF e] show ?thesis using v e by_refresh by cases (auto intro: up)
next
  case (code_asked draw sent u)
  then show ?thesis using v by (auto simp: telegram_login_send_code_def version_at_least_def Let_def)
next
  case (by_code u c)
  have "version_at_least n i (count_failure x s)" for x
    using v by (simp add: version_at_least_def count_failure_def split_beta Let_def)
  then show ?thesis unfolding by_code using v
    by (auto simp: telegram_login_verify_def Let_def version_at_least_def [of n i "_\<lparr>au_otp := _, au_fails := _\<rparr>"]
        version_at_least_def [of n i s]
        split: option.splits intro!: version_save_other)
next
  case (key_used k)
  then show ?thesis using v by (auto simp: verify_api_key_def version_at_least_def split: option.splits fetched.splits)
next
  case (passes t)
  then show ?thesis using v by (simp add: version_at_least_def at_time_def)
qed

lemma auth_steps_version: "(auth_step env)\<^sup>*\<^sup>* s s' \<Longrightarrow> version_at_least n i s \<Longrightarrow> 1 \<le> n \<Longrightarrow> version_at_least n i s'"
  by (induction rule: rtranclp_induct) (auto intro: auth_step_version)

lemma length_text_of_nat_le: "n < 10 ^ Suc m \<Longrightarrow> length (text_of_nat n) \<le> Suc m"
proof (induction m arbitrary: n)
  case (Suc m)
  then have "n div 10 < 10 ^ Suc m" by (simp add: less_mult_imp_div_less)
  from Suc.IH [OF this] show ?case by (simp add: text_of_nat.simps [of n])
qed (simp add: text_of_nat.simps)

text \<open>The subject of a token reads back as the id of its administrator.\<close>

lemma int_claim_of_id:
  assumes "0 < i" and "i < 2147483648"
  shows "int_claim (JStr (text_of_int i)) = Some i"
proof -
  let ?t = "text_of_nat (nat i)"
  have d: "list_all (\<lambda>c. 48 \<le> c \<and> c \<le> 57) ?t" "?t \<noteq> []" by (rule text_of_nat_digits)+
  have "py_strip ?t = ?t" by (rule py_strip_solid) (use d in \<open>auto simp: list_all_iff\<close>)
  moreover have "\<not> starts_with [45] ?t" "\<not> starts_with [43] ?t" using d by (cases ?t; simp)+
  moreover have "length ?t \<le> Suc 9" by (rule length_text_of_nat_le) (use assms in simp)
  then have "py_int ?t = Some (nat i)" by (simp add: py_int_def int_max_str_digits_def text_of_nat_parses)
  ultimately show ?thesis using assms d
    by (simp add: int_claim_def json_int_def text_of_int_def Let_def)
qed

definition logged_in :: "login_answer outcome \<Rightarrow> bool" where
  "logged_in r \<longleftrightarrow> (\<exists>i a t. r = Inr (LoggedIn i a t))"

text \<open>C22: An administrator can refresh once: the version that the refresh raises is never written into a refresh
  token, since \<open>create_refresh_token\<close> drops it, so every refresh token made for the administrator, before
  or after, by whatever way of login, is refused from then on.\<close>

theorem refresh_works_once:
  assumes "jwt_ok env" and "0 < i" and "i < 2147483648" and "version_at_least 1 i s"
    and "refresh_admin_token env tok s = (Inr (LoggedIn i a r), s1)" and "(auth_step env)\<^sup>*\<^sup>* s1 s2"
    and "map_of data (asc ''sub'') = Some (JNum (of_int i))" and "t \<le> au_now s2"
  shows "\<not> logged_in (fst (refresh_admin_token env (create_refresh_token env t data None) s2))"
proof -
  have "version_at_least 2 i s1"
  proof -
    from refresh_logged_in [OF assms(5)] obtain x where x: "x \<in> set (au_admins s)" "adm_id x = i"
      and s1: "s1 = save_admin i (\<lambda>y. y\<lparr>token_version := or_one (token_version x) + 1\<rparr>) s"
      by blast
    have "1 \<le> token_version x" using x assms(4) by (simp add: version_at_least_def)
    then have two: "2 \<le> or_one (token_version x) + 1" by (simp add: or_one_def)
    show ?thesis unfolding version_at_least_def
    proof (intro ballI impI)
      fix y assume y: "y \<in> set (au_admins s1)" "adm_id y = i"
      define f :: "admin_user \<Rightarrow> admin_user" where "f = (\<lambda>z. if adm_id z = i then z\<lparr>token_version := or_one (token_version x) + 1\<rparr> else z)"
      have "au_admins s1 = map f (au_admins s)" by (simp add: s1 save_admin_def upd_where_def f_def)
      with y(1) obtain z where "y = f z" by auto
      with y(2) two show "2 \<le> token_version y" by (cases "adm_id z = i") (simp_all add: f_def)
    qed
  qed
  then have v: "version_at_least 2 i s2" by (rule auth_steps_version [OF assms(6)]) simp
  have sub: "py_str (show_json env) (JNum (of_int i)) = text_of_int i" by (simp add: py_str_def)
  have "text_of_int i \<noteq> []" using text_of_nat_digits(2) by (simp add: text_of_int_def)
  moreover have "2 \<le> or_one (token_version x)" if "active_admin s2 i = Some x" for x
    using active_admin_Some [OF that] v by (auto simp: version_at_least_def or_one_def)
  ultimately have adm: "active_admin s2 i = None \<or> (\<exists>x. active_admin s2 i = Some x \<and> or_one (token_version x) \<noteq> 1)"
    by (cases "active_admin s2 i") force+
  define c where "c = [(asc ''sub'', JStr (text_of_int i)), (asc ''exp'', JNum (of_int (t + 3600 * refresh_hours env))),
                      (asc ''iat'', JNum (of_int t)), (asc ''token_type'', JStr (asc ''refresh''))]"
  have dec: "jwt_decode env (au_now s2) (create_refresh_token env t data None)
      = (if au_now s2 < t + 3600 * refresh_hours env then Some c else None)"
    using refresh_token_decoded [OF assms(1,7) _ assms(8)] by (simp add: sub c_def)
  have c: "map_of c (asc ''sub'') = Some (JStr (text_of_int i))" "map_of c (asc ''tv'') = None"
    "map_of c (asc ''token_type'') = Some (JStr (asc ''refresh''))"
    by (simp_all add: c_def claim_name_simps)
  have "check_refresh c s2 = Inr (Inl AdminNotActive) \<or> check_refresh c s2 = Inr (Inl RefreshRevoked)"
    using adm int_claim_of_id [OF assms(2,3)] \<open>text_of_int i \<noteq> []\<close> by (auto simp: check_refresh_def c)
  moreover have "verify_token env (au_now s2) (create_refresh_token env t data None) (Some (asc ''refresh'')) =
      (if au_now s2 < t + 3600 * refresh_hours env then Inr c else Inl (AuthenticationError (asc ''Invalid token'')))"
    by (simp add: verify_token_def dec c)
  ultimately show ?thesis by (auto simp: refresh_admin_token_def logged_in_def)
qed


section \<open>Guessing a password\<close>

text \<open>The attempts of a list of (time, password) whose password is looked at.\<close>

definition password_tested :: "pystr \<Rightarrow> auth_sys \<Rightarrow> bool" where
  "password_tested u s \<longleftrightarrow> (case login_gate u s of (Inr _, _) \<Rightarrow> True | _ \<Rightarrow> False)"

fun guesses :: "auth_env \<Rightarrow> pystr \<Rightarrow> (int \<times> pystr) list \<Rightarrow> auth_sys \<Rightarrow> nat" where
  "guesses env u [] s = 0"
| "guesses env u ((t, pwd) # rest) s =
     (if password_tested u (at_time t s) then 1 else 0)
     + guesses env u rest (snd (admin_login env u pwd (at_time t s)))"

lemma admin_named_save:
  assumes "\<And>x. adm_username (f x) = adm_username x"
  shows "admin_named (save_admin i f s) u = map_option (\<lambda>x. if adm_id x = i then f x else x) (admin_named s u)"
  using assms by (simp add: admin_named_def save_admin_def find_upd_where)

lemma admin_named_saved:
  assumes "admin_named s u = Some x" and "adm_id x = i" and "\<And>x. adm_username (f x) = adm_username x"
  shows "admin_named (save_admin i f s) u = Some (f x)"
  using assms by (simp add: admin_named_save)

lemma at_time_simps [simp]:
  "au_now (at_time t s) = t" "au_admins (at_time t s) = au_admins s" "admin_named (at_time t s) u = admin_named s u"
  by (simp_all add: au_now_def at_time_def admin_named_def)

text \<open>How many more guesses are looked at before \<open>until\<close>.\<close>

definition guesses_left :: "auth_env \<Rightarrow> int \<Rightarrow> admin_user \<Rightarrow> nat" where
  "guesses_left env until a =
     (case locked_until a of
        None \<Rightarrow> max 1 (nat (max_attempts env - login_failed_count a))
      | Some l \<Rightarrow> if until \<le> l then 0 else nat (max_attempts env))"

lemma wrong_guess:
  assumes a: "admin_named s u = Some a" and wrong: "\<not> password_ok env pwd (adm_password_hash a)"
    and n: "0 \<le> login_failed_count a" and t: "t < until" "until \<le> t + 60 * lock_minutes env"
    and s1_def: "s1 = snd (admin_login env u pwd (at_time t s))"
  shows "\<exists>b. admin_named s1 u = Some b \<and> adm_password_hash b = adm_password_hash a \<and> 0 \<le> login_failed_count b
    \<and> (if password_tested u (at_time t s) then 1 else 0) + guesses_left env until b \<le> guesses_left env until a"
proof (cases "adm_status a = AdmLocked \<or> (case locked_until a of None \<Rightarrow> False | Some l \<Rightarrow> t < l)")
  case True
  then show ?thesis using a n
    by (auto simp: s1_def admin_login_def login_gate_def password_tested_def split: option.splits)
next
  case open_: False
  let ?f = "\<lambda>x. if locked_until a \<noteq> None then x\<lparr>locked_until := None, login_failed_count := 0\<rparr> else x"
  let ?s1 = "save_admin (adm_id a) ?f (at_time t s)"
  have named: "admin_named ?s1 u = Some (?f a)" by (rule admin_named_saved) (use a in simp_all)
  have count: "0 \<le> login_failed_count (?f a)" "locked_until (?f a) = None" "adm_password_hash (?f a) = adm_password_hash a"
    "adm_id (?f a) = adm_id a" using n by auto
  have left: "guesses_left env until (?f a) \<le> guesses_left env until a"
    using open_ t policies_positive(1) [of env] by (auto simp: guesses_left_def split: option.splits)
  show ?thesis
  proof (cases "adm_status a = AdmActive")
    case False
    then have "login_gate u (at_time t s) = (Inl AccountDisabled, ?s1)"
      using a open_ by (auto simp: login_gate_def Let_def split: option.splits)
    then show ?thesis using named count left by (auto simp: s1_def admin_login_def password_tested_def)
  next
    case True
    then have gate: "login_gate u (at_time t s) = (Inr (?f a), ?s1)"
      using a open_ by (auto simp: login_gate_def Let_def split: option.splits)
    let ?n = "login_failed_count (?f a) + 1"
    let ?g = "if max_attempts env \<le> ?n
              then (\<lambda>x. x\<lparr>locked_until := Some (t + 60 * lock_minutes env), login_failed_count := 0\<rparr>)
              else (\<lambda>x. x\<lparr>login_failed_count := ?n\<rparr>)"
    have s1: "s1 = save_admin (adm_id a) ?g ?s1"
      using gate wrong count(3,4) by (simp add: s1_def admin_login_def Let_def)
    have b: "admin_named s1 u = Some (?g (?f a))"
      unfolding s1 by (rule admin_named_saved [OF named count(4)]) simp
    have "1 + guesses_left env until (?g (?f a)) \<le> guesses_left env until (?f a)"
      using count(1,2) t(2) by (auto simp: guesses_left_def)
    moreover have "adm_password_hash (?g (?f a)) = adm_password_hash a" "0 \<le> login_failed_count (?g (?f a))"
      using count by auto
    ultimately show ?thesis using b left gate by (auto simp: password_tested_def)
  qed
qed


section \<open>Too many wrong codes\<close>

text \<open>A wrong code counts, and its count has no expiry: \<open>TTL\<close> of the fresh counter is -1, which is not zero.\<close>

lemma count_failure_forever:
  assumes "case au_fails s u of None \<Rightarrow> n = 0 | Some x \<Rightarrow> x = (n, None)"
  shows "au_fails (count_failure u s) u = Some (n + 1, None)"
  using assms by (auto simp: count_failure_def live_fails_def ttl_of_def split: option.splits)

definition locked_out :: "pystr \<Rightarrow> auth_sys \<Rightarrow> bool" where
  "locked_out u s \<longleftrightarrow> (\<exists>n. au_fails s u = Some (n, None) \<and> 5 \<le> n)"

lemma locked_out_refused:
  assumes "locked_out u s" and "py_strip raw_name = u"
  shows "telegram_login_verify env raw_name c s = (LoginRefused CodeInvalid, s)
    \<or> telegram_login_verify env raw_name c s = (LoginRefused TooManyAttempts, s)"
  using assms by (auto simp: locked_out_def telegram_login_verify_def Let_def live_fails_def)

lemma locked_out_step:
  assumes "auth_step env s s'" and l: "locked_out u s"
  shows "locked_out u s'"
  using assms(1)
proof cases
  case (by_password x pwd)
  have "au_fails (snd (login_gate x s)) = au_fails s"
    by (auto simp: login_gate_def save_admin_def Let_def split: option.split)
  then have "au_fails s' = au_fails s" unfolding by_password
    by (auto simp: admin_login_def save_admin_def Let_def split: sum.split prod.splits)
  with l show ?thesis by (simp add: locked_out_def)
next
  case (by_refresh tok)
  obtain r s1 where e: "refresh_admin_token env tok s = (r, s1)" by fastforce
  have "au_fails s1 = au_fails s" by (rule refresh_token_cases [OF e]) (simp_all add: save_admin_def)
  with l e by_refresh show ?thesis by (simp add: locked_out_def)
next
  case (code_asked draw sent x)
  with l show ?thesis by (auto simp: telegram_login_send_code_def locked_out_def Let_def)
next
  case (by_code x c)
  show ?thesis
  proof (cases "py_strip x = u")
    case True
    with locked_out_refused [OF l this, of env c] l by_code show ?thesis by auto
  next
    case False
    then have "au_fails s' u = au_fails s u" unfolding by_code
      by (auto simp: telegram_login_verify_def count_failure_def save_admin_def Let_def split: option.split prod.splits)
    with l show ?thesis by (simp add: locked_out_def)
  qed
next
  case (key_used k)
  with l show ?thesis by (auto simp: verify_api_key_def locked_out_def split: option.splits fetched.splits)
next
  case (passes t)
  with l show ?thesis by (simp add: at_time_def locked_out_def)
qed

text \<open>After five wrong codes an administrator can never again log in by a code: the counter is meant to run out
  after 15 minutes and never does, and nothing but a login by code would clear it.\<close>

theorem otp_lockout_permanent:
  assumes "au_fails s u = Some (4, None)" and "telegram_login_verify env u c s = (LoginRefused CodeInvalid, s1)"
    and "s1 \<noteq> s" and "(auth_step env)\<^sup>*\<^sup>* s1 s2" and "py_strip u = u"
  shows "fst (telegram_login_verify env raw_name c' s2) \<in> {LoginRefused CodeInvalid, LoginRefused TooManyAttempts}
    \<or> py_strip raw_name \<noteq> u"
proof -
  have "s1 = count_failure u s" using assms(2,3,5)
    by (auto simp: telegram_login_verify_def Let_def split: option.splits if_splits)
  then have "locked_out u s1" using count_failure_forever [where s = s and u = u and n = 4] assms(1) by (simp add: locked_out_def)
  with assms(4) have "locked_out u s2" by (induction rule: rtranclp_induct) (auto intro: locked_out_step)
  then show ?thesis using locked_out_refused [of u s2 raw_name env c'] by auto
qed

section \<open>An administrator who was dismissed\<close>

text \<open>C25: An access token outlives its administrator: once the administrator is no longer active the
  administration refuses the token, but the submission of messages takes it until it expires, for the
  account with the lowest id, and so does the reading of messages.\<close>

theorem disabled_admin_still_sends:
  assumes "jwt_ok env" and "0 < adm_id a" and "adm_id a < 2147483648"
    and "tok = create_access_token env t (access_claims a) None" and "t \<le> au_now s" and "au_now s < t + 60 * access_minutes env"
    and "active_admin s (adm_id a) = None" and "first_account (au_world s) = Some acc" and "tok \<noteq> []"
  shows "get_current_admin env tok s \<in> range Inl
    \<and> get_current_account_or_admin env \<lparr>pr_api_key = None, pr_bearer = Some tok, pr_basic = None, pr_query = None\<rparr> s = (Inr acc, s)
    \<and> (\<exists>cx. get_auth_context env \<lparr>pr_api_key = None, pr_bearer = Some tok, pr_basic = None, pr_query = None\<rparr> s = (Inr cx, s)
          \<and> cx_is_admin cx \<and> cx_admin_id cx = Some (adm_id a))"
proof -
  have sub: "map_of (access_claims a) (asc ''sub'') = Some (JNum (of_int (adm_id a)))" by (simp add: access_claims_def)
  have id: "py_str (show_json env) (JNum (of_int (adm_id a))) = text_of_int (adm_id a)" by (simp add: py_str_def)
  let ?p = "access_payload env t (access_claims a)"
  have v: "verify_token env (au_now s) tok (Some (asc ''access'')) = Inr ?p"
    using verify_access [OF assms(1) sub _ assms(5)] assms(4,6) by simp
  have c: "map_of ?p (asc ''sub'') = Some (JStr (text_of_int (adm_id a)))"
    using access_payload_claims(1) [OF sub, where env = env and t = t] by (simp add: id)
  have "text_of_int (adm_id a) \<noteq> []" using text_of_nat_digits(2) by (simp add: text_of_int_def)
  then show ?thesis using v c int_claim_of_id [OF assms(2,3)] assms(7-9)
    by (simp add: get_current_admin_def get_current_account_or_admin_def get_auth_context_def token_account_def
        basic_account_def or_opt_def nonempty_def is_auth_error_def no_context_def)
qed


section \<open>Examples\<close>

text \<open>A token library: tokens are numbers of claim lists, and the clock is compared with the claims.\<close>

instance json :: countable by countable_datatype

definition demo_encode :: "claims \<Rightarrow> pystr" where
  "demo_encode c = [int (to_nat c)]"

definition demo_valid :: "int \<Rightarrow> claims \<Rightarrow> bool" where
  "demo_valid t c \<longleftrightarrow>
     (case map_of c (asc ''exp'') of Some (JNum e) \<Rightarrow> of_int t < e | _ \<Rightarrow> False)
     \<and> (case map_of c (asc ''iat'') of Some (JNum i) \<Rightarrow> i \<le> of_int t | _ \<Rightarrow> False)"

definition demo_decode :: "int \<Rightarrow> pystr \<Rightarrow> claims option" where
  "demo_decode t s =
     (case s of [n] \<Rightarrow> if demo_valid t (from_nat (nat n)) then Some (from_nat (nat n)) else None | _ \<Rightarrow> None)"

definition demo_auth :: auth_env where
  "demo_auth = \<lparr>jwt_encode = demo_encode, jwt_decode = demo_decode, access_minutes = 30, refresh_hours = 24,
     password_ok = (\<lambda>pwd hash. pwd = hash), show_json = (\<lambda>_. []), config_value = (\<lambda>_. None)\<rparr>"

lemma demo_auth_ok: "jwt_ok demo_auth"
  by (simp add: jwt_ok_def demo_auth_def demo_encode_def demo_decode_def demo_valid_def)

definition demo_admin :: admin_user where
  "demo_admin = \<lparr>adm_id = 4, adm_username = asc ''ann'', adm_password_hash = asc ''pw'', adm_role = Sales,
     adm_status = AdmActive, adm_tg_id = Some 9, adm_last_login_at = None, login_failed_count = 0,
     locked_until = None, token_version = 1\<rparr>"

definition demo_key_account :: account where
  "demo_key_account = (new_account 1 (asc ''acme''))\<lparr>acc_api_key := Some (asc ''ak_1''), rate_limit := Some 10\<rparr>"

definition demo_sys :: auth_sys where
  "demo_sys = \<lparr>au_world = empty_world\<lparr>accounts := [demo_key_account], now := 100\<rparr>, au_admins = [demo_admin],
     au_limits = Map.empty, au_otp = [asc ''ann'' \<mapsto> (asc ''123456'', 400)], au_cooldown = Map.empty, au_fails = Map.empty\<rparr>"

definition demo_request :: presented where
  "demo_request = \<lparr>pr_api_key = None, pr_bearer = Some (asc '' ak_1 ''), pr_basic = None, pr_query = None\<rparr>"


lemma demo_claims: "map_of (access_claims demo_admin) (asc ''sub'') = Some (JNum (of_int 4))"
  by (simp add: access_claims_def demo_admin_def)


theorem refresh_works_once_witness:
  "\<exists>s1. refresh_admin_token demo_auth (create_refresh_token demo_auth 50 (access_claims demo_admin) None) demo_sys
           = (Inr (LoggedIn 4 (create_access_token demo_auth 100 (access_claims demo_admin) None)
                (create_refresh_token demo_auth 100 (refresh_claims demo_admin 2) None)), s1)
     \<and> \<not> logged_in (fst (refresh_admin_token demo_auth
            (create_refresh_token demo_auth 100 (refresh_claims demo_admin 2) None) s1))"
proof -
  define c where "c = [(asc ''sub'', JStr (text_of_int 4)), (asc ''exp'', JNum (of_int (50 + 3600 * refresh_hours demo_auth))),
                      (asc ''iat'', JNum (of_int 50)), (asc ''token_type'', JStr (asc ''refresh''))]"
  have n: "au_now demo_sys = 100" by (simp add: au_now_def demo_sys_def)
  have "jwt_decode demo_auth 100 (create_refresh_token demo_auth 50 (access_claims demo_admin) None) = Some c"
    using refresh_token_decoded [OF demo_auth_ok demo_claims, of 50 100]
    by (simp add: c_def py_str_def demo_auth_def)
  then have v: "verify_token demo_auth 100 (create_refresh_token demo_auth 50 (access_claims demo_admin) None)
      (Some (asc ''refresh'')) = Inr c"
    by (simp add: verify_token_def c_def claim_name_simps)
  have "check_refresh c demo_sys = Inr (Inr demo_admin)"
    unfolding c_def by code_simp
  then obtain s1 where e: "refresh_admin_token demo_auth (create_refresh_token demo_auth 50 (access_claims demo_admin) None) demo_sys
      = (Inr (LoggedIn 4 (create_access_token demo_auth 100 (access_claims demo_admin) None)
                (create_refresh_token demo_auth 100 (refresh_claims demo_admin 2) None)), s1)"
    and s1: "s1 = save_admin 4 (\<lambda>x. x\<lparr>token_version := 2\<rparr>) demo_sys"
    using v by (simp add: refresh_admin_token_def n Let_def demo_admin_def or_one_def)
  have "version_at_least 1 4 demo_sys" by (simp add: version_at_least_def demo_sys_def demo_admin_def)
  moreover have "map_of (refresh_claims demo_admin 2) (asc ''sub'') = Some (JNum (of_int 4))"
    by (simp add: refresh_claims_def demo_admin_def)
  moreover have "100 \<le> au_now s1" by (simp add: s1 save_admin_def au_now_def demo_sys_def)
  ultimately show ?thesis using refresh_works_once [OF demo_auth_ok _ _ _ e rtranclp.rtrancl_refl] e by auto
qed


theorem otp_lockout_permanent_witness:
  "\<exists>s1. telegram_login_verify demo_auth (asc ''ann'') (asc ''000000'') (demo_sys\<lparr>au_fails := [asc ''ann'' \<mapsto> (4, None)]\<rparr>)
           = (LoginRefused CodeInvalid, s1)
     \<and> fst (telegram_login_verify demo_auth (asc ''ann'') (asc ''123456'') (at_time 200 s1))
         \<in> {LoginRefused CodeInvalid, LoginRefused TooManyAttempts}"
proof -
  let ?s = "demo_sys\<lparr>au_fails := [asc ''ann'' \<mapsto> (4, None)]\<rparr>"
  obtain r s1 where e: "telegram_login_verify demo_auth (asc ''ann'') (asc ''000000'') ?s = (r, s1)" by fastforce
  have "fst (telegram_login_verify demo_auth (asc ''ann'') (asc ''000000'') ?s) = LoginRefused CodeInvalid" by code_simp
  then have r: "r = LoginRefused CodeInvalid" using e by simp
  have "au_fails (snd (telegram_login_verify demo_auth (asc ''ann'') (asc ''000000'') ?s)) (asc ''ann'') \<noteq> Some (4, None)"
    by code_simp
  then have ne: "s1 \<noteq> ?s" using e by auto
  have "au_now s1 = 100"
    using e by (auto simp: telegram_login_verify_def count_failure_def save_admin_def au_now_def demo_sys_def Let_def
        split: option.splits if_splits prod.splits)
  then have st: "(auth_step demo_auth)\<^sup>*\<^sup>* s1 (at_time 200 s1)" using auth_step.passes by auto
  have strip: "py_strip (asc ''ann'') = asc ''ann''" by code_simp
  have "au_fails ?s (asc ''ann'') = Some (4, None)" by simp
  from otp_lockout_permanent [OF this e [unfolded r] ne st strip, of "asc ''ann''" "asc ''123456''"] e r strip
  show ?thesis by auto
qed

theorem disabled_admin_still_sends_witness:
  "\<exists>p s. get_current_admin demo_auth (create_access_token demo_auth 100 (access_claims demo_admin) None) s \<in> range Inl
     \<and> pr_bearer p = Some (create_access_token demo_auth 100 (access_claims demo_admin) None)
     \<and> get_current_account_or_admin demo_auth p s = (Inr demo_key_account, s)"
proof -
  let ?s = "demo_sys\<lparr>au_admins := [demo_admin\<lparr>adm_status := AdmInactive\<rparr>]\<rparr>"
  let ?tok = "create_access_token demo_auth 100 (access_claims demo_admin) None"
  have "active_admin ?s (adm_id demo_admin) = None" by (simp add: active_admin_def)
  moreover have "first_account (au_world ?s) = Some demo_key_account"
    by (simp add: first_account_def demo_sys_def usable_def demo_key_account_def new_account_def first_row_def)
  moreover have "?tok \<noteq> []" by (simp add: access_token_eq demo_auth_def demo_encode_def)
  moreover have "0 < adm_id demo_admin" "adm_id demo_admin < 2147483648" by (simp_all add: demo_admin_def)
  moreover have "100 \<le> au_now ?s" "au_now ?s < 100 + 60 * access_minutes demo_auth"
    by (simp_all add: au_now_def demo_sys_def demo_auth_def)
  ultimately show ?thesis using disabled_admin_still_sends [OF demo_auth_ok _ _ refl] by (metis presented.select_convs(2))
qed

end
