(* ===== verification/Access.thy ===== *)
theory Access
  imports Auth Gateway Template
begin

text \<open>
  What stands between the network and the API: the address of the client
  (\<open>backend/app/utils/client_ip.py\<close>), the IP whitelist (\<open>backend/app/middleware/ip_whitelist.py\<close>), the limiter of requests
  (\<open>backend/app/middleware/rate_limit.py\<close>) and the cache manager behind them
  (\<open>get\<close> and \<open>set\<close> of \<open>backend/app/utils/cache.py\<close>), which keeps a copy in the process beside Redis. The
  module \<open>ipaddress\<close> and the reading and writing of JSON are parameters.
\<close>

section \<open>The address of the client\<close>

record 'a ip_lib =
  ip_address :: "pystr \<Rightarrow> 'a option"
  ip_network :: "pystr \<Rightarrow> ('a \<Rightarrow> bool) option" \<comment> \<open>\<open>ip_network(s, strict=False)\<close>, as the test for membership\<close>

record request =
  rq_peer :: "pystr option" \<comment> \<open>\<open>request.client\<close>\<close>
  rq_path :: pystr
  rq_xff :: "pystr option"
  rq_real_ip :: "pystr option"
  rq_authorization :: "pystr option"
  rq_api_key :: "pystr option"
  rq_query_key :: "pystr option"

definition stripped_parts :: "int \<Rightarrow> pystr \<Rightarrow> pystr list" where
  "stripped_parts sep s = filter (\<lambda>p. p \<noteq> []) (map py_strip (split_at (\<lambda>c. c = sep) s))"

definition parse_cidrs :: "'a ip_lib \<Rightarrow> pystr \<Rightarrow> ('a \<Rightarrow> bool) list" where
  "parse_cidrs lib s = List.map_filter (ip_network lib) (stripped_parts 44 s)"

definition DEFAULT_TRUSTED :: pystr where
  "DEFAULT_TRUSTED = asc ''172.16.0.0/12,192.168.0.0/16,10.0.0.0/8,127.0.0.0/8''"

definition is_trusted_proxy :: "'a ip_lib \<Rightarrow> ('a \<Rightarrow> bool) list \<Rightarrow> pystr \<Rightarrow> bool" where
  "is_trusted_proxy lib trusted ip \<longleftrightarrow>
     ip \<noteq> [] \<and> (case ip_address lib ip of None \<Rightarrow> False | Some a \<Rightarrow> list_ex (\<lambda>n. n a) trusted)"

definition is_valid_ip :: "'a ip_lib \<Rightarrow> pystr option \<Rightarrow> bool" where
  "is_valid_ip lib ip \<longleftrightarrow> (case nonempty ip of None \<Rightarrow> False | Some s \<Rightarrow> ip_address lib s \<noteq> None)"

definition get_client_ip :: "'a ip_lib \<Rightarrow> ('a \<Rightarrow> bool) list \<Rightarrow> request \<Rightarrow> pystr" where
  "get_client_ip lib trusted rq =
     (let direct = or_empty (rq_peer rq); direct_or = or_else direct (asc ''unknown'');
          parts = (case nonempty (rq_xff rq) of None \<Rightarrow> [] | Some x \<Rightarrow> stripped_parts 44 x)
      in if \<not> is_trusted_proxy lib trusted direct then direct_or
         else if parts \<noteq> [] \<and> is_valid_ip lib (Some (last parts)) then last parts
         else if is_valid_ip lib (rq_real_ip rq) then or_empty (rq_real_ip rq)
         else direct_or)"

section \<open>The key of a request\<close>

text \<open>The same lines in both middlewares: the header, or a bearer that looks like a key.\<close>

definition header_key :: "request \<Rightarrow> pystr option" where
  "header_key rq =
     (case nonempty (rq_api_key rq) of
        Some k \<Rightarrow> Some k
      | None \<Rightarrow>
          (let h = or_empty (rq_authorization rq)
           in if starts_with (asc ''Bearer '') h
              then let t = py_strip (py_replace (asc ''Bearer '') [] h)
                   in if starts_with (asc ''ak_'') t then Some t else None
              else None))"

section \<open>The cache manager\<close>

record gate_env =
  json_loads :: "pystr \<Rightarrow> json option"
  json_dumps :: "json \<Rightarrow> pystr"
  ge_config :: "pystr \<Rightarrow> json option"

record gate_sys =
  gs_auth :: auth_sys
  gs_up :: bool
  gs_local :: "pystr \<rightharpoonup> json" \<comment> \<open>\<open>_local_cache\<close> of the process, whitelists only\<close>
  gs_redis :: "pystr \<rightharpoonup> pystr \<times> int" \<comment> \<open>\<open>account:whitelist:{api_key}\<close>\<close>
  gs_counts :: "pystr \<times> int \<rightharpoonup> int \<times> int" \<comment> \<open>\<open>ratelimit:{api_key}:{minute}\<close>\<close>
  gs_limit :: "(int \<times> int) option" \<comment> \<open>the default limit and when it was read\<close>

definition gs_now :: "gate_sys \<Rightarrow> int" where
  "gs_now s = au_now (gs_auth s)"

definition gs_world :: "gate_sys \<Rightarrow> world" where
  "gs_world s = au_world (gs_auth s)"

text \<open>A value of \<open>None\<close> reads like a missing one.\<close>

definition cache_get :: "gate_env \<Rightarrow> pystr \<Rightarrow> gate_sys \<Rightarrow> json option \<times> gate_sys" where
  "cache_get env k s =
     (case gs_local s k of
        Some v \<Rightarrow> (if v = JNull then None else Some v, s)
      | None \<Rightarrow>
          (case (if gs_up s then gs_redis s k else None) of
             None \<Rightarrow> (None, s)
           | Some (raw, expiry) \<Rightarrow>
               (if expiry \<le> gs_now s then (None, s)
                else let v = (case json_loads env raw of None \<Rightarrow> JStr raw | Some v \<Rightarrow> v)
                     in (if v = JNull then None else Some v, s\<lparr>gs_local := (gs_local s)(k \<mapsto> v)\<rparr>))))"

definition cache_set :: "gate_env \<Rightarrow> pystr \<Rightarrow> json \<Rightarrow> int \<Rightarrow> gate_sys \<Rightarrow> gate_sys" where
  "cache_set env k v ttl s =
     (if \<not> gs_up s then s
      else let raw = (case v of JStr t \<Rightarrow> t | _ \<Rightarrow> json_dumps env v)
           in s\<lparr>gs_redis := (gs_redis s)(k \<mapsto> (raw, gs_now s + ttl)), gs_local := (gs_local s)(k \<mapsto> v)\<rparr>)"

section \<open>The whitelist\<close>

datatype verdict = Allow | AccountInvalid | IpNotInList

definition SENTINEL :: json where
  "SENTINEL = JArr [JStr (asc ''__INVALID__'')]"

text \<open>An entry covers the address; an entry that is no text raises.\<close>

definition entry_covers :: "'a ip_lib \<Rightarrow> 'a \<Rightarrow> pystr \<Rightarrow> bool" where
  "entry_covers lib a raw =
     (let e = py_strip raw
      in if e = [] then False
         else if 47 \<in> set e then (case ip_network lib e of None \<Rightarrow> False | Some n \<Rightarrow> n a)
         else ip_address lib e = Some a)"

fun scan_entries :: "'a ip_lib \<Rightarrow> 'a \<Rightarrow> json list \<Rightarrow> bool outcome" where
  "scan_entries lib a [] = Inr False"
| "scan_entries lib a (JStr e # es) = (if entry_covers lib a e then Inr True else scan_entries lib a es)"
| "scan_entries lib a (_ # es) = Inl PyException"

text \<open>What a \<open>for\<close> loop sees of a decoded value; numbers and booleans cannot be walked.\<close>

definition iterated :: "json \<Rightarrow> json list option" where
  "iterated v =
     (case v of
        JArr xs \<Rightarrow> Some xs
      | JStr s \<Rightarrow> Some (map (\<lambda>c. JStr [c]) s)
      | JObj kvs \<Rightarrow> Some (map (\<lambda>(k, _). JStr k) kvs)
      | _ \<Rightarrow> None)"

definition is_ip_in_whitelist :: "'a ip_lib \<Rightarrow> pystr \<Rightarrow> json \<Rightarrow> bool outcome" where
  "is_ip_in_whitelist lib ip v =
     (case ip_address lib ip of
        None \<Rightarrow> Inr False
      | Some a \<Rightarrow> (case iterated v of None \<Rightarrow> Inl PyException | Some xs \<Rightarrow> scan_entries lib a xs))"

text \<open>The end of \<open>_check_ip_whitelist\<close>; an exception allows.\<close>

definition judge :: "'a ip_lib \<Rightarrow> pystr \<Rightarrow> json \<Rightarrow> verdict" where
  "judge lib ip v =
     (if v = SENTINEL then AccountInvalid
      else if \<not> json_truthy v then Allow
      else case is_ip_in_whitelist lib ip v of
             Inl _ \<Rightarrow> Allow
           | Inr True \<Rightarrow> Allow
           | Inr False \<Rightarrow> IpNotInList)"

definition whitelist_of :: "gate_env \<Rightarrow> account \<Rightarrow> json" where
  "whitelist_of env a =
     (case nonempty (ip_whitelist a) of
        None \<Rightarrow> JArr []
      | Some t \<Rightarrow> (case json_loads env t of Some v \<Rightarrow> v | None \<Rightarrow> JArr (map JStr (stripped_parts 10 t))))"

definition key_rows :: "pystr \<Rightarrow> world \<Rightarrow> account list" where
  "key_rows k w = filter (\<lambda>a. acc_api_key a = Some k \<and> usable a) (accounts w)"

definition check_ip_whitelist :: "gate_env \<Rightarrow> 'a ip_lib \<Rightarrow> pystr \<Rightarrow> pystr \<Rightarrow> gate_sys \<Rightarrow> verdict \<times> gate_sys" where
  "check_ip_whitelist env lib k ip s =
     (case cache_get env k s of
        (Some v, s1) \<Rightarrow> (judge lib ip v, s1)
      | (None, s1) \<Rightarrow>
          (case one_or_none (key_rows k (gs_world s1)) of
             ManyRows \<Rightarrow> (Allow, s1)
           | NoRow \<Rightarrow> (AccountInvalid, cache_set env k SENTINEL 300 s1)
           | OneRow a \<Rightarrow> (judge lib ip (whitelist_of env a), cache_set env k (whitelist_of env a) 300 s1)))"

datatype gate_answer = Passed | Refused401 | Refused403 | Refused429

definition SKIP_PATHS :: "pystr list" where
  "SKIP_PATHS = [asc ''/health'', asc ''/docs'', asc ''/redoc'', asc ''/openapi.json'', asc ''/'']"

definition AUTH_PATH_PREFIXES :: "pystr list" where
  "AUTH_PATH_PREFIXES =
     [asc ''/api/v1/account/login'', asc ''/api/v1/account/register'', asc ''/api/v1/account/forgot-password'',
      asc ''/api/v1/account/reset-password'', asc ''/api/v1/account/telegram/'', asc ''/api/v1/admin/login'',
      asc ''/api/v1/admin/auth/refresh'']"

definition whitelist_dispatch :: "gate_env \<Rightarrow> 'a ip_lib \<Rightarrow> ('a \<Rightarrow> bool) list \<Rightarrow> request \<Rightarrow> gate_sys \<Rightarrow> gate_answer \<times> gate_sys" where
  "whitelist_dispatch env lib trusted rq s =
     (if rq_path rq \<in> set SKIP_PATHS \<or> starts_with (asc ''/s/'') (rq_path rq)
         \<or> list_ex (\<lambda>p. starts_with p (rq_path rq)) AUTH_PATH_PREFIXES then (Passed, s)
      else case header_key rq of
             None \<Rightarrow> (Passed, s)
           | Some k \<Rightarrow>
               (case check_ip_whitelist env lib k (get_client_ip lib trusted rq) s of
                  (Allow, s1) \<Rightarrow> (Passed, s1)
                | (AccountInvalid, s1) \<Rightarrow> (Refused401, s1)
                | (IpNotInList, s1) \<Rightarrow> (Refused403, s1)))"

section \<open>The limiter\<close>

definition resolve_default_limit :: "gate_env \<Rightarrow> gate_sys \<Rightarrow> int \<times> gate_sys" where
  "resolve_default_limit env s =
     (case gs_limit s of
        Some (v, since) \<Rightarrow>
          (if gs_now s - since < 30 then (v, s)
           else let v' = get_int_policy (ge_config env) (asc ''api_rate_limit_per_minute'')
                in (v', s\<lparr>gs_limit := Some (v', gs_now s)\<rparr>))
      | None \<Rightarrow>
          (let v' = get_int_policy (ge_config env) (asc ''api_rate_limit_per_minute'')
           in (v', s\<lparr>gs_limit := Some (v', gs_now s)\<rparr>)))"

definition get_account_limit :: "pystr \<Rightarrow> gate_sys \<Rightarrow> int option" where
  "get_account_limit k s =
     (case au_limits (gs_auth s) k of
        None \<Rightarrow> None | Some (n, expiry) \<Rightarrow> if gs_now s < expiry then Some n else None)"

definition IP_RATE_PATHS :: "pystr list" where
  "IP_RATE_PATHS =
     [asc ''/api/v1/account/login'', asc ''/api/v1/admin/login'', asc ''/api/v1/account/register'',
      asc ''/api/v1/ai/generate-sms'', asc ''/api/v1/admin/telegram-login/send-code'',
      asc ''/api/v1/admin/telegram-login/verify'', asc ''/api/v1/account/telegram-login/send-code'',
      asc ''/api/v1/account/telegram-login/verify'']"

text \<open>\<open>INCR\<close> with \<open>EXPIRE\<close> on the first.\<close>

definition count_request :: "pystr \<Rightarrow> gate_sys \<Rightarrow> int \<times> gate_sys" where
  "count_request k s =
     (let key = (k, gs_now s div 60);
          (n, expiry) = (case gs_counts s key of
                           None \<Rightarrow> (1, gs_now s + 60)
                         | Some (n, e) \<Rightarrow> if e \<le> gs_now s then (1, gs_now s + 60) else (n + 1, e))
      in (n, s\<lparr>gs_counts := (gs_counts s)(key \<mapsto> (n, expiry))\<rparr>))"

definition limiter_key :: "'a ip_lib \<Rightarrow> ('a \<Rightarrow> bool) list \<Rightarrow> request \<Rightarrow> pystr option" where
  "limiter_key lib trusted rq =
     (if rq_path rq \<in> set SKIP_PATHS then None
      else case header_key rq of
             Some k \<Rightarrow> Some k
           | None \<Rightarrow>
               (if rq_path rq \<in> set IP_RATE_PATHS then Some (asc ''ip:'' @ get_client_ip lib trusted rq) else None))"

definition rate_dispatch :: "gate_env \<Rightarrow> 'a ip_lib \<Rightarrow> ('a \<Rightarrow> bool) list \<Rightarrow> request \<Rightarrow> gate_sys \<Rightarrow> gate_answer \<times> gate_sys" where
  "rate_dispatch env lib trusted rq s =
     (case limiter_key lib trusted rq of
        None \<Rightarrow> (Passed, s)
      | Some k \<Rightarrow>
          (if \<not> gs_up s then (Passed, s)
           else let (current, s1) = count_request k s;
                    (limit, s2) = (case get_account_limit k s1 of
                                     Some n \<Rightarrow> (n, s1) | None \<Rightarrow> resolve_default_limit env s1)
                in (if limit < current then Refused429 else Passed, s2)))"

text \<open>The middleware that is added last runs first: the limiter, then the whitelist.\<close>

definition admit_request :: "gate_env \<Rightarrow> 'a ip_lib \<Rightarrow> ('a \<Rightarrow> bool) list \<Rightarrow> request \<Rightarrow> gate_sys \<Rightarrow> gate_answer \<times> gate_sys" where
  "admit_request env lib trusted rq s =
     (case rate_dispatch env lib trusted rq s of
        (Passed, s1) \<Rightarrow> whitelist_dispatch env lib trusted rq s1
      | (ans, s1) \<Rightarrow> (ans, s1))"


section \<open>The address cannot be forged\<close>

lemma split_at_join: "p c \<Longrightarrow> split_at p (s @ c # t) = split_at p s @ split_at p t"
proof (induction s)
  case (Cons x s)
  have "split_at p s \<noteq> []" by (cases s) (auto split: list.splits)
  with Cons show ?case by (auto split: list.splits)
qed simp

lemma split_at_none: "\<not> list_ex p t \<Longrightarrow> split_at p t = [t]"
  by (induction t) auto

lemma stripped_parts_last:
  assumes "\<not> list_ex (\<lambda>c. c = sep) t" and "py_strip t \<noteq> []"
  shows "stripped_parts sep (s @ sep # t) \<noteq> [] \<and> last (stripped_parts sep (s @ sep # t)) = py_strip t"
  using assms by (simp add: stripped_parts_def split_at_join split_at_none)

lemma py_strip_blank: "py_strip (32 # ip) = py_strip ip"
proof -
  have "py_isspace_char 32" by code_simp
  then show ?thesis by (simp add: py_strip_def py_lstrip_def)
qed

text \<open>C19: The address that counts is the one the last trusted hop has seen: a peer that is no trusted proxy is taken at
  its own address whatever headers it sends, and behind a trusted proxy, which appends the address of
  its peer, nothing that the client has put before it matters.\<close>

theorem client_ip_last_hop:
  assumes "\<not> list_ex (\<lambda>c. c = 44) ip" and "py_strip ip = ip" and "is_valid_ip lib (Some ip)"
  shows "(\<not> is_trusted_proxy lib trusted (or_empty (rq_peer rq)) \<longrightarrow>
      get_client_ip lib trusted (rq\<lparr>rq_xff := forged, rq_real_ip := forged'\<rparr>) = or_else (or_empty (rq_peer rq)) (asc ''unknown''))
    \<and> (is_trusted_proxy lib trusted (or_empty (rq_peer rq)) \<longrightarrow>
      get_client_ip lib trusted (rq\<lparr>rq_xff := Some (spoof @ asc '', '' @ ip), rq_real_ip := forged'\<rparr>) = ip)"
proof -
  have ne: "ip \<noteq> []" using assms(3) by (auto simp: is_valid_ip_def nonempty_def)
  have "asc '', '' = [44, 32]" by code_simp
  then have "spoof @ asc '', '' @ ip = spoof @ 44 # (32 # ip)" by simp
  moreover have "py_strip (32 # ip) = ip" using assms(2) by (simp add: py_strip_blank)
  ultimately have "stripped_parts 44 (spoof @ asc '', '' @ ip) \<noteq> []" "last (stripped_parts 44 (spoof @ asc '', '' @ ip)) = ip"
    "nonempty (Some (spoof @ asc '', '' @ ip)) = Some (spoof @ asc '', '' @ ip)"
    using stripped_parts_last [of 44 "32 # ip" spoof] assms(1) ne by (auto simp: nonempty_def)
  then show ?thesis using assms(3) by (simp add: get_client_ip_def Let_def)
qed

section \<open>What a whitelist allows\<close>

lemma scan_texts: "scan_entries lib a (map JStr es) = Inr (list_ex (entry_covers lib a) es)"
  by (induction es) auto

text \<open>A list of texts that is not empty lets in exactly the addresses it covers.\<close>

lemma judge_list:
  assumes "es \<noteq> []" and "JArr (map JStr es) \<noteq> SENTINEL"
  shows "judge lib ip (JArr (map JStr es)) = Allow \<longleftrightarrow>
    (\<exists>a e. ip_address lib ip = Some a \<and> e \<in> set es \<and> entry_covers lib a e)"
  using assms
  by (auto simp: judge_def is_ip_in_whitelist_def iterated_def scan_texts list_ex_iff split: option.splits bool.splits)

text \<open>An entry that is no text lets everybody in who gets to it.\<close>

lemma judge_bad_entry:
  assumes "ip_address lib ip = Some a" and "\<And>t. e \<noteq> JStr t"
  shows "judge lib ip (JArr (map JStr es @ e # rest)) = Allow"
proof -
  have "scan_entries lib a (e # rest) = Inl PyException" using assms(2) by (cases e) auto
  then have "scan_entries lib a (map JStr es @ e # rest) \<noteq> Inr False" by (induction es) auto
  moreover have "JArr (map JStr es @ e # rest) \<noteq> SENTINEL"
    using assms(2) by (cases es) (auto simp: SENTINEL_def)
  ultimately show ?thesis using assms(1)
    by (auto simp: judge_def is_ip_in_whitelist_def iterated_def split: sum.splits bool.splits)
qed

section \<open>A whitelist that was read once\<close>

text \<open>The process answers requests; everything else may do to the database, the clock and Redis what it likes.\<close>

inductive gate_step :: "gate_env \<Rightarrow> 'a ip_lib \<Rightarrow> ('a \<Rightarrow> bool) list \<Rightarrow> gate_sys \<Rightarrow> gate_sys \<Rightarrow> bool" for env lib trusted where
  answers: "gate_step env lib trusted s (snd (admit_request env lib trusted rq s))"
| elsewhere: "gate_step env lib trusted s (s\<lparr>gs_auth := au, gs_up := up, gs_redis := red, gs_counts := cnt\<rparr>)"

lemma count_request_local [simp]: "gs_local (snd (count_request k s)) = gs_local s"
  by (simp add: count_request_def Let_def split: prod.split)

lemma resolve_local [simp]: "gs_local (snd (resolve_default_limit env s)) = gs_local s"
  by (simp add: resolve_default_limit_def Let_def split: option.split prod.split)

lemma rate_dispatch_local: "gs_local (snd (rate_dispatch env lib trusted rq s)) = gs_local s"
proof (cases "limiter_key lib trusted rq")
  case (Some k)
  obtain n s1 where c: "count_request k s = (n, s1)" by fastforce
  then have "gs_local s1 = gs_local s" using count_request_local [of k s] by simp
  moreover obtain l s2 where d: "resolve_default_limit env s1 = (l, s2)" by fastforce
  moreover have "gs_local s2 = gs_local s1" using resolve_local [of env s1] d by simp
  ultimately show ?thesis using Some c
    by (auto simp: rate_dispatch_def Let_def split: option.split)
qed (simp add: rate_dispatch_def)

lemma cache_get_hit: "gs_local s k = Some v \<Longrightarrow> cache_get env k s = (if v = JNull then None else Some v, s)"
  by (simp add: cache_get_def)

lemma check_keeps_local:
  assumes "gs_local s k = Some v" and "v \<noteq> JNull"
  shows "gs_local (snd (check_ip_whitelist env lib j ip s)) k = Some v"
proof (cases "j = k")
  case True
  then show ?thesis using assms by (simp add: check_ip_whitelist_def cache_get_hit)
next
  case False
  obtain c s1 where g: "cache_get env j s = (c, s1)" by fastforce
  then have "gs_local s1 k = Some v" using False assms(1)
    by (auto simp: cache_get_def Let_def split: option.splits if_splits prod.splits)
  with False g show ?thesis
    by (auto simp: check_ip_whitelist_def cache_set_def Let_def split: option.split fetched.split)
qed

lemma admit_keeps_local:
  assumes "gs_local s k = Some v" and "v \<noteq> JNull"
  shows "gs_local (snd (admit_request env lib trusted rq s)) k = Some v"
proof -
  obtain c s1 where r: "rate_dispatch env lib trusted rq s = (c, s1)" by fastforce
  have l: "gs_local s1 k = Some v" using rate_dispatch_local [of env lib trusted rq s] r assms(1) by simp
  have "gs_local (snd (whitelist_dispatch env lib trusted rq s1)) k = Some v"
  proof (cases "header_key rq")
    case (Some j)
    obtain d s2 where d: "check_ip_whitelist env lib j (get_client_ip lib trusted rq) s1 = (d, s2)" by fastforce
    then have "gs_local s2 k = Some v"
      using check_keeps_local [OF l assms(2), of env lib j "get_client_ip lib trusted rq"] by simp
    with d Some l show ?thesis by (cases d) (auto simp: whitelist_dispatch_def)
  qed (simp add: whitelist_dispatch_def l)
  with l r show ?thesis by (cases c) (simp_all add: admit_request_def)
qed

lemma gate_steps_keep_local:
  "(gate_step env lib trusted)\<^sup>*\<^sup>* s s' \<Longrightarrow> gs_local s k = Some v \<Longrightarrow> v \<noteq> JNull \<Longrightarrow> gs_local s' k = Some v"
proof (induction rule: rtranclp_induct)
  case (step y z)
  from step(2,3) show ?case using step.prems by cases (auto intro: admit_keeps_local)
qed simp

text \<open>A whitelist that the process has read once is its whitelist for good: the copy in the process has no
  expiry and nothing deletes it, so changing or removing the list, or suspending and deleting the
  account, changes no later verdict, however long ago the list was read and whatever happens in between.\<close>

theorem whitelist_change_ignored:
  assumes "gs_up s" and "gs_local s k = None" and "gs_redis s k = None"
    and "key_rows k (gs_world s) = [a]" and "whitelist_of env a \<noteq> JNull"
    and "(gate_step env lib trusted)\<^sup>*\<^sup>* (snd (check_ip_whitelist env lib k ip s)) s'"
  shows "fst (check_ip_whitelist env lib k ip' s') = judge lib ip' (whitelist_of env a)"
proof -
  have "gs_local (snd (check_ip_whitelist env lib k ip s)) k = Some (whitelist_of env a)"
    using assms(1-4) by (simp add: check_ip_whitelist_def cache_get_def cache_set_def one_or_none_def Let_def)
  from gate_steps_keep_local [OF assms(6) this assms(5)] assms(5) show ?thesis
    by (simp add: check_ip_whitelist_def cache_get_hit)
qed

text \<open>C26: The whitelist and the limit hold for two of the four ways to present a key: a request that carries it in the
  query passes both from any address, and is then taken for the account.\<close>

theorem query_key_evades_gate:
  assumes "nonempty (rq_api_key rq) = None" and "rq_authorization rq = None" and "rq_query_key rq = Some k" and "k \<noteq> []"
    and "rq_path rq \<notin> set IP_RATE_PATHS" and "key_rows k (gs_world s) = [a]"
  shows "admit_request env lib trusted rq s = (Passed, s)
    \<and> fst (get_current_account au \<lparr>pr_api_key = rq_api_key rq, pr_bearer = None, pr_basic = None, pr_query = rq_query_key rq\<rparr>
             (gs_auth s)) = Inr a"
proof -
  have "\<not> starts_with (asc ''Bearer '') []" by code_simp
  then have "header_key rq = None" using assms(1,2) by (simp add: header_key_def or_empty_def Let_def)
  then have "admit_request env lib trusted rq s = (Passed, s)"
    using assms(5) by (simp add: admit_request_def rate_dispatch_def limiter_key_def whitelist_dispatch_def)
  moreover have "nonempty None = None" by (simp add: nonempty_def)
  then have "or_opt (or_opt (rq_api_key rq) (bearer_key None)) (rq_query_key rq) = Some k"
    using assms(1,3) by (simp add: or_opt_def bearer_key_def)
  ultimately show ?thesis using assms(4,6)
    by (simp add: get_current_account_def verify_api_key_def nonempty_def key_rows_def gs_world_def one_or_none_def)
qed


section \<open>What the limiter limits\<close>

definition gate_at :: "int \<Rightarrow> gate_sys \<Rightarrow> gate_sys" where
  "gate_at t s = s\<lparr>gs_auth := at_time t (gs_auth s)\<rparr>"

text \<open>How many requests of a list of (time, request) are admitted.\<close>

fun admitted :: "gate_env \<Rightarrow> 'a ip_lib \<Rightarrow> ('a \<Rightarrow> bool) list \<Rightarrow> (int \<times> request) list \<Rightarrow> gate_sys \<Rightarrow> nat" where
  "admitted env lib trusted [] s = 0"
| "admitted env lib trusted ((t, rq) # rest) s =
     (case admit_request env lib trusted rq (gate_at t s) of
        (ans, s1) \<Rightarrow> (if ans = Passed then 1 else 0) + admitted env lib trusted rest s1)"

text \<open>What the limiter reads.\<close>

definition limiter_view :: "gate_sys \<Rightarrow> bool \<times> (pystr \<times> int \<rightharpoonup> int \<times> int) \<times> (int \<times> int) option \<times> (pystr \<rightharpoonup> int \<times> int) \<times> int" where
  "limiter_view s = (gs_up s, gs_counts s, gs_limit s, au_limits (gs_auth s), gs_now s)"

lemma whitelist_view: "limiter_view (snd (whitelist_dispatch env lib trusted rq s)) = limiter_view s"
proof -
  have g: "limiter_view (snd (cache_get env k s)) = limiter_view s" for k s
    by (simp add: cache_get_def limiter_view_def gs_now_def Let_def split: option.split)
  have "limiter_view (cache_set env k v ttl s) = limiter_view s" for k v ttl s
    by (simp add: cache_set_def limiter_view_def gs_now_def Let_def)
  then have "limiter_view (snd (check_ip_whitelist env lib k ip s)) = limiter_view s" for k ip
    using g [of k s] by (cases "cache_get env k s")
      (simp add: check_ip_whitelist_def split: option.split fetched.split)
  note c = this
  show ?thesis
  proof (cases "header_key rq")
    case (Some k)
    obtain v s1 where e: "check_ip_whitelist env lib k (get_client_ip lib trusted rq) s = (v, s1)" by fastforce
    then have "limiter_view s1 = limiter_view s" using c [of k "get_client_ip lib trusted rq"] by simp
    with Some e show ?thesis by (cases v) (simp_all add: whitelist_dispatch_def)
  qed (simp add: whitelist_dispatch_def)
qed

definition default_limit_in :: "(int \<Rightarrow> bool) \<Rightarrow> gate_env \<Rightarrow> gate_sys \<Rightarrow> bool" where
  "default_limit_in P env s \<longleftrightarrow>
     P (get_int_policy (ge_config env) (asc ''api_rate_limit_per_minute''))
     \<and> (\<forall>v since. gs_limit s = Some (v, since) \<longrightarrow> P v)"

definition account_limit_in :: "(int \<Rightarrow> bool) \<Rightarrow> pystr \<Rightarrow> gate_sys \<Rightarrow> bool" where
  "account_limit_in P k s \<longleftrightarrow> (\<forall>n e. au_limits (gs_auth s) k = Some (n, e) \<longrightarrow> P n)"

definition counted :: "pystr \<Rightarrow> int \<Rightarrow> gate_sys \<Rightarrow> int" where
  "counted k m s = (case gs_counts s (k, m) of None \<Rightarrow> 0 | Some (n, _) \<Rightarrow> n)"

text \<open>Counters of a minute outlive it.\<close>

definition counts_ok :: "gate_sys \<Rightarrow> bool" where
  "counts_ok s \<longleftrightarrow> (\<forall>k m n e. gs_counts s (k, m) = Some (n, e) \<longrightarrow> 0 \<le> n \<and> 60 * (m + 1) \<le> e)"

lemma count_request_eq:
  assumes "counts_ok s"
  shows "\<exists>e. count_request k s =
    (counted k (gs_now s div 60) s + 1,
     s\<lparr>gs_counts := (gs_counts s)((k, gs_now s div 60) \<mapsto> (counted k (gs_now s div 60) s + 1, e))\<rparr>)
     \<and> 60 * (gs_now s div 60 + 1) \<le> e"
proof -
  have t: "60 * (gs_now s div 60) \<le> gs_now s" "gs_now s < 60 * (gs_now s div 60 + 1)" by presburger+
  have "\<not> e \<le> gs_now s" if "gs_counts s (k, gs_now s div 60) = Some (n, e)" for n e
    using that assms t(2) by (force simp: counts_ok_def)
  then show ?thesis using assms t
    by (cases "gs_counts s (k, gs_now s div 60)") (fastforce simp: count_request_def counted_def counts_ok_def Let_def)+
qed

lemma rate_dispatch_eq:
  assumes up: "gs_up s" and ok: "counts_ok s" and k: "limiter_key lib trusted rq = Some k"
    and d: "default_limit_in P env s" and a: "account_limit_in P k s"
  defines "m \<equiv> gs_now s div 60"
  shows "\<exists>limit e lim s1. rate_dispatch env lib trusted rq s = (if limit < counted k m s + 1 then Refused429 else Passed, s1)
    \<and> P limit \<and> limiter_view s1 = (True, (gs_counts s)((k, m) \<mapsto> (counted k m s + 1, e)), lim, au_limits (gs_auth s), gs_now s)
    \<and> 60 * (m + 1) \<le> e \<and> (\<forall>v since. lim = Some (v, since) \<longrightarrow> P v)"
proof -
  from count_request_eq [OF ok, of k] obtain e where
    c: "count_request k s = (counted k m s + 1, s\<lparr>gs_counts := (gs_counts s)((k, m) \<mapsto> (counted k m s + 1, e))\<rparr>)"
    and e: "60 * (m + 1) \<le> e" unfolding m_def by blast
  let ?s1 = "s\<lparr>gs_counts := (gs_counts s)((k, m) \<mapsto> (counted k m s + 1, e))\<rparr>"
  show ?thesis
  proof (cases "get_account_limit k ?s1")
    case (Some n)
    then have "P n" using a by (auto simp: get_account_limit_def account_limit_in_def split: option.splits if_splits)
    with Some up k c e d show ?thesis
      by (intro exI [of _ n] exI [of _ e] exI [of _ "gs_limit s"] exI [of _ ?s1])
        (simp add: rate_dispatch_def limiter_view_def gs_now_def default_limit_in_def)
  next
    case None
    obtain v s2 where r: "resolve_default_limit env ?s1 = (v, s2)" by fastforce
    then have v: "P v" "limiter_view s2 = (True, gs_counts ?s1, gs_limit s2, au_limits (gs_auth s), gs_now s)"
      "\<forall>v since. gs_limit s2 = Some (v, since) \<longrightarrow> P v"
      using d up by (auto simp: resolve_default_limit_def default_limit_in_def limiter_view_def gs_now_def Let_def
          split: option.splits if_splits)
    with None up k c e r show ?thesis
      by (intro exI [of _ v] exI [of _ e] exI [of _ "gs_limit s2"] exI [of _ s2]) (simp add: rate_dispatch_def)
  qed
qed

lemma admit_eq:
  assumes up: "gs_up s" and ok: "counts_ok s" and k: "limiter_key lib trusted rq = Some k"
    and d: "default_limit_in P env s" and a: "account_limit_in P k s"
  defines "m \<equiv> gs_now s div 60"
  shows "\<exists>limit ans s1. admit_request env lib trusted rq s = (ans, s1) \<and> P limit
    \<and> (limit < counted k m s + 1 \<longrightarrow> ans = Refused429)
    \<and> (rq_path rq = asc ''/api/v1/account/login'' \<and> counted k m s + 1 \<le> limit \<longrightarrow> ans = Passed)
    \<and> gs_up s1 \<and> counts_ok s1 \<and> default_limit_in P env s1 \<and> au_limits (gs_auth s1) = au_limits (gs_auth s)
    \<and> counted k m s1 = counted k m s + 1 \<and> (\<forall>j. j \<noteq> k \<longrightarrow> (\<forall>i. gs_counts s1 (j, i) = gs_counts s (j, i)))"
proof -
  from rate_dispatch_eq [OF assms(1-5)] obtain limit e lim s1 where
    r: "rate_dispatch env lib trusted rq s = (if limit < counted k m s + 1 then Refused429 else Passed, s1)"
    and P: "P limit" and e: "60 * (m + 1) \<le> e" and lim: "\<forall>v since. lim = Some (v, since) \<longrightarrow> P v"
    and view: "limiter_view s1 = (True, (gs_counts s)((k, m) \<mapsto> (counted k m s + 1, e)), lim, au_limits (gs_auth s), gs_now s)"
    unfolding m_def by blast
  obtain ans s2 where w: "whitelist_dispatch env lib trusted rq s1 = (ans, s2)" by fastforce
  have view2: "limiter_view s2 = limiter_view s1" using whitelist_view [of env lib trusted rq s1] w by simp
  have good: "gs_up x \<and> counts_ok x \<and> default_limit_in P env x \<and> au_limits (gs_auth x) = au_limits (gs_auth s)
      \<and> counted k m x = counted k m s + 1 \<and> (\<forall>j. j \<noteq> k \<longrightarrow> (\<forall>i. gs_counts x (j, i) = gs_counts s (j, i)))"
    if "limiter_view x = limiter_view s1" for x
  proof -
    have x: "gs_up x" "gs_counts x = (gs_counts s)((k, m) \<mapsto> (counted k m s + 1, e))" "gs_limit x = lim"
      "au_limits (gs_auth x) = au_limits (gs_auth s)"
      using that view by (simp_all add: limiter_view_def)
    have "0 \<le> counted k m s" using ok by (auto simp: counted_def counts_ok_def split: option.split)
    then have "counts_ok x" using ok e by (auto simp: counts_ok_def x)
    then show ?thesis using x d lim by (simp add: default_limit_in_def counted_def)
  qed
  show ?thesis
  proof (cases "limit < counted k m s + 1")
    case True
    with r P good [OF refl] show ?thesis by (auto simp: admit_request_def)
  next
    case False
    have "list_ex (\<lambda>p. starts_with p (asc ''/api/v1/account/login'')) AUTH_PATH_PREFIXES" by code_simp
    then have "ans = Passed" if "rq_path rq = asc ''/api/v1/account/login''"
      using w that by (auto simp: whitelist_dispatch_def)
    with False r P w good [OF view2] show ?thesis by (auto simp: admit_request_def)
  qed
qed

lemma gate_at_simps [simp]:
  "gs_up (gate_at t s) = gs_up s" "gs_counts (gate_at t s) = gs_counts s" "gs_limit (gate_at t s) = gs_limit s"
  "au_limits (gs_auth (gate_at t s)) = au_limits (gs_auth s)" "gs_now (gate_at t s) = t"
  "counts_ok (gate_at t s) = counts_ok s" "default_limit_in P env (gate_at t s) = default_limit_in P env s"
  "account_limit_in P k (gate_at t s) = account_limit_in P k s" "counted k m (gate_at t s) = counted k m s"
  by (simp_all add: gate_at_def gs_now_def at_time_def au_now_def counts_ok_def default_limit_in_def account_limit_in_def counted_def)


text \<open>The limit on guessing passwords by address is evaded by a header: requests for the login that each carry a new
  made-up key are all admitted, since the key replaces the address and is not looked up.\<close>

theorem login_limit_evaded:
  assumes "gs_up s" and "counts_ok s" and "default_limit_in (\<lambda>v. 1 \<le> v) env s" and "distinct keys"
    and "\<And>k. k \<in> set keys \<Longrightarrow> k \<noteq> [] \<and> au_limits (gs_auth s) k = None \<and> (\<forall>m. gs_counts s (k, m) = None)"
    and "rq_path rq = asc ''/api/v1/account/login''"
  shows "admitted env lib trusted (map (\<lambda>k. (t, rq\<lparr>rq_api_key := Some k\<rparr>)) keys) s = length keys"
  using assms(1-5)
proof (induction keys arbitrary: s)
  case (Cons k keys)
  let ?rq = "rq\<lparr>rq_api_key := Some k\<rparr>" and ?s = "gate_at t s"
  have "asc ''/api/v1/account/login'' \<notin> set SKIP_PATHS" by code_simp
  then have key: "limiter_key lib trusted ?rq = Some k"
    using Cons.prems(5) [of k] assms(6) by (simp add: limiter_key_def header_key_def nonempty_def)
  have none: "counted k m s = 0" "account_limit_in (\<lambda>v. 1 \<le> v) k s" for m
    using Cons.prems(5) [of k] by (simp_all add: counted_def account_limit_in_def)
  have "gs_up ?s" "counts_ok ?s" "default_limit_in (\<lambda>v. 1 \<le> v) env ?s" "account_limit_in (\<lambda>v. 1 \<le> v) k ?s"
    using Cons.prems(1-3) none by simp_all
  from admit_eq [OF this(1,2) key this(3,4), unfolded gate_at_simps none] obtain limit :: int and ans s1 where
    all: "admit_request env lib trusted ?rq ?s = (ans, s1) \<and> 1 \<le> limit \<and> (limit < 0 + 1 \<longrightarrow> ans = Refused429)
      \<and> (rq_path ?rq = asc ''/api/v1/account/login'' \<and> 0 + 1 \<le> limit \<longrightarrow> ans = Passed)
      \<and> gs_up s1 \<and> counts_ok s1 \<and> default_limit_in (\<lambda>v. 1 \<le> v) env s1 \<and> au_limits (gs_auth s1) = au_limits (gs_auth s)
      \<and> counted k (t div 60) s1 = 0 + 1 \<and> (\<forall>j. j \<noteq> k \<longrightarrow> (\<forall>i. gs_counts s1 (j, i) = gs_counts s (j, i)))"
    by (elim exE) (rule that)
  then have a: "admit_request env lib trusted ?rq ?s = (ans, s1)" and l: "1 \<le> limit"
    and pass: "rq_path ?rq = asc ''/api/v1/account/login'' \<and> 0 + 1 \<le> limit \<longrightarrow> ans = Passed"
    and s1: "gs_up s1" "counts_ok s1" "default_limit_in (\<lambda>v. 1 \<le> v) env s1"
      "au_limits (gs_auth s1) = au_limits (gs_auth s)" "\<forall>j. j \<noteq> k \<longrightarrow> (\<forall>i. gs_counts s1 (j, i) = gs_counts s (j, i))"
    by - (elim conjE, assumption)+
  have "ans = Passed" using pass l assms(6) by simp
  moreover have "admitted env lib trusted (map (\<lambda>k. (t, rq\<lparr>rq_api_key := Some k\<rparr>)) keys) s1 = length keys"
  proof (rule Cons.IH [OF s1(1-3)])
    show "distinct keys" using Cons.prems(4) by simp
    fix j assume j: "j \<in> set keys"
    then have "j \<noteq> k" using Cons.prems(4) by auto
    then show "j \<noteq> [] \<and> au_limits (gs_auth s1) j = None \<and> (\<forall>m. gs_counts s1 (j, m) = None)"
      using Cons.prems(5) [of j] j s1(4,5) by simp
  qed
  ultimately show ?case using a by simp
qed simp


section \<open>Examples\<close>

text \<open>Addresses are texts, networks hold what starts like them.\<close>

definition demo_ips :: "pystr ip_lib" where
  "demo_ips = \<lparr>ip_address = (\<lambda>s. if 46 \<in> set s then Some s else None),
     ip_network = (\<lambda>s. Some (starts_with (takeWhile (\<lambda>c. c \<noteq> 47) s)))\<rparr>"

definition demo_trusted :: "(pystr \<Rightarrow> bool) list" where
  "demo_trusted = parse_cidrs demo_ips (asc ''10.0./16, 127./8'')"

definition demo_call :: request where
  "demo_call = \<lparr>rq_peer = Some (asc ''10.0.0.2''), rq_path = asc ''/api/v1/sms/send'', rq_xff = None, rq_real_ip = None,
     rq_authorization = None, rq_api_key = None, rq_query_key = Some (asc ''ak_1'')\<rparr>"

definition demo_gate_env :: gate_env where
  "demo_gate_env = \<lparr>json_loads = (\<lambda>_. None), json_dumps = (\<lambda>_. []), ge_config = (\<lambda>_. None)\<rparr>"

definition demo_gate :: gate_sys where
  "demo_gate = \<lparr>gs_auth = demo_sys, gs_up = True, gs_local = Map.empty, gs_redis = Map.empty, gs_counts = Map.empty,
     gs_limit = None\<rparr>"

definition demo_listed :: gate_sys where
  "demo_listed = demo_gate\<lparr>gs_auth := demo_sys\<lparr>au_world := empty_world\<lparr>accounts :=
     [demo_key_account\<lparr>ip_whitelist := Some (asc ''8.8.8.8'')\<rparr>]\<rparr>\<rparr>\<rparr>"

theorem client_ip_last_hop_witness:
  "get_client_ip demo_ips demo_trusted (demo_call\<lparr>rq_xff := Some (asc ''1.1.1.1'' @ asc '', '' @ asc ''8.8.8.8'')\<rparr>) = asc ''8.8.8.8''"
proof -
  have "\<not> list_ex (\<lambda>c. c = 44) (asc ''8.8.8.8'')" "py_strip (asc ''8.8.8.8'') = asc ''8.8.8.8''"
    "is_valid_ip demo_ips (Some (asc ''8.8.8.8''))" "is_trusted_proxy demo_ips demo_trusted (or_empty (rq_peer demo_call))"
    by code_simp+
  from client_ip_last_hop [OF this(1-3), of demo_trusted demo_call _ None "asc ''1.1.1.1''"] this(4)
  show ?thesis by (simp add: demo_call_def)
qed

theorem query_key_evades_gate_witness:
  "admit_request demo_gate_env demo_ips demo_trusted demo_call demo_listed = (Passed, demo_listed)
   \<and> judge demo_ips (get_client_ip demo_ips demo_trusted demo_call)
       (whitelist_of demo_gate_env (demo_key_account\<lparr>ip_whitelist := Some (asc ''8.8.8.8'')\<rparr>)) = IpNotInList"
proof -
  have "rq_path demo_call \<notin> set IP_RATE_PATHS" "asc ''ak_1'' \<noteq> []" by code_simp+
  moreover have "key_rows (asc ''ak_1'') (gs_world demo_listed) = [demo_key_account\<lparr>ip_whitelist := Some (asc ''8.8.8.8'')\<rparr>]"
    by (simp add: key_rows_def gs_world_def demo_listed_def demo_gate_def demo_key_account_def usable_def new_account_def)
  moreover have "nonempty (rq_api_key demo_call) = None" "rq_authorization demo_call = None"
    "rq_query_key demo_call = Some (asc ''ak_1'')"
    by (simp_all add: demo_call_def nonempty_def)
  ultimately have "admit_request demo_gate_env demo_ips demo_trusted demo_call demo_listed = (Passed, demo_listed)"
    using query_key_evades_gate [where k = "asc ''ak_1''"] by blast
  moreover have "judge demo_ips (get_client_ip demo_ips demo_trusted demo_call)
       (whitelist_of demo_gate_env (demo_key_account\<lparr>ip_whitelist := Some (asc ''8.8.8.8'')\<rparr>)) = IpNotInList"
    by code_simp
  ultimately show ?thesis by simp
qed

theorem whitelist_change_ignored_witness:
  "\<exists>s1 s2. s1 = snd (check_ip_whitelist demo_gate_env demo_ips (asc ''ak_1'') (asc ''8.8.8.8'') demo_listed)
     \<and> s2 = s1\<lparr>gs_auth := gs_auth demo_gate, gs_up := True, gs_redis := Map.empty, gs_counts := Map.empty\<rparr>
     \<and> key_rows (asc ''ak_1'') (gs_world s2) = [demo_key_account]
     \<and> fst (check_ip_whitelist demo_gate_env demo_ips (asc ''ak_1'') (asc ''9.9.9.9'') s2) = IpNotInList"
proof -
  let ?a = "demo_key_account\<lparr>ip_whitelist := Some (asc ''8.8.8.8'')\<rparr>" and ?k = "asc ''ak_1''"
  let ?s1 = "snd (check_ip_whitelist demo_gate_env demo_ips ?k (asc ''8.8.8.8'') demo_listed)"
  let ?s2 = "?s1\<lparr>gs_auth := gs_auth demo_gate, gs_up := True, gs_redis := Map.empty, gs_counts := Map.empty\<rparr>"
  have "key_rows ?k (gs_world demo_listed) = [?a]"
    by (simp add: key_rows_def gs_world_def demo_listed_def demo_gate_def demo_key_account_def usable_def new_account_def)
  moreover have "whitelist_of demo_gate_env ?a \<noteq> JNull"
    by (simp add: whitelist_of_def demo_gate_env_def nonempty_def split: option.split)
  moreover have "gs_up demo_listed" "gs_local demo_listed ?k = None" "gs_redis demo_listed ?k = None"
    by (simp_all add: demo_listed_def demo_gate_def)
  moreover have "(gate_step demo_gate_env demo_ips demo_trusted)\<^sup>*\<^sup>* ?s1 ?s2"
    using gate_step.elsewhere by blast
  ultimately have "fst (check_ip_whitelist demo_gate_env demo_ips ?k (asc ''9.9.9.9'') ?s2)
      = judge demo_ips (asc ''9.9.9.9'') (whitelist_of demo_gate_env ?a)"
    using whitelist_change_ignored by blast
  moreover have "judge demo_ips (asc ''9.9.9.9'') (whitelist_of demo_gate_env ?a) = IpNotInList" by code_simp
  moreover have "key_rows ?k (gs_world ?s2) = [demo_key_account]"
    by (simp add: key_rows_def gs_world_def demo_gate_def demo_sys_def demo_key_account_def usable_def new_account_def)
  ultimately show ?thesis by auto
qed

lemma demo_default: "get_int_policy (ge_config demo_gate_env) (asc ''api_rate_limit_per_minute'') = 1000"
  by code_simp


theorem login_limit_evaded_witness:
  "admitted demo_gate_env demo_ips demo_trusted
     (map (\<lambda>k. (120, demo_call\<lparr>rq_path := asc ''/api/v1/account/login'', rq_api_key := Some k\<rparr>))
        (map (\<lambda>n. [n]) [1..2000])) demo_gate = 2000"
proof -
  have "distinct (map (\<lambda>n. [n]) [1..2000::int])" by (simp add: distinct_map inj_on_def)
  then have "admitted demo_gate_env demo_ips demo_trusted
     (map (\<lambda>k. (120, (demo_call\<lparr>rq_path := asc ''/api/v1/account/login''\<rparr>)\<lparr>rq_api_key := Some k\<rparr>))
        (map (\<lambda>n. [n]) [1..2000])) demo_gate = length (map (\<lambda>n. [n]) [1..2000::int])"
    by (intro login_limit_evaded)
      (auto simp: demo_gate_def counts_ok_def default_limit_in_def demo_default demo_sys_def)
  then show ?thesis by simp
qed

end
