(* ===== verification/BulkSend.thy ===== *)
theory BulkSend
  imports MoneyAudit Sender
begin

text \<open>
  The task that sends one chunk of a batch, \<open>process_batch_chunk\<close> of \<open>backend/app/workers/batch_worker.py\<close>,
  with the bulk queues of \<open>backend/app/utils/queue.py\<close>: numbers are checked and priced, the chunk is
  charged in one statement and committed, its messages are written, linked and queued; without
  enough money it falls back to charging one by one. The errors of the database that the code
  handles are arguments: \<open>ce_charge_fault\<close> is what the charge raises, \<open>ce_write_fault k\<close> what the flush
  of the k-th slice raises when its retries are over, both as the number MySQL gives with an
  \<open>OperationalError\<close>; an \<open>InterfaceError\<close>, which the task retries too, is left out. An exception rolls
  back to the last commit.
  The answer of \<open>submit_task\<close> (\<open>services/rcs_node_service.py\<close>) is an argument too. Rows are numbered
  by the counter of the table and no uuid is drawn twice. The caches of a run (sender ids, prices
  of a country) hold what the same lookup gave before in the same run.
\<close>

section \<open>State\<close>

record chunk_job =
  cj_batch :: int
  cj_account :: int
  cj_phones :: "pystr list"
  cj_message :: pystr
  cj_rot :: "pystr list"
  cj_offset :: int
  cj_channel :: "int option"
  cj_sender :: "pystr option"

datatype chunk_failure =
    BadFormat phone_error | OnBlacklist | CountryBarred pystr | RcsRefused rcs_content_error
  | CheckRaised exn | NoBalance

datatype node_answer = NodeAccepted "pystr option" | NodeRefused pystr | NodeBroken

datatype virtual_task =
    VirtualSubmit "pystr list" int int \<comment> \<open>message ids, channel, batch\<close>
  | VirtualReports "pystr list" int int

record bulk_sys =
  bs_gw :: gateway
  bs_links :: link_state
  bs_blacklist :: "pystr list"
  bs_published :: "smpp_payload list list" \<comment> \<open>the publishes to \<open>sms_send_smpp\<close>\<close>
  bs_virtual :: "virtual_task list"
  bs_calls :: nat \<comment> \<open>calls of \<open>apply_async\<close> so far\<close>

abbreviation bs_world :: "bulk_sys \<Rightarrow> world" where
  "bs_world s \<equiv> gw_world (bs_gw s)"

definition with_world :: "world \<Rightarrow> bulk_sys \<Rightarrow> bulk_sys" where
  "with_world w s = s\<lparr>bs_gw := (bs_gw s)\<lparr>gw_world := w\<rparr>\<rparr>"

record 'n chunk_env =
  ce_lib :: "'n phone_lib"
  ce_render :: "nat \<Rightarrow> render_env"
  ce_draw :: "nat \<Rightarrow> rat"
  ce_enum :: "pystr list \<Rightarrow> pystr list"
  ce_show :: "json \<Rightarrow> pystr"
  ce_say :: "chunk_failure \<Rightarrow> pystr"
  ce_uuid :: "int \<Rightarrow> pystr" \<comment> \<open>by the row it goes into\<close>
  ce_virtual_id :: "int \<Rightarrow> pystr"
  ce_links :: link_env
  ce_broker :: "nat \<Rightarrow> bool" \<comment> \<open>whether the n-th call of \<open>apply_async\<close> succeeds\<close>
  ce_charge_fault :: "int option"
  ce_write_fault :: "nat \<Rightarrow> int option"
  ce_node :: "sms_log list \<Rightarrow> node_answer"
  ce_progress :: nat

record unit_price =
  up_sell :: money
  up_currency :: pystr
  up_cost :: money

record bulk_item =
  bi_info :: phone_info
  bi_text :: pystr
  bi_units :: nat
  bi_channel :: channel
  bi_price :: unit_price

section \<open>Queues\<close>

text \<open>One call after the other until one succeeds; the number of calls made so far goes along.\<close>

fun publish_tries :: "(nat \<Rightarrow> bool) \<Rightarrow> nat \<Rightarrow> nat \<Rightarrow> bool \<times> nat" where
  "publish_tries broker k 0 = (False, k)"
| "publish_tries broker k (Suc n) = (if broker k then (True, Suc k) else publish_tries broker (Suc k) n)"

text \<open>One publish of a list of payloads, with its retries.\<close>

definition publish_once :: "'n chunk_env \<Rightarrow> smpp_payload list \<Rightarrow> bulk_sys \<Rightarrow> bool \<times> bulk_sys" where
  "publish_once env ps s =
     (case publish_tries (ce_broker env) (bs_calls s) SMS_QUEUE_RETRIES of
        (True, k) \<Rightarrow> (True, s\<lparr>bs_calls := k, bs_published := bs_published s @ [ps]\<rparr>)
      | (False, k) \<Rightarrow> (False, s\<lparr>bs_calls := k\<rparr>))"

definition queue_smpp_gateway :: "'n chunk_env \<Rightarrow> smpp_payload \<Rightarrow> bulk_sys \<Rightarrow> bool \<times> bulk_sys" where
  "queue_smpp_gateway env p s = publish_once env [p] s"

fun queue_each_smpp :: "'n chunk_env \<Rightarrow> smpp_payload list \<Rightarrow> bulk_sys \<Rightarrow> nat \<times> bulk_sys" where
  "queue_each_smpp env [] s = (0, s)"
| "queue_each_smpp env (p # ps) s =
     (case queue_smpp_gateway env p s of
        (ok, s1) \<Rightarrow> (case queue_each_smpp env ps s1 of
                      (n, s2) \<Rightarrow> ((if ok then Suc n else n), s2)))"

definition queue_sms_batch_smpp :: "'n chunk_env \<Rightarrow> smpp_payload list \<Rightarrow> bulk_sys \<Rightarrow> bool \<times> bulk_sys" where
  "queue_sms_batch_smpp env ps s =
     (if ps = [] then (True, s)
      else case publish_once env ps s of
             (True, s1) \<Rightarrow> (True, s1)
           | (False, s1) \<Rightarrow> (case queue_each_smpp env ps s1 of (n, s2) \<Rightarrow> (n = length ps, s2)))"

text \<open>How the chunk uses it: what is not queued as a whole is queued one by one.\<close>

definition publish_payloads ::
    "'n chunk_env \<Rightarrow> smpp_payload list \<Rightarrow> bulk_sys \<Rightarrow> nat \<times> nat \<times> bulk_sys" where
  "publish_payloads env ps s =
     (case queue_sms_batch_smpp env ps s of
        (True, s1) \<Rightarrow> (length ps, 0, s1)
      | (False, s1) \<Rightarrow> (case queue_each_smpp env ps s1 of (n, s2) \<Rightarrow> (n, length ps - n, s2)))"

text \<open>\<open>queue_sms\<close> and \<open>queue_sms_bulk\<close>: without a connection the latter calls the former for each
  message, which makes the same calls.\<close>

definition queue_one :: "'n chunk_env \<Rightarrow> pystr \<Rightarrow> bulk_sys \<Rightarrow> bool \<times> bulk_sys" where
  "queue_one env mid s =
     (case queue_sms (\<lambda>n. ce_broker env (bs_calls s + n)) mid None (bs_gw s) of
        (ok, g) \<Rightarrow> (ok, s\<lparr>bs_gw := g,
                         bs_calls := snd (publish_tries (ce_broker env) (bs_calls s) SMS_QUEUE_RETRIES)\<rparr>))"

fun queue_sms_bulk :: "'n chunk_env \<Rightarrow> pystr list \<Rightarrow> bulk_sys \<Rightarrow> pystr list \<times> pystr list \<times> bulk_sys" where
  "queue_sms_bulk env [] s = ([], [], s)"
| "queue_sms_bulk env (m # ms) s =
     (case queue_one env m s of
        (ok, s1) \<Rightarrow>
          (case queue_sms_bulk env ms s1 of
             (oks, bads, s2) \<Rightarrow> (if ok then (m # oks, bads, s2) else (oks, m # bads, s2))))"

section \<open>Checking numbers\<close>

definition clean_number :: "pystr \<Rightarrow> pystr" where
  "clean_number raw = filter (\<lambda>c. c \<notin> {32, 45, 40, 41}) (py_strip raw)"

definition check_number ::
    "'n chunk_env \<Rightarrow> account option \<Rightarrow> pystr list \<Rightarrow> pystr
       \<Rightarrow> (pystr \<times> pystr option \<times> chunk_failure) + phone_info" where
  "check_number env acc black raw =
     (let p = clean_number raw
      in case validate_phone_number (ce_lib env) p of
           Inl e \<Rightarrow> Inl (p, None, BadFormat e)
         | Inr info \<Rightarrow>
             (let num = e164_format info; cc = ph_country_code info
              in if p \<in> set black \<or> num \<in> set black then Inl (num, Some cc, OnBlacklist)
                 else if (case acc of None \<Rightarrow> False | Some a \<Rightarrow> \<not> sms_destination_allowed a cc)
                      then Inl (num, Some cc, CountryBarred cc)
                      else Inr info))"

text \<open>The text of the i-th number of the chunk; the bodies rotate over the whole batch.\<close>

definition chunk_text :: "'n chunk_env \<Rightarrow> chunk_job \<Rightarrow> nat \<Rightarrow> phone_info \<Rightarrow> pystr" where
  "chunk_text env job i info =
     (let index = cj_offset job + int i + 1;
          raw = (if cj_rot job = [] then cj_message job
                 else cj_rot job ! nat ((index - 1) mod int (length (cj_rot job))))
      in if sms_template_has_variables raw
         then render_sms_variables (ce_render env i) raw index (e164_format info) (Some (ph_country_code info)) None
         else raw)"

text \<open>A price that is not found counts as 0.\<close>

definition unit_price_of ::
    "'n chunk_env \<Rightarrow> int \<Rightarrow> channel \<Rightarrow> pystr \<Rightarrow> world \<Rightarrow> unit_price outcome \<times> world" where
  "unit_price_of env acc ch cc w =
     (case get_price w (ch_id ch) cc None (Some acc) of
        (Inl e, w1) \<Rightarrow> (Inl e, w1)
      | (Inr found, w1) \<Rightarrow>
          (case resolve_base_cost_per_sms (ce_enum env) w1 (ch_id ch) cc (Some ch) of
             (Inl e, w2) \<Rightarrow> (Inl e, w2)
           | (Inr c, w2) \<Rightarrow>
               (Inr (case found of
                       None \<Rightarrow> \<lparr>up_sell = 0, up_currency = asc ''USD'', up_cost = c\<rparr>
                     | Some p \<Rightarrow> \<lparr>up_sell = pi_price p, up_currency = pi_currency p, up_cost = c\<rparr>), w2)))"

record check_state =
  cs_world :: world
  cs_routes :: "pystr \<rightharpoonup> channel"
  cs_prices :: "int \<times> pystr \<rightharpoonup> unit_price"

definition route_of ::
    "'n chunk_env \<Rightarrow> chunk_job \<Rightarrow> nat \<Rightarrow> pystr \<Rightarrow> check_state \<Rightarrow> channel outcome \<times> check_state" where
  "route_of env job i cc st =
     (case cs_routes st cc of
        Some ch \<Rightarrow> (Inr ch, st)
      | None \<Rightarrow>
          (case select_channel (ce_draw env i) (cs_world st) cc (cj_channel job) ByPriority (Some (cj_account job)) of
             (Inl e, w) \<Rightarrow> (Inl e, st\<lparr>cs_world := w\<rparr>)
           | (Inr ch, w) \<Rightarrow> (Inr ch, st\<lparr>cs_world := w, cs_routes := (cs_routes st)(cc \<mapsto> ch)\<rparr>)))"

definition price_for ::
    "'n chunk_env \<Rightarrow> int \<Rightarrow> channel \<Rightarrow> pystr \<Rightarrow> check_state \<Rightarrow> unit_price outcome \<times> check_state" where
  "price_for env acc ch cc st =
     (case cs_prices st (ch_id ch, cc) of
        Some p \<Rightarrow> (Inr p, st)
      | None \<Rightarrow>
          (case unit_price_of env acc ch cc (cs_world st) of
             (Inl e, w) \<Rightarrow> (Inl e, st\<lparr>cs_world := w\<rparr>)
           | (Inr p, w) \<Rightarrow> (Inr p, st\<lparr>cs_world := w, cs_prices := (cs_prices st)((ch_id ch, cc) \<mapsto> p)\<rparr>)))"

text \<open>One number on the way to an item: an exception of the routing, of the RCS test or of the prices
  makes it a failure.\<close>

definition precheck_one ::
    "'n chunk_env \<Rightarrow> chunk_job \<Rightarrow> account option \<Rightarrow> pystr list \<Rightarrow> nat \<Rightarrow> pystr \<Rightarrow> check_state
       \<Rightarrow> ((pystr \<times> pystr option \<times> chunk_failure) + bulk_item) \<times> check_state" where
  "precheck_one env job acc black i raw st =
     (let raised = (\<lambda>e. Inl (clean_number raw, None, CheckRaised e))
      in case check_number env acc black raw of
           Inl f \<Rightarrow> (Inl f, st)
         | Inr info \<Rightarrow>
             (let cc = ph_country_code info; txt = chunk_text env job i info
              in case route_of env job i cc st of
                   (Inl e, st1) \<Rightarrow> (raised e, st1)
                 | (Inr ch, st1) \<Rightarrow>
                     (case is_rcs ch of
                        Inl e \<Rightarrow> (raised e, st1)
                      | Inr rcs \<Rightarrow>
                          (case (if rcs then validate_rcs_content (Some txt) else None) of
                             Some e \<Rightarrow> (Inl (e164_format info, Some cc, RcsRefused e), st1)
                           | None \<Rightarrow>
                               (case price_for env (cj_account job) ch cc st1 of
                                  (Inl e, st2) \<Rightarrow> (raised e, st2)
                                | (Inr p, st2) \<Rightarrow>
                                    (Inr \<lparr>bi_info = info, bi_text = txt,
                                          bi_units = (if rcs then 1 else count_sms_parts txt),
                                          bi_channel = ch, bi_price = p\<rparr>, st2))))))"

text \<open>All numbers: how many were done before, the failures, the items.\<close>

fun precheck ::
    "'n chunk_env \<Rightarrow> chunk_job \<Rightarrow> account option \<Rightarrow> pystr list \<Rightarrow> pystr list \<Rightarrow> nat \<Rightarrow> pystr list \<Rightarrow> check_state
       \<Rightarrow> nat \<times> (pystr \<times> pystr option \<times> chunk_failure) list \<times> bulk_item list \<times> check_state" where
  "precheck env job acc known black i [] st = (0, [], [], st)"
| "precheck env job acc known black i (p # ps) st =
     (if p \<in> set known
      then case precheck env job acc known black (Suc i) ps st of (n, fs, vs, st') \<Rightarrow> (Suc n, fs, vs, st')
      else case precheck_one env job acc black i p st of
             (r, st1) \<Rightarrow>
               (case precheck env job acc known black (Suc i) ps st1 of
                  (n, fs, vs, st') \<Rightarrow>
                    (case r of Inl f \<Rightarrow> (n, f # fs, vs, st') | Inr v \<Rightarrow> (n, fs, v # vs, st'))))"

section \<open>Rows\<close>

text \<open>\<open>db.add_all\<close> and the flush that numbers the rows.\<close>

definition number_rows :: "(int \<Rightarrow> sms_log) list \<Rightarrow> int \<Rightarrow> sms_log list" where
  "number_rows fs n = map (\<lambda>(k, f). f (n + int k)) (enumerate 0 fs)"

definition add_rows :: "(int \<Rightarrow> sms_log) list \<Rightarrow> gateway \<Rightarrow> gateway" where
  "add_rows fs g =
     g\<lparr>gw_world := (gw_world g)\<lparr>sms_logs := sms_logs (gw_world g) @ number_rows fs (next_log_id g)\<rparr>,
       next_log_id := next_log_id g + int (length fs)\<rparr>"

definition new_id :: "'n chunk_env \<Rightarrow> int \<Rightarrow> pystr" where
  "new_id env i = asc ''msg_'' @ ce_uuid env i"

definition prefailed_row ::
    "'n chunk_env \<Rightarrow> chunk_job \<Rightarrow> int \<Rightarrow> pystr \<times> pystr option \<times> chunk_failure \<Rightarrow> int \<Rightarrow> sms_log" where
  "prefailed_row env job t f i =
     (case f of (ph, cc, err) \<Rightarrow>
        (new_sms_log i (new_id env i) (cj_account job) (take 20 ph))
          \<lparr>log_batch_id := Some (cj_batch job), log_country_code := cc, message := Some (cj_message job),
           log_status := Failed, submit_time := t, log_error_message := Some (ce_say env err)\<rparr>)"

text \<open>\<open>_resolve_batch_sid\<close>: an id that is not approved for the country falls back to the channel's.\<close>

definition resolve_batch_sid ::
    "'n chunk_env \<Rightarrow> gateway \<Rightarrow> channel \<Rightarrow> pystr \<Rightarrow> pystr option \<Rightarrow> pystr option" where
  "resolve_batch_sid env g ch cc requested =
     (if or_text requested None = None \<or> ch_id ch = 0 \<or> cc = [] then None
      else case resolve_sender_id (ce_enum env) g (ch_id ch) cc requested of Inl _ \<Rightarrow> None | Inr r \<Rightarrow> r)"

definition item_sell :: "bulk_item \<Rightarrow> money" where
  "item_sell v = up_sell (bi_price v) * of_nat (bi_units v)"

definition sell_total :: "bulk_item list \<Rightarrow> money" where
  "sell_total vs = sum_list (map item_sell vs)"

definition item_row :: "'n chunk_env \<Rightarrow> chunk_job \<Rightarrow> gateway \<Rightarrow> bulk_item \<Rightarrow> int \<Rightarrow> sms_log" where
  "item_row env job g v i =
     (let ch = bi_channel v; cc = ph_country_code (bi_info v)
      in (new_sms_log i (new_id env i) (cj_account job) (e164_format (bi_info v)))
           \<lparr>log_channel_id := Some (ch_id ch), log_batch_id := Some (cj_batch job), log_country_code := Some cc,
            log_sender_id := resolve_batch_sid env g ch cc (cj_sender job), message := Some (bi_text v),
            message_count := Some (int (bi_units v)),
            log_status := (if ch_protocol ch = HTTP then Queued else Pending),
            cost_price := Some (up_cost (bi_price v) * of_nat (bi_units v)),
            selling_price := Some (item_sell v), log_currency := Some (up_currency (bi_price v)),
            submit_time := now (gw_world g),
            upstream_message_id :=
              (if ch_protocol ch = VIRTUAL then Some (asc ''VIRT-'' @ take 12 (ce_virtual_id env i)) else None)\<rparr>)"

text \<open>\<open>_replace_track_urls_for_logs\<close>: a message whose link fails keeps its text.\<close>

definition replace_track_urls_for_logs :: "'n chunk_env \<Rightarrow> sms_log list \<Rightarrow> bulk_sys \<Rightarrow> bulk_sys" where
  "replace_track_urls_for_logs env rows s =
     (case replace_track_urls_bulk (ce_links env) (map (\<lambda>r. (log_id r, message r)) rows) (bs_links s) of
        (news, links) \<Rightarrow>
          (with_world (fold (\<lambda>(i, t). set_log i (\<lambda>r. r\<lparr>message := Some t\<rparr>)) news (bs_world s)) s)
            \<lparr>bs_links := links\<rparr>)"

section \<open>The charge of a chunk\<close>

text \<open>One statement for the whole chunk, and its log entry; \<open>acc\<close> is the account as read at the start.\<close>

definition bulk_charge :: "account option \<Rightarrow> int \<Rightarrow> money \<Rightarrow> world \<Rightarrow> world option" where
  "bulk_charge acc i amount w =
     (let guard = (if map_option payment_type acc = Some Postpaid then (\<lambda>_. True)
                   else (\<lambda>a. balance a \<ge> amount));
          (n, w1) = add_balance_where guard i (- amount) w
      in if n = 0 then None
         else Some (log_balance i Charge (- amount) (case balance_of w1 i of Some b \<Rightarrow> b | None \<Rightarrow> 0) w1))"

section \<open>Nodes of RCS\<close>

definition node_channel :: "'n chunk_env \<Rightarrow> channel \<Rightarrow> bool" where
  "node_channel env ch \<longleftrightarrow> is_rcs ch = Inr True \<and> rcs_vendor (ce_show env) ch = Inr (asc ''node'')"

definition refund_single :: "money \<Rightarrow> pystr \<Rightarrow> world \<Rightarrow> world" where
  "refund_single amount mid w =
     (if amount \<le> 0 then w else refund_line_charge mid (asc ''batch_queue_fail'') w)"

definition node_broken_text :: pystr where
  "node_broken_text = asc ''RCS '' @ [20219, 21153, 25552, 20132, 22833, 36133]"

definition amount_of :: "sms_log list \<Rightarrow> pystr \<Rightarrow> money" where
  "amount_of rows mid =
     (case find (\<lambda>r. message_id r = mid) rows of
        None \<Rightarrow> 0 | Some r \<Rightarrow> (case selling_price r of Some p \<Rightarrow> p | None \<Rightarrow> 0))"

text \<open>The whole slice as one task of the node. The column \<open>sent_time\<close> is not set: the code writes
  an attribute \<open>send_time\<close> that is no column.\<close>

definition queue_commit_batch_node_rcs ::
    "'n chunk_env \<Rightarrow> pystr list \<Rightarrow> bulk_sys \<Rightarrow> nat \<times> nat \<times> bulk_sys" where
  "queue_commit_batch_node_rcs env mids s =
     (let mine = filter (\<lambda>r. message_id r \<in> set mids)
      in if mine (sms_logs (bs_world s)) = [] then (0, 0, s)
         else
           let s1 = replace_track_urls_for_logs env (mine (sms_logs (bs_world s))) s;
               rows = mine (sms_logs (bs_world s1));
               on_rows = (\<lambda>f. (bs_world s1)\<lparr>sms_logs :=
                             upd_where (\<lambda>r. message_id r \<in> set mids) f (sms_logs (bs_world s1))\<rparr>);
               refused = (\<lambda>err. (0, length mids,
                  with_world (fold (\<lambda>m. refund_single (amount_of rows m) m) mids
                     (on_rows (\<lambda>r. r\<lparr>log_status := Failed, log_error_message := Some err\<rparr>))) s1))
           in case ce_node env rows of
                NodeRefused err \<Rightarrow> refused (take 255 err)
              | NodeBroken \<Rightarrow> refused node_broken_text
              | NodeAccepted sn \<Rightarrow>
                  (length rows, 0,
                   with_world (on_rows (\<lambda>r. r\<lparr>log_status := Sent,
                     upstream_message_id := (case or_text sn None of Some t \<Rightarrow> Some t
                                             | None \<Rightarrow> upstream_message_id r)\<rparr>)) s1))"

definition send_http ::
    "'n chunk_env \<Rightarrow> channel \<Rightarrow> pystr list \<Rightarrow> bulk_sys \<Rightarrow> nat \<times> nat \<times> bulk_sys" where
  "send_http env ch mids s =
     (if mids = [] then (0, 0, s)
      else if node_channel env ch then queue_commit_batch_node_rcs env mids s
      else case queue_sms_bulk env mids s of (oks, bads, s1) \<Rightarrow> (length oks, length bads, s1))"

section \<open>Writing and queueing what is paid\<close>

datatype chunk_fault = DbError int | OtherError exn

text \<open>A run under way: what it charged, the numbers counted, the virtual messages.\<close>

record chunk_run =
  ck_fault :: "chunk_fault option"
  ck_charged :: money
  ck_ok :: nat
  ck_bad :: nat
  ck_vids :: "pystr list"
  ck_vchan :: "int option"
  ck_sys :: bulk_sys

definition new_rows :: "bulk_sys \<Rightarrow> bulk_sys \<Rightarrow> sms_log list" where
  "new_rows s s' = drop (length (sms_logs (bs_world s))) (sms_logs (bs_world s'))"

definition of_protocol :: "channel_protocol \<Rightarrow> bulk_item list \<Rightarrow> sms_log list \<Rightarrow> sms_log list" where
  "of_protocol proto vs rows = map snd (filter (\<lambda>(v, r). ch_protocol (bi_channel v) = proto) (zip vs rows))"

text \<open>One slice. Where its flush raises for good, nothing of it stays but the gap in the numbers.\<close>

definition write_slice ::
    "'n chunk_env \<Rightarrow> chunk_job \<Rightarrow> batch_status option \<Rightarrow> nat \<Rightarrow> bulk_item list \<Rightarrow> chunk_run \<Rightarrow> chunk_run" where
  "write_slice env job bst k vs r =
     (let s = ck_sys r; g = bs_gw s; g1 = add_rows (map (item_row env job g) vs) g
      in case ce_write_fault env k of
           Some code \<Rightarrow>
             r\<lparr>ck_fault := Some (DbError code), ck_sys := s\<lparr>bs_gw := g\<lparr>next_log_id := next_log_id g1\<rparr>\<rparr>\<rparr>
         | None \<Rightarrow>
             (let s0 = s\<lparr>bs_gw := g1\<rparr>;
                  s1 = replace_track_urls_for_logs env (new_rows s s0) s0;
                  rows = new_rows s s1;
                  virtual = of_protocol VIRTUAL vs rows;
                  (a, b, s2) = publish_payloads env (map (\<lambda>x. smpp_payload_of x bst) (of_protocol SMPP vs rows)) s1;
                  (c, d, s3) = send_http env (bi_channel (last vs)) (map message_id (of_protocol HTTP vs rows)) s2
              in r\<lparr>ck_ok := ck_ok r + a + c, ck_bad := ck_bad r + b + d,
                   ck_vids := ck_vids r @ map message_id virtual,
                   ck_vchan := (if virtual = [] then ck_vchan r else log_channel_id (last virtual)),
                   ck_sys := s3\<rparr>))"

fun write_slices ::
    "'n chunk_env \<Rightarrow> chunk_job \<Rightarrow> batch_status option \<Rightarrow> nat \<Rightarrow> bulk_item list list \<Rightarrow> chunk_run \<Rightarrow> chunk_run" where
  "write_slices env job bst k [] r = r"
| "write_slices env job bst k (vs # rest) r =
     (let r1 = write_slice env job bst k vs r
      in if ck_fault r1 \<noteq> None then r1 else write_slices env job bst (Suc k) rest r1)"

text \<open>Virtual messages count once all slices are written.\<close>

definition count_virtual :: "chunk_run \<Rightarrow> chunk_run" where
  "count_virtual r =
     (if ck_fault r = None \<and> ck_vchan r \<noteq> None then r\<lparr>ck_ok := ck_ok r + length (ck_vids r)\<rparr> else r)"

definition DB_LOG_CHUNK :: nat where "DB_LOG_CHUNK = 5000"

function slices :: "nat \<Rightarrow> 'a list \<Rightarrow> 'a list list" where
  "slices n xs = (if n = 0 \<or> xs = [] then [] else take n xs # slices n (drop n xs))"
  by pat_completeness auto

termination slices
  by (relation "measure (\<lambda>(n, xs). length xs)") (auto simp: neq_Nil_conv)

declare slices.simps [simp del]

section \<open>Charging one by one\<close>

definition one_row ::
    "'n chunk_env \<Rightarrow> chunk_job \<Rightarrow> gateway \<Rightarrow> bulk_item \<Rightarrow> charge_result \<Rightarrow> int \<Rightarrow> sms_log" where
  "one_row env job g v cr i =
     (let ch = bi_channel v; cc = ph_country_code (bi_info v)
      in (new_sms_log i (new_id env i) (cj_account job) (e164_format (bi_info v)))
           \<lparr>log_channel_id := Some (ch_id ch), log_batch_id := Some (cj_batch job), log_country_code := Some cc,
            log_sender_id := resolve_batch_sid env g ch cc (cj_sender job), message := Some (bi_text v),
            message_count := Some (int (cr_message_count cr)),
            log_status := (if ch_protocol ch = VIRTUAL then Pending else Queued),
            cost_price := Some (total_base_cost cr), selling_price := Some (total_cost cr),
            log_currency := Some (cr_currency cr), submit_time := now (gw_world g),
            upstream_message_id :=
              (if ch_protocol ch = VIRTUAL then Some (asc ''VIRT-'' @ take 12 (ce_virtual_id env i)) else None)\<rparr>)"

text \<open>A group of messages after its commit. Where it goes is decided by the channel at hand, \<open>ch\<close>, and
  by whether any message so far was virtual.\<close>

definition dispatch_group ::
    "'n chunk_env \<Rightarrow> batch_status option \<Rightarrow> channel \<Rightarrow> pystr list \<Rightarrow> chunk_run \<Rightarrow> chunk_run" where
  "dispatch_group env bst ch grp r =
     (if ck_vchan r \<noteq> None then r\<lparr>ck_ok := ck_ok r + length grp\<rparr>
      else if ch_protocol ch = SMPP then
        (let s = ck_sys r;
             rows = (\<lambda>s. List.map_filter (\<lambda>m. find (\<lambda>x. message_id x = m) (sms_logs (bs_world s))) grp);
             s1 = replace_track_urls_for_logs env (filter (\<lambda>x. message_id x \<in> set grp) (sms_logs (bs_world s))) s;
             (a, b, s2) = publish_payloads env (map (\<lambda>x. smpp_payload_of x bst) (rows s1)) s1
         in r\<lparr>ck_ok := ck_ok r + a, ck_bad := ck_bad r + b, ck_sys := s2\<rparr>)
      else (case queue_sms_bulk env grp (ck_sys r) of
              (oks, bads, s1) \<Rightarrow>
                r\<lparr>ck_ok := ck_ok r + length oks, ck_bad := ck_bad r + length bads, ck_sys := s1\<rparr>))"

definition GROUP :: nat where "GROUP = 50"

text \<open>The loop: it ends where the money or a price is missing, with the items from there on. The last
  channel it looked at goes along.\<close>

fun charge_each ::
    "'n chunk_env \<Rightarrow> chunk_job \<Rightarrow> batch_status option \<Rightarrow> bulk_item list \<Rightarrow> channel option \<Rightarrow> pystr list \<Rightarrow> chunk_run
       \<Rightarrow> bulk_item list \<times> channel option \<times> pystr list \<times> chunk_run" where
  "charge_each env job bst [] last_ch grp r = ([], last_ch, grp, r)"
| "charge_each env job bst (v # vs) last_ch grp r =
     (let ch = bi_channel v; s = ck_sys r
      in case calculate_and_charge (ce_enum env) (bs_world s) (cj_account job) (ch_id ch)
                (ph_country_code (bi_info v)) (bi_text v) None (Some ch) False of
           (Inl e, w) \<Rightarrow>
             (case e of
                InsufficientBalanceError _ _ \<Rightarrow> (v # vs, Some ch, grp, r\<lparr>ck_sys := with_world w s\<rparr>)
              | PricingNotFoundError _ _ \<Rightarrow> (v # vs, Some ch, grp, r\<lparr>ck_sys := with_world w s\<rparr>)
              | _ \<Rightarrow> charge_each env job bst vs (Some ch) grp
                       (r\<lparr>ck_bad := ck_bad r + 1, ck_sys := with_world w s\<rparr>))
         | (Inr AccountNotFound, w) \<Rightarrow>
             charge_each env job bst vs (Some ch) grp (r\<lparr>ck_bad := ck_bad r + 1, ck_sys := with_world w s\<rparr>)
         | (Inr (Charged cr), w) \<Rightarrow>
             (let g = (bs_gw s)\<lparr>gw_world := w\<rparr>;
                  mid = new_id env (next_log_id g);
                  virtual = (ch_protocol ch = VIRTUAL);
                  r1 = r\<lparr>ck_vchan := (if virtual then Some (ch_id ch) else ck_vchan r),
                         ck_vids := (if virtual then ck_vids r @ [mid] else ck_vids r),
                         ck_sys := s\<lparr>bs_gw := add_rows [one_row env job g v cr] g\<rparr>\<rparr>;
                  grp1 = grp @ [mid]
              in if length grp1 \<ge> GROUP
                 then charge_each env job bst vs (Some ch) [] (dispatch_group env bst ch grp1 r1)
                 else charge_each env job bst vs (Some ch) grp1 r1))"

definition unpaid_row :: "'n chunk_env \<Rightarrow> chunk_job \<Rightarrow> int \<Rightarrow> bulk_item \<Rightarrow> int \<Rightarrow> sms_log" where
  "unpaid_row env job t v i =
     (new_sms_log i (new_id env i) (cj_account job) (e164_format (bi_info v)))
       \<lparr>log_channel_id := Some (ch_id (bi_channel v)), log_batch_id := Some (cj_batch job),
        log_country_code := Some (ph_country_code (bi_info v)), message := Some (bi_text v),
        message_count := Some (int (bi_units v)), log_status := Failed, submit_time := t,
        log_error_message := Some (ce_say env NoBalance)\<rparr>"

definition charge_singly ::
    "'n chunk_env \<Rightarrow> chunk_job \<Rightarrow> batch_status option \<Rightarrow> bulk_item list \<Rightarrow> chunk_run \<Rightarrow> chunk_run" where
  "charge_singly env job bst vs r =
     (case charge_each env job bst vs None [] r of
        (rest, last_ch, grp, r1) \<Rightarrow>
          (let r2 = (case last_ch of
                       None \<Rightarrow> r1
                     | Some ch \<Rightarrow> if grp = [] then r1 else dispatch_group env bst ch grp r1);
               s = ck_sys r2
           in r2\<lparr>ck_bad := ck_bad r2 + length rest,
                 ck_sys := s\<lparr>bs_gw := add_rows (map (unpaid_row env job (now (bs_world s))) rest) (bs_gw s)\<rparr>\<rparr>))"

section \<open>The two paths\<close>

definition begin_run :: "bulk_sys \<Rightarrow> nat \<Rightarrow> nat \<Rightarrow> chunk_run" where
  "begin_run s ok bad =
     \<lparr>ck_fault = None, ck_charged = 0, ck_ok = ok, ck_bad = bad, ck_vids = [], ck_vchan = None, ck_sys = s\<rparr>"

definition pay_and_send ::
    "'n chunk_env \<Rightarrow> chunk_job \<Rightarrow> account option \<Rightarrow> batch_status option \<Rightarrow> bulk_item list \<Rightarrow> chunk_run \<Rightarrow> chunk_run" where
  "pay_and_send env job acc bst vs r =
     (let s = ck_sys r; amount = sell_total vs; parts = slices DB_LOG_CHUNK vs
      in if vs = [] then r
         else if amount \<le> 0 then count_virtual (write_slices env job bst 0 parts r)
         else case ce_charge_fault env of
                Some code \<Rightarrow> r\<lparr>ck_fault := Some (DbError code)\<rparr>
              | None \<Rightarrow>
                  (case bulk_charge acc (cj_account job) amount (bs_world s) of
                     None \<Rightarrow> charge_singly env job bst vs r
                   | Some w \<Rightarrow>
                       count_virtual (write_slices env job bst 0 parts
                         (r\<lparr>ck_charged := amount, ck_sys := with_world w s\<rparr>))))"

definition normal_path ::
    "'n chunk_env \<Rightarrow> chunk_job \<Rightarrow> account option \<Rightarrow> batch_status option \<Rightarrow> pystr list \<Rightarrow> pystr list \<Rightarrow> bulk_sys \<Rightarrow> chunk_run" where
  "normal_path env job acc bst known black s =
     (case precheck env job acc known black 0 (cj_phones job)
             \<lparr>cs_world = bs_world s, cs_routes = Map.empty, cs_prices = Map.empty\<rparr> of
        (n, fs, vs, st) \<Rightarrow>
          (let s1 = with_world (cs_world st) s;
               s2 = s1\<lparr>bs_gw := add_rows (map (prefailed_row env job (now (bs_world s1))) fs) (bs_gw s1)\<rparr>
           in pay_and_send env job acc bst vs (begin_run s2 n (length fs))))"

text \<open>A chunk for a given virtual channel: no routing, no rows for the numbers that fail, and the charge
  is committed with the first slice.\<close>

fun virtual_items ::
    "'n chunk_env \<Rightarrow> chunk_job \<Rightarrow> account option \<Rightarrow> channel \<Rightarrow> pystr list \<Rightarrow> pystr list \<Rightarrow> nat \<Rightarrow> pystr list
       \<Rightarrow> nat \<times> nat \<times> bulk_item list" where
  "virtual_items env job acc ch known black i [] = (0, 0, [])"
| "virtual_items env job acc ch known black i (p # ps) =
     (case virtual_items env job acc ch known black (Suc i) ps of
        (n, m, vs) \<Rightarrow>
          (if p \<in> set known then (Suc n, m, vs)
           else case check_number env acc black p of
                  Inl _ \<Rightarrow> (n, Suc m, vs)
                | Inr info \<Rightarrow>
                    (let txt = chunk_text env job i info
                     in (n, m, \<lparr>bi_info = info, bi_text = txt, bi_units = count_sms_parts txt, bi_channel = ch,
                               bi_price = \<lparr>up_sell = 0, up_currency = asc ''USD'', up_cost = 0\<rparr>\<rparr> # vs))))"

fun price_items ::
    "'n chunk_env \<Rightarrow> int \<Rightarrow> bulk_item list \<Rightarrow> check_state \<Rightarrow> bulk_item list outcome \<times> check_state" where
  "price_items env acc [] st = (Inr [], st)"
| "price_items env acc (v # vs) st =
     (case price_for env acc (bi_channel v) (ph_country_code (bi_info v)) st of
        (Inl e, st1) \<Rightarrow> (Inl e, st1)
      | (Inr p, st1) \<Rightarrow>
          (case price_items env acc vs st1 of
             (Inl e, st2) \<Rightarrow> (Inl e, st2)
           | (Inr us, st2) \<Rightarrow> (Inr (v\<lparr>bi_price := p\<rparr> # us), st2)))"

fun write_virtual ::
    "'n chunk_env \<Rightarrow> chunk_job \<Rightarrow> bulk_sys \<Rightarrow> nat \<Rightarrow> bulk_item list list \<Rightarrow> chunk_run \<Rightarrow> chunk_run" where
  "write_virtual env job s0 k [] r = r"
| "write_virtual env job s0 k (vs # rest) r =
     (let s = ck_sys r; g = bs_gw s; g1 = add_rows (map (item_row env job g) vs) g
      in case ce_write_fault env k of
           Some code \<Rightarrow>
             r\<lparr>ck_fault := Some (DbError code),
               ck_sys := s0\<lparr>bs_gw := (bs_gw s0)\<lparr>next_log_id := next_log_id g1\<rparr>\<rparr>\<rparr>
         | None \<Rightarrow>
             (let s' = s\<lparr>bs_gw := g1\<rparr>; s1 = replace_track_urls_for_logs env (new_rows s s') s'
              in write_virtual env job s1 (Suc k) rest
                   (r\<lparr>ck_ok := ck_ok r + length vs, ck_vids := ck_vids r @ map message_id (new_rows s s1),
                     ck_sys := s1\<rparr>)))"

definition virtual_path ::
    "'n chunk_env \<Rightarrow> chunk_job \<Rightarrow> account option \<Rightarrow> channel \<Rightarrow> pystr list \<Rightarrow> pystr list \<Rightarrow> bulk_sys \<Rightarrow> chunk_run" where
  "virtual_path env job acc ch known black s =
     (case virtual_items env job acc ch known black 0 (cj_phones job) of
        (n, m, vs) \<Rightarrow>
          (case price_items env (cj_account job) vs
                  \<lparr>cs_world = bs_world s, cs_routes = Map.empty, cs_prices = Map.empty\<rparr> of
             (Inl e, st) \<Rightarrow> (begin_run (with_world (cs_world st) s) n m)\<lparr>ck_fault := Some (OtherError e)\<rparr>
           | (Inr us, st) \<Rightarrow>
               (let s1 = with_world (cs_world st) s;
                    r = (begin_run s1 n m)\<lparr>ck_vchan := Some (ch_id ch)\<rparr>;
                    amount = sell_total us; parts = slices DB_LOG_CHUNK us
                in if us = [] then r
                   else if amount \<le> 0 then write_virtual env job s1 0 parts r
                   else case ce_charge_fault env of
                          Some code \<Rightarrow> r\<lparr>ck_fault := Some (DbError code)\<rparr>
                        | None \<Rightarrow>
                            (case bulk_charge acc (cj_account job) amount (bs_world s1) of
                               None \<Rightarrow> r\<lparr>ck_bad := m + length us\<rparr>
                             | Some w \<Rightarrow> write_virtual env job s1 0 parts (r\<lparr>ck_sys := with_world w s1\<rparr>)))))"

section \<open>The chunk and its task\<close>

datatype chunk_answer = ChunkSkipped | ChunkDone nat nat | ChunkRaised chunk_fault

text \<open>What is charged and not sent is given back where nothing was counted as done.\<close>

definition refund_chunk :: "int \<Rightarrow> money \<Rightarrow> world \<Rightarrow> world" where
  "refund_chunk i amount w =
     (let w1 = snd (add_balance_where (\<lambda>_. True) i amount w)
      in log_balance i Refund amount (case balance_of w1 i of Some b \<Rightarrow> b | None \<Rightarrow> 0) w1)"

definition schedule_virtual :: "chunk_job \<Rightarrow> chunk_run \<Rightarrow> bulk_sys \<Rightarrow> bulk_sys" where
  "schedule_virtual job r s =
     (case truthy_id (ck_vchan r) of
        None \<Rightarrow> s
      | Some c \<Rightarrow>
          (if ck_vids r = [] then s
           else s\<lparr>bs_virtual := bs_virtual s @ [VirtualSubmit (ck_vids r) c (cj_batch job),
                                              VirtualReports (ck_vids r) c (cj_batch job)]\<rparr>))"

definition finish_chunk :: "'n chunk_env \<Rightarrow> chunk_job \<Rightarrow> chunk_run \<Rightarrow> chunk_answer \<times> bulk_sys" where
  "finish_chunk env job r =
     (let s = ck_sys r
      in case ck_fault r of
           Some f \<Rightarrow>
             (ChunkRaised f,
              if 0 < ck_charged r \<and> ck_ok r = 0
              then with_world (refund_chunk (cj_account job) (ck_charged r) (bs_world s)) s else s)
         | None \<Rightarrow>
             (ChunkDone (ck_ok r) (ck_bad r),
              schedule_virtual job r
                (with_world (snd (update_batch_progress (ce_progress env) (bs_world s) (cj_batch job))) s)))"

definition known_numbers :: "chunk_job \<Rightarrow> world \<Rightarrow> pystr list" where
  "known_numbers job w =
     map phone_number (filter (\<lambda>r. phone_number r \<in> set (cj_phones job)) (batch_logs w (cj_batch job)))"

definition blacklisted_numbers :: "chunk_job \<Rightarrow> bulk_sys \<Rightarrow> pystr list" where
  "blacklisted_numbers job s = filter (\<lambda>n. n \<in> set (cj_phones job)) (bs_blacklist s)"

definition run_chunk :: "'n chunk_env \<Rightarrow> chunk_job \<Rightarrow> bulk_sys \<Rightarrow> chunk_run" where
  "run_chunk env job s =
     (let w = bs_world s; acc = account_by_id w (cj_account job);
          bst = map_option batch_status (batch_by_id w (cj_batch job));
          known = known_numbers job w; black = blacklisted_numbers job s
      in case (case truthy_id (cj_channel job) of None \<Rightarrow> None | Some c \<Rightarrow> channel_by_id w c) of
           Some ch \<Rightarrow> (if ch_protocol ch = VIRTUAL then virtual_path env job acc ch known black s
                       else normal_path env job acc bst known black s)
         | None \<Rightarrow> normal_path env job acc bst known black s)"

definition batch_stopped :: "world \<Rightarrow> int \<Rightarrow> bool" where
  "batch_stopped w b \<longleftrightarrow>
     (case batch_by_id w b of None \<Rightarrow> False | Some x \<Rightarrow> batch_status x \<in> {BCancelled, BFailed})"

definition do_process_chunk :: "'n chunk_env \<Rightarrow> chunk_job \<Rightarrow> bulk_sys \<Rightarrow> chunk_answer \<times> bulk_sys" where
  "do_process_chunk env job s =
     (if batch_stopped (bs_world s) (cj_batch job) then (ChunkSkipped, s)
      else finish_chunk env job (run_chunk env job s))"

definition CHUNK_MAX_RETRIES :: nat where "CHUNK_MAX_RETRIES = 6"
definition CHUNK_RESCUE_MAX :: nat where "CHUNK_RESCUE_MAX = 5"

datatype task_end = TaskReturned chunk_answer | TaskRetried | TaskRescued nat | TaskRaised chunk_fault

definition retryable :: "chunk_fault \<Rightarrow> bool" where
  "retryable f \<longleftrightarrow> (case f of DbError code \<Rightarrow> code \<in> {1205, 1213, 2006, 2013} | OtherError _ \<Rightarrow> False)"

definition process_batch_chunk ::
    "'n chunk_env \<Rightarrow> chunk_job \<Rightarrow> nat \<Rightarrow> nat \<Rightarrow> bulk_sys \<Rightarrow> task_end \<times> bulk_sys" where
  "process_batch_chunk env job retries depth s =
     (case do_process_chunk env job s of
        (ChunkRaised f, s1) \<Rightarrow>
          (if retryable f then
             (if retries < CHUNK_MAX_RETRIES then TaskRetried
              else if depth < CHUNK_RESCUE_MAX then TaskRescued (depth + 1) else TaskRaised f)
           else TaskRaised f, s1)
      | (a, s1) \<Rightarrow> (TaskReturned a, s1))"

text \<open>The task until it is over: what the worker makes of the end of each run. \<open>envs k\<close> is what the
  k-th run finds; a rescue is a new task. The number of runs goes along.\<close>

function chunk_task ::
    "(nat \<Rightarrow> 'n chunk_env) \<Rightarrow> chunk_job \<Rightarrow> nat \<Rightarrow> nat \<Rightarrow> nat \<Rightarrow> bulk_sys \<Rightarrow> task_end \<times> nat \<times> bulk_sys" where
  "chunk_task envs job k retries depth s =
     (case process_batch_chunk (envs k) job retries depth s of
        (TaskRetried, s1) \<Rightarrow>
          (if retries < CHUNK_MAX_RETRIES then chunk_task envs job (Suc k) (Suc retries) depth s1
           else (TaskRetried, Suc k, s1))
      | (TaskRescued d, s1) \<Rightarrow>
          (if depth < d \<and> d \<le> CHUNK_RESCUE_MAX then chunk_task envs job (Suc k) 0 d s1
           else (TaskRescued d, Suc k, s1))
      | (e, s1) \<Rightarrow> (e, Suc k, s1))"
  by pat_completeness auto

termination chunk_task
  by (relation "(\<lambda>(envs, job, k, retries, depth, s). CHUNK_RESCUE_MAX - depth)
        <*mlex*> measure (\<lambda>(envs, job, k, retries, depth, s). CHUNK_MAX_RETRIES - retries)")
    (auto simp: wf_mlex intro: mlex_less mlex_leq)

declare chunk_task.simps [simp del]

end
