(* ===== verification/BulkMoney.thy ===== *)
theory BulkMoney
  imports BulkSend
begin

text \<open>
  What a chunk does to money. Every change of a gateway by a chunk is a sequence of paid steps: quiet
  ones, a charge with its log entry, the charge of a whole chunk, new rows, refunds. The locale
  \<open>bulk_inv\<close> extends \<open>step_inv\<close> by the charge of a chunk and carries a property over such sequences.
\<close>

section \<open>Paid steps\<close>

definition plain_row :: "(int \<Rightarrow> sms_log) \<Rightarrow> bool" where
  "plain_row f \<longleftrightarrow> (\<forall>i. log_id (f i) = i \<and> refunded_at (f i) = None \<and> refunded_amount (f i) = None)"

inductive paid_step :: "gateway \<Rightarrow> gateway \<Rightarrow> bool" where
  quietly: "quiet (gw_world g) (gw_world g') \<Longrightarrow> next_log_id g \<le> next_log_id g' \<Longrightarrow> paid_step g g'"
| charged: "calculate_and_charge enum (gw_world g) i chan cc msg mnc ch False = (a, w) \<Longrightarrow>
              paid_step g (g\<lparr>gw_world := w\<rparr>)"
| bulk: "account_by_id (gw_world g) i = acc \<Longrightarrow> bulk_charge acc i amount (gw_world g) = Some w \<Longrightarrow>
              paid_step g (g\<lparr>gw_world := w\<rparr>)"
| rows: "list_all plain_row fs \<Longrightarrow> paid_step g (add_rows fs g)"
| refunded: "refund_run op (gw_world g) = (a, w) \<Longrightarrow> paid_step g (g\<lparr>gw_world := w\<rparr>)"

abbreviation paid :: "gateway \<Rightarrow> gateway \<Rightarrow> bool" where
  "paid \<equiv> paid_step\<^sup>*\<^sup>*"

locale bulk_inv = step_inv +
  assumes bulk_paid: "P w \<Longrightarrow> account_by_id w i = acc \<Longrightarrow> bulk_charge acc i amount w = Some w' \<Longrightarrow> P w'"

lemma add_rows_world: "gw_world (add_rows (f # fs) g) = gw_world (add_rows fs (add_rows [f] g))"
  "next_log_id (add_rows (f # fs) g) = next_log_id (add_rows fs (add_rows [f] g))"
proof -
  have "map (\<lambda>(k, f). f (n + int k)) (enumerate (Suc j) fs) = map (\<lambda>(k, f). f (n + 1 + int k)) (enumerate j fs)"
    for n j and fs :: "(int \<Rightarrow> sms_log) list"
    by (induction fs arbitrary: j) (simp_all add: algebra_simps)
  then show "gw_world (add_rows (f # fs) g) = gw_world (add_rows fs (add_rows [f] g))"
    by (simp add: add_rows_def number_rows_def)
  show "next_log_id (add_rows (f # fs) g) = next_log_id (add_rows fs (add_rows [f] g))"
    by (simp add: add_rows_def)
qed

context bulk_inv
begin

lemma one_row:
  assumes "P (gw_world g) \<and> ids_below (gw_world g) g" and "plain_row f"
  shows "P (gw_world (add_rows [f] g)) \<and> ids_below (gw_world (add_rows [f] g)) (add_rows [f] g)"
proof -
  have "log_id (f i) = i" for i using assms(2) by (simp add: plain_row_def)
  moreover have "fresh_log (gw_world g) (f (next_log_id g))"
    using assms by (auto simp: fresh_log_def plain_row_def ids_below_def list_all_iff)
  ultimately show ?thesis using assms insert [of "gw_world g" "f (next_log_id g)"]
    by (auto simp: add_rows_def number_rows_def ids_below_def list_all_iff)
qed

lemma rows_paid:
  "list_all plain_row fs \<Longrightarrow> P (gw_world g) \<and> ids_below (gw_world g) g \<Longrightarrow>
     P (gw_world (add_rows fs g)) \<and> ids_below (gw_world (add_rows fs g)) (add_rows fs g)"
proof (induction fs arbitrary: g)
  case Nil
  then show ?case by (simp add: add_rows_def number_rows_def ids_below_def)
next
  case (Cons f fs)
  then have "P (gw_world (add_rows [f] g)) \<and> ids_below (gw_world (add_rows [f] g)) (add_rows [f] g)"
    using one_row by simp
  then show ?case using Cons by (simp add: add_rows_world ids_below_def)
qed

lemma same_ids:
  assumes "map log_id (sms_logs w) = map log_id (sms_logs (gw_world g))" and "ids_below (gw_world g) g"
  shows "ids_below w g"
  using assms by (simp add: ids_below_def)

end

lemma bulk_charge_tables:
  "bulk_charge acc i amount w = Some w' \<Longrightarrow> log_view w' = log_view w \<and> sms_logs w' = sms_logs w"
  by (auto simp: bulk_charge_def log_view_def Let_def split: prod.splits if_splits)
    (auto simp: add_balance_where_def log_balance_def)


context bulk_inv
begin

lemma paid_step:
  assumes "paid_step g g'" and "P (gw_world g) \<and> ids_below (gw_world g) g"
  shows "P (gw_world g') \<and> ids_below (gw_world g') g'"
  using assms
proof (induction rule: paid_step.induct)
  case (quietly g g')
  have "map log_id (sms_logs (gw_world g')) = map log_id (sms_logs (gw_world g))"
    using quietly(1) log_view_maps(1) [of "gw_world g'" "gw_world g"] by (simp add: quiet_def)
  then have "ids_below (gw_world g') g'"
    using quietly(2,3) ids_below_mono [of "gw_world g" g g'] by (simp add: ids_below_def)
  then show ?case using quietly quiet by blast
next
  case (charged enum g i chan cc msg mnc ch a w)
  have "log_view w = log_view (gw_world g)"
    using charge_views [OF wf charged(1)] charged(2) by blast
  then have "ids_below w g" using log_view_maps(1) [of w "gw_world g"] same_ids [of w g] charged(2) by simp
  then show ?case using charge [OF _ charged(1)] charged(2) by (simp add: ids_below_def)
next
  case (bulk g i acc amount w)
  then show ?case using bulk_charge_tables [OF bulk(2)] bulk_paid [of "gw_world g"]
    by (simp add: ids_below_def)
next
  case (rows fs g)
  then show ?case using rows_paid by blast
next
  case (refunded op g a w)
  then show ?case using refund [of "gw_world g" op a w] refund_run_frame(1) [of op "gw_world g"]
    by (simp add: ids_below_def)
qed

lemma paid:
  "paid g g' \<Longrightarrow> P (gw_world g) \<Longrightarrow> gateway_ok g \<Longrightarrow> P (gw_world g') \<and> gateway_ok g'"
proof -
  assume p: "paid g g'" and "P (gw_world g)" "gateway_ok g"
  then have i: "P (gw_world g) \<and> ids_below (gw_world g) g" by (simp add: gateway_ok_ids)
  have "P (gw_world g') \<and> ids_below (gw_world g') g'"
    using p i
  proof (induction rule: rtranclp_induct)
    case (step y z)
    then show ?case using paid_step [OF step(2)] by blast
  qed simp
  then show ?thesis using wf by (simp add: gateway_ok_ids)
qed

end

section \<open>Every stage is a sequence of paid steps\<close>

lemma with_world_simps [simp]:
  "bs_gw (with_world w s) = (bs_gw s)\<lparr>gw_world := w\<rparr>" "bs_published (with_world w s) = bs_published s"
  "bs_links (with_world w s) = bs_links s" "bs_calls (with_world w s) = bs_calls s"
  "bs_blacklist (with_world w s) = bs_blacklist s" "bs_virtual (with_world w s) = bs_virtual s"
  by (simp_all add: with_world_def)

lemma paid_quiet: "quiet (gw_world g) w \<Longrightarrow> paid g (g\<lparr>gw_world := w\<rparr>)"
  by (rule r_into_rtranclp, rule paid_step.quietly) simp_all

lemma paid_same: "gw_world g' = gw_world g \<Longrightarrow> next_log_id g' = next_log_id g \<Longrightarrow> paid g g'"
  by (rule r_into_rtranclp, rule paid_step.quietly) simp_all

lemma rows_step: "list_all plain_row fs \<Longrightarrow> paid g (add_rows fs g)"
  by (intro r_into_rtranclp paid_step.rows)

lemma paid_ids: "paid g g' \<Longrightarrow> next_log_id g \<le> next_log_id g'"
proof (induction rule: rtranclp_induct)
  case (step g' g'')
  have "next_log_id g' \<le> next_log_id g''" using step(2) by cases (simp_all add: add_rows_def)
  then show ?case using step(3) by simp
qed simp

lemma publish_once_frame: "publish_once env ps s = (ok, s') \<Longrightarrow> bs_gw s' = bs_gw s"
  by (auto simp: publish_once_def split: prod.splits bool.splits)

lemma queue_each_frame: "queue_each_smpp env ps s = (n, s') \<Longrightarrow> bs_gw s' = bs_gw s"
proof (induction ps arbitrary: s n s')
  case (Cons p ps)
  obtain ok s1 where a: "queue_smpp_gateway env p s = (ok, s1)" by fastforce
  obtain m s2 where b: "queue_each_smpp env ps s1 = (m, s2)" by fastforce
  have "bs_gw s1 = bs_gw s" using a publish_once_frame by (simp add: queue_smpp_gateway_def)
  moreover have "bs_gw s2 = bs_gw s1" by (rule Cons.IH [OF b])
  ultimately show ?case using Cons.prems a b by simp
qed simp

lemma publish_payloads_frame:
  assumes "publish_payloads env ps s = (a, b, s')"
  shows "bs_gw s' = bs_gw s"
proof -
  obtain ok s1 where q: "queue_sms_batch_smpp env ps s = (ok, s1)" by fastforce
  have one: "bs_gw s1 = bs_gw s"
    using q by (auto simp: queue_sms_batch_smpp_def split: if_splits prod.splits bool.splits
        dest!: publish_once_frame queue_each_frame)
  obtain n s2 where e: "queue_each_smpp env ps s1 = (n, s2)" by fastforce
  show ?thesis using assms q e one queue_each_frame [OF e]
    by (cases ok) (auto simp: publish_payloads_def)
qed

lemma queue_one_frame:
  "queue_one env m s = (ok, s') \<Longrightarrow> bs_world s' = bs_world s \<and> next_log_id (bs_gw s') = next_log_id (bs_gw s)"
  by (auto simp: queue_one_def queue_sms_def split: if_splits)

lemma queue_bulk_frame:
  "queue_sms_bulk env ms s = (a, b, s') \<Longrightarrow>
     bs_world s' = bs_world s \<and> next_log_id (bs_gw s') = next_log_id (bs_gw s)"
proof (induction ms arbitrary: s a b s')
  case (Cons m ms)
  obtain ok s1 where q: "queue_one env m s = (ok, s1)" by fastforce
  obtain x y s2 where b: "queue_sms_bulk env ms s1 = (x, y, s2)" by (metis prod_cases3)
  show ?case using Cons.prems q b queue_one_frame [OF q] Cons.IH [OF b] by (cases ok) auto
qed simp

text \<open>What changes texts only.\<close>

lemma set_log_texts:
  "balance_logs (fold (\<lambda>(i, t). set_log i (\<lambda>r. r\<lparr>message := Some t\<rparr>)) news w) = balance_logs w
   \<and> accounts (fold (\<lambda>(i, t). set_log i (\<lambda>r. r\<lparr>message := Some t\<rparr>)) news w) = accounts w
   \<and> sms_batches (fold (\<lambda>(i, t). set_log i (\<lambda>r. r\<lparr>message := Some t\<rparr>)) news w) = sms_batches w
   \<and> channels (fold (\<lambda>(i, t). set_log i (\<lambda>r. r\<lparr>message := Some t\<rparr>)) news w) = channels w
   \<and> map (\<lambda>r. r\<lparr>message := None\<rparr>) (sms_logs (fold (\<lambda>(i, t). set_log i (\<lambda>r. r\<lparr>message := Some t\<rparr>)) news w))
       = map (\<lambda>r. r\<lparr>message := None\<rparr>) (sms_logs w)"
proof (induction news arbitrary: w)
  case (Cons x news)
  obtain i t where x: "x = (i, t)" by fastforce
  have "map (\<lambda>r. r\<lparr>message := None\<rparr>) (upd_where p (\<lambda>r. r\<lparr>message := Some t\<rparr>) ls) = map (\<lambda>r. r\<lparr>message := None\<rparr>) ls"
    for p ls by (simp add: upd_where_def)
  then show ?case using Cons.IH [of "set_log i (\<lambda>r. r\<lparr>message := Some t\<rparr>) w"] x by (simp add: set_log_def)
qed simp

text \<open>A column other than the text, over such a change.\<close>

lemma map_textless:
  assumes "map (\<lambda>r. r\<lparr>message := None\<rparr>) ls = map (\<lambda>r. r\<lparr>message := None\<rparr>) ls'"
    and "\<And>r m. f (r\<lparr>message := m\<rparr>) = f r"
  shows "map f ls = map f ls'"
proof -
  have "map f xs = map f (map (\<lambda>r. r\<lparr>message := None\<rparr>) xs)" for xs using assms(2) by simp
  then show ?thesis using assms(1) by metis
qed

lemma replace_links_frame:
  fixes s :: bulk_sys and env :: "'n chunk_env" and rows :: "sms_log list"
  defines "s' \<equiv> replace_track_urls_for_logs env rows s"
  shows "next_log_id (bs_gw s') = next_log_id (bs_gw s)" "accounts (bs_world s') = accounts (bs_world s)"
    "balance_logs (bs_world s') = balance_logs (bs_world s)" "sms_batches (bs_world s') = sms_batches (bs_world s)"
    "channels (bs_world s') = channels (bs_world s)" "country_sids (bs_gw s') = country_sids (bs_gw s)"
    "map (\<lambda>r. r\<lparr>message := None\<rparr>) (sms_logs (bs_world s')) = map (\<lambda>r. r\<lparr>message := None\<rparr>) (sms_logs (bs_world s))"
  using set_log_texts by (auto simp: s'_def replace_track_urls_for_logs_def split: prod.split)

lemma replace_links_quiet: "quiet (bs_world s) (bs_world (replace_track_urls_for_logs env rows s))"
  using replace_links_frame [of env rows s]
    map_textless [of "sms_logs (bs_world (replace_track_urls_for_logs env rows s))" "sms_logs (bs_world s)"
      "\<lambda>r. (log_id r, log_account_id r, refunded_at r, refunded_amount r)"]
  by (simp add: quiet_def log_view_def)

lemma replace_links_paid: "paid (bs_gw s) (bs_gw (replace_track_urls_for_logs env rows s))"
  using replace_links_quiet [of s env rows] replace_links_frame(1) [of env rows s]
  by (intro r_into_rtranclp paid_step.quietly) simp_all


lemma node_paid:
  assumes "queue_commit_batch_node_rcs env mids s = (a, b, s')"
  shows "paid (bs_gw s) (bs_gw s')"
proof -
  let ?mine = "filter (\<lambda>r. message_id r \<in> set mids)"
  let ?s1 = "replace_track_urls_for_logs env (?mine (sms_logs (bs_world s))) s"
  let ?on = "\<lambda>f. (bs_world ?s1)\<lparr>sms_logs :=
                 upd_where (\<lambda>r. message_id r \<in> set mids) f (sms_logs (bs_world ?s1))\<rparr>"
  have marked: "paid (bs_gw ?s1) ((bs_gw ?s1)\<lparr>gw_world := ?on f\<rparr>)"
    if "\<And>r. (log_id (f r), log_account_id (f r), refunded_at (f r), refunded_amount (f r))
              = (log_id r, log_account_id r, refunded_at r, refunded_amount r)" for f
    using log_view_upd [of f] that by (intro paid_quiet) (simp add: quiet_def)
  have one: "paid g (g\<lparr>gw_world := refund_single x m (gw_world g)\<rparr>)" for g x m
  proof -
    have "refund_single x m (gw_world g) = gw_world g
        \<or> (\<exists>i. refund_single x m (gw_world g) = snd (refund_run (Automatic i (asc ''batch_queue_fail'')) (gw_world g)))"
      by (auto simp: refund_single_def refund_line_charge_def split: option.split)
    then show ?thesis
    proof
      assume "refund_single x m (gw_world g) = gw_world g"
      then show ?thesis by simp
    next
      assume "\<exists>i. refund_single x m (gw_world g) = snd (refund_run (Automatic i (asc ''batch_queue_fail'')) (gw_world g))"
      then obtain i a where "refund_run (Automatic i (asc ''batch_queue_fail'')) (gw_world g)
          = (a, refund_single x m (gw_world g))" by (metis prod.collapse)
      then show ?thesis by (intro r_into_rtranclp paid_step.refunded)
    qed
  qed
  have refunds: "paid g (g\<lparr>gw_world := fold (\<lambda>m. refund_single (f m) m) ms (gw_world g)\<rparr>)" for g f ms
  proof (induction ms arbitrary: g)
    case (Cons m ms)
    have "paid g (g\<lparr>gw_world := refund_single (f m) m (gw_world g)\<rparr>)" by (rule one)
    also have "paid (g\<lparr>gw_world := refund_single (f m) m (gw_world g)\<rparr>)
        (g\<lparr>gw_world := fold (\<lambda>m. refund_single (f m) m) (m # ms) (gw_world g)\<rparr>)"
      using Cons.IH [of "g\<lparr>gw_world := refund_single (f m) m (gw_world g)\<rparr>"] by simp
    finally show ?case .
  qed simp
  have both: "paid (bs_gw ?s1) ((bs_gw ?s1)\<lparr>gw_world := fold (\<lambda>m. refund_single (f m) m) ms
      (?on (\<lambda>r. r\<lparr>log_status := Failed, log_error_message := Some err\<rparr>))\<rparr>)" for f ms err
    using rtranclp_trans [OF marked [of "\<lambda>r. r\<lparr>log_status := Failed, log_error_message := Some err\<rparr>"]
        refunds [of "(bs_gw ?s1)\<lparr>gw_world := ?on (\<lambda>r. r\<lparr>log_status := Failed, log_error_message := Some err\<rparr>)\<rparr>" f ms]]
    by simp
  show ?thesis
  proof (cases "?mine (sms_logs (bs_world s)) = []")
    case True
    then show ?thesis using assms by (simp add: queue_commit_batch_node_rcs_def Let_def)
  next
    case False
    have "paid (bs_gw ?s1) (bs_gw s')"
      using assms False by (auto simp: queue_commit_batch_node_rcs_def Let_def split: node_answer.splits
          intro!: both marked)
    then show ?thesis using replace_links_paid rtranclp_trans by fastforce
  qed
qed

lemma send_http_paid:
  assumes "send_http env ch mids s = (a, b, s')"
  shows "paid (bs_gw s) (bs_gw s')"
proof (cases "mids = [] \<or> node_channel env ch")
  case True
  then show ?thesis using assms node_paid by (cases "mids = []") (auto simp: send_http_def)
next
  case False
  obtain x y s1 where q: "queue_sms_bulk env mids s = (x, y, s1)" by (metis prod_cases3)
  then show ?thesis using assms False queue_bulk_frame [OF q]
    by (auto simp: send_http_def intro!: paid_same)
qed

lemma item_rows_plain: "list_all plain_row (map (item_row env job g) vs)"
  by (simp add: list_all_iff plain_row_def item_row_def Let_def new_sms_log_def)

lemma write_slice_cases:
  fixes env :: "'n chunk_env" and vs :: "bulk_item list"
  obtains (lost) code where "ce_write_fault env k = Some code"
      "write_slice env job bst k vs r = r\<lparr>ck_fault := Some (DbError code),
         ck_sys := (ck_sys r)\<lparr>bs_gw := (bs_gw (ck_sys r))\<lparr>next_log_id := next_log_id (bs_gw (ck_sys r)) + int (length vs)\<rparr>\<rparr>\<rparr>"
  | (written) sa sb s2 s3 a b c d where "ce_write_fault env k = None"
      "sa = (ck_sys r)\<lparr>bs_gw := add_rows (map (item_row env job (bs_gw (ck_sys r))) vs) (bs_gw (ck_sys r))\<rparr>"
      "sb = replace_track_urls_for_logs env (new_rows (ck_sys r) sa) sa"
      "publish_payloads env (map (\<lambda>x. smpp_payload_of x bst) (of_protocol SMPP vs (new_rows (ck_sys r) sb))) sb = (a, b, s2)"
      "send_http env (bi_channel (last vs)) (map message_id (of_protocol HTTP vs (new_rows (ck_sys r) sb))) s2 = (c, d, s3)"
      "write_slice env job bst k vs r = r\<lparr>ck_ok := ck_ok r + a + c, ck_bad := ck_bad r + b + d,
         ck_vids := ck_vids r @ map message_id (of_protocol VIRTUAL vs (new_rows (ck_sys r) sb)),
         ck_vchan := (if of_protocol VIRTUAL vs (new_rows (ck_sys r) sb) = [] then ck_vchan r
                      else log_channel_id (last (of_protocol VIRTUAL vs (new_rows (ck_sys r) sb)))),
         ck_sys := s3\<rparr>"
proof (cases "ce_write_fault env k")
  case (Some code)
  then show ?thesis by (intro lost) (simp_all add: write_slice_def Let_def add_rows_def)
next
  case None
  define sa where "sa = (ck_sys r)\<lparr>bs_gw := add_rows (map (item_row env job (bs_gw (ck_sys r))) vs) (bs_gw (ck_sys r))\<rparr>"
  define sb where "sb = replace_track_urls_for_logs env (new_rows (ck_sys r) sa) sa"
  obtain a b s2 where p: "publish_payloads env (map (\<lambda>x. smpp_payload_of x bst)
      (of_protocol SMPP vs (new_rows (ck_sys r) sb))) sb = (a, b, s2)" by (metis prod_cases3)
  obtain c d s3 where h: "send_http env (bi_channel (last vs))
      (map message_id (of_protocol HTTP vs (new_rows (ck_sys r) sb))) s2 = (c, d, s3)" by (metis prod_cases3)
  show ?thesis
  proof (rule written [OF None sa_def sb_def p h])
  qed (use p h in \<open>simp add: write_slice_def Let_def None sa_def [symmetric] sb_def [symmetric]\<close>)
qed

lemma write_slice_paid: "paid (bs_gw (ck_sys r)) (bs_gw (ck_sys (write_slice env job bst k vs r)))"
proof (cases rule: write_slice_cases [of env k job bst vs r])
  case (lost code)
  show ?thesis unfolding lost(2) by (rule r_into_rtranclp, rule paid_step.quietly) simp_all
next
  case (written sa sb s2 s3 a b c d)
  have "paid (bs_gw (ck_sys r)) (bs_gw sa)"
    unfolding written(2) using rows_step [OF item_rows_plain] by simp
  moreover have "paid (bs_gw sa) (bs_gw sb)" unfolding written(3) by (rule replace_links_paid)
  moreover have "paid (bs_gw sb) (bs_gw s3)"
    using send_http_paid [OF written(5)] publish_payloads_frame [OF written(4)] by simp
  ultimately have "paid (bs_gw (ck_sys r)) (bs_gw s3)" by (meson rtranclp_trans)
  then show ?thesis unfolding written(6) by simp
qed

lemma write_slices_paid: "paid (bs_gw (ck_sys r)) (bs_gw (ck_sys (write_slices env job bst k parts r)))"
proof (induction parts arbitrary: k r)
  case (Cons vs rest)
  have "paid (bs_gw (ck_sys r)) (bs_gw (ck_sys (write_slice env job bst k vs r)))" by (rule write_slice_paid)
  then show ?case using Cons.IH [of "write_slice env job bst k vs r" "Suc k"]
    by (simp add: Let_def rtranclp_trans del: o_apply)
qed simp


lemma count_virtual_simps [simp]:
  "ck_sys (count_virtual r) = ck_sys r" "ck_fault (count_virtual r) = ck_fault r"
  "ck_charged (count_virtual r) = ck_charged r"
  by (simp_all add: count_virtual_def)

lemma dispatch_group_paid: "paid (bs_gw (ck_sys r)) (bs_gw (ck_sys (dispatch_group env bst ch grp r)))"
proof -
  define sa where "sa = replace_track_urls_for_logs env (filter (\<lambda>x. message_id x \<in> set grp) (sms_logs (bs_world (ck_sys r)))) (ck_sys r)"
  obtain a b s2 where p: "publish_payloads env (map (\<lambda>x. smpp_payload_of x bst)
      (List.map_filter (\<lambda>m. find (\<lambda>x. message_id x = m) (sms_logs (bs_world sa))) grp)) sa = (a, b, s2)"
    by (metis prod_cases3)
  obtain oks bads s3 where q: "queue_sms_bulk env grp (ck_sys r) = (oks, bads, s3)" by (metis prod_cases3)
  have "paid (bs_gw (ck_sys r)) (bs_gw sa)" unfolding sa_def by (rule replace_links_paid)
  then show ?thesis using p q publish_payloads_frame [OF p] queue_bulk_frame [OF q]
    by (auto simp: dispatch_group_def Let_def sa_def [symmetric] intro: paid_same)
qed

lemma one_row_plain: "list_all plain_row [one_row env job g v cr]"
  by (simp add: plain_row_def one_row_def Let_def new_sms_log_def)

lemma charge_each_paid:
  "charge_each env job bst vs lc grp r = (rest, lc', grp', r') \<Longrightarrow> paid (bs_gw (ck_sys r)) (bs_gw (ck_sys r'))"
proof (induction vs arbitrary: lc grp r)
  case (Cons v vs)
  let ?ch = "bi_channel v" and ?g = "bs_gw (ck_sys r)"
  obtain c w where c: "calculate_and_charge (ce_enum env) (gw_world ?g) (cj_account job) (ch_id ?ch)
      (ph_country_code (bi_info v)) (bi_text v) None (Some ?ch) False = (c, w)" by fastforce
  have step: "paid ?g (?g\<lparr>gw_world := w\<rparr>)" by (intro r_into_rtranclp paid_step.charged [OF c])
  show ?case
  proof (cases "\<exists>cr. c = Inr (Charged cr)")
    case True
    then obtain cr where cr: "c = Inr (Charged cr)" by blast
    let ?mid = "new_id env (next_log_id ?g)" and ?virtual = "ch_protocol ?ch = VIRTUAL"
    let ?next = "add_rows [one_row env job (?g\<lparr>gw_world := w\<rparr>) v cr] (?g\<lparr>gw_world := w\<rparr>)"
    let ?r1 = "r\<lparr>ck_vchan := (if ?virtual then Some (ch_id ?ch) else ck_vchan r),
                 ck_vids := (if ?virtual then ck_vids r @ [?mid] else ck_vids r),
                 ck_sys := (ck_sys r)\<lparr>bs_gw := ?next\<rparr>\<rparr>"
    have one: "paid ?g ?next" using rtranclp_trans [OF step rows_step [OF one_row_plain]] .
    have rest: "charge_each env job bst vs (Some ?ch) (if length (grp @ [?mid]) \<ge> GROUP then [] else grp @ [?mid])
        (if length (grp @ [?mid]) \<ge> GROUP then dispatch_group env bst ?ch (grp @ [?mid]) ?r1 else ?r1) = (rest, lc', grp', r')"
      using Cons.prems c cr by (simp add: Let_def split: if_splits)
    have "paid ?g (bs_gw (ck_sys (if length (grp @ [?mid]) \<ge> GROUP then dispatch_group env bst ?ch (grp @ [?mid]) ?r1 else ?r1)))"
      using one rtranclp_trans [OF one, of "bs_gw (ck_sys (dispatch_group env bst ?ch (grp @ [?mid]) ?r1))"]
        dispatch_group_paid [of ?r1 env bst ?ch "grp @ [?mid]"] by simp
    then show ?thesis using Cons.IH [OF rest] by (rule rtranclp_trans)
  next
    case False
    have IH: "charge_each env job bst vs (Some ?ch) grp (r\<lparr>ck_bad := ck_bad r + 1, ck_sys := with_world w (ck_sys r)\<rparr>)
        = (rest, lc', grp', r') \<Longrightarrow> paid ?g (bs_gw (ck_sys r'))"
      using rtranclp_trans [OF step] Cons.IH by fastforce
    show ?thesis
    proof (cases c)
      case (Inl e)
      then show ?thesis using Cons.prems c step IH by (cases e) (auto simp: Let_def)
    next
      case (Inr x)
      then show ?thesis using Cons.prems c False IH by (cases x) (auto simp: Let_def)
    qed
  qed
qed simp

lemma charge_singly_paid: "paid (bs_gw (ck_sys r)) (bs_gw (ck_sys (charge_singly env job bst vs r)))"
proof -
  obtain rest lc grp r1 where c: "charge_each env job bst vs None [] r = (rest, lc, grp, r1)" by (metis prod_cases4)
  define r2 where "r2 = (case lc of None \<Rightarrow> r1 | Some ch \<Rightarrow> if grp = [] then r1 else dispatch_group env bst ch grp r1)"
  have "paid (bs_gw (ck_sys r1)) (bs_gw (ck_sys r2))"
    by (auto simp: r2_def dispatch_group_paid split: option.split)
  moreover have "list_all plain_row (map (unpaid_row env job t) rest)" for t
    by (simp add: list_all_iff plain_row_def unpaid_row_def new_sms_log_def)
  then have "paid (bs_gw (ck_sys r2)) (add_rows (map (unpaid_row env job t) rest) (bs_gw (ck_sys r2)))" for t
    by (rule rows_step)
  ultimately show ?thesis
    using rtranclp_trans [OF rtranclp_trans [OF charge_each_paid [OF c]]] by (simp add: charge_singly_def c Let_def r2_def)
qed


text \<open>Checking and pricing fill caches.\<close>

lemma unit_price_same: "unit_price_of env acc ch cc w = (r, w') \<Longrightarrow> same_tables w w'"
  by (auto simp: unit_price_of_def split: prod.splits sum.splits
      dest!: get_price_tables resolve_cost_tables intro: same_tables_trans)

lemma price_for_same: "price_for env acc ch cc st = (r, st') \<Longrightarrow> same_tables (cs_world st) (cs_world st')"
  by (auto simp: price_for_def split: option.splits prod.splits sum.splits dest!: unit_price_same)

lemma route_of_same: "route_of env job i cc st = (r, st') \<Longrightarrow> same_tables (cs_world st) (cs_world st')"
  by (auto simp: route_of_def split: option.splits prod.splits sum.splits dest!: select_channel_same)

lemma precheck_one_cases:
  assumes "precheck_one env job acc black i raw st = (r, st')"
  shows "same_tables (cs_world st) (cs_world st')
    \<and> (case r of Inl _ \<Rightarrow> True
       | Inr v \<Rightarrow> check_number env acc black raw = Inr (bi_info v) \<and> bi_text v = chunk_text env job i (bi_info v)
           \<and> (\<exists>st1 st2. route_of env job i (ph_country_code (bi_info v)) st = (Inr (bi_channel v), st1)
              \<and> price_for env (cj_account job) (bi_channel v) (ph_country_code (bi_info v)) st1 = (Inr (bi_price v), st2)))"
proof (cases "check_number env acc black raw")
  case (Inl f)
  then show ?thesis using assms by (auto simp: precheck_one_def Let_def)
next
  case (Inr info)
  let ?cc = "ph_country_code info" and ?txt = "chunk_text env job i info"
  obtain c st1 where rt: "route_of env job i ?cc st = (c, st1)" by fastforce
  have s1: "same_tables (cs_world st) (cs_world st1)" by (rule route_of_same [OF rt])
  show ?thesis
  proof (cases c)
    case (Inl e)
    then show ?thesis using assms Inr rt s1 by (auto simp: precheck_one_def Let_def)
  next
    case (Inr ch)
    obtain p st2 where pr: "price_for env (cj_account job) ch ?cc st1 = (p, st2)" by fastforce
    have s2: "same_tables (cs_world st) (cs_world st2)" using same_tables_trans [OF s1 price_for_same [OF pr]] .
    show ?thesis using assms \<open>check_number env acc black raw = Inr info\<close> rt Inr s1 s2 pr
      by (auto simp: precheck_one_def Let_def split: sum.splits option.splits)
  qed
qed

lemma precheck_same:
  "precheck env job acc known black i ps st = (n, fs, vs, st') \<Longrightarrow> same_tables (cs_world st) (cs_world st')"
proof (induction ps arbitrary: i st n fs vs st')
  case (Cons p ps)
  show ?case
  proof (cases "p \<in> set known")
    case True
    obtain m gs us st1 where r: "precheck env job acc known black (Suc i) ps st = (m, gs, us, st1)" by (metis prod_cases4)
    then show ?thesis using Cons.prems True Cons.IH [OF r] by simp
  next
    case False
    obtain x st1 where o: "precheck_one env job acc black i p st = (x, st1)" by fastforce
    obtain m gs us st2 where r: "precheck env job acc known black (Suc i) ps st1 = (m, gs, us, st2)" by (metis prod_cases4)
    have "same_tables (cs_world st) (cs_world st2)"
      using same_tables_trans [OF conjunct1 [OF precheck_one_cases [OF o]] Cons.IH [OF r]] .
    then show ?thesis using Cons.prems False o r by (auto split: sum.splits)
  qed
qed simp

lemma price_items_same:
  "price_items env acc vs st = (r, st') \<Longrightarrow> same_tables (cs_world st) (cs_world st')"
proof (induction vs arbitrary: st r st')
  case (Cons v vs)
  obtain x st1 where o: "price_for env acc (bi_channel v) (ph_country_code (bi_info v)) st = (x, st1)" by fastforce
  obtain y st2 where q: "price_items env acc vs st1 = (y, st2)" by fastforce
  note s1 = price_for_same [OF o]
  show ?case using Cons.prems o q s1 same_tables_trans [OF s1 Cons.IH [OF q]]
    by (auto split: sum.splits)
qed simp

lemma pay_and_send_paid:
  assumes "account_by_id (bs_world (ck_sys r)) (cj_account job) = acc"
  shows "paid (bs_gw (ck_sys r)) (bs_gw (ck_sys (pay_and_send env job acc bst vs r)))"
proof -
  have "paid (bs_gw (ck_sys r)) (bs_gw (ck_sys (write_slices env job bst 0 parts (r\<lparr>ck_charged := x, ck_sys := with_world w (ck_sys r)\<rparr>))))"
    if "bulk_charge acc (cj_account job) x (bs_world (ck_sys r)) = Some w" for parts x w
  proof (rule converse_rtranclp_into_rtranclp)
    show "paid_step (bs_gw (ck_sys r)) ((bs_gw (ck_sys r))\<lparr>gw_world := w\<rparr>)" by (rule paid_step.bulk [OF assms that])
    show "paid ((bs_gw (ck_sys r))\<lparr>gw_world := w\<rparr>)
        (bs_gw (ck_sys (write_slices env job bst 0 parts (r\<lparr>ck_charged := x, ck_sys := with_world w (ck_sys r)\<rparr>))))"
      using write_slices_paid [of "r\<lparr>ck_charged := x, ck_sys := with_world w (ck_sys r)\<rparr>" env job bst 0 parts] by simp
  qed
  then show ?thesis
    by (auto simp: pay_and_send_def Let_def write_slices_paid charge_singly_paid split: option.split)
qed

lemma normal_path_paid:
  assumes "account_by_id (bs_world s) (cj_account job) = acc"
  shows "paid (bs_gw s) (bs_gw (ck_sys (normal_path env job acc bst known black s)))"
proof -
  obtain n fs vs st where c: "precheck env job acc known black 0 (cj_phones job)
      \<lparr>cs_world = bs_world s, cs_routes = Map.empty, cs_prices = Map.empty\<rparr> = (n, fs, vs, st)" by (metis prod_cases4)
  have st: "same_tables (bs_world s) (cs_world st)" using precheck_same [OF c] by simp
  define s1 where "s1 = with_world (cs_world st) s"
  define s2 where "s2 = s1\<lparr>bs_gw := add_rows (map (prefailed_row env job (now (bs_world s1))) fs) (bs_gw s1)\<rparr>"
  have "paid (bs_gw s) (bs_gw s1)" unfolding s1_def using paid_quiet [OF same_tables_quiet [OF st]] by simp
  moreover have "list_all plain_row (map (prefailed_row env job t) fs)" for t
    by (auto simp: list_all_iff plain_row_def prefailed_row_def new_sms_log_def)
  then have "paid (bs_gw s1) (bs_gw s2)" unfolding s2_def using rows_step by simp
  moreover have "account_by_id (bs_world s2) (cj_account job) = acc"
    using assms same_tables_queries(1) [OF st] by (simp add: s2_def s1_def add_rows_def account_by_id_def)
  then have "paid (bs_gw s2) (bs_gw (ck_sys (pay_and_send env job acc bst vs (begin_run s2 n (length fs)))))"
    using pay_and_send_paid [of "begin_run s2 n (length fs)" job acc] by (simp add: begin_run_def)
  ultimately have "paid (bs_gw s) (bs_gw (ck_sys (pay_and_send env job acc bst vs (begin_run s2 n (length fs)))))"
    by (meson rtranclp_trans)
  then show ?thesis by (simp add: normal_path_def c Let_def s1_def s2_def)
qed


lemma write_virtual_paid:
  "paid (bs_gw s0) (bs_gw (ck_sys r)) \<Longrightarrow> paid (bs_gw s0) (bs_gw (ck_sys (write_virtual env job s0 k parts r)))"
proof (induction parts arbitrary: s0 k r)
  case (Cons vs rest)
  show ?case
  proof (cases "ce_write_fault env k")
    case (Some code)
    then show ?thesis using paid_ids [OF Cons.prems]
      by (auto simp: Let_def add_rows_def intro!: r_into_rtranclp paid_step.quietly)
  next
    case None
    define sa where "sa = (ck_sys r)\<lparr>bs_gw := add_rows (map (item_row env job (bs_gw (ck_sys r))) vs) (bs_gw (ck_sys r))\<rparr>"
    define sb where "sb = replace_track_urls_for_logs env (new_rows (ck_sys r) sa) sa"
    have "paid (bs_gw (ck_sys r)) (bs_gw sa)" unfolding sa_def using rows_step [OF item_rows_plain] by simp
    then have "paid (bs_gw s0) (bs_gw sb)"
      using Cons.prems replace_links_paid [of sa env "new_rows (ck_sys r) sa"] unfolding sb_def
      by (meson rtranclp_trans)
    moreover have "paid (bs_gw sb) (bs_gw (ck_sys (write_virtual env job sb (Suc k) rest
        (r\<lparr>ck_ok := ck_ok r + length vs, ck_vids := ck_vids r @ map message_id (new_rows (ck_sys r) sb), ck_sys := sb\<rparr>))))"
      by (rule Cons.IH) simp
    ultimately show ?thesis by (simp add: None Let_def sa_def [symmetric] sb_def [symmetric] rtranclp_trans)
  qed
qed simp

lemma virtual_path_paid:
  assumes "account_by_id (bs_world s) (cj_account job) = acc"
  shows "paid (bs_gw s) (bs_gw (ck_sys (virtual_path env job acc ch known black s)))"
proof -
  obtain n m vs where v: "virtual_items env job acc ch known black 0 (cj_phones job) = (n, m, vs)" by (metis prod_cases3)
  obtain x st where pr: "price_items env (cj_account job) vs
      \<lparr>cs_world = bs_world s, cs_routes = Map.empty, cs_prices = Map.empty\<rparr> = (x, st)" by fastforce
  have st: "same_tables (bs_world s) (cs_world st)" using price_items_same [OF pr] by simp
  have one: "paid (bs_gw s) ((bs_gw s)\<lparr>gw_world := cs_world st\<rparr>)" by (rule paid_quiet [OF same_tables_quiet [OF st]])
  have acc: "account_by_id (cs_world st) (cj_account job) = acc" using assms same_tables_queries(1) [OF st] by simp
  have bulk: "paid ((bs_gw s)\<lparr>gw_world := cs_world st\<rparr>) (bs_gw (ck_sys (write_virtual env job (with_world (cs_world st) s) 0 parts r)))"
    if "bulk_charge acc (cj_account job) y (cs_world st) = Some w" "ck_sys r = with_world w (with_world (cs_world st) s)"
    for y w r parts
  proof -
    have "paid_step ((bs_gw s)\<lparr>gw_world := cs_world st\<rparr>) ((bs_gw s)\<lparr>gw_world := w\<rparr>)"
      using paid_step.bulk [of "(bs_gw s)\<lparr>gw_world := cs_world st\<rparr>"] acc that(1) by simp
    then have "paid (bs_gw (with_world (cs_world st) s)) (bs_gw (ck_sys r))"
      using that(2) by (simp add: r_into_rtranclp)
    from write_virtual_paid [OF this] show ?thesis by simp
  qed
  have free: "paid ((bs_gw s)\<lparr>gw_world := cs_world st\<rparr>) (bs_gw (ck_sys (write_virtual env job (with_world (cs_world st) s) 0 parts r)))"
    if "ck_sys r = with_world (cs_world st) s" for parts r
    using write_virtual_paid [of "with_world (cs_world st) s" r] that by simp
  have "paid ((bs_gw s)\<lparr>gw_world := cs_world st\<rparr>) (bs_gw (ck_sys (virtual_path env job acc ch known black s)))"
    using bulk free by (auto simp: virtual_path_def v pr Let_def begin_run_def split: sum.split option.split)
  then show ?thesis using one by (meson rtranclp_trans)
qed

lemma run_chunk_paid: "paid (bs_gw s) (bs_gw (ck_sys (run_chunk env job s)))"
  by (auto simp: run_chunk_def Let_def intro: normal_path_paid virtual_path_paid split: option.split)

text \<open>Where a chunk gives its charge back as a whole.\<close>

definition gives_back :: "chunk_run \<Rightarrow> bool" where
  "gives_back r \<longleftrightarrow> ck_fault r \<noteq> None \<and> 0 < ck_charged r \<and> ck_ok r = 0"

lemma schedule_virtual_gw [simp]: "bs_gw (schedule_virtual job r s) = bs_gw s"
  by (simp add: schedule_virtual_def split: option.split)

lemma chunk_gateway:
  "bs_gw (snd (do_process_chunk env job s)) =
     (let r = run_chunk env job s; g = bs_gw (ck_sys r); w = gw_world g
      in if batch_stopped (bs_world s) (cj_batch job) then bs_gw s
         else if ck_fault r = None then g\<lparr>gw_world := snd (update_batch_progress (ce_progress env) w (cj_batch job))\<rparr>
         else if gives_back r then g\<lparr>gw_world := refund_chunk (cj_account job) (ck_charged r) w\<rparr> else g)"
  by (cases "ck_fault (run_chunk env job s)")
    (simp_all add: do_process_chunk_def finish_chunk_def Let_def gives_back_def)

lemma chunk_paid:
  assumes "\<not> gives_back (run_chunk env job s)"
  shows "paid (bs_gw s) (bs_gw (snd (do_process_chunk env job s)))"
  using assms run_chunk_paid [of s env job]
    rtranclp_trans [OF run_chunk_paid [of s env job] paid_quiet [OF refresh_quiet]]
  by (simp add: chunk_gateway Let_def)

section \<open>The books\<close>

lemma bulk_charge_cases:
  assumes wf: "wf_world w" and acc: "account_by_id w i = acc" and b: "bulk_charge acc i amount w = Some w'"
  obtains a p where "account_by_id w i = Some a" "p a" "payment_type a = Prepaid \<Longrightarrow> amount \<le> balance a"
    "w' = log_balance i Charge (- amount) (balance a - amount) (snd (add_balance_where p i (- amount) w))"
proof -
  define p :: "account \<Rightarrow> bool" where "p = (if map_option payment_type acc = Some Postpaid then (\<lambda>_. True) else (\<lambda>a. balance a \<ge> amount))"
  let ?u = "add_balance_where p i (- amount) w"
  have keys: "distinct (map acc_id (accounts w))" using wf by (simp add: wf_world_def)
  have hit: "fst ?u \<noteq> 0"
    and w': "w' = log_balance i Charge (- amount) (case balance_of (snd ?u) i of Some b \<Rightarrow> b | None \<Rightarrow> 0) (snd ?u)"
    using b unfolding bulk_charge_def p_def [symmetric] Let_def by (auto split: prod.splits if_splits)
  from add_balance_where_hit [OF keys hit] obtain a where a: "account_by_id w i = Some a" "p a" by blast
  have "balance_of (snd ?u) i = Some (balance a - amount)"
    using add_balance_own_row(2) [where p = p and d = "- amount", OF keys a(1) a(2)] by simp
  moreover have "amount \<le> balance a" if "payment_type a = Prepaid"
    using a(2) acc a(1) that by (auto simp: p_def)
  ultimately show ?thesis using that a w' by simp
qed

lemma bulk_charge_books:
  assumes wf: "wf_world w" and acc: "account_by_id w i = acc" and b: "bulk_charge acc i amount w = Some w'"
  shows "wf_world w'" and "ledger_ok fund w \<Longrightarrow> ledger_ok fund w'"
    and "prepaid_covered w \<Longrightarrow> prepaid_covered w'" and "refund_entries j w' = refund_entries j w"
proof -
  from bulk_charge_cases [OF assms] obtain a p where a: "account_by_id w i = Some a" "p a"
    "payment_type a = Prepaid \<Longrightarrow> amount \<le> balance a"
    and w': "w' = log_balance i Charge (- amount) (balance a - amount) (snd (add_balance_where p i (- amount) w))" by blast
  have keys: "distinct (map acc_id (accounts w))" using wf by (simp add: wf_world_def)
  note own = add_balance_own_row(4) [OF keys a(1)]
  show "wf_world w'" using wf unfolding w' by (simp add: wf_world_def add_balance_where_def map_upd_where)
  show "ledger_ok fund w \<Longrightarrow> ledger_ok fund w'" unfolding w'
    by (rule ledger_ok_move) (use own a(2) in auto)
  show "prepaid_covered w \<Longrightarrow> prepaid_covered w'" unfolding w'
    using prepaid_covered_add [of w i p "- amount"] own a(3) by (fastforce simp: prepaid_covered_def)
  have "refund_entries j w' = refund_entries j (snd (add_balance_where p i (- amount) w))"
    unfolding w' by (rule refund_entries_other) simp
  then show "refund_entries j w' = refund_entries j w" by (simp add: refund_entries_def)
qed

interpretation ledger_bulk: bulk_inv "billing_inv fund" for fund
proof
  fix w w' acc i amount
  assume inv: "billing_inv fund w" and acc: "account_by_id w i = acc" and b: "bulk_charge acc i amount w = Some w'"
  from inv have wf: "wf_world w" by (simp add: billing_inv_def)
  note bk = bulk_charge_books [OF wf acc b]
  have "refunds_audited w' = refunds_audited w"
    using bk(4) bulk_charge_tables [OF b] by (intro audited_views) simp_all
  then show "billing_inv fund w'" using inv bk(1,2) by (simp add: billing_inv_def)
qed

interpretation cover_bulk: bulk_inv "\<lambda>w. wf_world w \<and> prepaid_covered w"
  by unfold_locales (blast intro: bulk_charge_books)

interpretation mark_bulk: bulk_inv "\<lambda>w. wf_world w \<and> marked i t amount w" for i t amount
proof
  fix w w' acc j x
  assume m: "wf_world w \<and> marked i t amount w" and a: "account_by_id w j = acc" "bulk_charge acc j x w = Some w'"
  show "wf_world w' \<and> marked i t amount w'"
    using m bulk_charge_books(1) [OF _ a] marked_view [OF conjunct1 [OF bulk_charge_tables [OF a(2)]]] by blast
qed

interpretation keys_bulk: bulk_inv wf_world
  by unfold_locales (rule bulk_charge_books(1))

text \<open>The ledger by itself, without the audit of refunds.\<close>

interpretation books: bulk_inv "\<lambda>w. wf_world w \<and> ledger_ok fund w" for fund
proof
  show "wf_world w' \<and> ledger_ok fund w'" if "wf_world w \<and> ledger_ok fund w" "quiet w w'" for w w'
    using that quiet_wf [of w w'] by (simp add: quiet_def ledger_ok_def)
  show "wf_world w \<and> ledger_ok fund w \<Longrightarrow> calculate_and_charge enum w i chan cc msg mnc ch False = (ans, w') \<Longrightarrow>
      wf_world w' \<and> ledger_ok fund w'" for enum w i chan cc msg mnc ch ans w'
    using charge_logged [of w enum i chan cc msg mnc ch ans w'] by blast
  show "wf_world w \<and> ledger_ok fund w \<Longrightarrow> refund_run op w = (res, w') \<Longrightarrow> wf_world w' \<and> ledger_ok fund w'"
    for op w res w'
    using refund.ledger [of w fund op] refund.wf [of w op] by simp
  show "wf_world w \<and> ledger_ok fund w \<Longrightarrow> switch_channel_for_unsent enum w b c = (out, w') \<Longrightarrow>
      wf_world w' \<and> ledger_ok fund w'" for enum w b c out w'
    using switch_money by blast
  show "wf_world w \<and> ledger_ok fund w \<Longrightarrow> fresh_log w r \<Longrightarrow>
      wf_world (w\<lparr>sms_logs := sms_logs w @ [r]\<rparr>) \<and> ledger_ok fund (w\<lparr>sms_logs := sms_logs w @ [r]\<rparr>)" for w r
    by (simp add: fresh_log_def wf_world_def ledger_ok_def)
  show "wf_world w \<and> ledger_ok fund w \<Longrightarrow> account_by_id w i = acc \<Longrightarrow> bulk_charge acc i amount w = Some w' \<Longrightarrow>
      wf_world w' \<and> ledger_ok fund w'" for w i acc amount w'
    using bulk_charge_books(1,2) by blast
qed simp

lemma keys_paid: "paid g g' \<Longrightarrow> gateway_ok g \<Longrightarrow> gateway_ok g'"
  using keys_bulk.paid by (simp add: gateway_ok_ids)

lemma refund_chunk_books:
  assumes "wf_world w" and "0 \<le> amount"
  shows "wf_world (refund_chunk i amount w)" and "ledger_ok fund w \<Longrightarrow> ledger_ok fund (refund_chunk i amount w)"
    and "prepaid_covered w \<Longrightarrow> prepaid_covered (refund_chunk i amount w)"
    and "sms_logs (refund_chunk i amount w) = sms_logs w"
proof -
  show "wf_world (refund_chunk i amount w)"
    using assms(1) by (simp add: refund_chunk_def Let_def wf_world_def add_balance_where_def map_upd_where)
  show "ledger_ok fund w \<Longrightarrow> ledger_ok fund (refund_chunk i amount w)"
    unfolding refund_chunk_def Let_def by (rule ledger_ok_move) simp_all
  show "prepaid_covered w \<Longrightarrow> prepaid_covered (refund_chunk i amount w)"
    using prepaid_covered_add [of w i "\<lambda>_. True" amount] assms(2)
    by (simp add: refund_chunk_def Let_def prepaid_covered_def)
  show "sms_logs (refund_chunk i amount w) = sms_logs w" by (simp add: refund_chunk_def Let_def)
qed

lemma chunk_books:
  assumes "gateway_ok (bs_gw s)" and "ledger_ok fund (bs_world s)" and "prepaid_covered (bs_world s)"
    and "do_process_chunk env job s = (a, s')"
  shows "gateway_ok (bs_gw s') \<and> ledger_ok fund (bs_world s') \<and> prepaid_covered (bs_world s')"
proof -
  have wf: "wf_world (bs_world s)" using assms(1) by (simp add: gateway_ok_ids)
  have keeps: "gateway_ok g \<and> ledger_ok fund (gw_world g) \<and> prepaid_covered (gw_world g)" if "paid (bs_gw s) g" for g
    using books.paid [OF that, of fund] cover_bulk.paid [OF that] assms(1-3) wf by blast
  show ?thesis
  proof (cases "gives_back (run_chunk env job s)")
    case False
    then show ?thesis using keeps [OF chunk_paid [OF False]] assms(4) by simp
  next
    case True
    let ?r = "run_chunk env job s"
    have k: "gateway_ok (bs_gw (ck_sys ?r)) \<and> ledger_ok fund (bs_world (ck_sys ?r)) \<and> prepaid_covered (bs_world (ck_sys ?r))"
      by (rule keeps [OF run_chunk_paid])
    obtain f where "ck_fault ?r = Some f" "0 \<le> ck_charged ?r" using True by (auto simp: gives_back_def)
    moreover have "bs_gw s' = bs_gw (snd (do_process_chunk env job s))" using assms(4) by simp
    ultimately show ?thesis
      using True k keeps [OF rtranclp.rtrancl_refl] refund_chunk_books [where w = "bs_world (ck_sys ?r)" and amount = "ck_charged ?r"]
      by (simp add: chunk_gateway Let_def gateway_ok_ids ids_below_def)
  qed
qed

end
