(* ===== verification/BulkProps.thy ===== *)
theory BulkProps
  imports BulkMoney
begin

text \<open>
  What a chunk costs: the balance and the bill of an account (\<open>worth\<close>), and how each stage of a chunk moves
  them. A chunk takes exactly the prices of the messages it records.
\<close>

section \<open>Balance and bill\<close>

definition row_price :: "sms_log \<Rightarrow> money" where
  "row_price r = (case selling_price r of Some p \<Rightarrow> p | None \<Rightarrow> 0)"

text \<open>What the messages of an account cost, and the balance it would have without them.\<close>

definition billed :: "int \<Rightarrow> world \<Rightarrow> money" where
  "billed i w = sum_list (map (\<lambda>r. if log_account_id r = i then row_price r else 0) (sms_logs w))"

definition worth :: "int \<Rightarrow> world \<Rightarrow> money option" where
  "worth i w = map_option (\<lambda>b. b + billed i w) (balance_of w i)"

definition conserves :: "world \<Rightarrow> world \<Rightarrow> bool" where
  "conserves w w' \<longleftrightarrow> (\<forall>i. worth i w' = worth i w)"

text \<open>Balances stay, the bill of one account grows.\<close>

definition bills :: "int \<Rightarrow> money \<Rightarrow> world \<Rightarrow> world \<Rightarrow> bool" where
  "bills a x w w' \<longleftrightarrow> (\<forall>i. balance_of w' i = balance_of w i \<and> billed i w' = billed i w + (if i = a then x else 0))"

lemma conserves_refl [simp]: "conserves w w"
  by (simp add: conserves_def)

lemma conserves_trans: "conserves u v \<Longrightarrow> conserves v w \<Longrightarrow> conserves u w"
  by (simp add: conserves_def)

lemma bills_zero: "bills a 0 w w' \<Longrightarrow> conserves w w'"
  by (simp add: bills_def conserves_def worth_def)

lemma bills_trans: "bills a x u v \<Longrightarrow> bills a y v w \<Longrightarrow> bills a (x + y) u w"
  by (simp add: bills_def)

definition money_view :: "world \<Rightarrow> (int \<times> money option) list" where
  "money_view w = map (\<lambda>r. (log_account_id r, selling_price r)) (sms_logs w)"

lemma money_view_bills:
  assumes "accounts w' = accounts w" and "money_view w' = money_view w"
  shows "bills a 0 w w'"
proof -
  have "billed i u = sum_list (map (\<lambda>(x, p). if x = i then (case p of Some p \<Rightarrow> p | None \<Rightarrow> 0) else 0) (money_view u))" for i u
    unfolding billed_def money_view_def row_price_def by (simp add: comp_def)
  then show ?thesis using assms by (simp add: bills_def balance_of_def account_by_id_def)
qed

lemma same_tables_bills: "same_tables w w' \<Longrightarrow> bills a 0 w w'"
  by (rule money_view_bills) (simp_all add: same_tables_def money_view_def)

lemma money_view_upd:
  assumes "\<And>r. log_account_id (f r) = log_account_id r \<and> selling_price (f r) = selling_price r"
  shows "money_view (w\<lparr>sms_logs := upd_where p f (sms_logs w)\<rparr>) = money_view w"
  using assms by (simp add: money_view_def upd_where_def)

lemma refresh_bills: "bills a 0 w (snd (update_batch_progress rnd w b))"
proof (cases "b = 0 \<or> batch_by_id w b = None")
  case True
  then show ?thesis by (intro money_view_bills) (auto simp: update_batch_progress_def Let_def)
next
  case False
  then obtain x where "b \<noteq> 0" "batch_by_id w b = Some x" by auto
  moreover have "money_view (expire_pending rnd b u) = money_view u" for u
    unfolding expire_pending_def Let_def by (rule money_view_upd) simp
  moreover have "money_view (save_batch b f u) = money_view u" "accounts (save_batch b f u) = accounts u" for f u
    by (simp_all add: money_view_def save_batch_def)
  ultimately show ?thesis by (intro money_view_bills) (simp_all add: refresh_cases)
qed

lemma rows_bills:
  assumes "\<And>v n. v \<in> set vs \<Longrightarrow> log_account_id (mk v n) = a \<and> row_price (mk v n) = sell v"
  shows "bills a (sum_list (map sell vs)) (gw_world g) (gw_world (add_rows (map mk vs) g))"
  using assms
proof (induction vs arbitrary: g)
  case Nil
  then show ?case by (simp add: bills_def add_rows_def number_rows_def)
next
  case (Cons v vs)
  have "bills a (sell v) (gw_world g) (gw_world (add_rows [mk v] g))"
    using Cons.prems [of v] by (simp add: bills_def add_rows_def number_rows_def billed_def balance_of_def account_by_id_def)
  moreover have "bills a (sum_list (map sell vs)) (gw_world (add_rows [mk v] g)) (gw_world (add_rows (map mk vs) (add_rows [mk v] g)))"
    using Cons.prems by (intro Cons.IH) simp
  ultimately show ?case using bills_trans by (fastforce simp: add_rows_world)
qed

lemma replace_links_bills: "bills a 0 (bs_world s) (bs_world (replace_track_urls_for_logs env rows s))"
proof (rule money_view_bills [OF replace_links_frame(2)])
  show "money_view (bs_world (replace_track_urls_for_logs env rows s)) = money_view (bs_world s)"
    unfolding money_view_def by (rule map_textless [OF replace_links_frame(7)]) simp
qed

lemma bulk_charge_moves:
  assumes "wf_world w" and "account_by_id w i = acc" and "bulk_charge acc i amount w = Some w'"
  shows "balance_of w' j = (if j = i then map_option (\<lambda>b. b - amount) (balance_of w j) else balance_of w j)"
    and "billed j w' = billed j w"
proof -
  show "billed j w' = billed j w" using bulk_charge_tables [OF assms(3)] by (simp add: billed_def)
  show "balance_of w' j = (if j = i then map_option (\<lambda>b. b - amount) (balance_of w j) else balance_of w j)"
  proof (rule bulk_charge_cases [OF assms])
    fix a p assume a: "account_by_id w i = Some a" "p a"
      and w': "w' = log_balance i Charge (- amount) (balance a - amount) (snd (add_balance_where p i (- amount) w))"
    have keys: "distinct (map acc_id (accounts w))" using assms(1) by (simp add: wf_world_def)
    let ?u = "snd (add_balance_where p i (- amount) w)"
    have "balance_of w' j = balance_of ?u j" unfolding w' by (simp add: balance_of_def account_by_id_def)
    moreover have "balance_of ?u i = Some (balance a - amount)"
      using add_balance_own_row(2) [where p = p and d = "- amount", OF keys a] by simp
    moreover have "balance_of ?u j = balance_of w j" if "j \<noteq> i"
      using add_balance_own_row(3) [OF keys a(1) that] by (simp add: balance_of_def)
    ultimately show ?thesis using a(1) by (simp add: balance_of_def)
  qed
qed

lemma bulk_charge_settles:
  assumes "wf_world w" and "account_by_id w i = acc" and "bulk_charge acc i amount w = Some w'"
    and "bills i amount w' w''"
  shows "conserves w w''"
proof -
  have "worth j w'' = worth j w" for j
    using bulk_charge_moves [OF assms(1-3), of j] assms(4)
    by (cases "j = i"; cases "balance_of w j") (simp_all add: bills_def worth_def)
  then show ?thesis by (simp add: conserves_def)
qed

section \<open>What the checks let through\<close>

definition holds_all :: "('v \<Rightarrow> bool) \<Rightarrow> ('k \<rightharpoonup> 'v) \<Rightarrow> bool" where
  "holds_all Q m \<longleftrightarrow> (\<forall>v \<in> ran m. Q v)"

lemma holds_all_upd: "holds_all Q m \<Longrightarrow> Q v \<Longrightarrow> holds_all Q (m(k \<mapsto> v))"
  by (auto simp: holds_all_def ran_def)

lemma holds_all_at: "holds_all Q m \<Longrightarrow> m k = Some v \<Longrightarrow> Q v"
  by (auto simp: holds_all_def ran_def)

lemma holds_all_empty [simp]: "holds_all Q Map.empty"
  by (simp add: holds_all_def)

definition prices_nonneg :: "world \<Rightarrow> bool" where
  "prices_nonneg w \<longleftrightarrow> list_all (\<lambda>p. 0 \<le> price_per_sms p) (country_pricings w)
     \<and> list_all (\<lambda>p. 0 \<le> ap_price p) (account_pricings w)
     \<and> holds_all (\<lambda>p. 0 \<le> pi_price p) (price_cache w)"

lemma pricing_exact_in: "pricing_exact w chan cc = Some p \<Longrightarrow> p \<in> set (country_pricings w)"
proof -
  have "set (filter q rows) \<subseteq> set rows" for q and rows :: "country_pricing list" by auto
  moreover have "latest_pricing rows = Some p \<Longrightarrow> p \<in> set rows" for rows
    using max_by_from_in [of effective_date] by (cases rows) (auto simp: latest_pricing_def)
  ultimately show "pricing_exact w chan cc = Some p \<Longrightarrow> ?thesis"
    unfolding pricing_exact_def by blast
qed

lemma price_db_nonneg:
  assumes "prices_nonneg w" and "price_db w chan cc i = Inr (Some p)"
  shows "0 \<le> pi_price p"
proof -
  have c: "0 \<le> pi_price q" if "country_price_info w chan cc = Some q" for q
    using that assms(1) pricing_exact_in [of w chan]
    by (fastforce simp: country_price_info_def prices_nonneg_def list_all_iff split: option.splits)
  have u: "0 \<le> pi_price q" if "unit_price_info w i = Some q" for q
    using that by (auto simp: unit_price_info_def split: option.splits if_splits)
  have a: "0 \<le> ap_price q" if "one_or_none (account_pricing_rows w j cc) = OneRow q" for j q
  proof -
    have "q \<in> set (account_pricing_rows w j cc)"
      using that by (cases "account_pricing_rows w j cc"; cases "tl (account_pricing_rows w j cc)") (auto simp: one_or_none_simps)
    then show ?thesis using assms(1) by (auto simp: account_pricing_rows_def prices_nonneg_def list_all_iff)
  qed
  show ?thesis using assms(2) c u a
    by (auto simp: price_db_def split: option.splits fetched.splits)
qed

lemma get_price_nonneg:
  assumes "prices_nonneg w" and "get_price w chan cc mnc i = (r, w')"
  shows "prices_nonneg w' \<and> (\<forall>p. r = Inr (Some p) \<longrightarrow> 0 \<le> pi_price p)"
proof (cases "price_cache w (price_key chan cc mnc i)")
  case (Some p)
  have "0 \<le> pi_price p"
    using assms(1) holds_all_at [where Q = "\<lambda>p. 0 \<le> pi_price p" and m = "price_cache w", OF _ Some]
    by (simp add: prices_nonneg_def)
  then show ?thesis using assms Some by (auto simp: get_price_def)
next
  case None
  have "prices_nonneg (w\<lparr>price_cache := (price_cache w)(price_key chan cc mnc i \<mapsto> p)\<rparr>)" if "0 \<le> pi_price p" for p
    using assms(1) holds_all_upd that by (fastforce simp: prices_nonneg_def)
  then show ?thesis using assms None price_db_nonneg [OF assms(1)]
    by (auto simp: get_price_def Let_def split: option.splits sum.splits)
qed

lemma unit_price_nonneg:
  assumes "prices_nonneg w" and "unit_price_of env acc ch cc w = (r, w')"
  shows "prices_nonneg w' \<and> (\<forall>p. r = Inr p \<longrightarrow> 0 \<le> up_sell p)"
proof -
  obtain x w1 where g: "get_price w (ch_id ch) cc None (Some acc) = (x, w1)" by fastforce
  obtain y w2 where c: "resolve_base_cost_per_sms (ce_enum env) w1 (ch_id ch) cc (Some ch) = (y, w2)" by fastforce
  have "country_pricings w2 = country_pricings w1 \<and> account_pricings w2 = account_pricings w1 \<and> price_cache w2 = price_cache w1"
    using c by (auto simp: resolve_base_cost_per_sms_def split: option.splits sum.splits)
  then have "prices_nonneg w2" using get_price_nonneg [OF assms(1) g] by (simp add: prices_nonneg_def)
  then show ?thesis using assms(2) g c get_price_nonneg [OF assms(1) g]
    by (auto simp: unit_price_of_def split: sum.splits option.splits)
qed

lemma select_channel_caches:
  "select_channel rnd w cc pref st acc = (r, w') \<Longrightarrow> price_cache w' = price_cache w"
  by (auto simp: select_channel_def get_available_channels_def Let_def split: option.splits if_splits prod.splits)

definition check_ok :: "check_state \<Rightarrow> bool" where
  "check_ok st \<longleftrightarrow> prices_nonneg (cs_world st)
     \<and> holds_all (\<lambda>ch. ch \<in> set (channels (cs_world st))) (cs_routes st)
     \<and> holds_all (\<lambda>p. 0 \<le> up_sell p) (cs_prices st)"

lemma price_for_ok:
  assumes "check_ok st" and "price_for env acc ch cc st = (r, st')"
  shows "check_ok st' \<and> (\<forall>p. r = Inr p \<longrightarrow> 0 \<le> up_sell p)"
proof (cases "cs_prices st (ch_id ch, cc)")
  case (Some p)
  then show ?thesis using assms holds_all_at [of _ "cs_prices st"] by (auto simp: price_for_def check_ok_def)
next
  case None
  obtain x w where u: "unit_price_of env acc ch cc (cs_world st) = (x, w)" by fastforce
  have "channels w = channels (cs_world st)" using unit_price_same [OF u] by (simp add: same_tables_def)
  then show ?thesis using assms None u unit_price_nonneg [OF _ u]
    by (auto simp: price_for_def check_ok_def intro: holds_all_upd split: sum.splits)
qed

lemma route_of_ok:
  assumes "check_ok st" and "route_of env job i cc st = (r, st')"
  shows "check_ok st' \<and> (\<forall>ch. r = Inr ch \<longrightarrow> ch \<in> set (channels (cs_world st)))"
proof (cases "cs_routes st cc")
  case (Some ch)
  then show ?thesis using assms holds_all_at [of _ "cs_routes st"] by (auto simp: route_of_def check_ok_def)
next
  case None
  obtain x w where u: "select_channel (ce_draw env i) (cs_world st) cc (cj_channel job) ByPriority (Some (cj_account job)) = (x, w)"
    by fastforce
  have "same_tables (cs_world st) w" by (rule select_channel_same [OF u])
  then have t: "channels w = channels (cs_world st)" "prices_nonneg w = prices_nonneg (cs_world st)"
    using select_channel_caches [OF u] by (simp_all add: same_tables_def prices_nonneg_def)
  moreover have "ch \<in> set (channels (cs_world st))" if "x = Inr ch" for ch
    using select_channel_sound [OF u [unfolded that]] by blast
  ultimately show ?thesis using assms None u
    by (auto simp: route_of_def check_ok_def intro: holds_all_upd split: sum.splits)
qed

text \<open>Items go to channels of the table, at prices that are not negative.\<close>

definition item_ok :: "world \<Rightarrow> bulk_item \<Rightarrow> bool" where
  "item_ok w v \<longleftrightarrow> bi_channel v \<in> set (channels w) \<and> 0 \<le> up_sell (bi_price v)"

lemma precheck_one_ok:
  assumes "check_ok st" and "precheck_one env job acc black i raw st = (r, st')"
  shows "check_ok st' \<and> (\<forall>v. r = Inr v \<longrightarrow> item_ok (cs_world st) v)"
proof (cases "check_number env acc black raw")
  case (Inl f)
  then show ?thesis using assms by (auto simp: precheck_one_def Let_def)
next
  case (Inr info)
  let ?cc = "ph_country_code info"
  obtain c st1 where rt: "route_of env job i ?cc st = (c, st1)" by fastforce
  note r1 = route_of_ok [OF assms(1) rt]
  show ?thesis
  proof (cases c)
    case (Inl e)
    then show ?thesis using assms Inr rt r1 by (auto simp: precheck_one_def Let_def)
  next
    case (Inr ch)
    obtain p st2 where pr: "price_for env (cj_account job) ch ?cc st1 = (p, st2)" by fastforce
    note r2 = price_for_ok [OF conjunct1 [OF r1] pr]
    show ?thesis using assms \<open>check_number env acc black raw = Inr info\<close> rt Inr r1 r2 pr
      by (auto simp: precheck_one_def Let_def item_ok_def split: sum.splits option.splits)
  qed
qed

lemma precheck_ok:
  "check_ok st \<Longrightarrow> precheck env job acc known black i ps st = (n, fs, vs, st') \<Longrightarrow>
     check_ok st' \<and> list_all (item_ok (cs_world st)) vs \<and> n + length fs + length vs = length ps
       \<and> n = length (filter (\<lambda>p. p \<in> set known) ps)"
proof (induction ps arbitrary: i st n fs vs st')
  case (Cons p ps)
  show ?case
  proof (cases "p \<in> set known")
    case True
    obtain m gs us st1 where r: "precheck env job acc known black (Suc i) ps st = (m, gs, us, st1)" by (metis prod_cases4)
    show ?thesis using Cons.prems True r Cons.IH [OF Cons.prems(1) r] by auto
  next
    case False
    obtain x st1 where o: "precheck_one env job acc black i p st = (x, st1)" by fastforce
    obtain m gs us st2 where r: "precheck env job acc known black (Suc i) ps st1 = (m, gs, us, st2)" by (metis prod_cases4)
    note o1 = precheck_one_ok [OF Cons.prems(1) o]
    have "channels (cs_world st1) = channels (cs_world st)"
      using precheck_one_cases [OF o] by (simp add: same_tables_def)
    then have "item_ok (cs_world st1) = item_ok (cs_world st)" by (simp add: item_ok_def fun_eq_iff)
    then show ?thesis using Cons.prems(2) False o r o1 Cons.IH [OF conjunct1 [OF o1] r]
      by (auto split: sum.splits)
  qed
qed simp

lemma price_items_ok:
  "check_ok st \<Longrightarrow> price_items env acc vs st = (Inr us, st') \<Longrightarrow>
     list_all (\<lambda>v. 0 \<le> up_sell (bi_price v)) us \<and> map bi_channel us = map bi_channel vs \<and> length us = length vs"
proof (induction vs arbitrary: st us st')
  case (Cons v vs)
  obtain x st1 where o: "price_for env acc (bi_channel v) (ph_country_code (bi_info v)) st = (x, st1)" by fastforce
  obtain y st2 where q: "price_items env acc vs st1 = (y, st2)" by fastforce
  note o1 = price_for_ok [OF Cons.prems(1) o]
  show ?case
  proof (cases y)
    case (Inl e)
    then show ?thesis using Cons.prems(2) o q by (auto split: sum.splits)
  next
    case (Inr ws)
    then show ?thesis using Cons.prems(2) o q o1 Cons.IH [OF conjunct1 [OF o1]] by (auto split: sum.splits)
  qed
qed simp

section \<open>Every stage settles\<close>

definition nodeless :: "'n chunk_env \<Rightarrow> world \<Rightarrow> bool" where
  "nodeless env w \<longleftrightarrow> list_all (\<lambda>c. \<not> node_channel env c) (channels w)"

lemma item_row_money: "log_account_id (item_row env job g v n) = cj_account job \<and> row_price (item_row env job g v n) = item_sell v"
  by (simp add: item_row_def Let_def row_price_def new_sms_log_def)

lemma send_http_world:
  assumes "send_http env ch mids s = (a, b, s')" and "\<not> node_channel env ch"
  shows "bs_world s' = bs_world s"
proof -
  obtain x y s1 where q: "queue_sms_bulk env mids s = (x, y, s1)" by (metis prod_cases3)
  then show ?thesis using assms queue_bulk_frame [OF q] by (auto simp: send_http_def split: if_splits)
qed

lemma write_slice_bills:
  assumes "ck_fault (write_slice env job bst k vs r) = None" and "\<not> node_channel env (bi_channel (last vs))"
  shows "bills (cj_account job) (sell_total vs) (bs_world (ck_sys r)) (bs_world (ck_sys (write_slice env job bst k vs r)))
    \<and> ck_fault r = None"
proof (cases rule: write_slice_cases [of env k job bst vs r])
  case (lost code)
  then show ?thesis using assms(1) by simp
next
  case (written sa sb s2 s3 a b c d)
  have "bills (cj_account job) (sell_total vs) (bs_world (ck_sys r)) (bs_world sa)"
    unfolding written(2) sell_total_def using rows_bills [OF item_row_money] by simp
  moreover have "bills (cj_account job) 0 (bs_world sa) (bs_world sb)" unfolding written(3) by (rule replace_links_bills)
  moreover have "bs_world s3 = bs_world sb"
    using send_http_world [OF written(5) assms(2)] publish_payloads_frame [OF written(4)] by simp
  ultimately have "bills (cj_account job) (sell_total vs) (bs_world (ck_sys r)) (bs_world s3)"
    using bills_trans by fastforce
  then show ?thesis using assms(1) unfolding written(6) by simp
qed

lemma write_slice_lost:
  assumes "ck_fault (write_slice env job bst k vs r) \<noteq> None" and "ck_fault r = None"
  shows "bs_world (ck_sys (write_slice env job bst k vs r)) = bs_world (ck_sys r)
    \<and> ck_ok (write_slice env job bst k vs r) = ck_ok r"
  using assms by (cases rule: write_slice_cases [of env k job bst vs r]) simp_all

lemma write_slice_charged [simp]: "ck_charged (write_slice env job bst k vs r) = ck_charged r"
  by (cases rule: write_slice_cases [of env k job bst vs r]) simp_all

lemma write_slices_charged [simp]: "ck_charged (write_slices env job bst k parts r) = ck_charged r"
  by (induction parts arbitrary: k r) (simp_all add: Let_def)

lemma write_slices_bills:
  "ck_fault (write_slices env job bst k parts r) = None \<Longrightarrow>
     (\<And>vs. vs \<in> set parts \<Longrightarrow> \<not> node_channel env (bi_channel (last vs))) \<Longrightarrow>
   bills (cj_account job) (sell_total (concat parts)) (bs_world (ck_sys r)) (bs_world (ck_sys (write_slices env job bst k parts r)))"
proof (induction parts arbitrary: k r)
  case Nil
  then show ?case by (simp add: bills_def sell_total_def)
next
  case (Cons vs rest)
  let ?r = "write_slice env job bst k vs r"
  show ?case
  proof (cases "ck_fault ?r")
    case None
    have "bills (cj_account job) (sell_total vs) (bs_world (ck_sys r)) (bs_world (ck_sys ?r))"
      using write_slice_bills [OF None] Cons.prems(2) by simp
    moreover have "bills (cj_account job) (sell_total (concat rest)) (bs_world (ck_sys ?r))
        (bs_world (ck_sys (write_slices env job bst (Suc k) rest ?r)))"
      using Cons.prems None by (intro Cons.IH) simp_all
    ultimately show ?thesis using bills_trans None by (fastforce simp: sell_total_def)
  next
    case (Some f)
    then show ?thesis using Cons.prems(1) by simp
  qed
qed

lemma concat_slices: "0 < n \<Longrightarrow> concat (slices n xs) = xs"
proof (induction n xs rule: slices.induct)
  case (1 n xs)
  then show ?case by (subst slices.simps) simp
qed

lemma slices_sub: "ys \<in> set (slices n xs) \<Longrightarrow> set ys \<subseteq> set xs \<and> ys \<noteq> []"
proof (induction n xs rule: slices.induct)
  case (1 n xs)
  from "1.prems" have c: "\<not> (n = 0 \<or> xs = [])" by (subst (asm) slices.simps) (simp split: if_splits)
  with "1.prems" have "ys = take n xs \<or> ys \<in> set (slices n (drop n xs))" by (subst (asm) slices.simps) simp
  then show ?case
  proof
    assume "ys = take n xs"
    then show ?thesis using c by (auto dest: in_set_takeD)
  next
    assume "ys \<in> set (slices n (drop n xs))"
    then show ?thesis using "1.IH" c by (blast dest: in_set_dropD)
  qed
qed

lemma slices_one: "xs \<noteq> [] \<Longrightarrow> length xs \<le> n \<Longrightarrow> slices n xs = [xs]"
  by (cases n; subst slices.simps, subst slices.simps) auto

text \<open>The slices of items go to no node.\<close>

lemma slices_nodeless:
  assumes "nodeless env w" and "list_all (item_ok w) vs" and "ys \<in> set (slices n vs)"
  shows "\<not> node_channel env (bi_channel (last ys))"
proof -
  have "last ys \<in> set vs" using slices_sub [OF assms(3)] by (auto intro: last_in_set)
  then show ?thesis using assms(1,2) by (simp add: nodeless_def item_ok_def list_all_iff)
qed

lemma sell_total_nonneg: "list_all (\<lambda>v. 0 \<le> up_sell (bi_price v)) vs \<Longrightarrow> 0 \<le> sell_total vs"
  unfolding sell_total_def by (rule sum_list_nonneg) (auto simp: item_sell_def list_all_iff)

section \<open>Charging one by one settles\<close>

lemma dispatch_group_bills:
  "bills a 0 (bs_world (ck_sys r)) (bs_world (ck_sys (dispatch_group env bst ch grp r)))
   \<and> ck_fault (dispatch_group env bst ch grp r) = ck_fault r \<and> ck_charged (dispatch_group env bst ch grp r) = ck_charged r"
proof -
  define sa where "sa = replace_track_urls_for_logs env (filter (\<lambda>x. message_id x \<in> set grp) (sms_logs (bs_world (ck_sys r)))) (ck_sys r)"
  obtain x y s2 where p: "publish_payloads env (map (\<lambda>x. smpp_payload_of x bst)
      (List.map_filter (\<lambda>m. find (\<lambda>x. message_id x = m) (sms_logs (bs_world sa))) grp)) sa = (x, y, s2)"
    by (metis prod_cases3)
  obtain oks bads s3 where q: "queue_sms_bulk env grp (ck_sys r) = (oks, bads, s3)" by (metis prod_cases3)
  have "bills a 0 (bs_world (ck_sys r)) (bs_world sa)" unfolding sa_def by (rule replace_links_bills)
  then show ?thesis using p q publish_payloads_frame [OF p] queue_bulk_frame [OF q]
    by (auto simp: dispatch_group_def Let_def sa_def [symmetric] bills_def)
qed

lemma charge_settles:
  assumes wf: "wf_world w" and c: "calculate_and_charge enum w i chan cc msg mnc ch False = (Inr (Charged cr), w')"
    and b: "bills i (total_cost cr) w' w''"
  shows "conserves w w''"
proof -
  from charge_moves [OF wf c] obtain a where a: "account_by_id w i = Some a"
    "balance_of w' i = Some (balance a - total_cost cr)" "\<And>j. j \<noteq> i \<Longrightarrow> account_by_id w' j = account_by_id w j" by blast
  from wf c have logs: "sms_logs w' = sms_logs w"
    by (cases rule: charge_cases) (auto simp: same_tables_def Let_def)
  have "balance_of w' j = balance_of w j" if "j \<noteq> i" for j using a(3) [OF that] by (simp add: balance_of_def)
  moreover have "balance_of w i = Some (balance a)" using a(1) by (simp add: balance_of_def)
  moreover have "billed j w' = billed j w" for j using logs by (simp add: billed_def)
  ultimately show ?thesis using b a(2) by (auto simp: bills_def conserves_def worth_def)
qed

lemma charge_refused_same:
  assumes "wf_world w" and "calculate_and_charge enum w i chan cc msg mnc ch skip = (ans, w')"
    and "\<forall>r. ans \<noteq> Inr (Charged r)"
  shows "same_tables w w'"
  using assms(1,2) by (cases rule: charge_cases) (use assms(3) in auto)

lemma one_row_money:
  "log_account_id (one_row env job g v cr n) = cj_account job \<and> row_price (one_row env job g v cr n) = total_cost cr"
  by (simp add: one_row_def Let_def row_price_def new_sms_log_def)

lemma charge_each_settles:
  "gateway_ok (bs_gw (ck_sys r)) \<Longrightarrow> charge_each env job bst vs lc grp r = (rest, lc', grp', r') \<Longrightarrow>
     conserves (bs_world (ck_sys r)) (bs_world (ck_sys r')) \<and> ck_fault r' = ck_fault r \<and> ck_charged r' = ck_charged r"
proof (induction vs arbitrary: lc grp r)
  case (Cons v vs)
  let ?ch = "bi_channel v" and ?g = "bs_gw (ck_sys r)"
  have wf: "wf_world (gw_world ?g)" using Cons.prems(1) by (simp add: gateway_ok_ids)
  obtain c w where c: "calculate_and_charge (ce_enum env) (gw_world ?g) (cj_account job) (ch_id ?ch)
      (ph_country_code (bi_info v)) (bi_text v) None (Some ?ch) False = (c, w)" by fastforce
  have step: "paid ?g (?g\<lparr>gw_world := w\<rparr>)" by (intro r_into_rtranclp paid_step.charged [OF c])
  show ?case
  proof (cases "\<exists>cr. c = Inr (Charged cr)")
    case True
    then obtain cr where cr: "c = Inr (Charged cr)" by blast
    let ?mid = "new_id env (next_log_id ?g)" and ?virtual = "ch_protocol ?ch = VIRTUAL"
    let ?next = "add_rows [one_row env job (?g\<lparr>gw_world := w\<rparr>) v cr] (?g\<lparr>gw_world := w\<rparr>)"
    define ra where "ra = r\<lparr>ck_vchan := (if ?virtual then Some (ch_id ?ch) else ck_vchan r),
                 ck_vids := (if ?virtual then ck_vids r @ [?mid] else ck_vids r),
                 ck_sys := (ck_sys r)\<lparr>bs_gw := ?next\<rparr>\<rparr>"
    define rb where "rb = (if length (grp @ [?mid]) \<ge> GROUP then dispatch_group env bst ?ch (grp @ [?mid]) ra else ra)"
    have rest: "charge_each env job bst vs (Some ?ch) (if length (grp @ [?mid]) \<ge> GROUP then [] else grp @ [?mid]) rb = (rest, lc', grp', r')"
      using Cons.prems c cr by (simp add: Let_def ra_def rb_def split: if_splits)
    have "bills (cj_account job) (total_cost cr) w (gw_world ?next)"
      using rows_bills [of "[v]" "\<lambda>v. one_row env job (?g\<lparr>gw_world := w\<rparr>) v cr" "cj_account job" "\<lambda>_. total_cost cr" "?g\<lparr>gw_world := w\<rparr>",
          OF one_row_money] by simp
    then have "bills (cj_account job) (total_cost cr) w (bs_world (ck_sys ra))" by (simp add: ra_def)
    then have "bills (cj_account job) (total_cost cr) w (bs_world (ck_sys rb))"
      using bills_trans [of "cj_account job" "total_cost cr" w "bs_world (ck_sys ra)" 0]
        conjunct1 [OF dispatch_group_bills [of "cj_account job" ra env bst ?ch "grp @ [?mid]"]] by (simp add: rb_def)
    then have one: "conserves (gw_world ?g) (bs_world (ck_sys rb))" using charge_settles [OF wf c [unfolded cr]] by blast
    have "paid ?g (bs_gw (ck_sys ra))" unfolding ra_def using rtranclp_trans [OF step rows_step [OF one_row_plain]] by simp
    then have "paid ?g (bs_gw (ck_sys rb))"
      using rtranclp_trans [of paid_step ?g "bs_gw (ck_sys ra)"] by (auto simp: rb_def dispatch_group_paid)
    then have ok: "gateway_ok (bs_gw (ck_sys rb))" by (rule keys_paid [OF _ Cons.prems(1)])
    have "ck_fault rb = ck_fault r" "ck_charged rb = ck_charged r"
      by (auto simp: rb_def ra_def dispatch_group_bills)
    then show ?thesis using conserves_trans [OF one] Cons.IH [OF ok rest] by simp
  next
    case False
    have same: "same_tables (gw_world ?g) w" by (rule charge_refused_same [OF wf c]) (use False in blast)
    have con: "conserves (gw_world ?g) w" using bills_zero [OF same_tables_bills [OF same]] .
    have ok: "gateway_ok (?g\<lparr>gw_world := w\<rparr>)" using keys_paid [OF step Cons.prems(1)] .
    have IH: "charge_each env job bst vs (Some ?ch) grp (r\<lparr>ck_bad := ck_bad r + 1, ck_sys := with_world w (ck_sys r)\<rparr>)
        = (rest, lc', grp', r') \<Longrightarrow> ?thesis"
      using conserves_trans [OF con] Cons.IH [of "r\<lparr>ck_bad := ck_bad r + 1, ck_sys := with_world w (ck_sys r)\<rparr>"] ok by simp
    show ?thesis
    proof (cases c)
      case (Inl e)
      then show ?thesis using Cons.prems c con IH by (cases e) (auto simp: Let_def)
    next
      case (Inr x)
      then show ?thesis using Cons.prems c False IH by (cases x) (auto simp: Let_def)
    qed
  qed
qed simp

lemma charge_singly_settles:
  assumes "gateway_ok (bs_gw (ck_sys r))"
  shows "conserves (bs_world (ck_sys r)) (bs_world (ck_sys (charge_singly env job bst vs r)))
    \<and> ck_fault (charge_singly env job bst vs r) = ck_fault r"
proof -
  obtain rest lc grp ra where c: "charge_each env job bst vs None [] r = (rest, lc, grp, ra)" by (metis prod_cases4)
  define rb where "rb = (case lc of None \<Rightarrow> ra | Some ch \<Rightarrow> if grp = [] then ra else dispatch_group env bst ch grp ra)"
  define g where "g = add_rows (map (unpaid_row env job (now (bs_world (ck_sys rb)))) rest) (bs_gw (ck_sys rb))"
  have "conserves (bs_world (ck_sys r)) (bs_world (ck_sys ra))" using charge_each_settles [OF assms c] by blast
  moreover have "bills a 0 (bs_world (ck_sys ra)) (bs_world (ck_sys rb))" for a
    using conjunct1 [OF dispatch_group_bills [of a ra env bst _ grp]] bills_def [of a 0 "bs_world (ck_sys ra)"]
    by (cases lc) (simp_all add: rb_def)
  moreover have "row_price (unpaid_row env job t v n) = 0 \<and> log_account_id (unpaid_row env job t v n) = cj_account job" for t v n
    by (simp add: unpaid_row_def row_price_def new_sms_log_def)
  then have "bills (cj_account job) 0 (bs_world (ck_sys rb)) (gw_world g)"
    using rows_bills [of rest "unpaid_row env job (now (bs_world (ck_sys rb)))" "cj_account job" "\<lambda>_. 0" "bs_gw (ck_sys rb)"]
    by (simp add: g_def)
  ultimately have "conserves (bs_world (ck_sys r)) (gw_world g)" by (meson bills_zero conserves_trans)
  moreover have "ck_fault rb = ck_fault r"
    using charge_each_settles [OF assms c] by (auto simp: rb_def dispatch_group_bills split: option.split)
  ultimately show ?thesis by (simp add: charge_singly_def c Let_def rb_def [symmetric] g_def [symmetric])
qed

section \<open>The whole chunk\<close>

lemma balance_after_refund:
  "balance_of (refund_chunk i amount w) j = (if j = i then map_option (\<lambda>b. b + amount) (balance_of w j) else balance_of w j)"
proof -
  have "balance_of (refund_chunk i amount w) j = balance_of (snd (add_balance_where (\<lambda>_. True) i amount w)) j"
    by (simp add: refund_chunk_def Let_def balance_of_def account_by_id_def)
  then show ?thesis by (simp add: balance_of_add)
qed

lemma refund_restores:
  assumes "wf_world w" and "account_by_id w i = acc" and "bulk_charge acc i amount w = Some w'"
  shows "conserves w (refund_chunk i amount w')"
proof -
  have "billed j (refund_chunk i amount w') = billed j w'" for j by (simp add: billed_def refund_chunk_def Let_def)
  then have "worth j (refund_chunk i amount w') = worth j w" for j
    using bulk_charge_moves [OF assms, of j] balance_after_refund [of i amount w' j]
    by (cases "j = i"; cases "balance_of w j") (simp_all add: worth_def)
  then show ?thesis by (simp add: conserves_def)
qed

text \<open>The world after a run, with what a crash gives back.\<close>

definition end_world :: "chunk_job \<Rightarrow> chunk_run \<Rightarrow> world" where
  "end_world job r =
     (if gives_back r then refund_chunk (cj_account job) (ck_charged r) (bs_world (ck_sys r)) else bs_world (ck_sys r))"

lemma pay_and_send_settles:
  assumes ok: "gateway_ok (bs_gw (ck_sys r))" and acc: "account_by_id (bs_world (ck_sys r)) (cj_account job) = acc"
    and items: "list_all (item_ok (bs_world (ck_sys r))) vs" and nodes: "nodeless env (bs_world (ck_sys r))"
    and start: "ck_fault r = None" "ck_charged r = 0"
    and ended: "ck_fault (pay_and_send env job acc bst vs r) = None \<or> length vs \<le> DB_LOG_CHUNK \<and> ck_ok r = 0"
  shows "conserves (bs_world (ck_sys r)) (end_world job (pay_and_send env job acc bst vs r))"
proof -
  let ?amount = "sell_total vs" and ?parts = "slices DB_LOG_CHUNK vs"
  have wf: "wf_world (bs_world (ck_sys r))" using ok by (simp add: gateway_ok_ids)
  have n: "0 < DB_LOG_CHUNK" by (simp add: DB_LOG_CHUNK_def)
  have pos: "0 \<le> ?amount" using items by (intro sell_total_nonneg) (simp add: item_ok_def list_all_iff)
  have node: "vs' \<in> set ?parts \<Longrightarrow> \<not> node_channel env (bi_channel (last vs'))" for vs'
    by (rule slices_nodeless [OF nodes items])
  have written: "bills (cj_account job) ?amount (bs_world (ck_sys q)) (bs_world (ck_sys (write_slices env job bst 0 ?parts q)))"
    if "ck_fault (write_slices env job bst 0 ?parts q) = None" for q
    using write_slices_bills [OF that node] by (simp add: concat_slices [OF n])
  have lost: "bs_world (ck_sys (write_slices env job bst 0 ?parts q)) = bs_world (ck_sys q)
      \<and> ck_ok (write_slices env job bst 0 ?parts q) = ck_ok q"
    if "ck_fault (write_slices env job bst 0 ?parts q) \<noteq> None" "ck_fault q = None" "vs \<noteq> []" "length vs \<le> DB_LOG_CHUNK" for q
    using that(1) by (simp add: slices_one [OF that(3,4)] Let_def write_slice_lost [OF _ that(2)] split: if_splits)
  consider "vs = []" | "vs \<noteq> []" "?amount \<le> 0" | "vs \<noteq> []" "0 < ?amount" "ce_charge_fault env \<noteq> None"
    | "vs \<noteq> []" "0 < ?amount" "ce_charge_fault env = None" by force
  then show ?thesis
  proof cases
    case 1
    then show ?thesis using start by (simp add: pay_and_send_def Let_def end_world_def gives_back_def)
  next
    case 2
    let ?q = "write_slices env job bst 0 ?parts r"
    have p: "pay_and_send env job acc bst vs r = count_virtual ?q" using 2 by (simp add: pay_and_send_def Let_def)
    have "end_world job (count_virtual ?q) = bs_world (ck_sys ?q)"
      using start by (simp add: end_world_def gives_back_def)
    moreover have "conserves (bs_world (ck_sys r)) (bs_world (ck_sys ?q))"
    proof (cases "ck_fault ?q")
      case None
      have "?amount = 0" using 2 pos by simp
      then show ?thesis using written [OF None] bills_zero by simp
    next
      case (Some f)
      then show ?thesis using lost [of r] start 2(1) ended p by simp
    qed
    ultimately show ?thesis by (simp add: p)
  next
    case 3
    then show ?thesis using start by (auto simp: pay_and_send_def Let_def end_world_def gives_back_def)
  next
    case 4
    show ?thesis
    proof (cases "bulk_charge acc (cj_account job) ?amount (bs_world (ck_sys r))")
      case None
      have "pay_and_send env job acc bst vs r = charge_singly env job bst vs r" using 4 None by (simp add: pay_and_send_def Let_def)
      then show ?thesis using charge_singly_settles [OF ok, of env job bst vs] start by (simp add: end_world_def gives_back_def)
    next
      case (Some w)
      let ?c = "r\<lparr>ck_charged := ?amount, ck_sys := with_world w (ck_sys r)\<rparr>"
      let ?q = "write_slices env job bst 0 ?parts ?c"
      have p: "pay_and_send env job acc bst vs r = count_virtual ?q" using 4 Some by (simp add: pay_and_send_def Let_def)
      show ?thesis
      proof (cases "ck_fault ?q")
        case None
        then have "end_world job (count_virtual ?q) = bs_world (ck_sys ?q)" by (simp add: end_world_def gives_back_def)
        moreover have "bills (cj_account job) ?amount w (bs_world (ck_sys ?q))" using written [OF None] by simp
        then have "conserves (bs_world (ck_sys r)) (bs_world (ck_sys ?q))" by (rule bulk_charge_settles [OF wf acc Some])
        ultimately show ?thesis by (simp add: p)
      next
        case f: (Some f)
        then have e: "length vs \<le> DB_LOG_CHUNK" "ck_ok r = 0" using ended p by simp_all
        have l: "bs_world (ck_sys ?q) = w" "ck_ok ?q = 0" using lost [of ?c] f e start 4(1) by simp_all
        have "gives_back (count_virtual ?q)" using f l(2) 4(2) by (simp add: gives_back_def count_virtual_def)
        then show ?thesis using refund_restores [OF wf acc Some] l by (simp add: p end_world_def)
      qed
    qed
  qed
qed

definition prechecked :: "bulk_sys \<Rightarrow> check_state" where
  "prechecked s = \<lparr>cs_world = bs_world s, cs_routes = Map.empty, cs_prices = Map.empty\<rparr>"

lemma prechecked_ok: "prices_nonneg (bs_world s) \<Longrightarrow> check_ok (prechecked s)"
  by (simp add: check_ok_def prechecked_def)

lemma normal_path_settles:
  assumes ok: "gateway_ok (bs_gw s)" and acc: "account_by_id (bs_world s) (cj_account job) = acc"
    and prices: "prices_nonneg (bs_world s)" and nodes: "nodeless env (bs_world s)"
    and ended: "ck_fault (normal_path env job acc bst known black s) = None
      \<or> length (cj_phones job) \<le> DB_LOG_CHUNK \<and> (\<forall>p \<in> set (cj_phones job). p \<notin> set known)"
  shows "conserves (bs_world s) (end_world job (normal_path env job acc bst known black s))"
proof -
  obtain n fs vs st where c: "precheck env job acc known black 0 (cj_phones job) (prechecked s) = (n, fs, vs, st)" by (metis prod_cases4)
  note chk = precheck_ok [OF prechecked_ok [OF prices] c]
  have st: "same_tables (bs_world s) (cs_world st)" using precheck_same [OF c] by (simp add: prechecked_def)
  define s1 where "s1 = with_world (cs_world st) s"
  define s2 where "s2 = s1\<lparr>bs_gw := add_rows (map (prefailed_row env job (now (bs_world s1))) fs) (bs_gw s1)\<rparr>"
  let ?r = "begin_run s2 n (length fs)"
  have path: "normal_path env job acc bst known black s = pay_and_send env job acc bst vs ?r"
    using c by (simp add: normal_path_def prechecked_def Let_def s1_def s2_def)
  have "paid (bs_gw s) (bs_gw s1)" unfolding s1_def using paid_quiet [OF same_tables_quiet [OF st]] by simp
  moreover have "list_all plain_row (map (prefailed_row env job t) fs)" for t
    by (auto simp: list_all_iff plain_row_def prefailed_row_def new_sms_log_def)
  then have "paid (bs_gw s1) (bs_gw s2)" unfolding s2_def using rows_step by simp
  ultimately have ok2: "gateway_ok (bs_gw s2)" using keys_paid [OF _ ok] rtranclp_trans by metis
  have "bills (cj_account job) 0 (bs_world s) (bs_world s1)" using same_tables_bills [OF st] by (simp add: s1_def)
  moreover have "row_price (prefailed_row env job t f k) = 0 \<and> log_account_id (prefailed_row env job t f k) = cj_account job" for t f k
    by (cases f) (simp add: prefailed_row_def row_price_def new_sms_log_def)
  then have "bills (cj_account job) 0 (bs_world s1) (bs_world s2)"
    using rows_bills [of fs "prefailed_row env job (now (bs_world s1))" "cj_account job" "\<lambda>_. 0" "bs_gw s1"] by (simp add: s2_def)
  ultimately have con: "conserves (bs_world s) (bs_world s2)" by (meson bills_zero conserves_trans)
  have tables: "channels (bs_world s2) = channels (bs_world s)" "accounts (bs_world s2) = accounts (bs_world s)"
    using st by (simp_all add: s2_def s1_def add_rows_def same_tables_def)
  have "n = 0" if "\<forall>p \<in> set (cj_phones job). p \<notin> set known"
    using chk that by (simp add: filter_empty_conv)
  moreover have "length vs \<le> length (cj_phones job)" using chk by simp
  ultimately have ended2: "ck_fault (pay_and_send env job acc bst vs ?r) = None \<or> length vs \<le> DB_LOG_CHUNK \<and> ck_ok ?r = 0"
    using ended by (auto simp: path begin_run_def)
  have "conserves (bs_world (ck_sys ?r)) (end_world job (pay_and_send env job acc bst vs ?r))"
  proof (rule pay_and_send_settles [OF _ _ _ _ _ _ ended2])
    show "gateway_ok (bs_gw (ck_sys ?r))" using ok2 by (simp add: begin_run_def)
    show "account_by_id (bs_world (ck_sys ?r)) (cj_account job) = acc"
      using acc tables by (simp add: begin_run_def account_by_id_def)
    show "list_all (item_ok (bs_world (ck_sys ?r))) vs"
    proof -
      have "item_ok (bs_world s2) = item_ok (bs_world s)" using tables by (simp add: item_ok_def fun_eq_iff)
      then show ?thesis using chk by (simp add: begin_run_def prechecked_def)
    qed
    show "nodeless env (bs_world (ck_sys ?r))" using nodes tables by (simp add: begin_run_def nodeless_def)
  qed (simp_all add: begin_run_def)
  then show ?thesis using conserves_trans [OF con] by (simp add: path begin_run_def)
qed

lemma write_virtual_bills:
  "ck_fault r = None \<Longrightarrow>
   (if ck_fault (write_virtual env job s0 k parts r) = None
    then bills (cj_account job) (sell_total (concat parts)) (bs_world (ck_sys r)) (bs_world (ck_sys (write_virtual env job s0 k parts r)))
    else length parts = 1 \<longrightarrow> bs_world (ck_sys (write_virtual env job s0 k parts r)) = bs_world s0)
   \<and> ck_charged (write_virtual env job s0 k parts r) = ck_charged r"
proof (induction parts arbitrary: s0 k r)
  case Nil
  then show ?case by (simp add: bills_def sell_total_def)
next
  case (Cons vs rest)
  show ?case
  proof (cases "ce_write_fault env k")
    case (Some code)
    then show ?thesis by (simp add: Let_def)
  next
    case None
    define sa where "sa = (ck_sys r)\<lparr>bs_gw := add_rows (map (item_row env job (bs_gw (ck_sys r))) vs) (bs_gw (ck_sys r))\<rparr>"
    define sb where "sb = replace_track_urls_for_logs env (new_rows (ck_sys r) sa) sa"
    let ?r = "r\<lparr>ck_ok := ck_ok r + length vs, ck_vids := ck_vids r @ map message_id (new_rows (ck_sys r) sb), ck_sys := sb\<rparr>"
    have run: "write_virtual env job s0 k (vs # rest) r = write_virtual env job sb (Suc k) rest ?r"
      by (simp add: None Let_def sa_def sb_def)
    have "bills (cj_account job) (sell_total vs) (bs_world (ck_sys r)) (bs_world sa)"
      unfolding sa_def sell_total_def using rows_bills [OF item_row_money] by simp
    then have "bills (cj_account job) (sell_total vs) (bs_world (ck_sys r)) (bs_world sb)"
      using bills_trans replace_links_bills unfolding sb_def by (metis add.right_neutral)
    moreover note Cons.IH [of ?r sb "Suc k"]
    moreover have "write_virtual env job sb (Suc k) rest ?r = ?r" if "length (vs # rest) = 1" using that by simp
    ultimately show ?thesis unfolding run using Cons.prems bills_trans
      by (fastforce simp: sell_total_def)
  qed
qed

lemma virtual_items_length:
  "virtual_items env job acc ch known black i ps = (n, m, vs) \<Longrightarrow> length vs \<le> length ps"
proof (induction ps arbitrary: i n m vs)
  case (Cons p ps)
  obtain a b us where r: "virtual_items env job acc ch known black (Suc i) ps = (a, b, us)" by (metis prod_cases3)
  show ?case using Cons.prems Cons.IH [OF r] r by (auto simp: Let_def split: if_splits sum.splits)
qed simp

lemma virtual_path_settles:
  assumes ok: "gateway_ok (bs_gw s)" and acc: "account_by_id (bs_world s) (cj_account job) = acc"
    and prices: "prices_nonneg (bs_world s)"
    and ended: "ck_fault (virtual_path env job acc ch known black s) = None \<or> length (cj_phones job) \<le> DB_LOG_CHUNK"
  shows "conserves (bs_world s) (end_world job (virtual_path env job acc ch known black s))"
proof -
  obtain n m vs where v: "virtual_items env job acc ch known black 0 (cj_phones job) = (n, m, vs)" by (metis prod_cases3)
  obtain x st where pr: "price_items env (cj_account job) vs (prechecked s) = (x, st)" by fastforce
  have st: "same_tables (bs_world s) (cs_world st)" using price_items_same [OF pr] by (simp add: prechecked_def)
  have wf: "wf_world (cs_world st)" using ok same_tables_queries(5) [OF st] by (simp add: gateway_ok_ids)
  have acc1: "account_by_id (cs_world st) (cj_account job) = acc" using acc same_tables_queries(1) [OF st] by simp
  have con: "conserves (bs_world s) (cs_world st)" by (rule bills_zero [OF same_tables_bills [OF st]])
  let ?s1 = "with_world (cs_world st) s"
  show ?thesis
  proof (cases x)
    case (Inl e)
    then show ?thesis using v pr con
      by (simp add: virtual_path_def prechecked_def end_world_def gives_back_def begin_run_def)
  next
    case (Inr us)
    let ?r = "(begin_run ?s1 n m)\<lparr>ck_vchan := Some (ch_id ch)\<rparr>"
    let ?amount = "sell_total us" and ?parts = "slices DB_LOG_CHUNK us"
    note it = price_items_ok [OF prechecked_ok [OF prices] pr [unfolded Inr]]
    have pos: "0 \<le> ?amount" using it by (intro sell_total_nonneg) simp
    have cat: "concat ?parts = us" by (rule concat_slices) (simp add: DB_LOG_CHUNK_def)
    have len: "length us \<le> length (cj_phones job)" using it virtual_items_length [OF v] by simp
    have path: "virtual_path env job acc ch known black s =
       (if us = [] then ?r
        else if ?amount \<le> 0 then write_virtual env job ?s1 0 ?parts ?r
        else case ce_charge_fault env of
               Some code \<Rightarrow> ?r\<lparr>ck_fault := Some (DbError code)\<rparr>
             | None \<Rightarrow> (case bulk_charge acc (cj_account job) ?amount (cs_world st) of
                           None \<Rightarrow> ?r\<lparr>ck_bad := m + length us\<rparr>
                         | Some w \<Rightarrow> write_virtual env job ?s1 0 ?parts (?r\<lparr>ck_sys := with_world w ?s1\<rparr>)))"
      using v pr Inr by (simp add: virtual_path_def prechecked_def Let_def split: option.split)
    have stays: "end_world job q = bs_world (ck_sys q)" if "ck_charged q = 0" for q
      using that by (simp add: end_world_def gives_back_def)
    have written: "(if ck_fault (write_virtual env job ?s1 0 ?parts q) = None
        then bills (cj_account job) ?amount (bs_world (ck_sys q)) (bs_world (ck_sys (write_virtual env job ?s1 0 ?parts q)))
        else length us \<le> DB_LOG_CHUNK \<longrightarrow> bs_world (ck_sys (write_virtual env job ?s1 0 ?parts q)) = cs_world st)
        \<and> ck_charged (write_virtual env job ?s1 0 ?parts q) = 0"
      if "ck_fault q = None" "ck_charged q = 0" "us \<noteq> []" for q
      using write_virtual_bills [OF that(1), of env job ?s1 0 ?parts] that slices_one [OF that(3), of DB_LOG_CHUNK]
      by (auto simp: cat)
    consider (nothing) "us = []"
      | (stuck) "us \<noteq> []" "0 < ?amount" "ce_charge_fault env \<noteq> None"
      | (poor) "us \<noteq> []" "0 < ?amount" "ce_charge_fault env = None"
          "bulk_charge acc (cj_account job) ?amount (cs_world st) = None"
      | (free) "us \<noteq> []" "?amount \<le> 0"
      | (paying) w where "us \<noteq> []" "0 < ?amount" "ce_charge_fault env = None"
          "bulk_charge acc (cj_account job) ?amount (cs_world st) = Some w"
      by (meson not_le option.exhaust)
    then show ?thesis
    proof cases
      case nothing
      then have "virtual_path env job acc ch known black s = ?r" by (simp only: path if_True refl simp_thms)
      then show ?thesis using stays [of ?r] con by (simp add: begin_run_def)
    next
      case stuck
      then obtain code where "ce_charge_fault env = Some code" by blast
      then have "virtual_path env job acc ch known black s = ?r\<lparr>ck_fault := Some (DbError code)\<rparr>"
        using stuck by (simp add: path)
      then show ?thesis using stays [of "?r\<lparr>ck_fault := Some (DbError code)\<rparr>"] con by (simp add: begin_run_def)
    next
      case poor
      then have "virtual_path env job acc ch known black s = ?r\<lparr>ck_bad := m + length us\<rparr>"
        by (simp add: path)
      then show ?thesis using stays [of "?r\<lparr>ck_bad := m + length us\<rparr>"] con by (simp add: begin_run_def)
    next
      case free
      then have p: "virtual_path env job acc ch known black s = write_virtual env job ?s1 0 ?parts ?r" by (simp add: path)
      note w = written [of ?r, OF _ _ free(1)]
      have "conserves (cs_world st) (bs_world (ck_sys (write_virtual env job ?s1 0 ?parts ?r)))"
      proof (cases "ck_fault (write_virtual env job ?s1 0 ?parts ?r)")
        case None
        then have "bills (cj_account job) 0 (cs_world st) (bs_world (ck_sys (write_virtual env job ?s1 0 ?parts ?r)))"
          using w free(2) pos by (simp add: begin_run_def)
        then show ?thesis by (rule bills_zero)
      next
        case (Some f)
        then show ?thesis using w ended len p by (simp add: begin_run_def)
      qed
      then show ?thesis using conserves_trans [OF con] w stays [of "write_virtual env job ?s1 0 ?parts ?r"]
        by (simp add: p begin_run_def)
    next
      case (paying w')
      let ?q = "?r\<lparr>ck_sys := with_world w' ?s1\<rparr>"
      have p: "virtual_path env job acc ch known black s = write_virtual env job ?s1 0 ?parts ?q"
        using paying by (simp add: path)
      note w = written [of ?q, OF _ _ paying(1)]
      have "conserves (cs_world st) (bs_world (ck_sys (write_virtual env job ?s1 0 ?parts ?q)))"
      proof (cases "ck_fault (write_virtual env job ?s1 0 ?parts ?q)")
        case None
        then have "bills (cj_account job) ?amount w' (bs_world (ck_sys (write_virtual env job ?s1 0 ?parts ?q)))"
          using w by (simp add: begin_run_def)
        then show ?thesis by (rule bulk_charge_settles [OF wf acc1 paying(4)])
      next
        case (Some f)
        then show ?thesis using w ended len p by (simp add: begin_run_def)
      qed
      then show ?thesis using conserves_trans [OF con] w stays [of "write_virtual env job ?s1 0 ?parts ?q"]
        by (simp add: p begin_run_def)
    qed
  qed
qed


end
