(* ===== verification/BulkCases.thy ===== *)
theory BulkCases
  imports BulkProps
begin

text \<open>
  The task of a chunk over all its runs, the queues it uses, and the runs that show where the promises of
  \<open>BulkProps\<close> end: a number in another spelling than E.164, a database error after a redelivery,
  a publish that fails half way.
\<close>

section \<open>The task over all its runs\<close>

lemma process_batch_chunk_cases:
  assumes "process_batch_chunk env job retries depth s = (e, s')"
  obtains (returned) a where "e = TaskReturned a" "do_process_chunk env job s = (a, s')"
    | (retried) f where "e = TaskRetried" "retries < CHUNK_MAX_RETRIES" "do_process_chunk env job s = (ChunkRaised f, s')"
    | (rescued) f where "e = TaskRescued (Suc depth)" "depth < CHUNK_RESCUE_MAX" "do_process_chunk env job s = (ChunkRaised f, s')"
    | (raised) f where "e = TaskRaised f" "do_process_chunk env job s = (ChunkRaised f, s')"
  using assms by (auto simp: process_batch_chunk_def split: prod.splits chunk_answer.splits if_splits)

lemma chunk_task_runs:
  assumes "chunk_task envs job k retries depth s = (e, k', s')" and "retries \<le> CHUNK_MAX_RETRIES" and "depth \<le> CHUNK_RESCUE_MAX"
  shows "k' \<le> k + Suc CHUNK_MAX_RETRIES * (CHUNK_RESCUE_MAX - depth) + Suc (CHUNK_MAX_RETRIES - retries)
    \<and> ((\<exists>a. e = TaskReturned a) \<or> (\<exists>f. e = TaskRaised f))"
  using assms
proof (induction envs job k retries depth s arbitrary: e k' s' rule: chunk_task.induct)
  case (1 envs job k retries depth s)
  obtain x s1 where x: "process_batch_chunk (envs k) job retries depth s = (x, s1)" by fastforce
  from x show ?case
  proof (cases rule: process_batch_chunk_cases)
    case retried
    then have "chunk_task envs job (Suc k) (Suc retries) depth s1 = (e, k', s')"
      using "1.prems"(1) x by (simp add: chunk_task.simps [of envs job k])
    from "1.IH"(1) [OF x [symmetric] retried(1,2) this]
    show ?thesis using retried(2) "1.prems"(3) by (auto simp: x CHUNK_MAX_RETRIES_def CHUNK_RESCUE_MAX_def)
  next
    case rescued
    then have "chunk_task envs job (Suc k) 0 (Suc depth) s1 = (e, k', s')"
      using "1.prems"(1) x by (simp add: chunk_task.simps [of envs job k])
    from "1.IH"(2) [OF x [symmetric] rescued(1) _ this]
    have "k' \<le> Suc k + Suc CHUNK_MAX_RETRIES * (CHUNK_RESCUE_MAX - Suc depth) + Suc CHUNK_MAX_RETRIES
        \<and> ((\<exists>a. e = TaskReturned a) \<or> (\<exists>f. e = TaskRaised f))"
      using rescued(2) by simp
    moreover have "CHUNK_RESCUE_MAX - depth = Suc (CHUNK_RESCUE_MAX - Suc depth)" using rescued(2) by simp
    ultimately show ?thesis by auto
  qed (use "1.prems"(1) x in \<open>auto simp: chunk_task.simps [of envs job k]\<close>)
qed

text \<open>C35: The task of a chunk ends: six retries of a run that the database interrupted, five rescues that
  start over, so at most 42 runs, and the last of them returns an answer or raises - it never ends
  waiting for another one.\<close>

theorem chunk_task_ends:
  "fst (snd (chunk_task envs job 0 0 0 s)) \<le> 42
    \<and> ((\<exists>a. fst (chunk_task envs job 0 0 0 s) = TaskReturned a) \<or> (\<exists>f. fst (chunk_task envs job 0 0 0 s) = TaskRaised f))"
proof -
  obtain e k' s' where "chunk_task envs job 0 0 0 s = (e, k', s')" by (metis prod_cases3)
  from chunk_task_runs [OF this] this show ?thesis by (simp add: CHUNK_MAX_RETRIES_def CHUNK_RESCUE_MAX_def)
qed

definition books_ok :: "(int \<Rightarrow> money) \<Rightarrow> bulk_sys \<Rightarrow> bool" where
  "books_ok fund s \<longleftrightarrow> gateway_ok (bs_gw s) \<and> ledger_ok fund (bs_world s) \<and> prepaid_covered (bs_world s)"

lemma process_batch_chunk_books:
  "process_batch_chunk env job retries depth s = (e, s') \<Longrightarrow> books_ok fund s \<Longrightarrow> books_ok fund s'"
  by (erule process_batch_chunk_cases) (auto simp: books_ok_def dest: chunk_books)

lemma chunk_task_books:
  "books_ok fund s \<Longrightarrow> books_ok fund (snd (snd (chunk_task envs job k retries depth s)))"
proof (induction envs job k retries depth s rule: chunk_task.induct)
  case (1 envs job k retries depth s)
  obtain x s1 where x: "process_batch_chunk (envs k) job retries depth s = (x, s1)" by fastforce
  note ok = process_batch_chunk_books [OF x "1.prems"]
  show ?case
    using "1.IH" [OF x [symmetric]] ok
    by (subst chunk_task.simps) (auto simp: x split: task_end.splits)
qed

text \<open>C6: Whatever a chunk meets in any of its runs - numbers that fail, an account without enough money,
  a database that refuses the charge or the rows, queues that are down, a node that refuses - when its
  task is over every account holds its opening amount plus its log entries, no prepaid account is below
  zero, and the keys of the tables are in order.\<close>

theorem chunk_task_keeps_books:
  assumes "gateway_ok (bs_gw s)" and "ledger_ok fund (bs_world s)" and "prepaid_covered (bs_world s)"
    and "chunk_task envs job 0 0 0 s = (e, k, s')"
  shows "gateway_ok (bs_gw s') \<and> ledger_ok fund (bs_world s') \<and> prepaid_covered (bs_world s')"
  using chunk_task_books [of fund s envs job 0 0 0] assms by (simp add: books_ok_def)

section \<open>A chunk that was done before\<close>

lemma precheck_known:
  "set ps \<subseteq> set known \<Longrightarrow> precheck env job acc known black i ps st = (length ps, [], [], st)"
  by (induction ps arbitrary: i) auto

lemma virtual_items_known:
  "set ps \<subseteq> set known \<Longrightarrow> virtual_items env job acc ch known black i ps = (length ps, 0, [])"
  by (induction ps arbitrary: i) auto

lemma add_rows_nil: "add_rows [] g = g"
  by (simp add: add_rows_def number_rows_def)

lemma with_world_self: "with_world (bs_world s) s = s"
  by (simp add: with_world_def)

lemma run_chunk_known:
  assumes "set (cj_phones job) \<subseteq> set (known_numbers job (bs_world s))"
  shows "\<exists>c. run_chunk env job s = (begin_run s (length (cj_phones job)) 0)\<lparr>ck_vchan := c\<rparr>"
proof -
  let ?r = "begin_run s (length (cj_phones job)) 0" and ?known = "known_numbers job (bs_world s)"
  have "normal_path env job acc bst ?known black s = ?r\<lparr>ck_vchan := None\<rparr>" for acc bst black
    by (simp add: normal_path_def precheck_known [OF assms] pay_and_send_def Let_def begin_run_def with_world_self add_rows_nil)
  moreover have "virtual_path env job acc ch ?known black s = ?r\<lparr>ck_vchan := Some (ch_id ch)\<rparr>" for acc ch black
    by (simp add: virtual_path_def virtual_items_known [OF assms] with_world_self Let_def)
  ultimately show ?thesis unfolding run_chunk_def Let_def by (auto split: option.split)
qed

text \<open>C7: A chunk delivered again after its messages were recorded, each under the spelling its job
  has, charges nothing, writes nothing and queues nothing: it counts all numbers as done and
  refreshes the progress of the batch.\<close>

theorem redelivered_chunk_is_noop:
  assumes "\<forall>p \<in> set (cj_phones job). \<exists>r \<in> set (batch_logs (bs_world s) (cj_batch job)). phone_number r = p"
    and "\<not> batch_stopped (bs_world s) (cj_batch job)"
  shows "do_process_chunk env job s =
     (ChunkDone (length (cj_phones job)) 0,
      with_world (snd (update_batch_progress (ce_progress env) (bs_world s) (cj_batch job))) s)"
proof -
  have "set (cj_phones job) \<subseteq> set (known_numbers job (bs_world s))" using assms(1) by (fastforce simp: known_numbers_def)
  then obtain c where "run_chunk env job s = (begin_run s (length (cj_phones job)) 0)\<lparr>ck_vchan := c\<rparr>"
    using run_chunk_known [of job s env] by blast
  then show ?thesis using assms(2)
    by (simp add: do_process_chunk_def finish_chunk_def begin_run_def schedule_virtual_def split: option.split)
qed

section \<open>Queueing\<close>

text \<open>What a publish of payloads leaves in the queue.\<close>

definition queues :: "smpp_payload list \<Rightarrow> nat \<Rightarrow> bulk_sys \<Rightarrow> bulk_sys \<Rightarrow> bool" where
  "queues ps n s s' \<longleftrightarrow>
     (\<exists>more. bs_published s' = bs_published s @ more \<and> set (concat more) \<subseteq> set ps \<and> n \<le> length (concat more)
        \<and> (n = length ps \<longrightarrow> set (concat more) = set ps))
     \<and> bs_gw s' = bs_gw s \<and> n \<le> length ps"

lemma publish_once_queues: "publish_once env ps s = (ok, s') \<Longrightarrow>
    bs_gw s' = bs_gw s \<and> bs_published s' = bs_published s @ (if ok then [ps] else [])"
  by (auto simp: publish_once_def split: prod.splits bool.splits)

lemma queue_each_queues: "queue_each_smpp env ps s = (n, s') \<Longrightarrow> queues ps n s s'"
proof (induction ps arbitrary: s n s')
  case (Cons p ps)
  obtain ok s1 where one: "queue_smpp_gateway env p s = (ok, s1)" by fastforce
  obtain m s2 where rest: "queue_each_smpp env ps s1 = (m, s2)" by fastforce
  from Cons.IH [OF rest] obtain more where more: "bs_published s2 = bs_published s1 @ more" "set (concat more) \<subseteq> set ps"
      "m \<le> length (concat more)" "m = length ps \<longrightarrow> set (concat more) = set ps" "bs_gw s2 = bs_gw s1" "m \<le> length ps"
    by (auto simp: queues_def)
  have here: "bs_gw s1 = bs_gw s" "bs_published s1 = bs_published s @ (if ok then [[p]] else [])"
    using publish_once_queues [OF one [unfolded queue_smpp_gateway_def]] by simp_all
  have res: "n = (if ok then Suc m else m)" "s' = s2" using Cons.prems one rest by auto
  show ?case unfolding queues_def
    using more here res by (intro conjI exI [of _ "(if ok then [[p]] else []) @ more"]) auto
qed (auto simp: queues_def)

lemma queues_trans: "queues ps n s s1 \<Longrightarrow> queues ps m s1 s2 \<Longrightarrow> queues ps m s s2"
  unfolding queues_def
  by (elim conjE exE, intro conjI, rule_tac x = "more @ morea" in exI) auto



section \<open>A chunk of one number\<close>

text \<open>A customer with 10.00 sends one message over an SMPP channel; the prices are cached.\<close>

definition demo_chunk_env :: "pystr chunk_env" where
  "demo_chunk_env =
     \<lparr>ce_lib = demo_lib, ce_render = \<lambda>_. \<lparr>rv_date = [], rv_time = [], rv_rnd = \<lambda>_. 0\<rparr>, ce_draw = \<lambda>_. 0,
      ce_enum = id, ce_show = \<lambda>_. [], ce_say = \<lambda>_. [], ce_uuid = text_of_int, ce_virtual_id = text_of_int,
      ce_links = demo_link_env, ce_broker = \<lambda>_. True, ce_charge_fault = None, ce_write_fault = \<lambda>_. None,
      ce_node = \<lambda>_. NodeBroken, ce_progress = 1\<rparr>"

definition demo_job :: "pystr list \<Rightarrow> chunk_job" where
  "demo_job ps = \<lparr>cj_batch = 1, cj_account = 1, cj_phones = ps, cj_message = asc ''hello'', cj_rot = [],
     cj_offset = 0, cj_channel = Some 7, cj_sender = None\<rparr>"

definition demo_price :: price_info where
  "demo_price = \<lparr>pi_price = 5 / 100, pi_currency = asc ''USD'', pi_source = FromAccountUnitPrice\<rparr>"

definition demo_bulk :: bulk_sys where
  "demo_bulk =
     \<lparr>bs_gw = demo_gateway\<lparr>gw_world := (gw_world demo_gateway)
        \<lparr>sms_batches := [(new_sms_batch 1 1 []) \<lparr>total_count := Some 1, batch_status := BProcessing\<rparr>],
         price_cache := [price_key 7 (asc ''TH'') None (Some 1) \<mapsto> demo_price]\<rparr>\<rparr>,
      bs_links = demo_links, bs_blacklist = [], bs_published = [], bs_virtual = [], bs_calls = 0\<rparr>"

lemma demo_numbers:
  assumes "plus_form p = Some (asc ''+66812345678'')"
  shows "validate_phone_number demo_lib p = Inr demo_info"
proof -
  have "plus_form (asc ''66812345678'') = Some (asc ''+66812345678'')" by code_simp
  then show ?thesis using demo_number assms by (simp add: validate_phone_number_def)
qed

lemma demo_spelled:
  "plus_form (clean_number (asc ''66812345678'')) = Some (asc ''+66812345678'')"
  "plus_form (clean_number (asc ''+66812345678'')) = Some (asc ''+66812345678'')"
  "clean_number (asc ''66812345678'') = asc ''66812345678''"
  "clean_number (asc ''+66812345678'') = asc ''+66812345678''"
  by code_simp+

lemma demo_text: "chunk_text env (demo_job ps) i demo_info = asc ''hello''"
proof -
  have "\<not> sms_template_has_variables (asc ''hello'')" by code_simp
  then show ?thesis by (simp add: chunk_text_def demo_job_def Let_def)
qed

definition demo_bulk_item :: bulk_item where
  "demo_bulk_item = \<lparr>bi_info = demo_info, bi_text = asc ''hello'', bi_units = 1, bi_channel = demo_channel,
     bi_price = \<lparr>up_sell = 5 / 100, up_currency = asc ''USD'', up_cost = 1 / 100\<rparr>\<rparr>"

text \<open>What the checks of a number read.\<close>

definition demo_ready :: "bulk_sys \<Rightarrow> bool" where
  "demo_ready s \<longleftrightarrow>
     channel_by_id (bs_world s) 7 = Some demo_channel
     \<and> get_channel_if_available (bs_world s) 7 (asc ''TH'') (Some 1) = Some demo_channel
     \<and> price_cache (bs_world s) (price_key 7 (asc ''TH'') None (Some 1)) = Some demo_price
     \<and> cost_cache (bs_world s) (7, asc ''TH'') = Some (1 / 100)
     \<and> map_option acc_country_code (account_by_id (bs_world s) 1) = Some None
     \<and> bs_blacklist s = [] \<and> \<not> batch_stopped (bs_world s) 1"

lemma demo_bulk_ready: "demo_ready demo_bulk"
  by code_simp

lemma demo_checked:
  assumes "plus_form (clean_number p) = Some (asc ''+66812345678'')" and "acc_country_code a = None"
  shows "check_number demo_chunk_env (Some a) [] p = Inr demo_info"
  using demo_numbers [OF assms(1)] assms(2)
  by (simp add: check_number_def demo_chunk_env_def Let_def sms_destination_allowed_def account_country_iso_def)

lemma demo_not_rcs: "is_rcs demo_channel = Inr False"
  by (simp add: is_rcs_def demo_world_def new_channel_def get_gateway_config_def obj_get_def json_get_def)

definition demo_rest ::
    "(nat \<Rightarrow> int option) \<Rightarrow> pystr list \<Rightarrow> nat \<Rightarrow> bulk_sys \<Rightarrow> chunk_answer \<times> bulk_sys" where
  "demo_rest f ps n s =
     (let env = demo_chunk_env\<lparr>ce_write_fault := f\<rparr>; job = demo_job ps
      in finish_chunk env job
           (pay_and_send env job (account_by_id (bs_world s) 1)
              (map_option batch_status (batch_by_id (bs_world s) 1)) [demo_bulk_item] (begin_run s n 0)))"

lemma demo_cc: "ph_country_code demo_info = asc ''TH''"
  by (simp add: demo_info_def)

lemma demo_job_account: "cj_account (demo_job ps) = 1" and demo_job_phones: "cj_phones (demo_job ps) = ps"
  by (simp_all add: demo_job_def)

lemma demo_prechecked_one:
  assumes "demo_ready s" and "plus_form (clean_number p) = Some (asc ''+66812345678'')" and "acc_country_code a = None"
  shows "\<exists>st'. precheck_one (demo_chunk_env\<lparr>ce_write_fault := f\<rparr>) (demo_job ps) (Some a) [] i p (prechecked s)
      = (Inr demo_bulk_item, st') \<and> cs_world st' = bs_world s"
proof -
  let ?env = "demo_chunk_env\<lparr>ce_write_fault := f\<rparr>" and ?w = "bs_world s"
  have chk: "check_number ?env (Some a) [] p = Inr demo_info"
    using demo_checked [OF assms(2,3)] by (simp add: check_number_def)
  have draw: "ce_draw ?env i = 0" by (simp add: demo_chunk_env_def)
  obtain st1 where route: "route_of ?env (demo_job ps) i (asc ''TH'') (prechecked s) = (Inr demo_channel, st1)"
    and st1: "cs_world st1 = ?w" "cs_prices st1 = Map.empty"
    using assms(1) by (simp add: route_of_def prechecked_def demo_ready_def select_channel_def truthy_id_def demo_job_def)
  obtain st2 where price: "price_for ?env 1 demo_channel (asc ''TH'') st1 = (Inr (bi_price demo_bulk_item), st2)"
    and st2: "cs_world st2 = ?w"
  proof
    have "ch_id demo_channel = 7" by (simp add: demo_world_def new_channel_def)
    then show "price_for ?env 1 demo_channel (asc ''TH'') st1 = (Inr (bi_price demo_bulk_item),
        st1\<lparr>cs_prices := (cs_prices st1)((7, asc ''TH'') \<mapsto> bi_price demo_bulk_item)\<rparr>)"
      using assms(1) st1
      by (simp add: price_for_def unit_price_of_def get_price_def resolve_base_cost_per_sms_def demo_ready_def
          demo_bulk_item_def demo_price_def Let_def)
  qed (simp add: st1)
  have hello: "count_sms_parts (asc ''hello'') = 1" by code_simp
  have "precheck_one ?env (demo_job ps) (Some a) [] i p (prechecked s) = (Inr demo_bulk_item, st2)"
    using price by (simp add: precheck_one_def Let_def chk demo_text [of ?env] demo_not_rcs
        demo_bulk_item_def hello demo_cc demo_job_account route)
  then show ?thesis using st2 by blast
qed

lemma demo_prechecked:
  assumes "demo_ready s" and "plus_form (clean_number p) = Some (asc ''+66812345678'')" and "acc_country_code a = None"
    and "p \<notin> set known" and "set qs \<subseteq> set known"
  shows "\<exists>st'. precheck (demo_chunk_env\<lparr>ce_write_fault := f\<rparr>) (demo_job ps) (Some a) known [] i (qs @ [p]) (prechecked s)
      = (length qs, [], [demo_bulk_item], st') \<and> cs_world st' = bs_world s"
  using assms(5)
proof (induction qs arbitrary: i)
  case Nil
  then show ?case using demo_prechecked_one [OF assms(1-3), of f ps i] assms(4) by auto
next
  case (Cons q qs)
  then obtain st' where "precheck (demo_chunk_env\<lparr>ce_write_fault := f\<rparr>) (demo_job ps) (Some a) known [] (Suc i) (qs @ [p])
      (prechecked s) = (length qs, [], [demo_bulk_item], st')" "cs_world st' = bs_world s"
    using Cons.IH [of "Suc i"] by auto
  then show ?case using Cons.prems by simp
qed

lemma demo_chunk:
  assumes "demo_ready s" and "plus_form (clean_number p) = Some (asc ''+66812345678'')"
    and "p \<notin> set (known_numbers (demo_job (qs @ [p])) (bs_world s))"
    and "set qs \<subseteq> set (known_numbers (demo_job (qs @ [p])) (bs_world s))"
  shows "do_process_chunk (demo_chunk_env\<lparr>ce_write_fault := f\<rparr>) (demo_job (qs @ [p])) s = demo_rest f (qs @ [p]) (length qs) s"
proof -
  let ?env = "demo_chunk_env\<lparr>ce_write_fault := f\<rparr>" and ?w = "bs_world s" and ?job = "demo_job (qs @ [p])"
  let ?bst = "map_option batch_status (batch_by_id ?w 1)"
  obtain a where a: "account_by_id ?w 1 = Some a" "acc_country_code a = None"
    using assms(1) by (auto simp: demo_ready_def)
  have black: "blacklisted_numbers ?job s = []" using assms(1) by (simp add: blacklisted_numbers_def demo_ready_def)
  obtain st where st: "precheck ?env ?job (Some a) (known_numbers ?job ?w) [] 0 (qs @ [p]) (prechecked s)
      = (length qs, [], [demo_bulk_item], st)" "cs_world st = ?w"
    using demo_prechecked [OF assms(1,2) a(2) assms(3,4)] by blast
  then have "normal_path ?env ?job (Some a) ?bst (known_numbers ?job ?w) [] s
      = pay_and_send ?env ?job (Some a) ?bst [demo_bulk_item] (begin_run s (length qs) 0)"
    by (simp add: normal_path_def prechecked_def demo_job_phones Let_def with_world_self add_rows_nil del: precheck.simps)
  moreover have "ch_protocol demo_channel = SMPP" by (simp add: demo_world_def new_channel_def)
  moreover have "cj_channel ?job = Some 7" "cj_batch ?job = 1" by (simp_all add: demo_job_def)
  ultimately have "run_chunk ?env ?job s = pay_and_send ?env ?job (Some a) ?bst [demo_bulk_item] (begin_run s (length qs) 0)"
    using assms(1) a black by (simp add: run_chunk_def Let_def demo_job_account demo_ready_def truthy_id_def)
  moreover have "\<not> batch_stopped ?w (cj_batch ?job)" using assms(1) by (simp add: demo_ready_def demo_job_def)
  ultimately show ?thesis using a by (simp add: do_process_chunk_def demo_rest_def Let_def)
qed

lemma demo_env_plain: "demo_chunk_env\<lparr>ce_write_fault := \<lambda>_. None\<rparr> = demo_chunk_env"
  by (simp add: demo_chunk_env_def)

text \<open>What an observer sees: the balance, the numbers recorded, the numbers queued.\<close>

definition demo_view :: "bulk_sys \<Rightarrow> money option \<times> pystr list \<times> pystr list" where
  "demo_view s = (balance_of (bs_world s) 1, map phone_number (batch_logs (bs_world s) 1),
                  map sp_phone_number (concat (bs_published s)))"

abbreviation demo_raw :: pystr where "demo_raw \<equiv> asc ''66812345678''"
abbreviation demo_e164 :: pystr where "demo_e164 \<equiv> asc ''+66812345678''"

lemma demo_twice:
  "let (a, s) = demo_rest (\<lambda>_. None) [demo_raw] 0 demo_bulk; (b, s') = demo_rest (\<lambda>_. None) [demo_raw] 0 s
   in demo_ready s \<and> known_numbers (demo_job [demo_raw]) (bs_world s) = [] \<and> a = ChunkDone 1 0 \<and> b = ChunkDone 1 0
      \<and> demo_view s = (Some (995 / 100), [demo_e164], [demo_e164])
      \<and> demo_view s' = (Some (990 / 100), [demo_e164, demo_e164], [demo_e164, demo_e164])"
  by code_simp

lemma demo_crash:
  "let s = snd (demo_rest (\<lambda>_. None) [demo_raw] 0 demo_bulk);
       (b, s') = demo_rest (\<lambda>_. Some 1213) [demo_e164, demo_raw] 1 s
   in known_numbers (demo_job [demo_e164, demo_raw]) (bs_world s) = [demo_e164]
      \<and> b = ChunkRaised (DbError 1213)
      \<and> demo_view s' = (Some (990 / 100), [demo_e164], [demo_e164])"
  by code_simp

lemma demo_known_none: "known_numbers job (bs_world demo_bulk) = []"
  by (simp add: known_numbers_def batch_logs_def demo_bulk_def demo_gateway_def demo_world_def empty_world_def)

lemma demo_done:
  obtains s where "do_process_chunk demo_chunk_env (demo_job [demo_raw]) demo_bulk = (ChunkDone 1 0, s)"
    "demo_rest (\<lambda>_. None) [demo_raw] 0 demo_bulk = (ChunkDone 1 0, s)"
    "demo_ready s" "demo_view s = (Some (995 / 100), [demo_e164], [demo_e164])"
proof -
  obtain a s where r: "demo_rest (\<lambda>_. None) [demo_raw] 0 demo_bulk = (a, s)" by fastforce
  moreover have "do_process_chunk demo_chunk_env (demo_job [demo_raw]) demo_bulk = demo_rest (\<lambda>_. None) [demo_raw] 0 demo_bulk"
    using demo_chunk [OF demo_bulk_ready demo_spelled(1), of "[]" "\<lambda>_. None"] by (simp add: demo_env_plain demo_known_none)
  ultimately show ?thesis using that demo_twice by (auto simp: Let_def split: prod.splits)
qed

lemma demo_bulk_keys: "gateway_ok (bs_gw demo_bulk)"
  using demo_gateway_ok by (simp add: gateway_ok_ids demo_bulk_def wf_world_def ids_below_def)

lemma demo_bulk_fair: "prices_nonneg (bs_world demo_bulk)" "nodeless demo_chunk_env (bs_world demo_bulk)"
proof -
  show "prices_nonneg (bs_world demo_bulk)"
    by (simp add: prices_nonneg_def holds_all_def demo_bulk_def demo_gateway_def demo_world_def empty_world_def demo_price_def)
  have "\<not> node_channel demo_chunk_env demo_channel" by (simp add: node_channel_def demo_not_rcs)
  then show "nodeless demo_chunk_env (bs_world demo_bulk)"
    by (simp add: nodeless_def demo_bulk_def demo_gateway_def demo_world_def)
qed


text \<open>When the rows cannot be written, the charge is given back only if no number counts as done,
  and numbers recorded earlier count: a chunk of one recorded number and a new one loses the price of the
  new one, which is neither recorded nor queued.\<close>

theorem crash_after_redelivery_keeps_charge:
  "\<exists>s s'. demo_view s = (Some (995 / 100), [demo_e164], [demo_e164])
     \<and> do_process_chunk (demo_chunk_env\<lparr>ce_write_fault := \<lambda>_. Some 1213\<rparr>) (demo_job [demo_e164, demo_raw]) s
         = (ChunkRaised (DbError 1213), s')
     \<and> demo_view s' = (Some (990 / 100), [demo_e164], [demo_e164])"
proof -
  obtain s where s: "demo_rest (\<lambda>_. None) [demo_raw] 0 demo_bulk = (ChunkDone 1 0, s)"
    "demo_ready s" "demo_view s = (Some (995 / 100), [demo_e164], [demo_e164])" by (rule demo_done)
  obtain b s' where s': "demo_rest (\<lambda>_. Some 1213) [demo_e164, demo_raw] 1 s = (b, s')" by fastforce
  with s(1) demo_crash have t: "known_numbers (demo_job [demo_e164, demo_raw]) (bs_world s) = [demo_e164]"
      "b = ChunkRaised (DbError 1213)" "demo_view s' = (Some (990 / 100), [demo_e164], [demo_e164])" by simp_all
  have "demo_raw \<noteq> demo_e164" by (simp add: asc_def)
  then have "do_process_chunk (demo_chunk_env\<lparr>ce_write_fault := \<lambda>_. Some 1213\<rparr>) (demo_job [demo_e164, demo_raw]) s = (b, s')"
    using demo_chunk [OF s(2) demo_spelled(1), of "[demo_e164]" "\<lambda>_. Some 1213"] s' t(1) by simp
  then show ?thesis using s t by blast
qed


theorem chunk_task_keeps_books_witness:
  "\<exists>s. chunk_task (\<lambda>_. demo_chunk_env) (demo_job [demo_raw]) 0 0 0 demo_bulk = (TaskReturned (ChunkDone 1 0), 1, s)
     \<and> prepaid_covered (bs_world s)"
proof -
  obtain s where s: "do_process_chunk demo_chunk_env (demo_job [demo_raw]) demo_bulk = (ChunkDone 1 0, s)" by (rule demo_done)
  then have t: "chunk_task (\<lambda>_. demo_chunk_env) (demo_job [demo_raw]) 0 0 0 demo_bulk = (TaskReturned (ChunkDone 1 0), 1, s)"
    by (subst chunk_task.simps) (simp add: process_batch_chunk_def)
  have "ledger_ok (\<lambda>i. if i = 1 then 10 else 0) (bs_world demo_bulk)"
    by (simp add: ledger_ok_def logged_total_def account_logs_def demo_bulk_def demo_gateway_def demo_world_def
        empty_world_def new_account_def)
  moreover have "prepaid_covered (bs_world demo_bulk)"
    using demo_covered by (simp add: prepaid_covered_def demo_bulk_def demo_gateway_def)
  ultimately show ?thesis using chunk_task_keeps_books [OF demo_bulk_keys _ _ t] t by blast
qed

theorem redelivered_chunk_is_noop_witness:
  "\<exists>s. fst (do_process_chunk demo_chunk_env (demo_job [demo_e164]) s) = ChunkDone 1 0 \<and> demo_view s = (Some (995 / 100), [demo_e164], [demo_e164])"
proof -
  obtain s where s: "demo_ready s" "demo_view s = (Some (995 / 100), [demo_e164], [demo_e164])" by (rule demo_done)
  then have "\<forall>p \<in> set (cj_phones (demo_job [demo_e164])). \<exists>r \<in> set (batch_logs (bs_world s) (cj_batch (demo_job [demo_e164]))). phone_number r = p"
    by (auto simp: demo_view_def demo_job_def map_eq_Cons_conv)
  moreover have "\<not> batch_stopped (bs_world s) (cj_batch (demo_job [demo_e164]))" using s(1) by (simp add: demo_ready_def demo_job_def)
  ultimately have "fst (do_process_chunk demo_chunk_env (demo_job [demo_e164]) s) = ChunkDone 1 0"
    using redelivered_chunk_is_noop [of "demo_job [demo_e164]" s demo_chunk_env] by (simp add: demo_job_phones)
  with s(2) show ?thesis by blast
qed

definition demo_payload :: smpp_payload where
  "demo_payload = \<lparr>sp_log_id = 1, sp_message_id = asc ''msg_1'', sp_phone_number = demo_e164, sp_message = asc ''hello'',
     sp_channel_id = 7, sp_batch_status = None, sp_record_status = Pending, sp_batch_id = 1, sp_sender_id = []\<rparr>"


end
