(* ===== verification/Spec2Isabelle.thy ===== *)
theory Spec2Isabelle
  imports MoneyAudit Sender SmsResults Expiry Access BulkCases
begin

text \<open>
  A verification library for the message gateway \<open>klsmsc\<close>, whose Python backend is under
  \<open>src/backend/app\<close>; paths below are relative to it.

  \<^bold>\<open>The program.\<close> Customers hold accounts with a balance. They submit messages over HTTP, over
  SMPP or over a compatibility endpoint. A submission checks the number, the country, the content
  and the banned words, lets the routing engine choose a channel, lets the pricing engine charge
  the account, writes a row of \<open>sms_logs\<close> and puts its id on a queue; a worker sends it.
  Upstream providers report the outcome over HTTP callbacks or over SMPP; reports that come before
  their message wait in a Redis buffer. Messages belong to batches, whose progress is recounted
  after every change, and which administrators pause, resume, clear and move to another channel.
  Messages that failed are refunded, once. Every request passes a limiter and a whitelist of addresses
  before the account or the administrator behind it is authenticated.

  \<^bold>\<open>The theories\<close>, in the order they build on each other:
  \<^item> \<open>Prelude\<close>: text as lists of code points, Python's string methods, outcomes of raising code,
    list updates, the theorem collections.
  \<^item> \<open>Errors\<close> (\<open>utils/errors.py\<close>), \<open>PhoneUtils\<close> (\<open>utils/phone_utils.py\<close>), \<open>CountryCode\<close>
    (\<open>utils/country_code.py\<close>), \<open>SmsSegment\<close> (\<open>utils/sms_segment.py\<close>), \<open>UrlExtract\<close>
    (\<open>utils/url_extractor.py\<close>): the pure helpers.
  \<^item> \<open>Db\<close>: one record per table (\<open>modules/\<close>), with the code's column names; \<open>World\<close>: the state, that
    is the tables, the caches and the clock, with the updates the services share and the locale
    \<open>read_through\<close> of every lookup that goes through a cache.
  \<^item> \<open>ChannelConfig\<close> (\<open>modules/sms/channel.py\<close>), \<open>Pricing\<close> (\<open>core/pricing.py\<close>), \<open>Router\<close>
    (\<open>core/router.py\<close>), \<open>Refund\<close> (\<open>services/sms_refund.py\<close>), \<open>BatchProgress\<close>
    (\<open>modules/sms/batch_utils.py\<close>), \<open>BatchAdmin\<close> (\<open>services/batch_admin.py\<close>): the services. A
    service is a function from its arguments and a world to an answer and a world, and an exception
    is an answer too.
  \<^item> \<open>DlrParse\<close>, \<open>Dlr\<close> (\<open>core/dlr_handler.py\<close>), \<open>DlrBuffer\<close> (\<open>utils/dlr_buffer.py\<close>), \<open>SmppDlr\<close>
    (\<open>workers/sms_worker.py\<close>): delivery reports.
  \<^item> \<open>Validator\<close> (\<open>utils/validator.py\<close>, \<open>utils/account_country_restrict.py\<close>,
    \<open>utils/rcs_content.py\<close>), \<open>Template\<close> (\<open>utils/sms_template.py\<close>), \<open>Gateway\<close>
    (\<open>utils/banned_words.py\<close>, \<open>utils/sender_id_resolver.py\<close>, \<open>utils/queue.py\<close>; the record
    \<open>gateway\<close> puts what a submission needs beside the world), \<open>Submit\<close> (\<open>api/v1/sms.py\<close>,
    \<open>api/v1/_internal_smpp.py\<close>), \<open>Ruanwei\<close> (\<open>api/v1/sms.py\<close>): submission.
  \<^item> \<open>UrlSafety\<close> (\<open>utils/url_safety.py\<close>), \<open>ShortLink\<close> (\<open>utils/short_link.py\<close>), \<open>License\<close>
    (\<open>core/license.py\<close>), \<open>RateLimit\<close> (\<open>utils/rate_limiter.py\<close>), \<open>SendAdapters\<close>
    (\<open>workers/sms_worker.py\<close>, \<open>workers/adapters/rcs_adapter.py\<close>), \<open>Sender\<close>
    (\<open>workers/sms_worker.py\<close>: the task that sends a message, split at the commit of the status
    \<open>sent\<close> into \<open>prepare\<close> and \<open>transmit\<close>), \<open>SmsResults\<close> (\<open>workers/sms_worker.py\<close>: the results that
    the SMPP gateway returns, their buffer and the stream behind it), \<open>Expiry\<close>
    (\<open>workers/sms_worker.py\<close>: the check for messages that wait too long): sending.
  \<^item> \<open>BulkSend\<close> (\<open>workers/batch_worker.py\<close>, \<open>utils/queue.py\<close>: the task that checks, charges, writes and
    queues a chunk of a batch), \<open>BulkMoney\<close> (what its stages do to the books, as steps \<open>paid\<close>), \<open>BulkProps\<close>
    (what it takes from an account), \<open>BulkCases\<close> (the task over all its runs, and the runs where it takes
    too much): batches.
  \<^item> \<open>Auth\<close> (\<open>core/auth.py\<close>, \<open>core/auth_scope.py\<close>, \<open>core/security_policy.py\<close>, the authentication in
    \<open>api/v1/sms.py\<close> and the login of \<open>api/v1/admin.py\<close>), \<open>Access\<close> (\<open>utils/client_ip.py\<close>,
    \<open>middleware/ip_whitelist.py\<close>, \<open>middleware/rate_limit.py\<close>, \<open>utils/cache.py\<close>, their order in
    \<open>main.py\<close>): who may ask, and how often.
  \<^item> \<open>Quiet\<close>, \<open>MoneyAudit\<close>: what every operation does to money and refund marks; this theory composes all
    operations into one transition system and states the properties that span them.

  \<^bold>\<open>Lemmas.\<close> Each component proves the functional behaviour of its operations on every branch and
  what they leave alone. The locales are \<open>read_through\<close> (a cache that agrees with the tables is
  invisible; interpreted for prices, costs, the RCS flag and banned words), \<open>money_op\<close> (an operation
  that books what it moves) and \<open>step_inv\<close> (a property of the world that each kind of step keeps),
  with its extension \<open>bulk_inv\<close> by the charge of a chunk, whose lemma \<open>run\<close> carries the property to every
  history. Both are interpreted for the ledger, for prepaid cover, for refund marks and for the keys of the tables. Sending is a second transition
  system, \<open>send_step\<close>, over the messages in the hands of a worker; its invariant \<open>once_ok\<close> gives that a
  message is
  accepted upstream at most once. Short links have a third, \<open>link_step\<close>, and the buffer of submission
  results a fourth, \<open>result_step\<close>, with kills, restarts and shutdowns of the worker; its relation
  \<open>evolves\<close> gives that no result is lost. The logins of administrators (\<open>auth_step\<close>) and the requests at the
  gate (\<open>gate_step\<close>) are two more; over their histories the bounds on wrong passwords and on admitted requests
  are stated. A chunk of a batch is a sequence of steps \<open>paid_step\<close>; \<open>bulk_inv\<close> carries the ledger, the prepaid cover, the refund marks and the keys
  over it. The refund after a crash is treated apart, since it breaks the audit of refunds.

  \<^bold>\<open>Bounds of the code that the model keeps.\<close> 4300 digits for \<open>int()\<close>; 20 retries and 3600 seconds
  for a buffered report; 3 retries of a sending task, 200 for a full rate window; 5 attempts to
  mint a token; 60 seconds for the licence and the list of webhooks; 50 reports per flush; 3 attempts to match a report and to queue a message;
  200 results per flush, 10000 and 2000 entries of their stream, 3 attempts at shutdown;
  500 expired messages per chunk; 5 failed logins and a lock of 30 minutes unless the policy says otherwise,
  5 wrong codes, 5000 rows per slice of a chunk, groups of 50 messages that are charged one by one, 6 retries and
  5 rescues of a chunk, 300 seconds for a code and for a cached limit, 1000 requests per minute unless set;
  1000 characters of content, 160 for RCS; random codes of 1 to 20 digits. Loops recurse over the
  list they walk, so no fuel is needed; recursion that is not structural has a termination proof.

  \<^bold>\<open>Parameters.\<close> The phone number library, \<open>json.loads\<close>, \<open>parse_qs\<close>, \<open>str()\<close> of a decoded value, md5,
  uuid, random draws, the iteration order of Python sets, the broker and the availability of Redis
  in the handling of reports, DNS and the classes of IP addresses, the decoding of a licence, its
  date and the fingerprint of the machine, the faults of the database and the answers of the nodes that a chunk
  meets, the token library, the check of a password against
  its hash, the module \<open>ipaddress\<close>, and the answers of the upstreams are arguments of the
  definitions that use them. Nothing is assumed of
  them but where a theorem says so.

  \<^bold>\<open>Not modelled.\<close> Amounts are exact rationals: the rounding of DECIMAL columns and of floats is left
  out. Text comparison is exact where MySQL's collation may ignore case. Texts of messages and log
  lines are left out, exceptions carry what the handlers look at. A database error other than a
  duplicate message id, foreign keys and connection losses do not occur; a request is one
  transaction, and requests interleave as wholes. Rows that tie under an ORDER BY come in table
  order. \<open>upper\<close> and \<open>lower\<close> are those of ASCII and Latin-1. An entry of a cache may be dropped at any
  time, which covers its time to live. A task reads and marks its message
  in one step, so two workers that read the same row at the same moment are not covered. A countdown
  is not rounded to hundredths. The submissions of the billing system start from an account that is
  authenticated already. The login of customers, \<open>verify_signature\<close> (which nothing calls), the log of
  operations, the import of a batch from its file and its split into chunks, the resending of a batch, the
  web pages, reports, the data shop, the Telegram bot and the other workers are outside
  the library; the manifest lists them with the reason.
\<close>

section \<open>The billing system as a transition system\<close>

text \<open>
  One event per operation that the API, the workers and the administrators run against the database,
  each with the whole handler of its component, the submissions with the state of the gateway they
  find (the parsed numbers of the phone library are texts here), and the chunks of batches; besides, a message is
  inserted, the clock moves, and the cache drops entries. A chunk that crashes after its charge and is refunded as
  a whole is no event here, because its refund has no marks; the books of such a chunk are in \<open>BulkCases\<close>. Charges here are the ones that log themselves (\<open>skip_balance_log=False\<close>).
\<close>

datatype event =
    EvCharge "pystr list \<Rightarrow> pystr list" int int pystr pystr "pystr option" "channel option"
  | EvRefund refund_op
  | EvSwitch "pystr list \<Rightarrow> pystr list" int int
  | EvPause int
  | EvResume "pystr list \<Rightarrow> pystr list" "pystr \<Rightarrow> bool" int "int option"
  | EvClear nat int
  | EvRefresh nat int
  | EvPublish int int int int
  | EvRoute rat pystr "int option" strategy "int option"
  | EvReports "json \<Rightarrow> pystr" "int list \<Rightarrow> int list" "int \<Rightarrow> nat" "dlr_report list" "int option"
  | EvSmppReport smpp_cfg bool retry_item dlr_sys
  | EvFlush smpp_cfg nat dlr_sys
  | EvSubmit "pystr submit_env" account submit_request gateway
  | EvSmppSubmit "pystr submit_env" int pystr pystr pystr gateway
  | EvRuanwei "pystr \<Rightarrow> pystr" "nat \<Rightarrow> pystr submit_env" "pystr option" "pystr option" "pystr option"
      "pystr option" "pystr option" "pystr option" gateway
  | EvSend send_env bool nat task_argument credentials send_sys
  | EvResult result_env sms_result result_sys
  | EvResultTimer result_env result_sys
  | EvExpire int nat
  | EvChunk "pystr chunk_env" chunk_job bulk_sys
  | EvInsert sms_log
  | EvTick int
  | EvForget "price_key \<rightharpoonup> price_info" "int \<times> pystr \<rightharpoonup> money" "int \<rightharpoonup> bool" "pystr \<rightharpoonup> route_entry"

inductive billing_step :: "world \<Rightarrow> event \<Rightarrow> world \<Rightarrow> bool" where
  charge: "calculate_and_charge enum w i chan cc msg mnc ch False = (ans, w') \<Longrightarrow>
             billing_step w (EvCharge enum i chan cc msg mnc ch) w'"
| refund: "refund_run op w = (ans, w') \<Longrightarrow> billing_step w (EvRefund op) w'"
| switch: "switch_channel_for_unsent enum w b c = (ans, w') \<Longrightarrow> billing_step w (EvSwitch enum b c) w'"
| pause: "pause_batch w b = (ans, w') \<Longrightarrow> billing_step w (EvPause b) w'"
| resume: "resume_batch enum queue w b c = (ans, w') \<Longrightarrow> billing_step w (EvResume enum queue b c) w'"
| clear: "clear_batch_queue rnd w b = (ans, w') \<Longrightarrow> billing_step w (EvClear rnd b) w'"
| refresh: "update_batch_progress rnd w b = (ans, w') \<Longrightarrow> billing_step w (EvRefresh rnd b) w'"
| publish: "billing_step w (EvPublish b tot ins q) (publish_batch_pipeline_progress w b tot ins q)"
| route: "select_channel rnd w cc pref st acc = (ans, w') \<Longrightarrow> billing_step w (EvRoute rnd cc pref st acc) w'"
| reports: "billing_step w (EvReports show order rnd reps chan)
             (dlr_world (process_dlr_reports show order rnd reps chan w))"
| smpp: "ds_world s = w \<Longrightarrow> process_smpp_dlr cfg from_flush it s = (ans, s') \<Longrightarrow>
             billing_step w (EvSmppReport cfg from_flush it s) (ds_world s')"
| flush: "ds_world s = w \<Longrightarrow> billing_step w (EvFlush cfg n s) (ds_world (flush_dlr_retry_buffer cfg n s))"
| submit: "gw_world g = w \<Longrightarrow> gateway_ok g \<Longrightarrow> submit_sms_core env acc rq g = (ans, g') \<Longrightarrow>
             billing_step w (EvSubmit env acc rq g) (gw_world g')"
| smpp_in: "gw_world g = w \<Longrightarrow> gateway_ok g \<Longrightarrow> smpp_submit env i mid dest msg g = (ans, g') \<Longrightarrow>
             billing_step w (EvSmppSubmit env i mid dest msg g) (gw_world g')"
| ruanwei: "gw_world g = w \<Longrightarrow> gateway_ok g \<Longrightarrow>
             send_sms_ruanwei_compat md5_hex envs action name mobile content extno pwd g = (ans, g') \<Longrightarrow>
             billing_step w (EvRuanwei md5_hex envs action name mobile content extno pwd g) (gw_world g')"
| send: "sd_world s = w \<Longrightarrow> send_sms_task env q n arg creds s = (out, s') \<Longrightarrow>
             billing_step w (EvSend env q n arg creds s) (sd_world s')"
| result_in: "rb_world s = w \<Longrightarrow>
             billing_step w (EvResult env it s) (rb_world (process_sms_result env it s))"
| result_timer: "rb_world s = w \<Longrightarrow> billing_step w (EvResultTimer env s) (rb_world (timer_flush env s))"
| expire: "dlr_timeout_check setting chunk w = (n, w') \<Longrightarrow> billing_step w (EvExpire setting chunk) w'"
| chunk: "bs_world s = w \<Longrightarrow> gateway_ok (bs_gw s) \<Longrightarrow> \<not> gives_back (run_chunk env job s) \<Longrightarrow>
             do_process_chunk env job s = (ans, s') \<Longrightarrow> billing_step w (EvChunk env job s) (bs_world s')"
| insert: "fresh_log w r \<Longrightarrow> billing_step w (EvInsert r) (w\<lparr>sms_logs := sms_logs w @ [r]\<rparr>)"
| tick: "now w \<le> t \<Longrightarrow> billing_step w (EvTick t) (w\<lparr>now := t\<rparr>)"
| forget: "pc \<subseteq>\<^sub>m price_cache w \<Longrightarrow> kc \<subseteq>\<^sub>m cost_cache w \<Longrightarrow> rc \<subseteq>\<^sub>m rcs_cache w \<Longrightarrow>
     tc \<subseteq>\<^sub>m route_cache w \<Longrightarrow>
     billing_step w (EvForget pc kc rc tc)
       (w\<lparr>price_cache := pc, cost_cache := kc, rcs_cache := rc, route_cache := tc\<rparr>)"

inductive_cases charge_stepE: "billing_step w (EvCharge enum i chan cc msg mnc ch) w'"
inductive_cases refund_stepE: "billing_step w (EvRefund op) w'"
inductive_simps publish_step_iff: "billing_step w (EvPublish b tot ins q) w'"
inductive_simps tick_step_iff: "billing_step w (EvTick t) w'"

inductive run :: "world \<Rightarrow> event list \<Rightarrow> world \<Rightarrow> bool" where
  run_nil: "run w [] w"
| run_snoc: "run w es w1 \<Longrightarrow> billing_step w1 e w2 \<Longrightarrow> run w (es @ [e]) w2"

text \<open>The events that move no money and set no refund mark.\<close>

fun quiet_event :: "event \<Rightarrow> bool" where
  "quiet_event (EvCharge _ _ _ _ _ _ _) = False"
| "quiet_event (EvRefund _) = False"
| "quiet_event (EvSwitch _ _ _) = False"
| "quiet_event (EvResume _ _ _ _) = False"
| "quiet_event (EvInsert _) = False"
| "quiet_event (EvSubmit _ _ _ _) = False"
| "quiet_event (EvSmppSubmit _ _ _ _ _ _) = False"
| "quiet_event (EvRuanwei _ _ _ _ _ _ _ _ _) = False"
| "quiet_event (EvChunk _ _ _) = False"
| "quiet_event _ = True"

lemma quiet_step:
  assumes "billing_step w e w'" and "quiet_event e" and "wf_world w"
  shows "quiet w w'"
  using assms
proof (induction rule: billing_step.induct)
  case (pause w b ans w')
  then show ?case using pause_quiet [of w b] by simp
next
  case (clear rnd w b ans w')
  then show ?case using clear_quiet [of w rnd b] by simp
next
  case (refresh rnd w b ans w')
  then show ?case using refresh_quiet [of w rnd b] by simp
next
  case (publish w b tot ins q)
  show ?case by (rule publish_quiet)
next
  case (route rnd w cc pref st acc ans w')
  then show ?case using select_channel_quiet [of w rnd cc pref st acc] by simp
next
  case (reports w show' order rnd reps chan)
  show ?case by (rule reports_quiet)
next
  case (smpp s w cfg ff it ans s')
  then show ?case using smpp_quiet [of s cfg ff it] by simp
next
  case (flush s w cfg n)
  then show ?case using flush_quiet [of s cfg n] by simp
next
  case (send s w env q n arg creds out s')
  then show ?case using send_sms_task_settles by (auto simp: settles_def)
next
  case (result_in s w env it)
  then show ?case using busy_step_quiet [OF busy_step.takes] by blast
next
  case (result_timer s w env)
  then show ?case using busy_step_quiet [OF busy_step.ticks] by blast
next
  case (expire setting chunk w n w')
  then show ?case using timeout_check_quiet [of w setting chunk] by simp
qed (simp_all add: quiet_def log_view_def)

context step_inv
begin

lemma smpp_in:
  assumes "P (gw_world g)" and "gateway_ok g" and "smpp_submit env i m dest msg g = (ans, g')"
  shows "P (gw_world g')"
proof -
  have "P (gw_world (snd (submit_sms_core env a rq g)))" for a rq
    by (rule submit [OF assms(1,2)]) (rule surjective_pairing)
  then show ?thesis using assms(1,3)
    by (auto simp: smpp_submit_def map_prod_def split: option.splits if_splits prod.splits) (metis snd_conv)
qed

end

context bulk_inv
begin

lemma chunk:
  assumes "P (bs_world s)" and "gateway_ok (bs_gw s)" and "\<not> gives_back (run_chunk env job s)"
    and "do_process_chunk env job s = (ans, s')"
  shows "P (bs_world s')"
  using paid [OF chunk_paid [OF assms(3)]] assms by (simp add: gateway_ok_ids)

lemma billing_step: "billing_step w e w' \<Longrightarrow> P w \<Longrightarrow> P w'"
proof (cases "quiet_event e")
  case True
  assume "billing_step w e w'" "P w"
  then show ?thesis using quiet quiet_step [OF _ True] wf by blast
next
  case False
  assume "billing_step w e w'" "P w"
  from this False show ?thesis
    by (induction rule: billing_step.induct)
      (simp_all, (blast intro: charge refund switch resume insert submit smpp_in ruanwei [THEN conjunct1] chunk)+)
qed

lemma run: "run w es w' \<Longrightarrow> P w \<Longrightarrow> P w'"
  by (induction rule: run.induct) (auto intro: billing_step)

end


text \<open>C2: A refund is final: once a message carries a refund mark, no later operation of the system removes
  or changes it, so by the audit above no further refund of it is ever booked.\<close>

theorem refund_mark_is_final:
  assumes "run w es w'" and "wf_world w" and "log_by_id w i = Some r" and "refunded_at r = Some t"
  shows "\<exists>r'. log_by_id w' i = Some r' \<and> refunded_at r' = Some t \<and> refunded_amount r' = refunded_amount r"
  using mark_bulk.run [OF assms(1), of i t "refunded_amount r"] assms(2-) by (simp add: marked_def)

text \<open>C3: In every such run no prepaid account is ever below zero, whatever the prices, the order of the
  operations and the surcharges of channel switches.\<close>

theorem billing_prepaid_covered:
  assumes "run w es w'" and "wf_world w" and "prepaid_covered w"
  shows "prepaid_covered w'"
  using cover_bulk.run [OF assms(1)] assms(2-) by simp

section \<open>A run\<close>

lemma demo_refunds_inv:
  "ledger_ok (\<lambda>_. 0) demo_refunds" "refunds_audited demo_refunds" "prepaid_covered demo_refunds"
  by (simp_all add: demo_refund_defs ledger_ok_def logged_total_def account_logs_def refunds_audited_def
      unmarked_ok_def refund_entries_def refund_marks_def mark_of_def prepaid_covered_def)

lemma demo_run: "\<exists>w'. run demo_refunds [EvRefund (Forced 10 []), EvRefund (Reviewed 10 [])] w'"
proof -
  obtain a w1 where "refund_run (Forced 10 []) demo_refunds = (a, w1)" by fastforce
  moreover obtain a' w2 where "refund_run (Reviewed 10 []) w1 = (a', w2)" by fastforce
  ultimately have "run demo_refunds ([] @ [EvRefund (Forced 10 [])] @ [EvRefund (Reviewed 10 [])]) w2"
    by (metis append_assoc billing_step.refund run_nil run_snoc)
  then show ?thesis by auto
qed


theorem billing_prepaid_covered_witness:
  "\<exists>w'. run demo_refunds [EvRefund (Forced 10 []), EvRefund (Reviewed 10 [])] w' \<and> prepaid_covered w'"
  using demo_run billing_prepaid_covered [OF _ demo_refunds_wf demo_refunds_inv(3)] by blast

definition demo_refunded :: world where
  "demo_refunded = demo_refunds\<lparr>sms_logs :=
     [(new_sms_log 10 (asc ''m1'') 1 (asc ''+66''))\<lparr>log_status := Failed, refunded_at := Some 5\<rparr>]\<rparr>"

theorem refund_mark_is_final_witness:
  "\<exists>w' r'. run demo_refunded [EvTick 9] w' \<and> log_by_id w' 10 = Some r' \<and> refunded_at r' = Some 5"
proof -
  have "wf_world demo_refunded" "ledger_ok (\<lambda>_. 0) demo_refunded" "refunds_audited demo_refunded"
    "\<exists>r. log_by_id demo_refunded 10 = Some r \<and> refunded_at r = Some 5"
    by (simp_all add: demo_refunded_def demo_refund_defs wf_world_def ledger_ok_def logged_total_def
        account_logs_def refunds_audited_def unmarked_ok_def refund_entries_def refund_marks_def
        mark_of_def log_by_id_def)
  moreover have "now demo_refunded \<le> 9" by (simp add: demo_refunded_def demo_refund_defs)
  then have "run demo_refunded ([] @ [EvTick 9]) (demo_refunded\<lparr>now := 9\<rparr>)"
    by (blast intro: run_snoc run_nil billing_step.tick)
  ultimately show ?thesis using refund_mark_is_final by (metis append_Nil)
qed

end
